(* ===== verification/Prelude.thy ===== *)
theory Prelude
  imports Main "HOL-Library.Word"
begin

text \<open>
  Shared vocabulary of the development: the machine-integer types of the sources, the ways a
  C++ operation can fail, sequencing of fallible operations, and the generic facts on
  sub-ranges of lists and on words that the component theories use.

  An operation that can fail returns \<open>fault + 'a\<close>: \<open>Inr\<close> is a normal return, \<open>Inl\<close> says
  which exception is thrown or which undefined operation is executed.
\<close>

unbundle bit_operations_syntax

subsection \<open>Machine integers\<close>

type_synonym u8 = "8 word"
type_synonym u16 = "16 word"
type_synonym u32 = "32 word"
type_synonym u64 = "64 word"
type_synonym byte = u8

text \<open>Subtraction of two \<open>size_t\<close> values kept as naturals: it wraps below zero.\<close>

definition sub64 :: "nat \<Rightarrow> nat \<Rightarrow> nat" where
  "sub64 a b = (if b \<le> a then a - b else 2 ^ 64 + a - b)"

text \<open>Division and remainder of C truncate towards zero; \<open>int32\<close> is the conversion to \<open>int\<close>.\<close>

definition cdiv :: "int \<Rightarrow> int \<Rightarrow> int" where
  "cdiv a b = sgn a * sgn b * (abs a div abs b)"

definition cmod :: "int \<Rightarrow> int \<Rightarrow> int" where
  "cmod a b = a - b * cdiv a b"

definition int32 :: "int \<Rightarrow> int" where
  "int32 x = (x + 2 ^ 31) mod 2 ^ 32 - 2 ^ 31"

definition int64 :: "int \<Rightarrow> int" where
  "int64 x = (x + 2 ^ 63) mod 2 ^ 64 - 2 ^ 63"

lemma cdiv_nonneg: "0 \<le> a \<Longrightarrow> 0 < b \<Longrightarrow> cdiv a b = a div b"
  by (cases "a = 0") (auto simp: cdiv_def)

lemma cmod_nonneg: "0 \<le> a \<Longrightarrow> 0 < b \<Longrightarrow> cmod a b = a mod b"
  by (simp add: cmod_def cdiv_nonneg minus_mult_div_eq_mod)

lemma int32_id: "- (2 ^ 31) \<le> x \<Longrightarrow> x < 2 ^ 31 \<Longrightarrow> int32 x = x"
  by (simp add: int32_def)

lemma int64_id: "- (2 ^ 63) \<le> x \<Longrightarrow> x < 2 ^ 63 \<Longrightarrow> int64 x = x"
  by (simp add: int64_def)

lemma int32_int32:
  "int32 (int32 a + b) = int32 (a + b)" "int32 (b + int32 a) = int32 (b + a)" "int32 (int32 a - b) = int32 (a - b)"
proof -
  have "((a + 2 ^ 31) mod 2 ^ 32 + b) mod 2 ^ 32 = (a + 2 ^ 31 + b) mod (2 ^ 32 :: int)"
    "((a + 2 ^ 31) mod 2 ^ 32 - b) mod 2 ^ 32 = (a + 2 ^ 31 - b) mod (2 ^ 32 :: int)"
    by (simp_all add: mod_simps)
  then show "int32 (int32 a + b) = int32 (a + b)" "int32 (b + int32 a) = int32 (b + a)" "int32 (int32 a - b) = int32 (a - b)"
    by (simp_all add: int32_def algebra_simps)
qed

subsection \<open>Failures and sequencing\<close>

datatype fault =
    Out_of_range string
  | Logic_error string
  | Invalid_argument string
  | Assert_failed string
  | Null_deref
  | Bad_access
  | Div_by_zero
  | Undefined string

type_synonym 'a result = "fault + 'a"

definition rbind :: "'a result \<Rightarrow> ('a \<Rightarrow> 'b result) \<Rightarrow> 'b result" where
  "rbind r f = (case r of Inl e \<Rightarrow> Inl e | Inr a \<Rightarrow> f a)"

definition is_ok :: "'a result \<Rightarrow> bool" where
  "is_ok r = (case r of Inl _ \<Rightarrow> False | Inr _ \<Rightarrow> True)"

text \<open>\<open>FISHJOY_ASSERT\<close>: the check of \<open>assert\<close>, which aborts when it fails.\<close>

definition assert_that :: "bool \<Rightarrow> string \<Rightarrow> 'a result \<Rightarrow> 'a result" where
  "assert_that b msg r = (if b then r else Inl (Assert_failed msg))"

named_theorems result_simps \<open>sequencing of fallible operations\<close>
named_theorems range_simps \<open>sub-ranges of lists\<close>

lemma rbind_simps [simp, result_simps]:
  "rbind (Inr a) f = f a"
  "rbind (Inl e) f = Inl e"
  by (simp_all add: rbind_def)

lemma rbind_eq_Inr_iff [result_simps]:
  "rbind r f = Inr b \<longleftrightarrow> (\<exists>a. r = Inr a \<and> f a = Inr b)"
  by (cases r) simp_all

lemma rbind_cong [fundef_cong]:
  "r = r' \<Longrightarrow> (\<And>a. r' = Inr a \<Longrightarrow> f a = g a) \<Longrightarrow> rbind r f = rbind r' g"
  by (cases r') simp_all

lemma is_ok_simps [simp, result_simps]:
  "is_ok (Inr a)" "\<not> is_ok (Inl e)"
  by (simp_all add: is_ok_def)

lemma is_ok_iff: "is_ok r \<longleftrightarrow> (\<exists>a. r = Inr a)"
  by (cases r) simp_all

lemma assert_that_simps [simp, result_simps]:
  "assert_that True msg r = r"
  "assert_that False msg r = Inl (Assert_failed msg)"
  by (simp_all add: assert_that_def)

lemma sub64_le [simp]: "b \<le> a \<Longrightarrow> sub64 a b = a - b"
  by (simp add: sub64_def)

subsection \<open>Sub-ranges of lists\<close>

text \<open>\<open>overwrite off xs ys\<close> stores \<open>xs\<close> at offset \<open>off\<close> of \<open>ys\<close>, growing \<open>ys\<close> at its end.\<close>

definition overwrite :: "nat \<Rightarrow> 'a list \<Rightarrow> 'a list \<Rightarrow> 'a list" where
  "overwrite off xs ys = take off ys @ xs @ drop (off + length xs) ys"

text \<open>\<open>slice_of off n ys\<close> is the range of \<open>n\<close> elements of \<open>ys\<close> from offset \<open>off\<close>.\<close>

definition slice_of :: "nat \<Rightarrow> nat \<Rightarrow> 'a list \<Rightarrow> 'a list" where
  "slice_of off n ys = take n (drop off ys)"

lemma length_slice_of [simp]: "length (slice_of off n ys) = min n (length ys - off)"
  by (simp add: slice_of_def)

lemma slice_of_0 [simp]: "slice_of off 0 ys = []"
  by (simp add: slice_of_def)

lemma overwrite_Nil [simp]: "overwrite off [] ys = ys"
  by (simp add: overwrite_def)

lemma length_overwrite_inside [simp]:
  "off + length xs \<le> length ys \<Longrightarrow> length (overwrite off xs ys) = length ys"
  by (simp add: overwrite_def)

lemma length_overwrite:
  "off \<le> length ys \<Longrightarrow> length (overwrite off xs ys) = max (length ys) (off + length xs)"
  by (simp add: overwrite_def max_def)

lemma slice_of_overwrite_same:
  "off \<le> length ys \<Longrightarrow> slice_of off (length xs) (overwrite off xs ys) = xs"
  by (simp add: slice_of_def overwrite_def)

lemma overwrite_append:
  assumes "off \<le> length ys"
  shows "overwrite off (as @ bs) ys = overwrite (off + length as) bs (overwrite off as ys)"
  using assms by (simp add: overwrite_def algebra_simps)

lemma slice_of_split:
  "slice_of off (m + n) ys = slice_of off m ys @ slice_of (off + m) n ys"
  by (simp add: slice_of_def take_add add.commute)

lemma slice_of_take: "off + n \<le> k \<Longrightarrow> slice_of off n (take k ys) = slice_of off n ys"
  by (simp add: slice_of_def drop_take min_def)

lemma take_overwrite_le: "k \<le> off \<Longrightarrow> off \<le> length ys \<Longrightarrow> take k (overwrite off xs ys) = take k ys"
  by (simp add: overwrite_def min_def)

lemma slice_of_append:
  assumes "off + n \<le> length xs"
  shows "slice_of off n (xs @ ys) = slice_of off n xs"
  using assms by (simp add: slice_of_def)

text \<open>A chain of equally long blocks, seen as one flat list.\<close>

lemma length_concat_blocks:
  "\<forall>b \<in> set bs. length b = k \<Longrightarrow> length (concat bs) = k * length bs"
  by (induction bs) auto

lemma concat_block_split:
  assumes "\<forall>b \<in> set bs. length b = k" "i < length bs"
  shows "concat bs = concat (take i bs) @ bs ! i @ concat (drop (Suc i) bs)"
    and "length (concat (take i bs)) = k * i"
proof -
  have "bs = take i bs @ bs ! i # drop (Suc i) bs"
    using assms(2) by (rule id_take_nth_drop)
  then have "concat bs = concat (take i bs @ bs ! i # drop (Suc i) bs)" by simp
  then show "concat bs = concat (take i bs) @ bs ! i @ concat (drop (Suc i) bs)" by simp
  have "\<forall>b \<in> set (take i bs). length b = k" using assms(1) by (meson in_set_takeD)
  then show "length (concat (take i bs)) = k * i"
    using length_concat_blocks [of "take i bs" k] assms(2) by simp
qed

lemma concat_block_update:
  assumes "\<forall>b \<in> set bs. length b = k" "i < length bs" "off + length xs \<le> k"
  shows "concat (bs[i := overwrite off xs (bs ! i)]) = overwrite (k * i + off) xs (concat bs)"
proof -
  have len: "length (concat (take i bs)) = k * i" "length (bs ! i) = k"
    using concat_block_split(2) [OF assms(1,2)] assms(1,2) by simp_all
  have "concat (bs[i := overwrite off xs (bs ! i)])
      = concat (take i bs) @ overwrite off xs (bs ! i) @ concat (drop (Suc i) bs)"
    using assms(2) by (simp add: upd_conv_take_nth_drop)
  also have "\<dots> = overwrite (k * i + off) xs
      (concat (take i bs) @ bs ! i @ concat (drop (Suc i) bs))"
    using len assms(3) by (simp add: overwrite_def)
  also have "\<dots> = overwrite (k * i + off) xs (concat bs)"
    using concat_block_split(1) [OF assms(1,2)] by simp
  finally show ?thesis .
qed

lemma slice_of_block:
  assumes "\<forall>b \<in> set bs. length b = k" "i < length bs" "off + n \<le> k"
  shows "slice_of off n (bs ! i) = slice_of (k * i + off) n (concat bs)"
proof -
  have len: "length (concat (take i bs)) = k * i" "length (bs ! i) = k"
    using concat_block_split(2) [OF assms(1,2)] assms(1,2) by simp_all
  have "slice_of (k * i + off) n (concat bs)
      = slice_of (k * i + off) n (concat (take i bs) @ bs ! i @ concat (drop (Suc i) bs))"
    using concat_block_split(1) [OF assms(1,2)] by simp
  also have "\<dots> = slice_of off n (bs ! i)"
    using len assms(3) by (simp add: slice_of_def)
  finally show ?thesis ..
qed

lemma update_keeps_block_size:
  assumes "\<forall>b \<in> set bs. length b = k" "i < length bs" "off + length xs \<le> k"
  shows "\<forall>b \<in> set (bs[i := overwrite off xs (bs ! i)]). length b = k"
proof
  fix b assume "b \<in> set (bs[i := overwrite off xs (bs ! i)])"
  then consider "b = overwrite off xs (bs ! i)" | "b \<in> set bs"
    using set_update_subset_insert by fastforce
  then show "length b = k" using assms by cases simp_all
qed

lemmas block_simps = length_concat_blocks concat_block_update slice_of_block update_keeps_block_size

subsection \<open>Words\<close>

lemma unat_drop_bit_div: "unat (drop_bit n w) = unat w div 2 ^ n"
  by (simp only: unat_drop_bit_eq) (simp add: drop_bit_eq_div)

lemma bit_unat_less: "unat (w :: 'a::len word) < 2 ^ n \<Longrightarrow> bit w i \<Longrightarrow> i < n"
proof (rule ccontr)
  assume "unat w < 2 ^ n" "bit w i" "\<not> i < n"
  then have "unat w div 2 ^ i = 0"
    by (meson div_less le_less_trans not_less order_less_le_trans one_le_numeral power_increasing)
  then have "\<not> bit (unat w) i" by (simp add: bit_iff_odd)
  with \<open>bit w i\<close> show False by (simp add: bit_unsigned_iff)
qed

lemma find_append: "find P (xs @ ys) = (case find P xs of None \<Rightarrow> find P ys | Some x \<Rightarrow> Some x)"
  by (induction xs) auto

end
