(* ===== verification/ByteStreamSpec.thy ===== *)
theory ByteStreamSpec
  imports Prelude
begin

text \<open>
  The contract a positioned byte buffer offers to the code that encodes values into it: a flat
  list of bytes with a cursor. Writing stores bytes at the cursor and moves it, reading returns
  the bytes at the cursor and moves it, seeking moves it within the data. The \<open>mode\<close> is any
  part of the state the three operations leave alone (the byte order, for \<open>ByteArray\<close>).
\<close>

definition next_bytes :: "byte list \<Rightarrow> nat \<Rightarrow> byte list \<Rightarrow> bool" where
  "next_bytes d p bs \<longleftrightarrow> slice_of p (length bs) d = bs"

lemma next_bytes_append:
  "next_bytes d p (xs @ ys) \<longleftrightarrow> next_bytes d p xs \<and> next_bytes d (p + length xs) ys"
proof -
  have "slice_of p (length (xs @ ys)) d
      = slice_of p (length xs) d @ slice_of (p + length xs) (length ys) d"
    by (simp add: slice_of_split)
  moreover have "length (slice_of p (length xs) d) = length xs \<or> slice_of p (length (xs @ ys)) d \<noteq> xs @ ys"
    by (metis (no_types) length_append length_slice_of min_def nat_le_linear le_add1 order_trans)
  ultimately show ?thesis by (auto simp: next_bytes_def)
qed

lemma next_bytes_bound: "bs \<noteq> [] \<Longrightarrow> next_bytes d p bs \<Longrightarrow> p + length bs \<le> length d"
  by (drule arg_cong [where f = length, OF iffD1 [OF next_bytes_def]]) (cases bs, auto simp: min_def split: if_splits)

lemma next_bytes_overwrite: "p \<le> length d \<Longrightarrow> next_bytes (overwrite p bs d) p bs"
  by (simp add: next_bytes_def slice_of_overwrite_same)

locale byte_stream =
  fixes wr :: "byte list \<Rightarrow> 's \<Rightarrow> 's result"
    and rd :: "nat \<Rightarrow> 's \<Rightarrow> (byte list \<times> 's) result"
    and seek :: "nat \<Rightarrow> 's \<Rightarrow> 's result"
    and inv :: "'s \<Rightarrow> bool"
    and data :: "'s \<Rightarrow> byte list"
    and pos :: "'s \<Rightarrow> nat"
    and mode :: "'s \<Rightarrow> 'm"
  assumes wr_ok: "inv s \<Longrightarrow> \<exists>s'. wr bs s = Inr s' \<and> inv s' \<and> pos s' = pos s + length bs
      \<and> data s' = overwrite (pos s) bs (data s) \<and> mode s' = mode s"
    and rd_ok: "inv s \<Longrightarrow> 0 < n \<Longrightarrow> pos s + n \<le> length (data s) \<Longrightarrow>
      \<exists>s'. rd n s = Inr (slice_of (pos s) n (data s), s') \<and> inv s' \<and> pos s' = pos s + n
        \<and> data s' = data s \<and> mode s' = mode s"
    and seek_ok: "inv s \<Longrightarrow> p \<le> length (data s) \<Longrightarrow>
      \<exists>s'. seek p s = Inr s' \<and> inv s' \<and> pos s' = p \<and> data s' = data s \<and> mode s' = mode s"
    and pos_le: "inv s \<Longrightarrow> pos s \<le> length (data s)"
begin

lemma rd_next:
  assumes "inv s" "bs \<noteq> []" "next_bytes (data s) (pos s) (bs @ rest)"
  shows "\<exists>s'. rd (length bs) s = Inr (bs, s') \<and> inv s' \<and> pos s' = pos s + length bs
      \<and> data s' = data s \<and> mode s' = mode s \<and> next_bytes (data s') (pos s') rest"
proof -
  have n: "next_bytes (data s) (pos s) bs" "next_bytes (data s) (pos s + length bs) rest"
    using assms(3) by (simp_all add: next_bytes_append)
  then show ?thesis
    using rd_ok [OF assms(1), of "length bs"] next_bytes_bound [OF assms(2) n(1)] assms(2)
    by (auto simp: next_bytes_def)
qed

text \<open>After a write, seeking back finds exactly the written bytes ahead.\<close>

lemma wr_seek_back:
  assumes "inv s" "wr bs s = Inr s1"
  shows "\<exists>s2. seek (pos s) s1 = Inr s2 \<and> inv s2 \<and> pos s2 = pos s \<and> data s2 = data s1
      \<and> mode s2 = mode s \<and> next_bytes (data s2) (pos s2) bs"
proof -
  have s1: "inv s1" "data s1 = overwrite (pos s) bs (data s)" "mode s1 = mode s"
    using wr_ok [OF assms(1), of bs] assms(2) by auto
  have "pos s \<le> length (data s1)"
    using pos_le [OF assms(1)] s1(2) by (simp add: length_overwrite)
  then show ?thesis
    using seek_ok [OF s1(1)] s1 next_bytes_overwrite [OF pos_le [OF assms(1)]] by fastforce
qed

text \<open>Two writes in a row are one write of the concatenation.\<close>

lemma wr_append:
  assumes "inv s" "wr xs s = Inr s1" "wr ys s1 = Inr s2" "wr (xs @ ys) s = Inr s3"
  shows "data s2 = data s3" "pos s2 = pos s3"
proof -
  have s1: "inv s1" "pos s1 = pos s + length xs" "data s1 = overwrite (pos s) xs (data s)"
    using wr_ok [OF assms(1), of xs] assms(2) by auto
  show "data s2 = data s3" "pos s2 = pos s3"
    using wr_ok [OF s1(1), of ys] wr_ok [OF assms(1), of "xs @ ys"] assms(3,4) s1
      overwrite_append [OF pos_le [OF assms(1)], of xs ys] by auto
qed

text \<open>Reading back what was written returns it and stops where the write stopped.\<close>

lemma wr_rd_roundtrip:
  assumes "inv s" "bs \<noteq> []" "wr bs s = Inr s1" "seek (pos s) s1 = Inr s2"
  shows "\<exists>s3. rd (length bs) s2 = Inr (bs, s3) \<and> inv s3 \<and> pos s3 = pos s1 \<and> data s3 = data s1"
proof -
  have "inv s2 \<and> pos s2 = pos s \<and> data s2 = data s1 \<and> next_bytes (data s2) (pos s2) bs"
    using wr_seek_back [OF assms(1,3)] assms(4) by auto
  moreover have "pos s1 = pos s + length bs" using wr_ok [OF assms(1), of bs] assms(3) by auto
  ultimately show ?thesis using rd_next [of s2 bs "[]"] assms(2) by auto
qed

end

end
