(* ===== verification/Endian.thy ===== *)
theory Endian
  imports Prelude
begin

text \<open>
  Byte order: \<open>include/fishjoy/net/endian.hpp\<close>. The object representation of an integer is the
  list of its bytes from the lowest address; the host's byte order is a parameter, so that the
  facts hold on both kinds of machine. \<open>byteswap\<close> reverses the object representation, as
  \<open>bswap_16\<close>, \<open>bswap_32\<close> and \<open>bswap_64\<close> do.
\<close>

definition FISHJOY_LITTLE_ENDIAN :: nat where
  "FISHJOY_LITTLE_ENDIAN = 1"

definition FISHJOY_BIG_ENDIAN :: nat where
  "FISHJOY_BIG_ENDIAN = 2"

lemma endian_neq [simp]:
  "FISHJOY_LITTLE_ENDIAN \<noteq> FISHJOY_BIG_ENDIAN" "FISHJOY_BIG_ENDIAN \<noteq> FISHJOY_LITTLE_ENDIAN"
  by (simp_all add: FISHJOY_LITTLE_ENDIAN_def FISHJOY_BIG_ENDIAN_def)

definition valid_order :: "nat \<Rightarrow> bool" where
  "valid_order bo \<longleftrightarrow> bo = FISHJOY_LITTLE_ENDIAN \<or> bo = FISHJOY_BIG_ENDIAN"

lemma valid_orders [simp]:
  "valid_order FISHJOY_LITTLE_ENDIAN" "valid_order FISHJOY_BIG_ENDIAN"
  by (simp_all add: valid_order_def)

subsection \<open>Object representation\<close>

fun le_bytes :: "nat \<Rightarrow> 'a::len word \<Rightarrow> byte list" where
  "le_bytes 0 w = []"
| "le_bytes (Suc n) w = ucast w # le_bytes n (drop_bit 8 w)"

fun of_le_bytes :: "byte list \<Rightarrow> 'a::len word" where
  "of_le_bytes [] = 0"
| "of_le_bytes (b # bs) = ucast b OR push_bit 8 (of_le_bytes bs)"

text \<open>The bytes of an \<open>n\<close>-byte object in the memory of a host of byte order \<open>bo\<close>.\<close>

definition host_bytes :: "nat \<Rightarrow> nat \<Rightarrow> 'a::len word \<Rightarrow> byte list" where
  "host_bytes bo n w = (if bo = FISHJOY_LITTLE_ENDIAN then le_bytes n w else rev (le_bytes n w))"

definition of_host_bytes :: "nat \<Rightarrow> byte list \<Rightarrow> 'a::len word" where
  "of_host_bytes bo bs = (if bo = FISHJOY_LITTLE_ENDIAN then of_le_bytes bs else of_le_bytes (rev bs))"

subsection \<open>Swapping\<close>

definition byteswap64 :: "u64 \<Rightarrow> u64" where
  "byteswap64 v = of_le_bytes (rev (le_bytes 8 v))"

definition byteswap32 :: "u32 \<Rightarrow> u32" where
  "byteswap32 v = of_le_bytes (rev (le_bytes 4 v))"

definition byteswap16 :: "u16 \<Rightarrow> u16" where
  "byteswap16 v = of_le_bytes (rev (le_bytes 2 v))"

definition byteswapOnLittleEndian32 :: "nat \<Rightarrow> u32 \<Rightarrow> u32" where
  "byteswapOnLittleEndian32 bo t = (if bo = FISHJOY_BIG_ENDIAN then t else byteswap32 t)"

definition byteswapOnLittleEndian16 :: "nat \<Rightarrow> u16 \<Rightarrow> u16" where
  "byteswapOnLittleEndian16 bo t = (if bo = FISHJOY_BIG_ENDIAN then t else byteswap16 t)"

definition byteswapOnBigEndian32 :: "nat \<Rightarrow> u32 \<Rightarrow> u32" where
  "byteswapOnBigEndian32 bo t = (if bo = FISHJOY_BIG_ENDIAN then byteswap32 t else t)"

subsection \<open>Facts\<close>

lemma length_le_bytes [simp]: "length (le_bytes n w) = n"
  by (induction n arbitrary: w) simp_all

lemma length_host_bytes [simp]: "length (host_bytes bo n w) = n"
  by (simp add: host_bytes_def)

lemma of_le_bytes_le_bytes: "of_le_bytes (le_bytes n w) = take_bit (8 * n) (w :: 'a::len word)"
proof (induction n arbitrary: w)
  case 0
  then show ?case by simp
next
  case (Suc n)
  show ?case
    unfolding le_bytes.simps of_le_bytes.simps Suc.IH
    by (rule bit_word_eqI) (auto simp: bit_simps)
qed

lemma bit_of_le_bytes_bound: "bit (of_le_bytes bs :: 'a::len word) i \<Longrightarrow> i < 8 * length bs"
proof (induction bs arbitrary: i)
  case Nil
  then show ?case by simp
next
  case (Cons b bs)
  from Cons.prems consider "bit b i" | "8 \<le> i" "bit (of_le_bytes bs :: 'a word) (i - 8)"
    by (auto simp: bit_simps)
  then show ?case
  proof cases
    case 1
    then have "i < 8" using bit_imp_le_length by fastforce
    then show ?thesis by simp
  next
    case 2
    with Cons.IH show ?thesis by fastforce
  qed
qed

lemma drop_bit_of_le_bytes:
  assumes "8 * length (b # bs) \<le> LENGTH('a)"
  shows "drop_bit 8 (of_le_bytes (b # bs) :: 'a::len word) = of_le_bytes bs"
proof (rule bit_word_eqI)
  fix n assume "n < LENGTH('a)"
  have "bit b (n + 8) = False"
    using bit_imp_le_length [of b "n + 8"] by auto
  moreover have "bit (of_le_bytes bs :: 'a word) n \<Longrightarrow> n + 8 < LENGTH('a)"
    using bit_of_le_bytes_bound [of bs n, where 'a = 'a] assms by fastforce
  ultimately show "bit (drop_bit 8 (of_le_bytes (b # bs) :: 'a word)) n
      = bit (of_le_bytes bs :: 'a word) n"
    by (auto simp: bit_simps add.commute)
qed

lemma ucast_of_le_bytes:
  assumes "8 \<le> LENGTH('a)"
  shows "(ucast (of_le_bytes (b # bs) :: 'a::len word) :: byte) = b"
  using assms by (intro bit_word_eqI) (auto simp: bit_simps)

lemma le_bytes_of_le_bytes:
  "8 * length bs \<le> LENGTH('a) \<Longrightarrow> le_bytes (length bs) (of_le_bytes bs :: 'a::len word) = bs"
proof (induction bs)
  case Nil
  then show ?case by simp
next
  case (Cons b bs)
  then have "8 \<le> LENGTH('a)" "8 * length bs \<le> LENGTH('a)" by simp_all
  then show ?case
    using Cons ucast_of_le_bytes [of b bs, where 'a = 'a]
      drop_bit_of_le_bytes [of b bs, where 'a = 'a]
    by (simp del: of_le_bytes.simps)
qed

lemma of_host_bytes_host_bytes:
  "LENGTH('a) = 8 * n \<Longrightarrow> of_host_bytes bo (host_bytes bo n w) = (w :: 'a::len word)"
  by (simp add: of_host_bytes_def host_bytes_def of_le_bytes_le_bytes take_bit_word_eq_self)

text \<open>Swapping a value reverses its object representation.\<close>

lemma le_bytes_byteswap:
  "le_bytes 8 (byteswap64 v) = rev (le_bytes 8 v)"
  "le_bytes 4 (byteswap32 w) = rev (le_bytes 4 w)"
  "le_bytes 2 (byteswap16 x) = rev (le_bytes 2 x)"
  using le_bytes_of_le_bytes [of "rev (le_bytes 8 v)", where 'a = 64]
    le_bytes_of_le_bytes [of "rev (le_bytes 4 w)", where 'a = 32]
    le_bytes_of_le_bytes [of "rev (le_bytes 2 x)", where 'a = 16]
  by (simp_all add: byteswap64_def byteswap32_def byteswap16_def)

lemma host_bytes_byteswap:
  "host_bytes bo 8 (byteswap64 v) = rev (host_bytes bo 8 v)"
  "host_bytes bo 4 (byteswap32 w) = rev (host_bytes bo 4 w)"
  "host_bytes bo 2 (byteswap16 x) = rev (host_bytes bo 2 x)"
  by (simp_all add: host_bytes_def le_bytes_byteswap)

lemma byteswap_involution [simp]:
  "byteswap64 (byteswap64 v) = v"
  "byteswap32 (byteswap32 w) = w"
  "byteswap16 (byteswap16 x) = x"
proof -
  have "of_le_bytes (rev (le_bytes 8 (byteswap64 v))) = (of_le_bytes (le_bytes 8 v) :: u64)"
    "of_le_bytes (rev (le_bytes 4 (byteswap32 w))) = (of_le_bytes (le_bytes 4 w) :: u32)"
    "of_le_bytes (rev (le_bytes 2 (byteswap16 x))) = (of_le_bytes (le_bytes 2 x) :: u16)"
    by (simp_all add: le_bytes_byteswap)
  then show "byteswap64 (byteswap64 v) = v" "byteswap32 (byteswap32 w) = w"
      "byteswap16 (byteswap16 x) = x"
    unfolding of_le_bytes_le_bytes
    by (simp_all add: byteswap64_def [of "byteswap64 v"] byteswap32_def [of "byteswap32 w"]
        byteswap16_def [of "byteswap16 x"] take_bit_word_eq_self)
qed

lemma byteswapOn_involution [simp]:
  "byteswapOnLittleEndian32 bo (byteswapOnLittleEndian32 bo v) = v"
  "byteswapOnLittleEndian16 bo (byteswapOnLittleEndian16 bo x) = x"
  "byteswapOnBigEndian32 bo (byteswapOnBigEndian32 bo v) = v"
  by (simp_all add: byteswapOnLittleEndian32_def byteswapOnLittleEndian16_def
      byteswapOnBigEndian32_def)

text \<open>
  The network form of a value: whatever the host's byte order, the value that
  \<open>byteswapOnLittleEndian\<close> gives is stored most significant byte first.
\<close>

lemma network_order:
  assumes "valid_order bo"
  shows "host_bytes bo 4 (byteswapOnLittleEndian32 bo v) = rev (le_bytes 4 v)"
    and "host_bytes bo 2 (byteswapOnLittleEndian16 bo x) = rev (le_bytes 2 x)"
  using assms by (auto simp: valid_order_def byteswapOnLittleEndian32_def
      byteswapOnLittleEndian16_def host_bytes_def le_bytes_byteswap)

text \<open>Swapping exactly when two byte orders differ turns the one representation into the other.\<close>

lemma host_bytes_swapped:
  assumes "valid_order bo" "valid_order e"
  shows "host_bytes bo 8 (if e \<noteq> bo then byteswap64 v else v) = host_bytes e 8 v"
    and "host_bytes bo 4 (if e \<noteq> bo then byteswap32 w else w) = host_bytes e 4 w"
    and "host_bytes bo 2 (if e \<noteq> bo then byteswap16 x else x) = host_bytes e 2 x"
  using assms by (auto simp: valid_order_def host_bytes_def le_bytes_byteswap)

lemma of_host_bytes_swapped:
  assumes "valid_order bo" "valid_order e"
  shows "(if e = bo then of_host_bytes bo (host_bytes e 8 v)
            else byteswap64 (of_host_bytes bo (host_bytes e 8 v))) = v"
    and "(if e = bo then of_host_bytes bo (host_bytes e 4 w)
            else byteswap32 (of_host_bytes bo (host_bytes e 4 w))) = w"
    and "(if e = bo then of_host_bytes bo (host_bytes e 2 x)
            else byteswap16 (of_host_bytes bo (host_bytes e 2 x))) = x"
  unfolding host_bytes_swapped [OF assms, symmetric]
  by (simp_all add: of_host_bytes_host_bytes)

text \<open>Swapping commutes with the bitwise operations, so masks can be applied in either form.\<close>

lemma le_bytes_bitwise:
  "le_bytes n (a AND b) = map2 (AND) (le_bytes n a) (le_bytes n b)"
  "le_bytes n (a OR b) = map2 (OR) (le_bytes n a) (le_bytes n b)"
  by (induction n arbitrary: a b)
     (auto simp: bit_eq_iff bit_simps)

lemma u8_high: "8 \<le> n \<Longrightarrow> \<not> bit (x :: u8) n"
  using bit_imp_le_length [of x n] by auto

lemma of_le_bytes_bitwise:
  assumes "length xs = length ys"
  shows "of_le_bytes (map2 (AND) xs ys) = (of_le_bytes xs AND of_le_bytes ys :: 'a::len word)"
    and "of_le_bytes (map2 (OR) xs ys) = (of_le_bytes xs OR of_le_bytes ys :: 'a::len word)"
  using assms
  by (induction xs ys rule: list_induct2) (auto intro!: bit_word_eqI simp: bit_simps u8_high)

lemma rev_map2: "length xs = length ys \<Longrightarrow> rev (map2 f xs ys) = map2 f (rev xs) (rev ys)"
  by (simp add: zip_rev rev_map)

lemma byteswap32_bitwise:
  "byteswap32 (a AND b) = byteswap32 a AND byteswap32 b"
  "byteswap32 (a OR b) = byteswap32 a OR byteswap32 b"
  by (simp_all add: byteswap32_def le_bytes_bitwise rev_map2 of_le_bytes_bitwise)

lemma byteswap32_NOT: "byteswap32 (NOT a) = NOT (byteswap32 a)"
proof -
  have "byteswap32 a AND byteswap32 (NOT a) = byteswap32 0" "byteswap32 a OR byteswap32 (NOT a) = byteswap32 (- 1)"
    by (simp_all flip: byteswap32_bitwise)
  moreover have "byteswap32 0 = 0" "byteswap32 (- 1) = - 1" by code_simp+
  ultimately show ?thesis by (metis bit.compl_unique)
qed

end
