(* ===== verification/ByteArray.thy ===== *)
theory ByteArray
  imports ByteStreamSpec Endian
begin

text \<open>
  The growable byte buffer: \<open>src/net/bytearray.cpp\<close> and \<open>include/fishjoy/net/bytearray.hpp\<close>.

  The chain of \<open>Node\<close>s from \<open>m_root\<close> is the list of the nodes' memory, each node the list of its
  \<open>size\<close> bytes. A \<open>Node*\<close> is an optional index into the chain, \<open>None\<close> for the null pointer; a
  dereference of \<open>None\<close> or past the chain is the fault \<open>Null_deref\<close>. The bytes of a fresh
  \<open>new char[s]\<close> are indeterminate: \<open>m_fresh\<close> is an arbitrary content for them. \<open>size_t\<close> values
  are naturals, with the wrap-around of subtractions written out by \<open>sub64\<close>; allocation
  always succeeds. \<open>ceil(1.0 * size / m_baseSize)\<close> is the exact ceiling, which is what the
  \<open>double\<close> computation gives for sizes below \<open>2^52\<close>.
\<close>

record bytearray =
  m_baseSize :: nat
  m_position :: nat
  m_capacity :: nat
  m_size :: nat
  m_endian :: nat
  m_root :: "byte list list"
  m_cur :: "nat option"
  m_fresh :: "nat \<Rightarrow> byte"

subsection \<open>Nodes\<close>

definition new_Node :: "(nat \<Rightarrow> byte) \<Rightarrow> nat \<Rightarrow> byte list" where
  "new_Node fresh s = map fresh [0..<s]"

definition deref :: "byte list list \<Rightarrow> nat option \<Rightarrow> byte list result" where
  "deref nodes p = (case p of None \<Rightarrow> Inl Null_deref
     | Some i \<Rightarrow> if i < length nodes then Inr (nodes ! i) else Inl Null_deref)"

definition node_next :: "byte list list \<Rightarrow> nat option \<Rightarrow> nat option" where
  "node_next nodes p = (case p of None \<Rightarrow> None
     | Some i \<Rightarrow> if Suc i < length nodes then Some (Suc i) else None)"

text \<open>\<open>memcpy\<close> into and out of the memory of one node.\<close>

definition copy_in :: "byte list \<Rightarrow> nat \<Rightarrow> byte list \<Rightarrow> byte list result" where
  "copy_in nd off xs =
     (if off + length xs \<le> length nd then Inr (overwrite off xs nd) else Inl Bad_access)"

definition copy_out :: "byte list \<Rightarrow> nat \<Rightarrow> nat \<Rightarrow> byte list result" where
  "copy_out nd off n = (if off + n \<le> length nd then Inr (slice_of off n nd) else Inl Bad_access)"

subsection \<open>Construction and queries\<close>

definition new_ByteArray :: "(nat \<Rightarrow> byte) \<Rightarrow> nat \<Rightarrow> bytearray" where
  "new_ByteArray fresh base_size =
     \<lparr> m_baseSize = base_size, m_position = 0, m_capacity = base_size, m_size = 0,
       m_endian = FISHJOY_BIG_ENDIAN, m_root = [new_Node fresh base_size], m_cur = Some 0,
       m_fresh = fresh \<rparr>"

definition isLittleEndian :: "bytearray \<Rightarrow> bool" where
  "isLittleEndian ba = (m_endian ba = FISHJOY_LITTLE_ENDIAN)"

definition setIsLittleEndian :: "bool \<Rightarrow> bytearray \<Rightarrow> bytearray" where
  "setIsLittleEndian val ba =
     (if val then ba\<lparr>m_endian := FISHJOY_LITTLE_ENDIAN\<rparr> else ba\<lparr>m_endian := FISHJOY_BIG_ENDIAN\<rparr>)"

definition getReadSize :: "bytearray \<Rightarrow> nat" where
  "getReadSize ba = sub64 (m_size ba) (m_position ba)"

definition getCapacity :: "bytearray \<Rightarrow> nat" where
  "getCapacity ba = sub64 (m_capacity ba) (m_position ba)"

definition clear :: "bytearray \<Rightarrow> bytearray" where
  "clear ba = ba\<lparr>m_position := 0, m_size := 0, m_capacity := m_baseSize ba,
     m_root := take 1 (m_root ba), m_cur := Some 0\<rparr>"

subsection \<open>Growing\<close>

definition ceil_div :: "nat \<Rightarrow> nat \<Rightarrow> nat" where
  "ceil_div a b = (a + b - 1) div b"

definition addCapacity :: "nat \<Rightarrow> bytearray \<Rightarrow> bytearray" where
  "addCapacity sz ba =
     (if sz = 0 then ba
      else let old_cap = getCapacity ba in
        if old_cap \<ge> sz then ba
        else let count = ceil_div (sz - old_cap) (m_baseSize ba);
                 first = length (m_root ba);
                 ba' = ba\<lparr>m_root := m_root ba @ replicate count (new_Node (m_fresh ba) (m_baseSize ba)),
                          m_capacity := m_capacity ba + count * m_baseSize ba\<rparr>
             in if old_cap = 0 then ba'\<lparr>m_cur := (if count = 0 then None else Some first)\<rparr> else ba')"

subsection \<open>Writing, reading and seeking\<close>

text \<open>
  The copying loops carry the loop variables \<open>cur\<close>, \<open>npos\<close>, \<open>ncap\<close> and the position; the rest
  of the caller's buffer stands for \<open>buf + bpos\<close> and its length for \<open>size\<close>.
\<close>

function write_loop ::
  "byte list list \<Rightarrow> nat option \<Rightarrow> nat \<Rightarrow> nat \<Rightarrow> nat \<Rightarrow> byte list \<Rightarrow>
     (byte list list \<times> nat option \<times> nat) result" where
  "write_loop nodes cur npos ncap pos buf =
     (if buf = [] then Inr (nodes, cur, pos)
      else case deref nodes cur of Inl e \<Rightarrow> Inl e
        | Inr nd \<Rightarrow>
          (let i = the cur in
           if ncap \<ge> length buf then
             rbind (copy_in nd npos buf) (\<lambda>nd'.
               Inr (nodes[i := nd'],
                    if length nd = npos + length buf then node_next nodes cur else cur,
                    pos + length buf))
           else
             case copy_in nd npos (take ncap buf) of Inl e \<Rightarrow> Inl e
             | Inr nd' \<Rightarrow>
               (let nodes' = nodes[i := nd']; cur' = node_next nodes cur in
                case deref nodes' cur' of Inl e \<Rightarrow> Inl e
                | Inr nd2 \<Rightarrow> write_loop nodes' cur' 0 (length nd2) (pos + ncap) (drop ncap buf))))"
  by pat_completeness auto
termination
  by (relation "measure (\<lambda>(nodes, cur, npos, ncap, pos, buf).
        case cur of None \<Rightarrow> 0 | Some i \<Rightarrow> length nodes - i)")
     (auto simp: deref_def node_next_def split: option.splits if_splits)

declare write_loop.simps [simp del]

definition write_ba :: "byte list \<Rightarrow> bytearray \<Rightarrow> bytearray result" where
  "write_ba buf ba0 =
     (if length buf = 0 then Inr ba0
      else let ba = addCapacity (length buf) ba0 in
        if m_baseSize ba = 0 then Inl Div_by_zero
        else let npos = m_position ba mod m_baseSize ba in
          rbind (deref (m_root ba) (m_cur ba)) (\<lambda>nd.
          rbind (write_loop (m_root ba) (m_cur ba) npos (sub64 (length nd) npos) (m_position ba) buf)
            (\<lambda>(nodes, cur, pos).
              Inr (ba\<lparr>m_root := nodes, m_cur := cur, m_position := pos,
                      m_size := (if pos > m_size ba then pos else m_size ba)\<rparr>))))"

function read_loop ::
  "byte list list \<Rightarrow> nat option \<Rightarrow> nat \<Rightarrow> nat \<Rightarrow> nat \<Rightarrow> nat \<Rightarrow> byte list \<Rightarrow>
     (byte list \<times> nat option \<times> nat) result" where
  "read_loop nodes cur npos ncap pos sz buf =
     (if sz = 0 then Inr (buf, cur, pos)
      else case deref nodes cur of Inl e \<Rightarrow> Inl e
        | Inr nd \<Rightarrow>
          if ncap \<ge> sz then
            rbind (copy_out nd npos sz) (\<lambda>xs.
              Inr (buf @ xs,
                   if length nd = npos + sz then node_next nodes cur else cur,
                   pos + sz))
          else
            case copy_out nd npos ncap of Inl e \<Rightarrow> Inl e
            | Inr xs \<Rightarrow>
              (let cur' = node_next nodes cur in
               case deref nodes cur' of Inl e \<Rightarrow> Inl e
               | Inr nd2 \<Rightarrow> read_loop nodes cur' 0 (length nd2) (pos + ncap) (sz - ncap) (buf @ xs)))"
  by pat_completeness auto
termination
  by (relation "measure (\<lambda>(nodes, cur, npos, ncap, pos, sz, buf).
        case cur of None \<Rightarrow> 0 | Some i \<Rightarrow> length nodes - i)")
     (auto simp: deref_def node_next_def split: option.splits if_splits)

declare read_loop.simps [simp del]

definition read_ba :: "nat \<Rightarrow> bytearray \<Rightarrow> (byte list \<times> bytearray) result" where
  "read_ba sz ba =
     (if sz > getReadSize ba then Inl (Out_of_range ''not enough len'')
      else if m_baseSize ba = 0 then Inl Div_by_zero
      else let npos = m_position ba mod m_baseSize ba in
        rbind (deref (m_root ba) (m_cur ba)) (\<lambda>nd.
        rbind (read_loop (m_root ba) (m_cur ba) npos (sub64 (length nd) npos) (m_position ba) sz [])
          (\<lambda>(buf, cur, pos). Inr (buf, ba\<lparr>m_cur := cur, m_position := pos\<rparr>))))"

text \<open>The \<open>const\<close> overload \<open>read(buf, size, position)\<close>: it starts at \<open>m_cur\<close> as well.\<close>

definition read_at :: "nat \<Rightarrow> nat \<Rightarrow> bytearray \<Rightarrow> byte list result" where
  "read_at sz position ba =
     (if sz > sub64 (m_size ba) position then Inl (Out_of_range ''not enough len'')
      else if m_baseSize ba = 0 then Inl Div_by_zero
      else let npos = position mod m_baseSize ba in
        rbind (deref (m_root ba) (m_cur ba)) (\<lambda>nd.
        rbind (read_loop (m_root ba) (m_cur ba) npos (sub64 (length nd) npos) position sz [])
          (\<lambda>(buf, cur, pos). Inr buf)))"

function seek_loop :: "byte list list \<Rightarrow> nat option \<Rightarrow> nat \<Rightarrow> (nat option \<times> nat) result" where
  "seek_loop nodes cur v =
     (case deref nodes cur of Inl e \<Rightarrow> Inl e
      | Inr nd \<Rightarrow> if v > length nd then seek_loop nodes (node_next nodes cur) (v - length nd)
                  else Inr (if v = length nd then node_next nodes cur else cur, v))"
  by pat_completeness auto
termination
  by (relation "measure (\<lambda>(nodes, cur, v). case cur of None \<Rightarrow> 0 | Some i \<Rightarrow> length nodes - i)")
     (auto simp: deref_def node_next_def split: option.splits if_splits)

declare seek_loop.simps [simp del]

definition setPosition :: "nat \<Rightarrow> bytearray \<Rightarrow> bytearray result" where
  "setPosition v ba =
     (if v > m_capacity ba then Inl (Out_of_range ''set_position out of range'')
      else rbind (seek_loop (m_root ba) (if m_root ba = [] then None else Some 0) v) (\<lambda>(cur, _).
        Inr (ba\<lparr>m_position := v, m_size := (if v > m_size ba then v else m_size ba), m_cur := cur\<rparr>)))"

definition toString :: "bytearray \<Rightarrow> byte list result" where
  "toString ba = (if getReadSize ba = 0 then Inr [] else read_at (getReadSize ba) (m_position ba) ba)"


subsection \<open>Well-formed buffers and their flat view\<close>

definition node_ptr :: "'a list \<Rightarrow> nat \<Rightarrow> nat option" where
  "node_ptr nodes i = (if i < length nodes then Some i else None)"

definition ba_inv :: "bytearray \<Rightarrow> bool" where
  "ba_inv ba \<longleftrightarrow>
     0 < m_baseSize ba \<and> m_root ba \<noteq> [] \<and> (\<forall>nd \<in> set (m_root ba). length nd = m_baseSize ba) \<and>
     m_capacity ba = m_baseSize ba * length (m_root ba) \<and>
     m_position ba \<le> m_size ba \<and> m_size ba \<le> m_capacity ba \<and> valid_order (m_endian ba) \<and>
     m_cur ba = node_ptr (m_root ba) (m_position ba div m_baseSize ba)"

definition ba_mem :: "bytearray \<Rightarrow> byte list" where
  "ba_mem ba = concat (m_root ba)"

definition ba_data :: "bytearray \<Rightarrow> byte list" where
  "ba_data ba = take (m_size ba) (ba_mem ba)"

lemma deref_node_ptr [simp]:
  "i < length nodes \<Longrightarrow> deref nodes (Some i) = Inr (nodes ! i)"
  "deref nodes None = Inl Null_deref"
  by (simp_all add: deref_def)

lemma node_next_Some [simp]: "node_next nodes (Some i) = node_ptr nodes (Suc i)"
  by (simp add: node_next_def node_ptr_def)

lemma node_ptr_less [simp]: "i < length nodes \<Longrightarrow> node_ptr nodes i = Some i"
  by (simp add: node_ptr_def)

lemma node_ptr_cong: "length xs = length ys \<Longrightarrow> node_ptr xs i = node_ptr ys i"
  by (simp add: node_ptr_def)

lemma length_ba_mem: "ba_inv ba \<Longrightarrow> length (ba_mem ba) = m_capacity ba"
  by (simp add: ba_inv_def ba_mem_def length_concat_blocks)

lemma length_ba_data [simp]: "ba_inv ba \<Longrightarrow> length (ba_data ba) = m_size ba"
  by (simp add: ba_data_def length_ba_mem) (simp add: ba_inv_def)

lemma block_step:
  assumes "npos < (k::nat)" "k - npos \<le> n"
  shows "k * i + npos + n = k * Suc i + (n - (k - npos))"
  using assms by simp

lemma next_block_exists:
  assumes "npos < (k::nat)" "k - npos < n" "k * i + npos + n \<le> k * m"
  shows "Suc i < m"
proof -
  have "k * Suc i < k * i + npos + n" using assms by simp
  then have "k * Suc i < k * m" using assms(3) by linarith
  then show ?thesis by (simp only: mult_less_cancel1)
qed

lemma div_block: "0 < k \<Longrightarrow> npos + n \<le> (k::nat) \<Longrightarrow> npos < k \<Longrightarrow>
    (k * i + npos + n) div k = (if k = npos + n then Suc i else i)"
  by (auto simp: add.assoc)

text \<open>One round of the copying loops: the last one, and one that goes on in the next node.\<close>

lemma write_loop_last:
  assumes "\<forall>b \<in> set nodes. length b = k" "i < length nodes" "npos < k" "npos + length buf \<le> k"
  shows "write_loop nodes (Some i) npos (k - npos) pos buf
    = Inr (nodes[i := overwrite npos buf (nodes ! i)],
           node_ptr nodes ((k * i + npos + length buf) div k), pos + length buf)"
proof -
  have "length (nodes ! i) = k" using assms by simp
  moreover have "nodes[i := nodes ! i] = nodes" by simp
  ultimately show ?thesis
    using assms div_block [of k npos "length buf" i]
    by (cases "buf = []") (auto simp: write_loop.simps copy_in_def)
qed

lemma write_loop_next:
  assumes "\<forall>b \<in> set nodes. length b = k" "Suc i < length nodes" "npos < k" "k - npos < length buf"
  shows "write_loop nodes (Some i) npos (k - npos) pos buf
    = write_loop (nodes[i := overwrite npos (take (k - npos) buf) (nodes ! i)])
        (Some (Suc i)) 0 k (pos + (k - npos)) (drop (k - npos) buf)"
proof -
  have "length (nodes ! i) = k" "length (nodes ! Suc i) = k" "buf \<noteq> []" "i < length nodes"
    using assms by auto
  then show ?thesis
    using assms by (subst write_loop.simps) (simp add: copy_in_def)
qed

lemma write_loop_ok:
  assumes "\<forall>b \<in> set nodes. length b = k" "i < length nodes" "npos < k"
    and "k * i + npos + length buf \<le> k * length nodes"
  shows "\<exists>nodes'. write_loop nodes (Some i) npos (k - npos) pos buf
            = Inr (nodes', node_ptr nodes ((k * i + npos + length buf) div k), pos + length buf)
      \<and> concat nodes' = overwrite (k * i + npos) buf (concat nodes)
      \<and> length nodes' = length nodes \<and> (\<forall>b \<in> set nodes'. length b = k)"
  using assms
proof (induction buf arbitrary: nodes i npos pos rule: length_induct)
  case (1 buf)
  note len = 1(2) and i = 1(3) and npos = 1(4) and bound = 1(5)
  show ?case
  proof (cases "npos + length buf \<le> k")
    case True
    show ?thesis
      using write_loop_last [OF len i npos True, of pos]
        concat_block_update [OF len i True] update_keeps_block_size [OF len i True] by simp
  next
    case False
    let ?c = "k - npos" and ?b = "take (k - npos) buf" and ?r = "drop (k - npos) buf"
    let ?n = "nodes[i := overwrite npos ?b (nodes ! i)]"
    have c: "?c < length buf" "npos + length ?b \<le> k" "length ?r < length buf" using False npos by auto
    have nxt: "Suc i < length nodes" using next_block_exists [OF npos c(1) bound] .
    note upd = concat_block_update [OF len i c(2)] update_keeps_block_size [OF len i c(2)]
    have eq: "k * i + npos + length buf = k * Suc i + length ?r"
      using block_step [OF npos, of "length buf" i] c by simp
    have "\<exists>n2. write_loop ?n (Some (Suc i)) 0 (k - 0) (pos + ?c) ?r
          = Inr (n2, node_ptr ?n ((k * Suc i + 0 + length ?r) div k), pos + ?c + length ?r)
        \<and> concat n2 = overwrite (k * Suc i + 0) ?r (concat ?n)
        \<and> length n2 = length ?n \<and> (\<forall>b \<in> set n2. length b = k)"
      by (rule 1(1) [rule_format, OF c(3)]) (use upd(2) nxt eq bound npos in auto)
    then obtain n2 where
        run: "write_loop nodes (Some i) npos ?c pos buf
          = Inr (n2, node_ptr nodes ((k * i + npos + length buf) div k), pos + length buf)"
        and con: "concat n2 = overwrite (k * Suc i) ?r (concat ?n)"
        and rest: "length n2 = length nodes" "\<forall>b \<in> set n2. length b = k"
      using write_loop_next [OF len nxt npos c(1)] eq c(1) node_ptr_cong [of ?n nodes] by auto
    have "k * Suc i = k * i + npos + length ?b" "k * i + npos \<le> length (concat nodes)"
      using c npos bound length_concat_blocks [OF len] by auto
    then have "concat n2 = overwrite (k * i + npos) (?b @ ?r) (concat nodes)"
      unfolding con upd(1) by (simp only: overwrite_append)
    with run rest show ?thesis by auto
  qed
qed

lemma read_loop_last:
  assumes "\<forall>b \<in> set nodes. length b = k" "i < length nodes" "npos < k" "npos + n \<le> k"
  shows "read_loop nodes (Some i) npos (k - npos) pos n buf
    = Inr (buf @ slice_of (k * i + npos) n (concat nodes),
           node_ptr nodes ((k * i + npos + n) div k), pos + n)"
proof -
  have "length (nodes ! i) = k" using assms by simp
  then show ?thesis
    using assms div_block [of k npos n i] slice_of_block [OF assms(1,2,4)]
    by (cases "n = 0") (auto simp: read_loop.simps copy_out_def)
qed

lemma read_loop_next:
  assumes "\<forall>b \<in> set nodes. length b = k" "Suc i < length nodes" "npos < k" "k - npos < n"
  shows "read_loop nodes (Some i) npos (k - npos) pos n buf
    = read_loop nodes (Some (Suc i)) 0 k (pos + (k - npos)) (n - (k - npos))
        (buf @ slice_of (k * i + npos) (k - npos) (concat nodes))"
proof -
  have "length (nodes ! i) = k" "length (nodes ! Suc i) = k" "n \<noteq> 0" "i < length nodes"
    using assms by auto
  then show ?thesis
    using assms slice_of_block [OF assms(1) \<open>i < length nodes\<close>, of npos "k - npos"]
    by (subst read_loop.simps) (simp add: copy_out_def)
qed

lemma read_loop_ok:
  assumes "\<forall>b \<in> set nodes. length b = k" "i < length nodes" "npos < k"
    and "k * i + npos + n \<le> k * length nodes"
  shows "read_loop nodes (Some i) npos (k - npos) pos n buf
    = Inr (buf @ slice_of (k * i + npos) n (concat nodes),
           node_ptr nodes ((k * i + npos + n) div k), pos + n)"
  using assms
proof (induction n arbitrary: i npos pos buf rule: less_induct)
  case (less n)
  note len = less.prems(1) and npos = less.prems(3) and bound = less.prems(4)
  show ?case
  proof (cases "npos + n \<le> k")
    case True
    show ?thesis by (rule read_loop_last [OF len less.prems(2) npos True])
  next
    case False
    then have c: "k - npos < n" "n - (k - npos) < n" using npos by auto
    have nxt: "Suc i < length nodes" using next_block_exists [OF npos c(1) bound] .
    have eq: "k * i + npos + n = k * Suc i + (n - (k - npos))"
      using block_step [OF npos, of n i] c by simp
    have "slice_of (k * i + npos) n (concat nodes)
        = slice_of (k * i + npos) ((k - npos) + (n - (k - npos))) (concat nodes)" using c by simp
    also have "\<dots> = slice_of (k * i + npos) (k - npos) (concat nodes)
          @ slice_of (k * Suc i) (n - (k - npos)) (concat nodes)"
      unfolding slice_of_split using npos by (simp add: algebra_simps)
    finally show ?thesis
      using less.IH [OF c(2) len nxt, of 0] npos eq bound c(1)
        read_loop_next [OF len nxt npos c(1)] arg_cong [OF eq, of "\<lambda>x. x div k"] by simp
  qed
qed

lemma seek_loop_ok:
  assumes "\<forall>b \<in> set nodes. length b = k" "0 < k" "i < length nodes" "k * i + v \<le> k * length nodes"
  shows "\<exists>w. seek_loop nodes (Some i) v = Inr (node_ptr nodes ((k * i + v) div k), w)"
  using assms
proof (induction v arbitrary: i rule: less_induct)
  case (less v)
  have li: "length (nodes ! i) = k" using less.prems by simp
  show ?case
  proof (cases "v \<le> k")
    case True
    then show ?thesis
      using less.prems li by (auto simp: seek_loop.simps)
  next
    case False
    have nxt: "Suc i < length nodes"
      using next_block_exists [of 0 k v i "length nodes"] less.prems False by simp
    have "k * i + v = k * Suc i + (v - k)" using False by simp
    then show ?thesis
      using less.IH [of "v - k" "Suc i"] less.prems nxt False li by (auto simp: seek_loop.simps)
  qed
qed

subsection \<open>What each operation does to the flat view\<close>

lemma ba_invD:
  assumes "ba_inv ba"
  shows "0 < m_baseSize ba" "m_root ba \<noteq> []" "\<forall>nd \<in> set (m_root ba). length nd = m_baseSize ba"
    "m_capacity ba = m_baseSize ba * length (m_root ba)" "m_position ba \<le> m_size ba"
    "m_size ba \<le> m_capacity ba" "m_position ba \<le> m_capacity ba"
    "m_cur ba = node_ptr (m_root ba) (m_position ba div m_baseSize ba)" "valid_order (m_endian ba)"
  using assms by (auto simp: ba_inv_def)

lemma position_split:
  "ba_inv ba \<Longrightarrow>
     m_baseSize ba * (m_position ba div m_baseSize ba) + m_position ba mod m_baseSize ba = m_position ba"
  by (rule mult_div_mod_eq)

lemma cur_in_chain:
  assumes "ba_inv ba" "m_position ba < m_capacity ba"
  shows "m_position ba div m_baseSize ba < length (m_root ba)"
  using assms by (simp add: ba_inv_def less_mult_imp_div_less mult.commute)

lemma new_ByteArray_inv: "0 < n \<Longrightarrow> ba_inv (new_ByteArray fresh n)"
  by (simp add: ba_inv_def new_ByteArray_def new_Node_def)

lemma new_ByteArray_fields [simp]:
  "m_position (new_ByteArray fresh n) = 0" "m_size (new_ByteArray fresh n) = 0"
  "m_baseSize (new_ByteArray fresh n) = n" "m_endian (new_ByteArray fresh n) = FISHJOY_BIG_ENDIAN"
  by (simp_all add: new_ByteArray_def)

lemma clear_inv: "ba_inv ba \<Longrightarrow> ba_inv (clear ba)"
  by (cases "m_root ba") (auto simp: ba_inv_def clear_def)

lemma setIsLittleEndian_inv: "ba_inv ba \<Longrightarrow> ba_inv (setIsLittleEndian b ba)"
  by (simp add: ba_inv_def setIsLittleEndian_def)

lemma ceil_div_enough:
  assumes "0 < b"
  shows "n \<le> ceil_div n b * b"
proof -
  let ?q = "(n + b - 1) div b" and ?r = "(n + b - 1) mod b"
  have "n + b - 1 = b * ?q + ?r" by simp
  moreover have "?r < b" using assms by simp
  ultimately have "n \<le> b * ?q" by linarith
  then show ?thesis by (simp add: ceil_div_def mult.commute)
qed

lemma ceil_div_pos: "0 < b \<Longrightarrow> 0 < n \<Longrightarrow> 0 < ceil_div n b"
  by (simp add: ceil_div_def div_greater_zero_iff)

lemma addCapacity_ok:
  assumes inv: "ba_inv ba"
  shows "ba_inv (addCapacity n ba)"
    and "m_position ba + n \<le> m_capacity (addCapacity n ba)"
    and "m_position (addCapacity n ba) = m_position ba"
    and "m_size (addCapacity n ba) = m_size ba"
    and "m_baseSize (addCapacity n ba) = m_baseSize ba"
    and "m_endian (addCapacity n ba) = m_endian ba"
    and "\<exists>tail. ba_mem (addCapacity n ba) = ba_mem ba @ tail"
proof -
  note D = ba_invD [OF inv]
  let ?count = "ceil_div (n - (m_capacity ba - m_position ba)) (m_baseSize ba)"
  have cap: "getCapacity ba = m_capacity ba - m_position ba"
    using D by (simp add: getCapacity_def)
  have at_end: "m_position ba div m_baseSize ba = length (m_root ba)"
    if "m_capacity ba = m_position ba"
    using that D(1,4) by (metis nonzero_mult_div_cancel_left less_not_refl)
  show "ba_inv (addCapacity n ba)"
    using D cur_in_chain [OF inv] at_end ceil_div_pos [OF D(1), of n]
    by (auto simp: ba_inv_def addCapacity_def cap Let_def new_Node_def node_ptr_def algebra_simps)
  show "m_position ba + n \<le> m_capacity (addCapacity n ba)"
    using D ceil_div_enough [OF D(1), of "n - (m_capacity ba - m_position ba)"]
    by (auto simp: addCapacity_def cap Let_def)
  show "\<exists>tail. ba_mem (addCapacity n ba) = ba_mem ba @ tail"
    by (auto simp: addCapacity_def cap Let_def ba_mem_def)
qed (auto simp: addCapacity_def Let_def)

lemma addCapacity_data: "ba_inv ba \<Longrightarrow> ba_data (addCapacity n ba) = ba_data ba"
  using addCapacity_ok(4,7) [of ba n] length_ba_mem [of ba] ba_invD(6) [of ba]
  by (auto simp: ba_data_def)

lemma overwrite_take:
  assumes "pos \<le> n" "n \<le> length ys" "pos + length xs \<le> length ys"
  shows "overwrite pos xs (take n ys) = take (max n (pos + length xs)) (overwrite pos xs ys)"
proof (cases "xs = []")
  case False
  then have "pos < length ys" using assms(3) by (cases xs) auto
  with assms show ?thesis
    by (simp add: overwrite_def min_def max_def drop_take) (auto simp: take_add)
qed (use assms in simp)

lemma write_ba_ok:
  assumes inv: "ba_inv ba"
  shows "\<exists>ba'. write_ba buf ba = Inr ba' \<and> ba_inv ba'
      \<and> m_position ba' = m_position ba + length buf
      \<and> ba_data ba' = overwrite (m_position ba) buf (ba_data ba)
      \<and> m_endian ba' = m_endian ba \<and> m_baseSize ba' = m_baseSize ba"
proof (cases "buf = []")
  case True
  with inv show ?thesis by (simp add: write_ba_def)
next
  case False
  let ?ba = "addCapacity (length buf) ba"
  note A = addCapacity_ok [OF inv, of "length buf"]
  note D = ba_invD [OF A(1)]
  let ?k = "m_baseSize ?ba" and ?i = "m_position ?ba div m_baseSize ?ba"
  let ?npos = "m_position ?ba mod m_baseSize ?ba"
  have room: "?k * ?i + ?npos + length buf \<le> ?k * length (m_root ?ba)"
    unfolding position_split [OF A(1)] using A(2,3) D(4) by simp
  have i: "?i < length (m_root ?ba)"
    using cur_in_chain [OF A(1)] A(2,3) False by (cases buf) auto
  have npos: "?npos < ?k" using D(1) by simp
  obtain nodes where
      run: "write_loop (m_root ?ba) (Some ?i) ?npos (?k - ?npos) (m_position ?ba) buf
        = Inr (nodes, node_ptr (m_root ?ba) ((m_position ?ba + length buf) div ?k),
               m_position ?ba + length buf)"
      and con: "concat nodes = overwrite (m_position ?ba) buf (concat (m_root ?ba))"
      and len: "length nodes = length (m_root ?ba)" "\<forall>b \<in> set nodes. length b = ?k"
    using write_loop_ok [OF D(3) i npos room, of "m_position ?ba"]
    unfolding position_split [OF A(1)] by blast
  let ?ba' = "?ba\<lparr>m_root := nodes, m_cur := node_ptr nodes ((m_position ?ba + length buf) div ?k),
    m_position := m_position ?ba + length buf,
    m_size := max (m_size ?ba) (m_position ?ba + length buf)\<rparr>"
  have "length (m_root ?ba ! ?i) = ?k" using D(3) i by simp
  then have "write_ba buf ba = Inr ?ba'"
    using False D(1,8) i run npos len(1) node_ptr_cong [of nodes "m_root ?ba"]
    by (simp add: write_ba_def Let_def max_def)
  moreover have "ba_inv ?ba'"
    using D len A(2,3) by (auto simp: ba_inv_def)
  moreover have "ba_data ?ba' = overwrite (m_position ba) buf (ba_data ba)"
  proof -
    have "ba_data ba = take (m_size ba) (ba_mem ?ba)"
      using addCapacity_data [OF inv, of "length buf"] A(4) by (simp add: ba_data_def)
    then show ?thesis
      using overwrite_take [of "m_position ba" "m_size ba" "ba_mem ?ba" buf]
        length_ba_mem [OF A(1)] A(2,3,4) D(5,6) con
      by (simp add: ba_data_def ba_mem_def)
  qed
  ultimately show ?thesis using A by auto
qed

lemma read_ba_ok:
  assumes inv: "ba_inv ba" and n: "0 < n" "m_position ba + n \<le> m_size ba"
  shows "\<exists>ba'. read_ba n ba = Inr (slice_of (m_position ba) n (ba_data ba), ba') \<and> ba_inv ba'
      \<and> m_position ba' = m_position ba + n \<and> ba_data ba' = ba_data ba
      \<and> m_endian ba' = m_endian ba \<and> m_baseSize ba' = m_baseSize ba"
proof -
  note D = ba_invD [OF inv]
  let ?k = "m_baseSize ba" and ?i = "m_position ba div m_baseSize ba"
  let ?npos = "m_position ba mod m_baseSize ba"
  have room: "?k * ?i + ?npos + n \<le> ?k * length (m_root ba)"
    unfolding position_split [OF inv] using n D(4,6) by simp
  have i: "?i < length (m_root ba)" using cur_in_chain [OF inv] n D(6) by simp
  have npos: "?npos < ?k" using D(1) by simp
  have run: "read_loop (m_root ba) (Some ?i) ?npos (?k - ?npos) (m_position ba) n []
      = Inr (slice_of (m_position ba) n (ba_mem ba),
             node_ptr (m_root ba) ((m_position ba + n) div ?k), m_position ba + n)"
    using read_loop_ok [OF D(3) i npos room, of "m_position ba" "[]"]
    unfolding position_split [OF inv] by (simp add: ba_mem_def)
  have size: "getReadSize ba = m_size ba - m_position ba" using D by (simp add: getReadSize_def)
  let ?ba' = "ba\<lparr>m_cur := node_ptr (m_root ba) ((m_position ba + n) div ?k),
                 m_position := m_position ba + n\<rparr>"
  have "length (m_root ba ! ?i) = ?k" using D(3) i by simp
  then have "read_ba n ba = Inr (slice_of (m_position ba) n (ba_mem ba), ?ba')"
    using n D(1,8) i npos run size by (simp add: read_ba_def Let_def)
  moreover have "slice_of (m_position ba) n (ba_mem ba) = slice_of (m_position ba) n (ba_data ba)"
    using n slice_of_take [of "m_position ba" n "m_size ba" "ba_mem ba"] by (simp add: ba_data_def)
  moreover have "ba_inv ?ba'" using inv n D by (auto simp: ba_inv_def)
  ultimately show ?thesis by (simp add: ba_data_def ba_mem_def)
qed

lemma read_ba_short:
  "ba_inv ba \<Longrightarrow> m_size ba < m_position ba + n \<Longrightarrow> read_ba n ba = Inl (Out_of_range ''not enough len'')"
  using ba_invD(5) [of ba] by (auto simp: read_ba_def getReadSize_def)

text \<open>Seeking past the data extends it with whatever the memory holds there.\<close>

lemma setPosition_any:
  assumes inv: "ba_inv ba" and v: "v \<le> m_capacity ba"
  shows "\<exists>ba'. setPosition v ba = Inr ba' \<and> ba_inv ba' \<and> m_position ba' = v
      \<and> m_size ba' = max (m_size ba) v \<and> m_root ba' = m_root ba
      \<and> m_endian ba' = m_endian ba \<and> m_baseSize ba' = m_baseSize ba"
proof -
  note D = ba_invD [OF inv]
  obtain w where "seek_loop (m_root ba) (Some 0) v = Inr (node_ptr (m_root ba) (v div m_baseSize ba), w)"
    using seek_loop_ok [OF D(3,1), of 0 v] D v by auto
  then have "setPosition v ba = Inr (ba\<lparr>m_position := v, m_size := max (m_size ba) v,
      m_cur := node_ptr (m_root ba) (v div m_baseSize ba)\<rparr>)"
    using D v by (simp add: setPosition_def max_def)
  then show ?thesis using inv v by (simp add: ba_inv_def)
qed

lemma setPosition_ok:
  assumes inv: "ba_inv ba" and v: "v \<le> m_size ba"
  shows "\<exists>ba'. setPosition v ba = Inr ba' \<and> ba_inv ba' \<and> m_position ba' = v \<and> ba_data ba' = ba_data ba
      \<and> m_endian ba' = m_endian ba \<and> m_baseSize ba' = m_baseSize ba"
  using setPosition_any [OF inv, of v] ba_invD(6) [OF inv] v
  by (auto simp: ba_data_def ba_mem_def max_def)

lemma setPosition_out_of_range:
  "m_capacity ba < v \<Longrightarrow> setPosition v ba = Inl (Out_of_range ''set_position out of range'')"
  by (simp add: setPosition_def)

subsection \<open>The byte buffer is a positioned byte stream\<close>

interpretation ba: byte_stream write_ba read_ba setPosition ba_inv ba_data m_position m_endian
proof
  fix s bs
  assume "ba_inv s"
  then show "\<exists>s'. write_ba bs s = Inr s' \<and> ba_inv s' \<and> m_position s' = m_position s + length bs
      \<and> ba_data s' = overwrite (m_position s) bs (ba_data s) \<and> m_endian s' = m_endian s"
    using write_ba_ok by blast
next
  fix s :: bytearray and n
  assume "ba_inv s" "0 < n" "m_position s + n \<le> length (ba_data s)"
  then show "\<exists>s'. read_ba n s = Inr (slice_of (m_position s) n (ba_data s), s') \<and> ba_inv s'
      \<and> m_position s' = m_position s + n \<and> ba_data s' = ba_data s \<and> m_endian s' = m_endian s"
    using read_ba_ok [of s n] by auto
next
  fix s :: bytearray and p
  assume "ba_inv s" "p \<le> length (ba_data s)"
  then show "\<exists>s'. setPosition p s = Inr s' \<and> ba_inv s' \<and> m_position s' = p
      \<and> ba_data s' = ba_data s \<and> m_endian s' = m_endian s"
    using setPosition_ok [of s p] by auto
next
  fix s
  assume "ba_inv s"
  then show "m_position s \<le> length (ba_data s)" by (simp add: ba_invD)
qed

subsection \<open>Properties\<close>

text \<open>
  C1: writing any bytes at the cursor of a well-formed buffer succeeds, whatever nodes they cross
  and however much the chain must grow; the flat content is the old one with the bytes stored at
  the cursor; and seeking back and reading as many bytes returns them and ends where the write ended.
\<close>

theorem write_read_roundtrip:
  assumes "ba_inv ba" "bs \<noteq> []"
  shows "\<exists>ba1 ba2 ba3. write_ba bs ba = Inr ba1 \<and> ba_inv ba1
      \<and> ba_data ba1 = overwrite (m_position ba) bs (ba_data ba)
      \<and> setPosition (m_position ba) ba1 = Inr ba2
      \<and> read_ba (length bs) ba2 = Inr (bs, ba3) \<and> ba_inv ba3
      \<and> m_position ba3 = m_position ba1 \<and> ba_data ba3 = ba_data ba1"
proof -
  obtain ba1 where 1: "write_ba bs ba = Inr ba1" "ba_inv ba1"
      "ba_data ba1 = overwrite (m_position ba) bs (ba_data ba)"
    using ba.wr_ok [OF assms(1)] by blast
  moreover obtain ba2 where "setPosition (m_position ba) ba1 = Inr ba2"
    using ba.wr_seek_back [OF assms(1) 1(1)] by blast
  ultimately show ?thesis using ba.wr_rd_roundtrip [OF assms] by blast
qed

theorem write_read_roundtrip_witness:
  "\<exists>ba1 ba2 ba3. write_ba [1, 2, 3, 4, 5] (new_ByteArray (\<lambda>_. 0) 2) = Inr ba1
      \<and> setPosition 0 ba1 = Inr ba2 \<and> read_ba (length [1, 2, 3, 4, 5 :: byte]) ba2 = Inr ([1, 2, 3, 4, 5], ba3)"
  using write_read_roundtrip [OF new_ByteArray_inv [of 2 "\<lambda>_. 0", OF zero_less_numeral],
      of "[1, 2, 3, 4, 5]", OF list.simps(3)]
  unfolding new_ByteArray_fields by blast

text \<open>
  A read of a positive number of bytes succeeds exactly when that many bytes lie between the
  cursor and the end of the data; otherwise it raises \<open>out_of_range\<close> and returns nothing.
\<close>

theorem read_checks_size:
  assumes "ba_inv ba" "0 < n"
  shows "read_ba n ba = Inl (Out_of_range ''not enough len'') \<and> m_size ba < m_position ba + n
      \<or> (\<exists>ba'. read_ba n ba = Inr (slice_of (m_position ba) n (ba_data ba), ba') \<and> ba_inv ba'
          \<and> m_position ba' = m_position ba + n \<and> m_position ba' \<le> m_size ba'
          \<and> ba_data ba' = ba_data ba)"
proof (cases "m_size ba < m_position ba + n")
  case True
  then show ?thesis using read_ba_short [OF assms(1)] by simp
next
  case False
  then show ?thesis using read_ba_ok [OF assms] ba_invD(5) by fastforce
qed

theorem read_checks_size_witness:
  "read_ba 1 (new_ByteArray (\<lambda>_. 0) 2) = Inl (Out_of_range ''not enough len'')
     \<and> m_size (new_ByteArray (\<lambda>_. 0) 2) < 1"
  using read_checks_size [OF new_ByteArray_inv [of 2 "\<lambda>_. 0"], of 1]
  by (auto simp: read_ba_def getReadSize_def sub64_def)

end
