(* ===== verification/ByteArrayCodec.thy ===== *)
theory ByteArrayCodec
  imports ByteArray
begin

text \<open>
  The typed writes and reads of \<open>ByteArray\<close> (\<open>src/net/bytearray.cpp\<close>): fixed-width integers in the
  buffer's byte order, variable-length integers of seven bits per byte, zigzag coding of signed
  values, floating-point values by their bit patterns, and length-prefixed strings. A signed
  \<open>intN_t\<close> is its two's-complement word. \<open>bo\<close> is the host's byte order, \<open>FISHJOY_BYTE_ORDER\<close>.
\<close>

subsection \<open>Fixed width\<close>

definition writeFint8 :: "u8 \<Rightarrow> bytearray \<Rightarrow> bytearray result" where
  "writeFint8 v ba = write_ba [v] ba"

definition writeFuint8 :: "u8 \<Rightarrow> bytearray \<Rightarrow> bytearray result" where
  "writeFuint8 v ba = write_ba [v] ba"

definition writeFint16 :: "nat \<Rightarrow> u16 \<Rightarrow> bytearray \<Rightarrow> bytearray result" where
  "writeFint16 bo v ba =
     (let v' = (if m_endian ba \<noteq> bo then byteswap16 v else v) in write_ba (host_bytes bo 2 v') ba)"

definition writeFuint16 :: "nat \<Rightarrow> u16 \<Rightarrow> bytearray \<Rightarrow> bytearray result" where
  "writeFuint16 bo v ba =
     (let v' = (if m_endian ba \<noteq> bo then byteswap16 v else v) in write_ba (host_bytes bo 2 v') ba)"

definition writeFint32 :: "nat \<Rightarrow> u32 \<Rightarrow> bytearray \<Rightarrow> bytearray result" where
  "writeFint32 bo v ba =
     (let v' = (if m_endian ba \<noteq> bo then byteswap32 v else v) in write_ba (host_bytes bo 4 v') ba)"

definition writeFuint32 :: "nat \<Rightarrow> u32 \<Rightarrow> bytearray \<Rightarrow> bytearray result" where
  "writeFuint32 bo v ba =
     (let v' = (if m_endian ba \<noteq> bo then byteswap32 v else v) in write_ba (host_bytes bo 4 v') ba)"

definition writeFint64 :: "nat \<Rightarrow> u64 \<Rightarrow> bytearray \<Rightarrow> bytearray result" where
  "writeFint64 bo v ba =
     (let v' = (if m_endian ba \<noteq> bo then byteswap64 v else v) in write_ba (host_bytes bo 8 v') ba)"

definition writeFuint64 :: "nat \<Rightarrow> u64 \<Rightarrow> bytearray \<Rightarrow> bytearray result" where
  "writeFuint64 bo v ba =
     (let v' = (if m_endian ba \<noteq> bo then byteswap64 v else v) in write_ba (host_bytes bo 8 v') ba)"

definition readFint8 :: "bytearray \<Rightarrow> (u8 \<times> bytearray) result" where
  "readFint8 ba = rbind (read_ba 1 ba) (\<lambda>(bs, ba'). Inr (of_le_bytes bs, ba'))"

definition readFuint8 :: "bytearray \<Rightarrow> (u8 \<times> bytearray) result" where
  "readFuint8 ba = rbind (read_ba 1 ba) (\<lambda>(bs, ba'). Inr (of_le_bytes bs, ba'))"

definition readFint16 :: "nat \<Rightarrow> bytearray \<Rightarrow> (u16 \<times> bytearray) result" where
  "readFint16 bo ba = rbind (read_ba 2 ba) (\<lambda>(bs, ba').
     let v = of_host_bytes bo bs in Inr (if m_endian ba' = bo then v else byteswap16 v, ba'))"

definition readFuint16 :: "nat \<Rightarrow> bytearray \<Rightarrow> (u16 \<times> bytearray) result" where
  "readFuint16 bo ba = rbind (read_ba 2 ba) (\<lambda>(bs, ba').
     let v = of_host_bytes bo bs in Inr (if m_endian ba' = bo then v else byteswap16 v, ba'))"

definition readFint32 :: "nat \<Rightarrow> bytearray \<Rightarrow> (u32 \<times> bytearray) result" where
  "readFint32 bo ba = rbind (read_ba 4 ba) (\<lambda>(bs, ba').
     let v = of_host_bytes bo bs in Inr (if m_endian ba' = bo then v else byteswap32 v, ba'))"

definition readFuint32 :: "nat \<Rightarrow> bytearray \<Rightarrow> (u32 \<times> bytearray) result" where
  "readFuint32 bo ba = rbind (read_ba 4 ba) (\<lambda>(bs, ba').
     let v = of_host_bytes bo bs in Inr (if m_endian ba' = bo then v else byteswap32 v, ba'))"

definition readFint64 :: "nat \<Rightarrow> bytearray \<Rightarrow> (u64 \<times> bytearray) result" where
  "readFint64 bo ba = rbind (read_ba 8 ba) (\<lambda>(bs, ba').
     let v = of_host_bytes bo bs in Inr (if m_endian ba' = bo then v else byteswap64 v, ba'))"

definition readFuint64 :: "nat \<Rightarrow> bytearray \<Rightarrow> (u64 \<times> bytearray) result" where
  "readFuint64 bo ba = rbind (read_ba 8 ba) (\<lambda>(bs, ba').
     let v = of_host_bytes bo bs in Inr (if m_endian ba' = bo then v else byteswap64 v, ba'))"

subsection \<open>Zigzag coding\<close>

text \<open>
  The arithmetic is the two's-complement arithmetic the compilers generate: \<open>- v\<close> and \<open>v * 2\<close>
  on the signed type wrap at the word's width.
\<close>

definition EncodeZigzag32 :: "u32 \<Rightarrow> u32" where
  "EncodeZigzag32 v = (if sint v < 0 then (- v) * 2 - 1 else v * 2)"

definition EncodeZigzag64 :: "u64 \<Rightarrow> u64" where
  "EncodeZigzag64 v = (if sint v < 0 then (- v) * 2 - 1 else v * 2)"

definition DecodeZigzag32 :: "u32 \<Rightarrow> u32" where
  "DecodeZigzag32 v = drop_bit 1 v XOR - (v AND 1)"

definition DecodeZigzag64 :: "u64 \<Rightarrow> u64" where
  "DecodeZigzag64 v = drop_bit 1 v XOR - (v AND 1)"

subsection \<open>Variable length\<close>

text \<open>The contents the loop of \<open>writeUint32\<close> and \<open>writeUint64\<close> puts into \<open>tmp\<close>.\<close>

function varint_bytes :: "'a::len word \<Rightarrow> byte list" where
  "varint_bytes v =
     (if unat v \<ge> 128 then ucast ((v AND 127) OR 128) # varint_bytes (drop_bit 7 v) else [ucast v])"
  by pat_completeness auto
termination
  by (relation "measure unat") (auto simp: unat_drop_bit_div)

declare varint_bytes.simps [simp del]

definition writeUint32 :: "u32 \<Rightarrow> bytearray \<Rightarrow> bytearray result" where
  "writeUint32 v ba =
     (let tmp = varint_bytes v in if length tmp > 5 then Inl Bad_access else write_ba tmp ba)"

definition writeUint64 :: "u64 \<Rightarrow> bytearray \<Rightarrow> bytearray result" where
  "writeUint64 v ba =
     (let tmp = varint_bytes v in if length tmp > 10 then Inl Bad_access else write_ba tmp ba)"

definition writeInt32 :: "u32 \<Rightarrow> bytearray \<Rightarrow> bytearray result" where
  "writeInt32 v ba = writeUint32 (EncodeZigzag32 v) ba"

definition writeInt64 :: "u64 \<Rightarrow> bytearray \<Rightarrow> bytearray result" where
  "writeInt64 v ba = writeUint64 (EncodeZigzag64 v) ba"

text \<open>The loop of \<open>readUint32\<close> and \<open>readUint64\<close> at the result's width.\<close>

function readUint_loop :: "nat \<Rightarrow> 'a::len word \<Rightarrow> bytearray \<Rightarrow> ('a word \<times> bytearray) result" where
  "readUint_loop i r ba =
     (if i < LENGTH('a) then
        rbind (readFuint8 ba) (\<lambda>(b, ba').
          if unat b < 128 then Inr (r OR push_bit i (ucast b), ba')
          else readUint_loop (i + 7) (r OR push_bit i (ucast (b AND 127))) ba')
      else Inr (r, ba))"
  by pat_completeness auto
termination
  by (relation "measure (\<lambda>(i, r :: 'a word, ba). LENGTH('a) - i)") auto

declare readUint_loop.simps [simp del]

definition readUint32 :: "bytearray \<Rightarrow> (u32 \<times> bytearray) result" where
  "readUint32 ba = readUint_loop 0 0 ba"

definition readUint64 :: "bytearray \<Rightarrow> (u64 \<times> bytearray) result" where
  "readUint64 ba = readUint_loop 0 0 ba"

definition readInt32 :: "bytearray \<Rightarrow> (u32 \<times> bytearray) result" where
  "readInt32 ba = rbind (readUint32 ba) (\<lambda>(v, ba'). Inr (DecodeZigzag32 v, ba'))"

definition readInt64 :: "bytearray \<Rightarrow> (u64 \<times> bytearray) result" where
  "readInt64 ba = rbind (readUint64 ba) (\<lambda>(v, ba'). Inr (DecodeZigzag64 v, ba'))"

subsection \<open>Floating point, by bit patterns\<close>

definition writeFloat :: "nat \<Rightarrow> u32 \<Rightarrow> bytearray \<Rightarrow> bytearray result" where
  "writeFloat bo bits ba = writeFuint32 bo bits ba"

definition writeDouble :: "nat \<Rightarrow> u64 \<Rightarrow> bytearray \<Rightarrow> bytearray result" where
  "writeDouble bo bits ba = writeFuint64 bo bits ba"

definition readFloat :: "nat \<Rightarrow> bytearray \<Rightarrow> (u32 \<times> bytearray) result" where
  "readFloat bo ba = readFuint32 bo ba"

definition readDouble :: "nat \<Rightarrow> bytearray \<Rightarrow> (u64 \<times> bytearray) result" where
  "readDouble bo ba = readFuint64 bo ba"

subsection \<open>Strings\<close>

definition writeStringF16 :: "nat \<Rightarrow> byte list \<Rightarrow> bytearray \<Rightarrow> bytearray result" where
  "writeStringF16 bo str ba =
     rbind (writeFuint16 bo (of_nat (length str)) ba) (\<lambda>ba'. write_ba str ba')"

definition writeStringF32 :: "nat \<Rightarrow> byte list \<Rightarrow> bytearray \<Rightarrow> bytearray result" where
  "writeStringF32 bo str ba =
     rbind (writeFuint32 bo (of_nat (length str)) ba) (\<lambda>ba'. write_ba str ba')"

definition writeStringF64 :: "nat \<Rightarrow> byte list \<Rightarrow> bytearray \<Rightarrow> bytearray result" where
  "writeStringF64 bo str ba =
     rbind (writeFuint64 bo (of_nat (length str)) ba) (\<lambda>ba'. write_ba str ba')"

definition writeStringVint :: "byte list \<Rightarrow> bytearray \<Rightarrow> bytearray result" where
  "writeStringVint str ba = rbind (writeUint64 (of_nat (length str)) ba) (\<lambda>ba'. write_ba str ba')"

definition writeStringWithoutLength :: "byte list \<Rightarrow> bytearray \<Rightarrow> bytearray result" where
  "writeStringWithoutLength str ba = write_ba str ba"

definition readStringF16 :: "nat \<Rightarrow> bytearray \<Rightarrow> (byte list \<times> bytearray) result" where
  "readStringF16 bo ba = rbind (readFuint16 bo ba) (\<lambda>(len, ba'). read_ba (unat len) ba')"

definition readStringF32 :: "nat \<Rightarrow> bytearray \<Rightarrow> (byte list \<times> bytearray) result" where
  "readStringF32 bo ba = rbind (readFuint32 bo ba) (\<lambda>(len, ba'). read_ba (unat len) ba')"

definition readStringF64 :: "nat \<Rightarrow> bytearray \<Rightarrow> (byte list \<times> bytearray) result" where
  "readStringF64 bo ba = rbind (readFuint64 bo ba) (\<lambda>(len, ba'). read_ba (unat len) ba')"

definition readStringVint :: "bytearray \<Rightarrow> (byte list \<times> bytearray) result" where
  "readStringVint ba = rbind (readUint64 ba) (\<lambda>(len, ba'). read_ba (unat len) ba')"

subsection \<open>Zigzag coding is inverted\<close>

lemma decode_zigzag_word:
  fixes v :: "'a::len word"
  shows "(let e = (if sint v < 0 then (- v) * 2 - 1 else v * 2) in drop_bit 1 e XOR - (e AND 1)) = v"
proof (cases "sint v < 0")
  case True
  have e: "(- v) * 2 - 1 = NOT (2 * v)" by (simp add: not_eq_complement)
  have odd: "NOT (2 * v) AND 1 = 1" by (simp add: and_one_eq flip: odd_iff_mod_2_eq_one)
  have top: "bit v (LENGTH('a) - 1)" using True by (simp add: bit_last_iff)
  have "NOT (drop_bit 1 (NOT (2 * v))) = v"
  proof (rule bit_word_eqI)
    fix n assume "n < LENGTH('a)"
    then consider "Suc n < LENGTH('a)" | "n = LENGTH('a) - 1" by linarith
    then show "bit (NOT (drop_bit 1 (NOT (2 * v)))) n = bit v n"
      using top by cases (auto simp: bit_simps bit_double_iff)
  qed
  then show ?thesis using True unfolding e odd Let_def by (simp only: if_True odd) simp
next
  case False
  have e: "v * 2 = 2 * v" by simp
  have even: "2 * v AND 1 = 0" by (simp add: and_one_eq flip: even_iff_mod_2_eq_zero)
  have top: "\<not> bit v (LENGTH('a) - 1)" using False by (simp add: bit_last_iff)
  have "drop_bit 1 (2 * v) = v"
  proof (rule bit_word_eqI)
    fix n assume "n < LENGTH('a)"
    then consider "Suc n < LENGTH('a)" | "n = LENGTH('a) - 1" by linarith
    then show "bit (drop_bit 1 (2 * v)) n = bit v n"
      using top by cases (auto simp: bit_simps bit_double_iff)
  qed
  then show ?thesis using False unfolding e even Let_def by (simp only: if_False even) simp
qed

lemma DecodeZigzag_EncodeZigzag:
  "DecodeZigzag32 (EncodeZigzag32 v) = v" "DecodeZigzag64 (EncodeZigzag64 w) = w"
  using decode_zigzag_word [of v] decode_zigzag_word [of w]
  by (simp_all add: DecodeZigzag32_def EncodeZigzag32_def DecodeZigzag64_def EncodeZigzag64_def Let_def)


subsection \<open>Variable-length coding is inverted\<close>

lemma length_varint_bytes: "unat v < 2 ^ (7 * n) \<Longrightarrow> 0 < n \<Longrightarrow> length (varint_bytes v) \<le> n"
proof (induction v arbitrary: n rule: varint_bytes.induct)
  case (1 v)
  show ?case
  proof (cases "unat v \<ge> 128")
    case True
    with 1(2) obtain m where m: "n = Suc m" "0 < m"
      by (cases n) (auto, cases "n - 1", auto)
    have "unat (drop_bit 7 v) < 2 ^ (7 * m)"
      using 1(2) m by (simp add: unat_drop_bit_div power_add less_mult_imp_div_less mult.commute)
    with 1(1) [OF True, of m] m True show ?thesis by (simp add: varint_bytes.simps [of v])
  next
    case False
    with 1(3) show ?thesis by (simp add: varint_bytes.simps [of v])
  qed
qed

lemma varint_bytes_nonempty [simp]: "varint_bytes v \<noteq> []"
  by (subst varint_bytes.simps) simp

lemma length_varint_bytes_32: "length (varint_bytes (v :: u32)) \<le> 5"
proof -
  have "unat v < 2 ^ 32" using unsigned_less [of v] by simp
  also have "(2::nat) ^ 32 \<le> 2 ^ (7 * 5)" by simp
  finally show ?thesis by (rule length_varint_bytes) simp
qed

lemma length_varint_bytes_64: "length (varint_bytes (v :: u64)) \<le> 10"
proof -
  have "unat v < 2 ^ 64" using unsigned_less [of v] by simp
  also have "(2::nat) ^ 64 \<le> 2 ^ (7 * 10)" by simp
  finally show ?thesis by (rule length_varint_bytes) simp
qed

lemma of_le_bytes_single [simp]: "of_le_bytes [b] = (b :: u8)"
  by simp

lemma readFuint8_next:
  assumes "ba_inv ba" "next_bytes (ba_data ba) (m_position ba) (b # rest)"
  shows "\<exists>ba'. readFuint8 ba = Inr (b, ba') \<and> ba_inv ba' \<and> m_position ba' = m_position ba + 1
      \<and> ba_data ba' = ba_data ba \<and> m_endian ba' = m_endian ba
      \<and> next_bytes (ba_data ba') (m_position ba') rest"
  using ba.rd_next [OF assms(1), of "[b]" rest] assms(2) by (auto simp: readFuint8_def)

lemma bit_128: "bit (128 :: 'a::len word) n \<longleftrightarrow> n = 7 \<and> 7 < LENGTH('a)"
  using bit_exp_iff [of 7 n, where 'a = "'a word"] by auto

lemma varint_group:
  fixes v :: "'a::len word"
  shows "ucast (ucast ((v AND 127) OR 128) AND (127 :: u8)) OR push_bit 7 (drop_bit 7 v) = v"
proof -
  have m: "(127 :: 'a word) = mask 7" "(127 :: u8) = mask 7" by (simp_all add: mask_eq_exp_minus_1)
  show ?thesis unfolding m
  proof (rule bit_word_eqI)
    fix n assume "n < LENGTH('a)"
    then show "bit (ucast (ucast ((v AND mask 7) OR 128) AND (mask 7 :: u8)) OR push_bit 7 (drop_bit 7 v)) n
        = bit v n"
      by (cases "n < 7") (auto simp only: bit_simps bit_128, auto)
  qed
qed

lemma varint_step:
  fixes r v :: "'a::len word"
  shows "(r OR push_bit i (ucast (ucast ((v AND 127) OR 128) AND (127 :: u8))))
      OR push_bit (i + 7) (drop_bit 7 v) = r OR push_bit i v"
proof -
  have "push_bit (i + 7) (drop_bit 7 v) = push_bit i (push_bit 7 (drop_bit 7 v))" by (simp add: push_bit_push_bit)
  then show ?thesis
    using varint_group [of v] by (simp only: or.assoc flip: push_bit_or)
qed

lemma varint_byte_high:
  fixes v :: "'a::len word"
  assumes "unat v \<ge> 128"
  shows "unat (ucast ((v AND 127) OR 128) :: u8) \<ge> 128"
proof -
  have len: "7 < LENGTH('a)"
  proof (rule ccontr)
    assume "\<not> 7 < LENGTH('a)"
    then have "(2::nat) ^ LENGTH('a) \<le> 2 ^ 7" by (intro power_increasing) auto
    moreover have "unat v < 2 ^ LENGTH('a)" by simp
    ultimately show False using assms by simp
  qed
  have "bit (ucast ((v AND 127) OR 128) :: u8) 7" using len by (simp add: bit_simps bit_128)
  then show ?thesis using bit_unat_less [of "ucast ((v AND 127) OR 128) :: u8" 7 7] by fastforce
qed

lemma readUint_loop_varint:
  fixes v r :: "'a::len word"
  assumes "ba_inv ba" "next_bytes (ba_data ba) (m_position ba) (varint_bytes v @ rest)"
    and "i < LENGTH('a)" "unat v < 2 ^ (LENGTH('a) - i)"
  shows "\<exists>ba'. readUint_loop i r ba = Inr (r OR push_bit i v, ba') \<and> ba_inv ba'
      \<and> m_position ba' = m_position ba + length (varint_bytes v)
      \<and> ba_data ba' = ba_data ba \<and> m_endian ba' = m_endian ba
      \<and> next_bytes (ba_data ba') (m_position ba') rest"
  using assms
proof (induction v arbitrary: i r ba rule: varint_bytes.induct)
  case (1 v)
  show ?case
  proof (cases "unat v \<ge> 128")
    case True
    let ?b = "ucast ((v AND 127) OR 128) :: u8"
    have bytes: "varint_bytes v = ?b # varint_bytes (drop_bit 7 v)"
      using True by (simp add: varint_bytes.simps [of v])
    obtain ba1 where r1: "readFuint8 ba = Inr (?b, ba1)" "ba_inv ba1" "ba_data ba1 = ba_data ba"
        "m_endian ba1 = m_endian ba" "m_position ba1 = m_position ba + 1"
        "next_bytes (ba_data ba1) (m_position ba1) (varint_bytes (drop_bit 7 v) @ rest)"
      using readFuint8_next [OF 1(2), of ?b "varint_bytes (drop_bit 7 v) @ rest"] 1(3) bytes by auto
    have "(2::nat) ^ 7 < 2 ^ (LENGTH('a) - i)" using True 1(5) by simp
    then have i7: "i + 7 < LENGTH('a)" by (simp only: power_strict_increasing_iff)
    have "2 ^ (LENGTH('a) - i) = (2::nat) ^ (LENGTH('a) - (i + 7)) * 2 ^ 7"
      using i7 by (simp only: flip: power_add) simp
    then have small: "unat (drop_bit 7 v) < 2 ^ (LENGTH('a) - (i + 7))"
      using 1(5) by (simp only: unat_drop_bit_div less_mult_imp_div_less)
    have "readUint_loop i r ba = readUint_loop (i + 7) (r OR push_bit i (ucast (?b AND 127))) ba1"
      using r1(1) 1(4) varint_byte_high [OF True] by (subst readUint_loop.simps) simp
    then show ?thesis
      using 1(1) [OF True r1(2,6) i7 small, of "r OR push_bit i (ucast (?b AND 127))"] r1 bytes
      unfolding varint_step by auto
  next
    case False
    have bytes: "varint_bytes v = [ucast v]" using False by (simp add: varint_bytes.simps [of v])
    have small: "unat v < 2 ^ 7" using False by simp
    have "ucast (ucast v :: u8) = v"
      by (rule bit_word_eqI) (auto simp: bit_simps dest: bit_unat_less [OF small])
    moreover have "unat (ucast v :: u8) < 128"
      using False by (simp add: unsigned_ucast_eq take_bit_eq_mod)
    ultimately show ?thesis
      using readFuint8_next [OF 1(2), of "ucast v" rest] 1(3,4) bytes
      by (auto simp: readUint_loop.simps [of i])
  qed
qed


subsection \<open>The contract of a codec\<close>

text \<open>
  A write operation and a read operation of the buffer agree on a representation: the write
  stores the representation of a value at the cursor; the read, started where such a
  representation lies ahead, returns the value and stops right behind it. \<open>fits\<close> restricts the
  values (the strings whose length fits the prefix).
\<close>

fun write_seq :: "('v \<Rightarrow> 's \<Rightarrow> 's result) \<Rightarrow> 'v list \<Rightarrow> 's \<Rightarrow> 's result" where
  "write_seq w [] s = Inr s"
| "write_seq w (v # vs) s = rbind (w v s) (write_seq w vs)"

fun read_seq :: "('s \<Rightarrow> ('v \<times> 's) result) \<Rightarrow> nat \<Rightarrow> 's \<Rightarrow> ('v list \<times> 's) result" where
  "read_seq r 0 s = Inr ([], s)"
| "read_seq r (Suc n) s =
     rbind (r s) (\<lambda>(v, s'). rbind (read_seq r n s') (\<lambda>(vs, s''). Inr (v # vs, s'')))"

locale codec =
  fixes wtr :: "'v \<Rightarrow> bytearray \<Rightarrow> bytearray result"
    and rdr :: "bytearray \<Rightarrow> ('v \<times> bytearray) result"
    and repr :: "nat \<Rightarrow> 'v \<Rightarrow> byte list"
    and fits :: "'v \<Rightarrow> bool"
  assumes wtr_ok: "ba_inv ba \<Longrightarrow> fits v \<Longrightarrow> \<exists>ba'. wtr v ba = Inr ba' \<and> ba_inv ba'
      \<and> m_position ba' = m_position ba + length (repr (m_endian ba) v)
      \<and> ba_data ba' = overwrite (m_position ba) (repr (m_endian ba) v) (ba_data ba)
      \<and> m_endian ba' = m_endian ba"
    and rdr_ok: "ba_inv ba \<Longrightarrow> fits v \<Longrightarrow>
      next_bytes (ba_data ba) (m_position ba) (repr (m_endian ba) v @ rest) \<Longrightarrow>
      \<exists>ba'. rdr ba = Inr (v, ba') \<and> ba_inv ba'
        \<and> m_position ba' = m_position ba + length (repr (m_endian ba) v)
        \<and> ba_data ba' = ba_data ba \<and> m_endian ba' = m_endian ba
        \<and> next_bytes (ba_data ba') (m_position ba') rest"
begin

lemma write_seq_ok:
  assumes "ba_inv ba" "\<forall>v \<in> set vs. fits v"
  shows "\<exists>ba'. write_seq wtr vs ba = Inr ba' \<and> ba_inv ba'
      \<and> m_position ba' = m_position ba + length (concat (map (repr (m_endian ba)) vs))
      \<and> ba_data ba' = overwrite (m_position ba) (concat (map (repr (m_endian ba)) vs)) (ba_data ba)
      \<and> m_endian ba' = m_endian ba"
  using assms
proof (induction vs arbitrary: ba)
  case Nil
  then show ?case by simp
next
  case (Cons v vs)
  obtain ba1 where 1: "wtr v ba = Inr ba1" "ba_inv ba1" "m_endian ba1 = m_endian ba"
      "m_position ba1 = m_position ba + length (repr (m_endian ba) v)"
      "ba_data ba1 = overwrite (m_position ba) (repr (m_endian ba) v) (ba_data ba)"
    using wtr_ok [OF Cons.prems(1)] Cons.prems(2) by auto
  have pos: "m_position ba \<le> length (ba_data ba)" by (rule ba.pos_le [OF Cons.prems(1)])
  show ?case
    using Cons.IH [OF 1(2)] Cons.prems(2) 1 overwrite_append [OF pos] by auto
qed

lemma read_seq_ok:
  assumes "ba_inv ba" "\<forall>v \<in> set vs. fits v"
    and "next_bytes (ba_data ba) (m_position ba) (concat (map (repr (m_endian ba)) vs) @ rest)"
  shows "\<exists>ba'. read_seq rdr (length vs) ba = Inr (vs, ba') \<and> ba_inv ba'
      \<and> m_position ba' = m_position ba + length (concat (map (repr (m_endian ba)) vs))
      \<and> ba_data ba' = ba_data ba"
  using assms
proof (induction vs arbitrary: ba)
  case Nil
  then show ?case by simp
next
  case (Cons v vs)
  obtain ba1 where 1: "rdr ba = Inr (v, ba1)" "ba_inv ba1" "m_endian ba1 = m_endian ba"
      "m_position ba1 = m_position ba + length (repr (m_endian ba) v)" "ba_data ba1 = ba_data ba"
      "next_bytes (ba_data ba1) (m_position ba1) (concat (map (repr (m_endian ba)) vs) @ rest)"
    using rdr_ok [OF Cons.prems(1), of v "concat (map (repr (m_endian ba)) vs) @ rest"] Cons.prems by auto
  show ?case
    using Cons.IH [OF 1(2)] Cons.prems(2) 1 by auto
qed

text \<open>Any sequence of values is read back after seeking to where it was written.\<close>

lemma seq_roundtrip:
  assumes "ba_inv ba" "\<forall>v \<in> set vs. fits v"
  shows "\<exists>ba1 ba2 ba3. write_seq wtr vs ba = Inr ba1 \<and> setPosition (m_position ba) ba1 = Inr ba2
      \<and> read_seq rdr (length vs) ba2 = Inr (vs, ba3) \<and> ba_inv ba3
      \<and> m_position ba3 = m_position ba1 \<and> ba_data ba3 = ba_data ba1"
proof -
  let ?bs = "concat (map (repr (m_endian ba)) vs)"
  obtain ba1 where 1: "write_seq wtr vs ba = Inr ba1" "ba_inv ba1" "m_endian ba1 = m_endian ba"
      "m_position ba1 = m_position ba + length ?bs"
      "ba_data ba1 = overwrite (m_position ba) ?bs (ba_data ba)"
    using write_seq_ok [OF assms] by blast
  have pos: "m_position ba \<le> length (ba_data ba)" by (rule ba.pos_le [OF assms(1)])
  have "m_position ba \<le> length (ba_data ba1)"
    unfolding 1(5) using pos by (simp add: length_overwrite)
  then obtain ba2 where 2: "setPosition (m_position ba) ba1 = Inr ba2" "ba_inv ba2"
      "m_endian ba2 = m_endian ba" "m_position ba2 = m_position ba" "ba_data ba2 = ba_data ba1"
    using ba.seek_ok [OF 1(2)] 1(3) by metis
  have "next_bytes (ba_data ba2) (m_position ba2) (concat (map (repr (m_endian ba2)) vs) @ [])"
    using next_bytes_overwrite [OF pos, of ?bs] 2 1(5) by simp
  then show ?thesis
    using read_seq_ok [OF 2(2) assms(2), of "[]"] 1 2 by auto
qed

lemma roundtrip:
  assumes "ba_inv ba" "fits v"
  shows "\<exists>ba1 ba2 ba3. wtr v ba = Inr ba1 \<and> setPosition (m_position ba) ba1 = Inr ba2
      \<and> rdr ba2 = Inr (v, ba3) \<and> ba_inv ba3 \<and> m_position ba3 = m_position ba1"
  using seq_roundtrip [OF assms(1), of "[v]"] assms(2) by (auto simp: result_simps)

end


subsection \<open>The typed operations are codecs\<close>

lemma codecI:
  assumes "\<And>ba v. ba_inv ba \<Longrightarrow> fits v \<Longrightarrow> wtr v ba = write_ba (repr (m_endian ba) v) ba"
    and "\<And>ba v. ba_inv ba \<Longrightarrow> fits v \<Longrightarrow> repr (m_endian ba) v \<noteq> []"
    and "\<And>ba v ba'. ba_inv ba \<Longrightarrow> fits v \<Longrightarrow> m_endian ba' = m_endian ba \<Longrightarrow>
      read_ba (length (repr (m_endian ba) v)) ba = Inr (repr (m_endian ba) v, ba') \<Longrightarrow> rdr ba = Inr (v, ba')"
  shows "codec wtr rdr repr fits"
proof
  fix ba v
  assume "ba_inv ba" "fits v"
  then show "\<exists>ba'. wtr v ba = Inr ba' \<and> ba_inv ba'
      \<and> m_position ba' = m_position ba + length (repr (m_endian ba) v)
      \<and> ba_data ba' = overwrite (m_position ba) (repr (m_endian ba) v) (ba_data ba)
      \<and> m_endian ba' = m_endian ba"
    using ba.wr_ok [of ba "repr (m_endian ba) v"] assms(1) by simp
next
  fix ba v rest
  assume A: "ba_inv ba" "fits v" "next_bytes (ba_data ba) (m_position ba) (repr (m_endian ba) v @ rest)"
  show "\<exists>ba'. rdr ba = Inr (v, ba') \<and> ba_inv ba'
        \<and> m_position ba' = m_position ba + length (repr (m_endian ba) v)
        \<and> ba_data ba' = ba_data ba \<and> m_endian ba' = m_endian ba
        \<and> next_bytes (ba_data ba') (m_position ba') rest"
    using ba.rd_next [OF A(1) assms(2) [OF A(1,2)] A(3)] assms(3) [OF A(1,2)] by blast
qed

lemma host_bytes_nonempty [simp]: "0 < n \<Longrightarrow> host_bytes bo n w \<noteq> []"
  by (metis length_host_bytes length_0_conv less_irrefl)

lemma codec_fixed:
  assumes "valid_order bo"
  shows "codec (writeFuint16 bo) (readFuint16 bo) (\<lambda>e. host_bytes e 2) (\<lambda>_. True)"
    and "codec (writeFint16 bo) (readFint16 bo) (\<lambda>e. host_bytes e 2) (\<lambda>_. True)"
    and "codec (writeFuint32 bo) (readFuint32 bo) (\<lambda>e. host_bytes e 4) (\<lambda>_. True)"
    and "codec (writeFint32 bo) (readFint32 bo) (\<lambda>e. host_bytes e 4) (\<lambda>_. True)"
    and "codec (writeFuint64 bo) (readFuint64 bo) (\<lambda>e. host_bytes e 8) (\<lambda>_. True)"
    and "codec (writeFint64 bo) (readFint64 bo) (\<lambda>e. host_bytes e 8) (\<lambda>_. True)"
  using host_bytes_swapped [OF assms] of_host_bytes_swapped [OF assms]
  by (auto intro!: codecI dest!: ba_invD(9)
      simp: writeFuint16_def writeFint16_def writeFuint32_def writeFint32_def writeFuint64_def
        writeFint64_def readFuint16_def readFint16_def readFuint32_def readFint32_def
        readFuint64_def readFint64_def Let_def)

lemma codec_float:
  assumes "valid_order bo"
  shows "codec (writeFloat bo) (readFloat bo) (\<lambda>e. host_bytes e 4) (\<lambda>_. True)"
    and "codec (writeDouble bo) (readDouble bo) (\<lambda>e. host_bytes e 8) (\<lambda>_. True)"
  using codec_fixed(3,5) [OF assms]
  by (simp_all add: codec_def writeFloat_def readFloat_def writeDouble_def readDouble_def)

interpretation u8: codec writeFuint8 readFuint8 "\<lambda>_ v. [v]" "\<lambda>_. True"
  by (rule codecI) (simp_all add: writeFuint8_def readFuint8_def)

interpretation i8: codec writeFint8 readFint8 "\<lambda>_ v. [v]" "\<lambda>_. True"
  by (rule codecI) (simp_all add: writeFint8_def readFint8_def)

lemma writeUint_eq:
  "writeUint32 v ba = write_ba (varint_bytes v) ba" "writeUint64 w ba = write_ba (varint_bytes w) ba"
  using length_varint_bytes_32 [of v] length_varint_bytes_64 [of w]
  by (simp_all add: writeUint32_def writeUint64_def)

interpretation vu32: codec writeUint32 readUint32 "\<lambda>_. varint_bytes" "\<lambda>_. True"
proof
  fix ba :: bytearray and v :: u32 and rest
  assume "ba_inv ba" "next_bytes (ba_data ba) (m_position ba) (varint_bytes v @ rest)"
  then show "\<exists>ba'. readUint32 ba = Inr (v, ba') \<and> ba_inv ba'
      \<and> m_position ba' = m_position ba + length (varint_bytes v) \<and> ba_data ba' = ba_data ba
      \<and> m_endian ba' = m_endian ba \<and> next_bytes (ba_data ba') (m_position ba') rest"
    using readUint_loop_varint [of ba v rest 0 0] unsigned_less [of v, where 'a = nat]
    by (simp add: readUint32_def)
qed (use ba.wr_ok in \<open>simp add: writeUint_eq\<close>)

interpretation vu64: codec writeUint64 readUint64 "\<lambda>_. varint_bytes" "\<lambda>_. True"
proof
  fix ba :: bytearray and v :: u64 and rest
  assume "ba_inv ba" "next_bytes (ba_data ba) (m_position ba) (varint_bytes v @ rest)"
  then show "\<exists>ba'. readUint64 ba = Inr (v, ba') \<and> ba_inv ba'
      \<and> m_position ba' = m_position ba + length (varint_bytes v) \<and> ba_data ba' = ba_data ba
      \<and> m_endian ba' = m_endian ba \<and> next_bytes (ba_data ba') (m_position ba') rest"
    using readUint_loop_varint [of ba v rest 0 0] unsigned_less [of v, where 'a = nat]
    by (simp add: readUint64_def)
qed (use ba.wr_ok in \<open>simp add: writeUint_eq\<close>)

interpretation vi32: codec writeInt32 readInt32 "\<lambda>_ v. varint_bytes (EncodeZigzag32 v)" "\<lambda>_. True"
proof
  fix ba :: bytearray and v rest
  assume "ba_inv ba" "next_bytes (ba_data ba) (m_position ba) (varint_bytes (EncodeZigzag32 v) @ rest)"
  then show "\<exists>ba'. readInt32 ba = Inr (v, ba') \<and> ba_inv ba'
      \<and> m_position ba' = m_position ba + length (varint_bytes (EncodeZigzag32 v))
      \<and> ba_data ba' = ba_data ba \<and> m_endian ba' = m_endian ba
      \<and> next_bytes (ba_data ba') (m_position ba') rest"
    using vu32.rdr_ok [of ba "EncodeZigzag32 v" rest]
    by (auto simp: readInt32_def DecodeZigzag_EncodeZigzag)
qed (use ba.wr_ok in \<open>simp add: writeInt32_def writeUint_eq\<close>)

interpretation vi64: codec writeInt64 readInt64 "\<lambda>_ v. varint_bytes (EncodeZigzag64 v)" "\<lambda>_. True"
proof
  fix ba :: bytearray and v rest
  assume "ba_inv ba" "next_bytes (ba_data ba) (m_position ba) (varint_bytes (EncodeZigzag64 v) @ rest)"
  then show "\<exists>ba'. readInt64 ba = Inr (v, ba') \<and> ba_inv ba'
      \<and> m_position ba' = m_position ba + length (varint_bytes (EncodeZigzag64 v))
      \<and> ba_data ba' = ba_data ba \<and> m_endian ba' = m_endian ba
      \<and> next_bytes (ba_data ba') (m_position ba') rest"
    using vu64.rdr_ok [of ba "EncodeZigzag64 v" rest]
    by (auto simp: readInt64_def DecodeZigzag_EncodeZigzag)
qed (use ba.wr_ok in \<open>simp add: writeInt64_def writeUint_eq\<close>)


text \<open>
  A length-prefixed string is a codec whenever its prefix is one. The empty string is left out:
  reading zero bytes dereferences \<open>m_cur\<close>, which is null at the end of the capacity.
\<close>

lemma codec_string:
  fixes lw :: "'l::len word \<Rightarrow> bytearray \<Rightarrow> bytearray result"
  assumes len: "codec lw lr lrep (\<lambda>_. True)"
    and w: "\<And>str ba. wtr str ba = rbind (lw (of_nat (length str)) ba) (write_ba str)"
    and r: "\<And>ba. rdr ba = rbind (lr ba) (\<lambda>(n, ba'). read_ba (unat n) ba')"
  shows "codec wtr rdr (\<lambda>e str. lrep e (of_nat (length str)) @ str)
      (\<lambda>str. str \<noteq> [] \<and> length str < 2 ^ LENGTH('l))"
proof
  fix ba :: bytearray and str :: "byte list"
  assume inv: "ba_inv ba"
  let ?l = "lrep (m_endian ba) (of_nat (length str))"
  obtain ba1 where 1: "lw (of_nat (length str)) ba = Inr ba1" "ba_inv ba1" "m_endian ba1 = m_endian ba"
      "m_position ba1 = m_position ba + length ?l"
      "ba_data ba1 = overwrite (m_position ba) ?l (ba_data ba)"
    using codec.wtr_ok [OF len inv] by blast
  show "\<exists>ba'. wtr str ba = Inr ba' \<and> ba_inv ba' \<and> m_position ba' = m_position ba + length (?l @ str)
      \<and> ba_data ba' = overwrite (m_position ba) (?l @ str) (ba_data ba) \<and> m_endian ba' = m_endian ba"
    using ba.wr_ok [OF 1(2), of str] 1 w overwrite_append [OF ba.pos_le [OF inv], of ?l str] by auto
next
  fix ba :: bytearray and str :: "byte list" and rest
  let ?l = "lrep (m_endian ba) (of_nat (length str))"
  assume inv: "ba_inv ba" and str: "str \<noteq> [] \<and> length str < 2 ^ LENGTH('l)"
    and nxt: "next_bytes (ba_data ba) (m_position ba) ((?l @ str) @ rest)"
  obtain ba1 where 1: "lr ba = Inr (of_nat (length str), ba1)" "ba_inv ba1" "m_endian ba1 = m_endian ba"
      "m_position ba1 = m_position ba + length ?l" "ba_data ba1 = ba_data ba"
      "next_bytes (ba_data ba1) (m_position ba1) (str @ rest)"
    using codec.rdr_ok [OF len inv, of "of_nat (length str)" "str @ rest"] nxt by auto
  have "unat (of_nat (length str) :: 'l word) = length str" using str by (simp add: unat_of_nat)
  then show "\<exists>ba'. rdr ba = Inr (str, ba') \<and> ba_inv ba'
      \<and> m_position ba' = m_position ba + length (?l @ str) \<and> ba_data ba' = ba_data ba
      \<and> m_endian ba' = m_endian ba \<and> next_bytes (ba_data ba') (m_position ba') rest"
    using ba.rd_next [OF 1(2) _ 1(6)] str 1 r by auto
qed

lemmas codec_strings =
  codec_string [OF codec_fixed(1) writeStringF16_def readStringF16_def]
  codec_string [OF codec_fixed(3) writeStringF32_def readStringF32_def]
  codec_string [OF codec_fixed(5) writeStringF64_def readStringF64_def]

interpretation svint: codec writeStringVint readStringVint
    "\<lambda>_ str. varint_bytes (of_nat (length str) :: u64) @ str" "\<lambda>str. str \<noteq> [] \<and> length str < 2 ^ 64"
  using codec_string [OF vu64.codec_axioms writeStringVint_def readStringVint_def] by simp

subsection \<open>Properties\<close>

text \<open>
  Fixed-width values are portable between hosts. A 64-bit value written on a host of any byte
  order and read on a host of any other order from a buffer with the same content and mode is the
  value written; the bytes stored depend on the buffer's mode only.
\<close>

theorem fixed64_portable:
  assumes "ba_inv ba" "valid_order bo" "valid_order bo'"
  shows "\<exists>ba1 ba2 ba3. writeFuint64 bo v ba = Inr ba1
      \<and> ba_data ba1 = overwrite (m_position ba) (host_bytes (m_endian ba) 8 v) (ba_data ba)
      \<and> setPosition (m_position ba) ba1 = Inr ba2
      \<and> readFuint64 bo' ba2 = Inr (v, ba3) \<and> m_position ba3 = m_position ba + 8"
proof -
  note W = codec_fixed(5) [OF assms(2)] and R = codec_fixed(5) [OF assms(3)]
  obtain ba1 where 1: "writeFuint64 bo v ba = Inr ba1" "ba_inv ba1" "m_endian ba1 = m_endian ba"
      "ba_data ba1 = overwrite (m_position ba) (host_bytes (m_endian ba) 8 v) (ba_data ba)"
    using codec.wtr_ok [OF W assms(1)] by blast
  have pos: "m_position ba \<le> length (ba_data ba)" by (rule ba.pos_le [OF assms(1)])
  then have "m_position ba \<le> length (ba_data ba1)" unfolding 1(4) by (simp add: length_overwrite)
  then obtain ba2 where 2: "setPosition (m_position ba) ba1 = Inr ba2" "ba_inv ba2"
      "m_endian ba2 = m_endian ba" "m_position ba2 = m_position ba" "ba_data ba2 = ba_data ba1"
    using ba.seek_ok [OF 1(2)] 1(3) by metis
  have "next_bytes (ba_data ba2) (m_position ba2) (host_bytes (m_endian ba2) 8 v @ [])"
    using next_bytes_overwrite [OF pos] 2 1(4) by simp
  then show ?thesis using codec.rdr_ok [OF R 2(2), of v "[]"] 1 2 by auto
qed

theorem fixed64_portable_witness:
  "\<exists>ba1 ba2 ba3. writeFuint64 FISHJOY_LITTLE_ENDIAN 258 (new_ByteArray (\<lambda>_. 0) 3) = Inr ba1
      \<and> setPosition 0 ba1 = Inr ba2 \<and> readFuint64 FISHJOY_BIG_ENDIAN ba2 = Inr (258, ba3)"
  using fixed64_portable [OF new_ByteArray_inv [of 3 "\<lambda>_. 0"],
      of FISHJOY_LITTLE_ENDIAN FISHJOY_BIG_ENDIAN 258]
  by (auto simp: valid_order_def)

text \<open>
  C20: variable-length signed integers round-trip. Any sequence of 64-bit values written with
  \<open>writeInt64\<close> (zigzag, then seven bits per byte) is read back by as many \<open>readInt64\<close> calls after
  seeking to its start, and the cursor ends where the writes ended.
\<close>

theorem varint64_sequence_roundtrip:
  assumes "ba_inv ba"
  shows "\<exists>ba1 ba2 ba3. write_seq writeInt64 vs ba = Inr ba1 \<and> setPosition (m_position ba) ba1 = Inr ba2
      \<and> read_seq readInt64 (length vs) ba2 = Inr (vs, ba3) \<and> ba_inv ba3
      \<and> m_position ba3 = m_position ba1 \<and> ba_data ba3 = ba_data ba1
      \<and> m_position ba1 \<le> m_position ba + 10 * length vs"
proof -
  have "length (concat (map (\<lambda>v. varint_bytes (EncodeZigzag64 v)) vs)) \<le> 10 * length vs"
    by (induction vs) (use length_varint_bytes_64 in \<open>auto intro: add_mono\<close>)
  then show ?thesis
    using vi64.seq_roundtrip [OF assms, of vs] vi64.write_seq_ok [OF assms, of vs] by auto
qed

theorem varint64_sequence_roundtrip_witness:
  "\<exists>ba1 ba2 ba3. write_seq writeInt64 [300, -7] (new_ByteArray (\<lambda>_. 0) 2) = Inr ba1
      \<and> setPosition 0 ba1 = Inr ba2 \<and> read_seq readInt64 (length [300, -7 :: u64]) ba2 = Inr ([300, -7], ba3)"
  using varint64_sequence_roundtrip [OF new_ByteArray_inv [of 2 "\<lambda>_. 0"], of "[300, -7]"]
  unfolding new_ByteArray_fields by auto

text \<open>
  Length-prefixed strings round-trip: a sequence of non-empty byte strings written with
  \<open>writeStringVint\<close> is read back by \<open>readStringVint\<close>.
\<close>

theorem string_sequence_roundtrip:
  assumes "ba_inv ba" "\<forall>str \<in> set strs. str \<noteq> [] \<and> length str < 2 ^ 64"
  shows "\<exists>ba1 ba2 ba3. write_seq writeStringVint strs ba = Inr ba1
      \<and> setPosition (m_position ba) ba1 = Inr ba2
      \<and> read_seq readStringVint (length strs) ba2 = Inr (strs, ba3)
      \<and> m_position ba3 = m_position ba1"
  using svint.seq_roundtrip [OF assms] by blast

theorem string_sequence_roundtrip_witness:
  "\<exists>ba1 ba2 ba3. write_seq writeStringVint [[1, 2], [3]] (new_ByteArray (\<lambda>_. 0) 2) = Inr ba1
      \<and> setPosition 0 ba1 = Inr ba2 \<and> read_seq readStringVint (length [[1, 2], [3 :: byte]]) ba2 = Inr ([[1, 2], [3]], ba3)"
proof -
  have "\<forall>str \<in> set [[1, 2], [3 :: byte]]. str \<noteq> [] \<and> length str < 2 ^ 64" by simp
  from string_sequence_roundtrip [OF new_ByteArray_inv [of 2 "\<lambda>_. 0", OF zero_less_numeral] this]
  show ?thesis unfolding new_ByteArray_fields by blast
qed

text \<open>
  The empty string is the exception. In a buffer with room for exactly the two length bytes,
  the empty string written with \<open>writeStringF16\<close> cannot be read back: the cursor stands at the
  end of the capacity, \<open>m_cur\<close> is null and \<open>read\<close> dereferences it although no byte is wanted.
\<close>

theorem empty_string_read_faults:
  "rbind (writeStringF16 FISHJOY_LITTLE_ENDIAN [] (new_ByteArray f 2))
     (\<lambda>ba. rbind (setPosition 0 ba) (readStringF16 FISHJOY_LITTLE_ENDIAN)) = Inl Null_deref"
  by (simp add: writeStringF16_def writeFuint16_def readStringF16_def readFuint16_def write_ba_def
      read_ba_def setPosition_def new_ByteArray_def new_Node_def addCapacity_def getCapacity_def
      getReadSize_def FISHJOY_LITTLE_ENDIAN_def FISHJOY_BIG_ENDIAN_def host_bytes_def of_host_bytes_def
      byteswap16_def write_loop.simps read_loop.simps seek_loop.simps copy_in_def copy_out_def
      node_ptr_def sub64_def Let_def numeral_2_eq_2 overwrite_def slice_of_def)

end
