(* ===== verification/ByteArrayBuffers.thy ===== *)
theory ByteArrayBuffers
  imports ByteArray
begin

text \<open>
  The parts of \<open>src/net/bytearray.cpp\<close> that expose the buffer's memory: the scatter/gather
  vectors for \<open>recvmsg\<close> and \<open>sendmsg\<close>, the dump and restore through files, and the string forms.

  An \<open>iovec\<close> is (node, offset, length); the address \<open>cur->ptr + npos\<close> is the node's index and
  the offset. A file is the list of its bytes, and whether it can be opened is a parameter.
\<close>

type_synonym iovec = "nat \<times> nat \<times> nat"

subsection \<open>Scatter/gather vectors\<close>

function buffers_loop :: "byte list list \<Rightarrow> nat option \<Rightarrow> nat \<Rightarrow> nat \<Rightarrow> nat \<Rightarrow> iovec list result" where
  "buffers_loop nodes cur npos ncap len =
     (if len = 0 then Inr []
      else case deref nodes cur of Inl e \<Rightarrow> Inl e
        | Inr nd \<Rightarrow>
          if ncap \<ge> len then Inr [(the cur, npos, len)]
          else let cur' = node_next nodes cur in
            case deref nodes cur' of Inl e \<Rightarrow> Inl e
            | Inr nd2 \<Rightarrow> rbind (buffers_loop nodes cur' 0 (length nd2) (len - ncap))
                (\<lambda>iovs. Inr ((the cur, npos, ncap) # iovs)))"
  by pat_completeness auto
termination
  by (relation "measure (\<lambda>(nodes, cur, npos, ncap, len).
        case cur of None \<Rightarrow> 0 | Some i \<Rightarrow> length nodes - i)")
     (auto simp: deref_def node_next_def split: option.splits if_splits)

declare buffers_loop.simps [simp del]

definition getReadBuffers :: "iovec list \<Rightarrow> nat \<Rightarrow> bytearray \<Rightarrow> (nat \<times> iovec list) result" where
  "getReadBuffers buffers len0 ba =
     (let len = (if len0 > getReadSize ba then getReadSize ba else len0) in
      if len = 0 then Inr (0, buffers)
      else if m_baseSize ba = 0 then Inl Div_by_zero
      else let npos = m_position ba mod m_baseSize ba in
        rbind (deref (m_root ba) (m_cur ba)) (\<lambda>nd.
        rbind (buffers_loop (m_root ba) (m_cur ba) npos (sub64 (length nd) npos) len)
          (\<lambda>iovs. Inr (len, buffers @ iovs))))"

text \<open>The walk from \<open>m_root\<close> over \<open>count\<close> nodes in the overload with a position.\<close>

fun walk :: "byte list list \<Rightarrow> nat option \<Rightarrow> nat \<Rightarrow> nat option result" where
  "walk nodes cur 0 = Inr cur"
| "walk nodes cur (Suc count) = rbind (deref nodes cur) (\<lambda>_. walk nodes (node_next nodes cur) count)"

definition getReadBuffers_at :: "iovec list \<Rightarrow> nat \<Rightarrow> nat \<Rightarrow> bytearray \<Rightarrow> (nat \<times> iovec list) result" where
  "getReadBuffers_at buffers len0 position ba =
     (let len = (if len0 > getReadSize ba then getReadSize ba else len0) in
      if len = 0 then Inr (0, buffers)
      else if m_baseSize ba = 0 then Inl Div_by_zero
      else let npos = position mod m_baseSize ba in
        rbind (walk (m_root ba) (if m_root ba = [] then None else Some 0) (position div m_baseSize ba)) (\<lambda>cur.
        rbind (deref (m_root ba) cur) (\<lambda>nd.
        rbind (buffers_loop (m_root ba) cur npos (sub64 (length nd) npos) len)
          (\<lambda>iovs. Inr (len, buffers @ iovs)))))"

definition getWriteBuffers ::
  "iovec list \<Rightarrow> nat \<Rightarrow> bytearray \<Rightarrow> (nat \<times> iovec list \<times> bytearray) result" where
  "getWriteBuffers buffers len ba0 =
     (if len = 0 then Inr (0, buffers, ba0)
      else let ba = addCapacity len ba0 in
        if m_baseSize ba = 0 then Inl Div_by_zero
        else let npos = m_position ba mod m_baseSize ba in
          rbind (deref (m_root ba) (m_cur ba)) (\<lambda>nd.
          rbind (buffers_loop (m_root ba) (m_cur ba) npos (sub64 (length nd) npos) len)
            (\<lambda>iovs. Inr (len, buffers @ iovs, ba))))"

subsection \<open>Files\<close>

text \<open>
  The loop of \<open>writeToFile\<close>; a negative \<open>len\<close> breaks the precondition of \<open>ostream::write\<close>.
\<close>

function writeToFile_loop :: "byte list list \<Rightarrow> nat \<Rightarrow> nat option \<Rightarrow> nat \<Rightarrow> nat \<Rightarrow> byte list result" where
  "writeToFile_loop nodes base cur pos read_size =
     (if read_size > 0 then
        if base = 0 then Inl Div_by_zero
        else let diff = pos mod base; chunk = (if read_size > base then base else read_size) in
          if chunk < diff then Inl Bad_access
          else case deref nodes cur of Inl e \<Rightarrow> Inl e
            | Inr nd \<Rightarrow> rbind (copy_out nd diff (chunk - diff)) (\<lambda>out.
                rbind (writeToFile_loop nodes base (node_next nodes cur) (pos + (chunk - diff))
                         (read_size - (chunk - diff)))
                  (\<lambda>rest. Inr (out @ rest)))
      else Inr [])"
  by pat_completeness auto
termination
  by (relation "measure (\<lambda>(nodes, base, cur, pos, read_size).
        case cur of None \<Rightarrow> 0 | Some i \<Rightarrow> length nodes - i)")
     (auto simp: deref_def node_next_def split: option.splits if_splits)

declare writeToFile_loop.simps [simp del]

definition writeToFile :: "bool \<Rightarrow> bytearray \<Rightarrow> (bool \<times> byte list) result" where
  "writeToFile open_ok ba =
     (if \<not> open_ok then Inr (False, [])
      else rbind (writeToFile_loop (m_root ba) (m_baseSize ba) (m_cur ba) (m_position ba) (getReadSize ba))
        (\<lambda>out. Inr (True, out)))"

text \<open>
  The loop of \<open>readFromFile\<close>: a read that gets fewer than \<open>m_baseSize\<close> bytes sets the end-of-file
  flag. \<open>None\<close> stands for a loop that never ends.
\<close>

partial_function (option) readFromFile_loop :: "byte list \<Rightarrow> bytearray \<Rightarrow> bytearray result option" where
  "readFromFile_loop content ba =
     (case write_ba (take (m_baseSize ba) content) ba of
        Inl e \<Rightarrow> Some (Inl e)
      | Inr ba' \<Rightarrow>
          if length content < m_baseSize ba then Some (Inr ba')
          else readFromFile_loop (drop (m_baseSize ba) content) ba')"

definition readFromFile :: "byte list option \<Rightarrow> bytearray \<Rightarrow> (bool \<times> bytearray) result option" where
  "readFromFile file ba =
     (case file of None \<Rightarrow> Some (Inr (False, ba))
      | Some content \<Rightarrow>
          map_option (\<lambda>r. rbind r (\<lambda>ba'. Inr (True, ba'))) (readFromFile_loop content ba))"

subsection \<open>Hexadecimal form\<close>

definition hex_digit :: "nat \<Rightarrow> char" where
  "hex_digit n = (if n < 10 then char_of (48 + n) else char_of (87 + n))"

definition hex_byte :: "byte \<Rightarrow> string" where
  "hex_byte b = [hex_digit (unat b div 16), hex_digit (unat b mod 16), CHR '' '']"

fun hex_dump :: "nat \<Rightarrow> byte list \<Rightarrow> string" where
  "hex_dump i [] = []"
| "hex_dump i (b # bs) =
     (if i > 0 \<and> i mod 32 = 0 then [CHR 0x0A] else []) @ hex_byte b @ hex_dump (Suc i) bs"

definition toHexString :: "bytearray \<Rightarrow> string result" where
  "toHexString ba = rbind (toString ba) (\<lambda>str. Inr (hex_dump 0 str))"


subsection \<open>The vectors describe the flat range behind the cursor\<close>

text \<open>
  \<open>iov_covers k N a b iovs\<close>: over a chain of \<open>N\<close> nodes of \<open>k\<close> bytes, the vectors are non-empty
  ranges inside their nodes that follow each other from flat address \<open>a\<close> to flat address \<open>b\<close>.
\<close>

fun iov_covers :: "nat \<Rightarrow> nat \<Rightarrow> nat \<Rightarrow> nat \<Rightarrow> iovec list \<Rightarrow> bool" where
  "iov_covers k N a b [] \<longleftrightarrow> a = b"
| "iov_covers k N a b ((i, off, n) # iovs) \<longleftrightarrow>
     i < N \<and> 0 < n \<and> off + n \<le> k \<and> k * i + off = a \<and> iov_covers k N (a + n) b iovs"

text \<open>The bytes a gathering system call takes through the vectors.\<close>

fun gather :: "byte list list \<Rightarrow> iovec list \<Rightarrow> byte list" where
  "gather nodes [] = []"
| "gather nodes ((i, off, n) # iovs) = slice_of off n (nodes ! i) @ gather nodes iovs"

text \<open>The memory after a scattering system call stored the received bytes through the vectors.\<close>

fun scatter :: "byte list list \<Rightarrow> iovec list \<Rightarrow> byte list \<Rightarrow> byte list list" where
  "scatter nodes [] bs = nodes"
| "scatter nodes ((i, off, n) # iovs) bs =
     scatter (nodes[i := overwrite off (take n bs) (nodes ! i)]) iovs (drop n bs)"

lemma iov_covers_le: "iov_covers k N a b iovs \<Longrightarrow> a \<le> b"
  by (induction k N a b iovs rule: iov_covers.induct) auto

lemma iov_covers_len: "iov_covers k N a b iovs \<Longrightarrow> (\<Sum>(i, off, n) \<leftarrow> iovs. n) = b - a"
proof (induction k N a b iovs rule: iov_covers.induct)
  case (2 k N a b i off n iovs)
  then have "a + n \<le> b" using iov_covers_le by auto
  with 2 show ?case by simp
qed simp

lemma buffers_loop_ok:
  assumes "\<forall>b \<in> set nodes. length b = k" "i < length nodes" "npos < k"
    and "k * i + npos + n \<le> k * length nodes"
  shows "\<exists>iovs. buffers_loop nodes (Some i) npos (k - npos) n = Inr iovs
      \<and> iov_covers k (length nodes) (k * i + npos) (k * i + npos + n) iovs"
  using assms
proof (induction n arbitrary: i npos rule: less_induct)
  case (less n)
  note len = less.prems(1) and npos = less.prems(3) and bound = less.prems(4)
  consider "n = 0" | "0 < n" "npos + n \<le> k" | "k < npos + n" by linarith
  then show ?case
  proof cases
    case 3
    then have c: "k - npos < n" "n - (k - npos) < n" using npos by auto
    have nxt: "Suc i < length nodes" using next_block_exists [OF npos c(1) bound] .
    have eq: "k * i + npos + n = k * Suc i + (n - (k - npos))"
      using block_step [OF npos, of n i] c by simp
    have step: "k * i + npos + (k - npos) = k * Suc i" using npos by simp
    have "k * Suc i + 0 + (n - (k - npos)) \<le> k * length nodes" using bound unfolding eq by simp
    then obtain iovs where rec: "buffers_loop nodes (Some (Suc i)) 0 k (n - (k - npos)) = Inr iovs"
        and cov: "iov_covers k (length nodes) (k * Suc i) (k * Suc i + (n - (k - npos))) iovs"
      using less.IH [OF c(2) len nxt, of 0] npos by auto
    have nd: "length (nodes ! Suc i) = k" using len nxt by simp
    have "buffers_loop nodes (Some i) npos (k - npos) n = Inr ((i, npos, k - npos) # iovs)"
      using nxt npos c rec nd by (subst buffers_loop.simps) simp
    moreover have "iov_covers k (length nodes) (k * i + npos) (k * i + npos + n) ((i, npos, k - npos) # iovs)"
      using nxt npos cov unfolding iov_covers.simps step eq by simp
    ultimately show ?thesis by blast
  qed (use less.prems in \<open>auto simp: buffers_loop.simps\<close>)
qed

lemma gather_covers:
  assumes "\<forall>b \<in> set nodes. length b = k" "iov_covers k (length nodes) a b iovs"
  shows "gather nodes iovs = slice_of a (b - a) (concat nodes)"
  using assms(2)
proof (induction iovs arbitrary: a)
  case (Cons v iovs)
  obtain i off n where v: "v = (i, off, n)" by (cases v)
  have c: "i < length nodes" "off + n \<le> k" "k * i + off = a" "iov_covers k (length nodes) (a + n) b iovs"
    using Cons.prems v by auto
  have len: "n + (b - (a + n)) = b - a" using iov_covers_le [OF c(4)] by simp
  have "gather nodes (v # iovs)
      = slice_of a n (concat nodes) @ slice_of (a + n) (b - (a + n)) (concat nodes)"
    using Cons.IH [OF c(4)] slice_of_block [OF assms(1) c(1,2)] unfolding v c(3) by simp
  also have "\<dots> = slice_of a (b - a) (concat nodes)" by (simp only: slice_of_split [symmetric] len)
  finally show ?case .
qed simp

lemma scatter_covers:
  assumes "\<forall>b \<in> set nodes. length b = k" "iov_covers k (length nodes) a b iovs"
    and "length bs \<le> b - a" "b \<le> length (concat nodes)"
  shows "concat (scatter nodes iovs bs) = overwrite a bs (concat nodes)
      \<and> length (scatter nodes iovs bs) = length nodes
      \<and> (\<forall>b \<in> set (scatter nodes iovs bs). length b = k)"
  using assms
proof (induction iovs arbitrary: nodes a bs)
  case (Cons v iovs)
  obtain i off n where v: "v = (i, off, n)" by (cases v)
  let ?n1 = "nodes[i := overwrite off (take n bs) (nodes ! i)]"
  have c: "i < length nodes" "off + length (take n bs) \<le> k" "k * i + off = a"
      "iov_covers k (length nodes) (a + n) b iovs"
    using Cons.prems(2) v by auto
  note upd = concat_block_update [OF Cons.prems(1) c(1,2)] update_keeps_block_size [OF Cons.prems(1) c(1,2)]
  have "a + n \<le> b" by (rule iov_covers_le [OF c(4)])
  have len1: "length (concat ?n1) = length (concat nodes)"
    using length_concat_blocks [OF upd(2)] length_concat_blocks [OF Cons.prems(1)] by simp
  have rest: "length (drop n bs) \<le> b - (a + n)" using Cons.prems(3) by simp
  have IH: "concat (scatter ?n1 iovs (drop n bs)) = overwrite (a + n) (drop n bs) (concat ?n1)
      \<and> length (scatter ?n1 iovs (drop n bs)) = length nodes
      \<and> (\<forall>b \<in> set (scatter ?n1 iovs (drop n bs)). length b = k)"
    using Cons.IH [OF upd(2) _ rest, unfolded len1 length_list_update, OF c(4) Cons.prems(4)] .
  have flat: "overwrite (a + n) (drop n bs) (concat ?n1) = overwrite a bs (concat nodes)"
  proof (cases "n \<le> length bs")
    case True
    then show ?thesis
      using overwrite_append [of a "concat nodes" "take n bs" "drop n bs"] upd(1) c(3)
        \<open>a + n \<le> b\<close> Cons.prems(4) by simp
  next
    case False
    then show ?thesis using upd(1) c(3) by simp
  qed
  show ?case unfolding v scatter.simps using IH unfolding flat .
qed simp


subsection \<open>What the vector operations return\<close>

lemma cur_node:
  assumes "ba_inv ba" "m_position ba < m_capacity ba"
  shows "m_cur ba = Some (m_position ba div m_baseSize ba)"
    and "length (m_root ba ! (m_position ba div m_baseSize ba)) = m_baseSize ba"
    and "m_position ba mod m_baseSize ba < m_baseSize ba"
  using cur_in_chain [OF assms] ba_invD [OF assms(1)] by simp_all

lemma getReadSize_inv: "ba_inv ba \<Longrightarrow> getReadSize ba = m_size ba - m_position ba"
  using ba_invD(5) [of ba] by (simp add: getReadSize_def)

lemma buffers_at_cursor:
  assumes inv: "ba_inv ba" and n: "0 < n" "m_position ba + n \<le> m_capacity ba"
  shows "\<exists>iovs. buffers_loop (m_root ba) (m_cur ba) (m_position ba mod m_baseSize ba)
            (m_baseSize ba - m_position ba mod m_baseSize ba) n = Inr iovs
      \<and> iov_covers (m_baseSize ba) (length (m_root ba)) (m_position ba) (m_position ba + n) iovs"
proof -
  have cap: "m_position ba < m_capacity ba" using n by simp
  note c = cur_node [OF inv cap]
  show ?thesis
    using buffers_loop_ok [OF ba_invD(3) [OF inv] cur_in_chain [OF inv cap] c(3), of n] n(2)
      ba_invD(4) [OF inv]
    unfolding position_split [OF inv] c(1) by simp
qed

lemma getReadBuffers_ok:
  assumes inv: "ba_inv ba"
  shows "\<exists>iovs. getReadBuffers bufs len ba = Inr (min len (m_size ba - m_position ba), bufs @ iovs)
      \<and> iov_covers (m_baseSize ba) (length (m_root ba)) (m_position ba)
          (m_position ba + min len (m_size ba - m_position ba)) iovs
      \<and> gather (m_root ba) iovs = slice_of (m_position ba) len (ba_data ba)"
proof -
  note D = ba_invD [OF inv]
  let ?n = "min len (m_size ba - m_position ba)"
  have n: "(if len > getReadSize ba then getReadSize ba else len) = ?n"
    by (simp add: getReadSize_inv [OF inv] min_def)
  have end_data: "slice_of (m_position ba) len (ba_data ba) = slice_of (m_position ba) ?n (ba_mem ba)"
    by (simp add: slice_of_def ba_data_def drop_take min.commute)
  show ?thesis
  proof (cases "?n = 0")
    case True
    then show ?thesis using end_data by (auto simp: getReadBuffers_def n slice_of_def)
  next
    case False
    then have room: "0 < ?n" "m_position ba + ?n \<le> m_capacity ba" using D by auto
    then have cap: "m_position ba < m_capacity ba" by linarith
    obtain iovs where
        run: "buffers_loop (m_root ba) (m_cur ba) (m_position ba mod m_baseSize ba)
            (m_baseSize ba - m_position ba mod m_baseSize ba) ?n = Inr iovs"
        and cov: "iov_covers (m_baseSize ba) (length (m_root ba)) (m_position ba) (m_position ba + ?n) iovs"
      using buffers_at_cursor [OF inv room] by blast
    have "gather (m_root ba) iovs = slice_of (m_position ba) ?n (ba_mem ba)"
      using gather_covers [OF D(3) cov] by (simp add: ba_mem_def)
    moreover have "getReadBuffers bufs len ba = Inr (?n, bufs @ iovs)"
      using False D(1) run cur_node [OF inv cap] cur_in_chain [OF inv cap] less_imp_le [OF cur_node(3) [OF inv cap]]
      unfolding getReadBuffers_def n Let_def by (simp add: min_def split: if_splits)
    ultimately show ?thesis using cov end_data by auto
  qed
qed

lemma getWriteBuffers_ok:
  assumes inv: "ba_inv ba"
  shows "\<exists>iovs ba'. getWriteBuffers bufs len ba = Inr (len, bufs @ iovs, ba') \<and> ba_inv ba'
      \<and> ba_data ba' = ba_data ba \<and> m_position ba' = m_position ba \<and> m_size ba' = m_size ba
      \<and> m_baseSize ba' = m_baseSize ba \<and> m_endian ba' = m_endian ba
      \<and> m_position ba' + len \<le> m_capacity ba'
      \<and> iov_covers (m_baseSize ba') (length (m_root ba')) (m_position ba') (m_position ba' + len) iovs"
proof (cases "len = 0")
  case True
  then show ?thesis using inv ba_invD(7) [OF inv] by (auto simp: getWriteBuffers_def)
next
  case False
  let ?ba = "addCapacity len ba"
  note A = addCapacity_ok [OF inv, of len]
  have room: "0 < len" "m_position ?ba + len \<le> m_capacity ?ba" using False A(2,3) by simp_all
  then have cap: "m_position ?ba < m_capacity ?ba" by simp
  obtain iovs where
      run: "buffers_loop (m_root ?ba) (m_cur ?ba) (m_position ?ba mod m_baseSize ?ba)
          (m_baseSize ?ba - m_position ?ba mod m_baseSize ?ba) len = Inr iovs"
      and cov: "iov_covers (m_baseSize ?ba) (length (m_root ?ba)) (m_position ?ba) (m_position ?ba + len) iovs"
    using buffers_at_cursor [OF A(1) room] by blast
  have "getWriteBuffers bufs len ba = Inr (len, bufs @ iovs, ?ba)"
    using False ba_invD(1) [OF A(1)] run cur_node [OF A(1) cap] cur_in_chain [OF A(1) cap]
      less_imp_le [OF cur_node(3) [OF A(1) cap]]
    unfolding getWriteBuffers_def Let_def by simp
  then show ?thesis using A(1,3-6) room(2) cov addCapacity_data [OF inv] by auto
qed

text \<open>
  A receive of \<open>bs\<close> through the write buffers followed by \<open>setPosition(getPosition() + rt)\<close>, as
  \<open>SocketStream::read\<close> does it, is a \<open>write\<close> of \<open>bs\<close>.
\<close>

lemma recv_is_write:
  assumes inv: "ba_inv ba" and bs: "length bs \<le> len"
    and cov: "iov_covers (m_baseSize ba) (length (m_root ba)) (m_position ba) (m_position ba + len) iovs"
    and room: "m_position ba + len \<le> m_capacity ba"
  shows "\<exists>ba'. setPosition (m_position ba + length bs) (ba\<lparr>m_root := scatter (m_root ba) iovs bs\<rparr>) = Inr ba'
      \<and> ba_inv ba' \<and> m_position ba' = m_position ba + length bs
      \<and> ba_data ba' = overwrite (m_position ba) bs (ba_data ba)
      \<and> m_endian ba' = m_endian ba \<and> m_baseSize ba' = m_baseSize ba"
proof -
  note D = ba_invD [OF inv]
  let ?ba = "ba\<lparr>m_root := scatter (m_root ba) iovs bs\<rparr>"
  have cap: "m_position ba + len \<le> length (concat (m_root ba))"
    using room length_ba_mem [OF inv] by (simp add: ba_mem_def)
  have sc: "concat (scatter (m_root ba) iovs bs) = overwrite (m_position ba) bs (concat (m_root ba))"
      "length (scatter (m_root ba) iovs bs) = length (m_root ba)"
      "\<forall>b \<in> set (scatter (m_root ba) iovs bs). length b = m_baseSize ba"
    using scatter_covers [OF D(3) cov _ cap, of bs] bs by simp_all
  have "ba_inv ?ba"
    using inv sc(2,3) node_ptr_cong [OF sc(2)] by (auto simp: ba_inv_def)
  moreover have "m_position ba + length bs \<le> m_capacity ?ba" using room bs by simp
  ultimately obtain ba' where p: "setPosition (m_position ba + length bs) ?ba = Inr ba'" "ba_inv ba'"
      "m_position ba' = m_position ba + length bs" "m_size ba' = max (m_size ba) (m_position ba + length bs)"
      "m_root ba' = scatter (m_root ba) iovs bs" "m_endian ba' = m_endian ba" "m_baseSize ba' = m_baseSize ba"
    using setPosition_any [of ?ba] by auto
  moreover have "ba_data ba' = overwrite (m_position ba) bs (ba_data ba)"
    using overwrite_take [of "m_position ba" "m_size ba" "ba_mem ba" bs] p(4,5) sc(1) cap bs D(5,6)
      length_ba_mem [OF inv] by (simp add: ba_data_def ba_mem_def)
  ultimately show ?thesis by auto
qed

subsection \<open>The string forms and the file dump\<close>

lemma read_at_same_block:
  assumes inv: "ba_inv ba" and n: "0 < n" "p + n \<le> m_size ba"
    and same: "p div m_baseSize ba = m_position ba div m_baseSize ba"
  shows "read_at n p ba = Inr (slice_of p n (ba_data ba))"
proof -
  note D = ba_invD [OF inv]
  let ?k = "m_baseSize ba" and ?i = "p div m_baseSize ba"
  have "p < ?k * length (m_root ba)" using n D(4,6) by simp
  then have i: "?i < length (m_root ba)" by (simp add: less_mult_imp_div_less mult.commute)
  have split: "?k * ?i + p mod ?k = p" by simp
  have room: "?k * ?i + p mod ?k + n \<le> ?k * length (m_root ba)" unfolding split using n D(4,6) by simp
  have npos: "p mod ?k < ?k" using D(1) by simp
  have "read_loop (m_root ba) (Some ?i) (p mod ?k) (?k - p mod ?k) p n []
      = Inr (slice_of p n (ba_mem ba), node_ptr (m_root ba) ((p + n) div ?k), p + n)"
    using read_loop_ok [OF D(3) i npos room, of p "[]"] unfolding split by (simp add: ba_mem_def)
  moreover have "slice_of p n (ba_mem ba) = slice_of p n (ba_data ba)"
    using n slice_of_take [of p n "m_size ba" "ba_mem ba"] by (simp add: ba_data_def)
  moreover have "length (m_root ba ! ?i) = ?k" using D(3) i by simp
  ultimately show ?thesis
    using n D(1,8) i less_imp_le [OF npos] same by (simp add: read_at_def Let_def)
qed

lemma toString_ok:
  assumes inv: "ba_inv ba"
  shows "toString ba = Inr (drop (m_position ba) (ba_data ba))"
proof (cases "m_position ba < m_size ba")
  case True
  then show ?thesis
    using read_at_same_block [OF inv, of "m_size ba - m_position ba" "m_position ba"] inv
    by (simp add: toString_def getReadSize_inv [OF inv] slice_of_def)
next
  case False
  then show ?thesis using ba_invD(5) [OF inv] inv by (simp add: toString_def getReadSize_inv [OF inv])
qed

text \<open>Without the separators the hexadecimal form is two digits per byte, high digit first.\<close>

lemma hex_digit_plain: "n < 16 \<Longrightarrow> hex_digit n \<noteq> CHR '' '' \<and> hex_digit n \<noteq> CHR 0x0A"
  by (auto simp: hex_digit_def char_of_eq_iff take_bit_eq_mod)

lemma hex_dump_digits:
  "filter (\<lambda>c. c \<noteq> CHR '' '' \<and> c \<noteq> CHR 0x0A) (hex_dump i bs)
     = concat (map (\<lambda>b. [hex_digit (unat b div 16), hex_digit (unat b mod 16)]) bs)"
proof (induction i bs rule: hex_dump.induct)
  case (2 i b bs)
  have "unat b < 256" using unsigned_less [of b, where 'a = nat] by simp
  then have "unat b div 16 < 16" "unat b mod 16 < 16" by auto
  with 2 show ?case by (simp add: hex_byte_def hex_digit_plain)
qed simp

lemma writeToFile_aligned:
  assumes "\<forall>b \<in> set nodes. length b = k" "0 < k" "k * i + n \<le> k * length nodes"
  shows "writeToFile_loop nodes k (node_ptr nodes i) (k * i) n = Inr (slice_of (k * i) n (concat nodes))"
  using assms(3)
proof (induction n arbitrary: i rule: less_induct)
  case (less n)
  show ?case
  proof (cases "n = 0")
    case True
    then show ?thesis by (simp add: writeToFile_loop.simps slice_of_def)
  next
    case False
    let ?c = "min n k"
    have "k * i < k * length nodes" using False less.prems by linarith
    then have i: "i < length nodes" by (simp only: mult_less_cancel1)
    have c: "?c \<le> n" "n - ?c < n" "0 + ?c \<le> k" using False assms(2) by auto
    have len: "length (nodes ! i) = k" using assms(1) i by simp
    have rest: "writeToFile_loop nodes k (node_ptr nodes (Suc i)) (k * i + ?c) (n - ?c)
        = Inr (slice_of (k * i + ?c) (n - ?c) (concat nodes))"
    proof (cases "k \<le> n")
      case True
      then have "k * i + ?c = k * Suc i" "k * Suc i + (n - ?c) = k * i + n" by simp_all
      with less.IH [OF c(2), of "Suc i"] less.prems show ?thesis by (simp only:)
    next
      case False
      then show ?thesis by (simp add: writeToFile_loop.simps slice_of_def)
    qed
    have "slice_of 0 ?c (nodes ! i) = slice_of (k * i) ?c (concat nodes)"
      using slice_of_block [OF assms(1) i c(3)] by simp
    moreover have "(if n > k then k else n) = ?c" by (simp add: min_def)
    ultimately have "writeToFile_loop nodes k (node_ptr nodes i) (k * i) n
        = Inr (slice_of (k * i) ?c (concat nodes) @ slice_of (k * i + ?c) (n - ?c) (concat nodes))"
      using False assms(2) i rest len by (subst writeToFile_loop.simps) (simp add: copy_out_def Let_def)
    also have "\<dots> = Inr (slice_of (k * i) (?c + (n - ?c)) (concat nodes))" by (simp only: slice_of_split)
    finally show ?thesis using c(1) by simp
  qed
qed

text \<open>
  The dump is the readable part of the buffer when the cursor is at the start of a block or at
  least a whole block is left to write; in the other cases the subtraction of \<open>diff\<close> from
  \<open>read_size\<close> instead of from the block makes \<open>len\<close> too small or negative.
\<close>

lemma writeToFile_ok:
  assumes inv: "ba_inv ba"
    and safe: "m_position ba mod m_baseSize ba = 0 \<or> m_baseSize ba \<le> m_size ba - m_position ba"
  shows "writeToFile True ba = Inr (True, drop (m_position ba) (ba_data ba))"
proof -
  note D = ba_invD [OF inv]
  let ?k = "m_baseSize ba" and ?p = "m_position ba" and ?n = "m_size ba - m_position ba"
  let ?i = "?p div ?k" and ?d = "?p mod ?k"
  have data: "drop ?p (ba_data ba) = slice_of ?p ?n (concat (m_root ba))"
    by (simp add: ba_data_def ba_mem_def slice_of_def drop_take)
  have room: "?p + ?n \<le> ?k * length (m_root ba)" using D(4-6) by simp
  have "writeToFile_loop (m_root ba) ?k (m_cur ba) ?p ?n = Inr (slice_of ?p ?n (concat (m_root ba)))"
  proof (cases "?d = 0")
    case True
    then have p: "?k * ?i = ?p" using position_split [OF inv] by simp
    show ?thesis
      using writeToFile_aligned [OF D(3,1), of ?i ?n] room D(8) unfolding p by simp
  next
    case False
    then have n: "?k \<le> ?n" using safe by simp
    have npos: "?d < ?k" "?d + (?k - ?d) \<le> ?k" using D(1) by simp_all
    have i: "?i < length (m_root ba)" using cur_in_chain [OF inv] n D(1,6) by simp
    have nxt: "?p + (?k - ?d) = ?k * Suc ?i"
      using position_split [OF inv] npos(1) unfolding mult_Suc_right by linarith
    have r: "?k * Suc ?i + (?n - (?k - ?d)) \<le> ?k * length (m_root ba)"
      unfolding nxt [symmetric] using room n npos by linarith
    have hd: "slice_of ?d (?k - ?d) (m_root ba ! ?i) = slice_of ?p (?k - ?d) (concat (m_root ba))"
      using slice_of_block [OF D(3) i npos(2)] unfolding position_split [OF inv] .
    have chunk: "(if ?n > ?k then ?k else ?n) = ?k" using n by simp
    have len: "length (m_root ba ! ?i) = ?k" "m_position ba < m_size ba" using D(1,3) i n by auto
    have "writeToFile_loop (m_root ba) ?k (m_cur ba) ?p ?n
        = Inr (slice_of ?p (?k - ?d) (concat (m_root ba))
               @ slice_of (?p + (?k - ?d)) (?n - (?k - ?d)) (concat (m_root ba)))"
      using D(1,8) i n npos len hd writeToFile_aligned [OF D(3,1) r] unfolding nxt
      by (subst writeToFile_loop.simps) (simp add: chunk Let_def copy_out_def nxt del: mult_Suc_right)
    also have "\<dots> = Inr (slice_of ?p ((?k - ?d) + (?n - (?k - ?d))) (concat (m_root ba)))"
      by (simp only: slice_of_split)
    also have "(?k - ?d) + (?n - (?k - ?d)) = ?n" using n by linarith
    finally show ?thesis .
  qed
  then show ?thesis by (simp add: writeToFile_def getReadSize_inv [OF inv] data)
qed

lemma readFromFile_loop_ok:
  assumes "ba_inv ba"
  shows "\<exists>ba'. readFromFile_loop content ba = Some (Inr ba') \<and> ba_inv ba'
      \<and> m_position ba' = m_position ba + length content
      \<and> ba_data ba' = overwrite (m_position ba) content (ba_data ba)
      \<and> m_baseSize ba' = m_baseSize ba"
  using assms
proof (induction content arbitrary: ba rule: length_induct)
  case (1 content)
  let ?k = "m_baseSize ba"
  obtain b where w: "write_ba (take ?k content) ba = Inr b" "ba_inv b"
      "m_position b = m_position ba + length (take ?k content)"
      "ba_data b = overwrite (m_position ba) (take ?k content) (ba_data ba)" "m_baseSize b = ?k"
    using write_ba_ok [OF 1(2)] by blast
  show ?case
  proof (cases "length content < ?k")
    case True
    then show ?thesis using w by (subst readFromFile_loop.simps) simp
  next
    case False
    then have "length (drop ?k content) < length content" using ba_invD(1) [OF 1(2)] by simp
    then obtain b' where r: "readFromFile_loop (drop ?k content) b = Some (Inr b')" "ba_inv b'"
        "m_position b' = m_position b + length (drop ?k content)"
        "ba_data b' = overwrite (m_position b) (drop ?k content) (ba_data b)" "m_baseSize b' = m_baseSize b"
      using 1(1) w(2) by blast
    have "ba_data b' = overwrite (m_position ba) (take ?k content @ drop ?k content) (ba_data ba)"
      unfolding r(4) w(3,4)
      by (rule overwrite_append [symmetric]) (use 1(2) ba_invD(5) [OF 1(2)] in simp)
    then show ?thesis using False w r by (subst readFromFile_loop.simps) simp
  qed
qed

subsection \<open>Properties\<close>

text \<open>
  The vectors handed to \<open>sendmsg\<close> gather exactly the bytes at the cursor, clipped to the
  readable size, in order and without touching memory outside the nodes.
\<close>

theorem read_buffers_gather:
  assumes "ba_inv ba"
  shows "\<exists>iovs. getReadBuffers bufs len ba = Inr (min len (m_size ba - m_position ba), bufs @ iovs)
      \<and> gather (m_root ba) iovs = slice_of (m_position ba) len (ba_data ba)
      \<and> iov_covers (m_baseSize ba) (length (m_root ba)) (m_position ba)
          (m_position ba + min len (m_size ba - m_position ba)) iovs"
  using getReadBuffers_ok [OF assms] by blast

theorem read_buffers_gather_witness:
  "\<exists>iovs. getReadBuffers [] 7 (new_ByteArray (\<lambda>_. 0) 4) = Inr (0, iovs)"
  using read_buffers_gather [OF new_ByteArray_inv [of 4 "\<lambda>_. 0"], of "[]" 7]
  by (auto simp: new_ByteArray_def)

text \<open>
  The dump and restore of a buffer through a file round-trip: when the cursor is at a block
  boundary or at least one whole block is readable, \<open>writeToFile\<close> stores exactly the readable
  bytes, and \<open>readFromFile\<close> of that file into any buffer terminates and has the effect of writing
  those bytes at its cursor.
\<close>

theorem file_roundtrip:
  assumes "ba_inv ba" "ba_inv ba'"
    and "m_position ba mod m_baseSize ba = 0 \<or> m_baseSize ba \<le> m_size ba - m_position ba"
  shows "\<exists>content ba2. writeToFile True ba = Inr (True, content)
      \<and> content = drop (m_position ba) (ba_data ba)
      \<and> readFromFile (Some content) ba' = Some (Inr (True, ba2)) \<and> ba_inv ba2
      \<and> m_position ba2 = m_position ba' + length content
      \<and> ba_data ba2 = overwrite (m_position ba') content (ba_data ba')"
  using writeToFile_ok [OF assms(1,3)]
    readFromFile_loop_ok [OF assms(2), of "drop (m_position ba) (ba_data ba)"]
  by (auto simp: readFromFile_def)

theorem file_roundtrip_witness:
  "\<exists>content ba2. writeToFile True (new_ByteArray (\<lambda>_. 0) 4) = Inr (True, content)
      \<and> readFromFile (Some content) (new_ByteArray (\<lambda>_. 1) 3) = Some (Inr (True, ba2))"
  using file_roundtrip [OF new_ByteArray_inv [of 4 "\<lambda>_. 0"] new_ByteArray_inv [of 3 "\<lambda>_. 1"]]
  by (auto simp: new_ByteArray_def)

lemmas run_simps = write_ba_def read_ba_def read_at_def setPosition_def new_ByteArray_def new_Node_def
  addCapacity_def getCapacity_def getReadSize_def write_loop.simps read_loop.simps seek_loop.simps
  copy_in_def copy_out_def node_ptr_def sub64_def ceil_div_def overwrite_def slice_of_def

text \<open>
  The cases \<open>file_roundtrip\<close> leaves out are wrong. With blocks of four bytes, six bytes of data and the
  cursor at byte five, one byte is readable, but \<open>writeToFile\<close> subtracts the offset in the block
  from the readable size, writes nothing, and then follows the null pointer behind the last node.
\<close>

theorem writeToFile_misaligned_faults:
  "rbind (write_ba [1, 2, 3, 4, 5, 6] (new_ByteArray f 4))
     (\<lambda>ba. rbind (setPosition 5 ba) (writeToFile True)) = Inl Null_deref"
  by (simp add: run_simps writeToFile_def writeToFile_loop.simps upt_rec)

text \<open>
  The positioned read starts in the node of the cursor, not in the node of the position it is
  given: after six bytes in blocks of four, \<open>read(buf, 2, 0)\<close> returns the fifth and sixth byte.
\<close>

theorem read_at_wrong_block:
  "rbind (write_ba [1, 2, 3, 4, 5, 6] (new_ByteArray f 4)) (read_at 2 0) = Inr [5, 6]"
  by (simp add: run_simps upt_rec)

end
