(* ===== verification/StdContainers.thy ===== *)
theory StdContainers
  imports Prelude
begin

text \<open>
  \<open>std::set\<close> and \<open>std::map\<close> with a comparator, as the sorted list of their elements in iteration
  order. The operations are the ones the sources call: \<open>find\<close>, \<open>insert\<close>, \<open>erase\<close>, \<open>lower_bound\<close>,
  and for maps \<open>operator[]\<close> used as an assignment. Two elements are the same for the container
  when neither is less than the other. The locale \<open>strict_weak\<close> states what the standard asks of
  a comparator and proves what the operations do under it.
\<close>

definition same_key :: "('a \<Rightarrow> 'a \<Rightarrow> bool) \<Rightarrow> 'a \<Rightarrow> 'a \<Rightarrow> bool" where
  "same_key lt a b \<longleftrightarrow> \<not> lt a b \<and> \<not> lt b a"

subsection \<open>Sets\<close>

fun set_find :: "('a \<Rightarrow> 'a \<Rightarrow> bool) \<Rightarrow> 'a \<Rightarrow> 'a list \<Rightarrow> 'a option" where
  "set_find lt x [] = None"
| "set_find lt x (y # ys) =
     (if lt y x then set_find lt x ys else if lt x y then None else Some y)"

fun set_insert :: "('a \<Rightarrow> 'a \<Rightarrow> bool) \<Rightarrow> 'a \<Rightarrow> 'a list \<Rightarrow> 'a list" where
  "set_insert lt x [] = [x]"
| "set_insert lt x (y # ys) =
     (if lt y x then y # set_insert lt x ys else if lt x y then x # y # ys else y # ys)"

fun set_erase :: "('a \<Rightarrow> 'a \<Rightarrow> bool) \<Rightarrow> 'a \<Rightarrow> 'a list \<Rightarrow> 'a list" where
  "set_erase lt x [] = []"
| "set_erase lt x (y # ys) =
     (if lt y x then y # set_erase lt x ys else if lt x y then y # ys else ys)"

text \<open>The elements from \<open>lower_bound(x)\<close> on.\<close>

definition set_lower_bound :: "('a \<Rightarrow> 'a \<Rightarrow> bool) \<Rightarrow> 'a \<Rightarrow> 'a list \<Rightarrow> 'a list" where
  "set_lower_bound lt x xs = dropWhile (\<lambda>y. lt y x) xs"

subsection \<open>Maps\<close>

fun map_find :: "('k \<Rightarrow> 'k \<Rightarrow> bool) \<Rightarrow> 'k \<Rightarrow> ('k \<times> 'v) list \<Rightarrow> 'v option" where
  "map_find lt k [] = None"
| "map_find lt k ((j, v) # m) =
     (if lt j k then map_find lt k m else if lt k j then None else Some v)"

text \<open>\<open>m[k] = v\<close>: an element with an equivalent key keeps its key.\<close>

fun map_assign :: "('k \<Rightarrow> 'k \<Rightarrow> bool) \<Rightarrow> 'k \<Rightarrow> 'v \<Rightarrow> ('k \<times> 'v) list \<Rightarrow> ('k \<times> 'v) list" where
  "map_assign lt k v [] = [(k, v)]"
| "map_assign lt k v ((j, w) # m) =
     (if lt j k then (j, w) # map_assign lt k v m
      else if lt k j then (k, v) # (j, w) # m else (j, v) # m)"

text \<open>\<open>m.insert(make_pair(k, v))\<close>: an element with an equivalent key stays as it is.\<close>

fun map_insert :: "('k \<Rightarrow> 'k \<Rightarrow> bool) \<Rightarrow> 'k \<Rightarrow> 'v \<Rightarrow> ('k \<times> 'v) list \<Rightarrow> ('k \<times> 'v) list" where
  "map_insert lt k v [] = [(k, v)]"
| "map_insert lt k v ((j, w) # m) =
     (if lt j k then (j, w) # map_insert lt k v m
      else if lt k j then (k, v) # (j, w) # m else (j, w) # m)"

fun map_erase :: "('k \<Rightarrow> 'k \<Rightarrow> bool) \<Rightarrow> 'k \<Rightarrow> ('k \<times> 'v) list \<Rightarrow> ('k \<times> 'v) list" where
  "map_erase lt k [] = []"
| "map_erase lt k ((j, w) # m) =
     (if lt j k then (j, w) # map_erase lt k m else if lt k j then (j, w) # m else m)"

subsection \<open>Operations that only look at the elements\<close>

lemma set_insert_subset: "set (set_insert lt x xs) \<subseteq> insert x (set xs)"
  by (induction xs) auto

lemma set_insert_superset: "set xs \<subseteq> set (set_insert lt x xs)"
  by (induction xs) auto

lemma set_erase_subset: "set (set_erase lt x xs) \<subseteq> set xs"
  by (induction xs) auto

lemma set_insert_cong:
  "(\<And>y. y \<in> set xs \<Longrightarrow> lt x y = lt' x y \<and> lt y x = lt' y x) \<Longrightarrow> set_insert lt x xs = set_insert lt' x xs"
  by (induction xs) auto

lemma map_assign_keys: "fst ` set (map_assign lt k v m) \<subseteq> insert k (fst ` set m)"
  by (induction lt k v m rule: map_assign.induct) auto

lemma map_insert_keys: "fst ` set (map_insert lt k v m) \<subseteq> insert k (fst ` set m)"
  by (induction lt k v m rule: map_insert.induct) auto

lemma map_erase_keys: "set (map_erase lt k m) \<subseteq> set m"
  by (induction lt k m rule: map_erase.induct) auto

text \<open>What comes in the order of the comparator is appended.\<close>

lemma set_insert_last: "list_all (\<lambda>y. lt y x) ys \<Longrightarrow> set_insert lt x ys = ys @ [x]"
  by (induction ys) simp_all

lemma map_insert_last: "list_all (\<lambda>(j, w). lt j k) m \<Longrightarrow> map_insert lt k v m = m @ [(k, v)]"
  by (induction m) auto

subsection \<open>Under a strict weak order\<close>

locale strict_weak =
  fixes lt :: "'a \<Rightarrow> 'a \<Rightarrow> bool"
  assumes irrefl: "\<not> lt a a"
    and trans: "lt a b \<Longrightarrow> lt b c \<Longrightarrow> lt a c"
    and same_trans: "same_key lt a b \<Longrightarrow> same_key lt b c \<Longrightarrow> same_key lt a c"
begin

lemma asym: "lt a b \<Longrightarrow> \<not> lt b a"
  using trans irrefl by blast

lemma same_refl [simp]: "same_key lt a a"
  by (simp add: same_key_def irrefl)

lemma same_sym: "same_key lt a b \<Longrightarrow> same_key lt b a"
  by (simp add: same_key_def)

lemma lt_same_imp:
  assumes "same_key lt a b"
  shows "lt a c \<Longrightarrow> lt b c" "lt c a \<Longrightarrow> lt c b"
  using assms trans [of a c b] trans [of b c a] same_trans [of a b c] by (auto simp: same_key_def)

lemma lt_same:
  assumes "same_key lt a b"
  shows "lt a c = lt b c" "lt c a = lt c b"
  using lt_same_imp [OF assms] lt_same_imp [OF same_sym [OF assms]] by blast+

lemma after_same: "same_key lt z x \<Longrightarrow> lt z w \<Longrightarrow> \<not> same_key lt w x"
  using lt_same(1) [of z x w] by (simp add: same_key_def)

lemma sorted_insert: "sorted_wrt lt xs \<Longrightarrow> sorted_wrt lt (set_insert lt x xs)"
proof (induction xs)
  case (Cons y ys)
  then show ?case
    using set_insert_subset [of lt x ys] trans [of x y] by auto
qed simp

lemma sorted_erase: "sorted_wrt lt xs \<Longrightarrow> sorted_wrt lt (set_erase lt x xs)"
  by (induction xs) (use set_erase_subset in fastforce)+

lemma set_find_Some_iff:
  "sorted_wrt lt xs \<Longrightarrow> set_find lt x xs = Some y \<longleftrightarrow> y \<in> set xs \<and> same_key lt y x"
proof (induction xs)
  case (Cons z zs)
  have "\<forall>w \<in> set zs. lt z w" "sorted_wrt lt zs" using Cons.prems by auto
  then show ?case
    using Cons.IH after_same [of z x] trans [of x z] by (auto simp: same_key_def)
qed simp

lemma set_find_None_iff:
  "sorted_wrt lt xs \<Longrightarrow> set_find lt x xs = None \<longleftrightarrow> (\<forall>y \<in> set xs. \<not> same_key lt y x)"
  using set_find_Some_iff [of xs x] by (cases "set_find lt x xs") auto

lemma set_insert_new:
  assumes "sorted_wrt lt xs" "\<forall>y \<in> set xs. \<not> same_key lt y x"
  shows "set (set_insert lt x xs) = insert x (set xs)"
  using assms by (induction xs) (auto simp: same_key_def)

lemma set_erase_sorted:
  assumes "sorted_wrt lt xs"
  shows "set (set_erase lt x xs) = {y \<in> set xs. \<not> same_key lt y x}"
  using assms
proof (induction xs)
  case (Cons z zs)
  have "\<forall>w \<in> set zs. lt z w" "sorted_wrt lt zs" using Cons.prems by auto
  then show ?case
    using Cons.IH after_same [of z x] trans [of x z] by (auto simp: same_key_def)
qed simp

lemma sorted_distinct: "sorted_wrt lt xs \<Longrightarrow> distinct xs"
  by (induction xs) (auto simp: irrefl)

text \<open>The same facts for maps; a map is in order when its keys are.\<close>

lemma sorted_map_assign:
  "sorted_wrt lt (map fst m) \<Longrightarrow> sorted_wrt lt (map fst (map_assign lt k v m))"
proof (induction m)
  case (Cons p m)
  obtain j w where p: "p = (j, w)" by (cases p)
  have "\<forall>q \<in> set (map_assign lt k v m). lt j (fst q)" if "lt j k"
    using that Cons.prems map_assign_keys [of lt k v m] unfolding p by fastforce
  then show ?case using Cons trans [of k j] unfolding p by auto
qed simp

lemma sorted_map_insert:
  "sorted_wrt lt (map fst m) \<Longrightarrow> sorted_wrt lt (map fst (map_insert lt k v m))"
proof (induction m)
  case (Cons p m)
  obtain j w where p: "p = (j, w)" by (cases p)
  have "\<forall>q \<in> set (map_insert lt k v m). lt j (fst q)" if "lt j k"
    using that Cons.prems map_insert_keys [of lt k v m] unfolding p by fastforce
  then show ?case using Cons trans [of k j] unfolding p by auto
qed simp

lemma sorted_map_erase:
  "sorted_wrt lt (map fst m) \<Longrightarrow> sorted_wrt lt (map fst (map_erase lt k m))"
proof (induction m)
  case (Cons p m)
  then show ?case using map_erase_keys [of lt k m] by (cases p) auto
qed simp

lemma map_find_same: "same_key lt j k \<Longrightarrow> map_find lt j m = map_find lt k m"
  by (induction m) (auto simp: lt_same)

lemma map_find_assign:
  "map_find lt j (map_assign lt k v m) = (if same_key lt j k then Some v else map_find lt j m)"
proof (induction m)
  case Nil
  then show ?case by (auto simp: same_key_def)
next
  case (Cons p m)
  obtain i w where p: "p = (i, w)" by (cases p)
  consider "lt i k" | "lt k i" | "same_key lt i k" by (auto simp: same_key_def)
  then show ?case
  proof cases
    case 1
    then show ?thesis using Cons asym lt_same(2) [of j k i] unfolding p by (auto simp: same_key_def)
  next
    case 2
    then show ?thesis
      using asym [OF 2] lt_same(2) [of j k i] trans [of k i j] trans [of j k i] unfolding p
      by (auto simp: same_key_def)
  next
    case 3
    then have "\<not> lt i k" "\<not> lt k i" by (auto simp: same_key_def)
    moreover have "same_key lt j k \<longleftrightarrow> same_key lt j i" using 3 same_trans same_sym by blast
    ultimately show ?thesis unfolding p by (auto simp: same_key_def)
  qed
qed

lemma map_find_insert:
  "map_find lt j (map_insert lt k v m)
     = (if same_key lt j k \<and> map_find lt k m = None then Some v else map_find lt j m)"
proof (induction m)
  case Nil
  then show ?case by (auto simp: same_key_def)
next
  case (Cons p m)
  obtain i w where p: "p = (i, w)" by (cases p)
  consider "lt i k" | "lt k i" | "same_key lt i k" by (auto simp: same_key_def)
  then show ?case
  proof cases
    case 1
    then show ?thesis using Cons asym lt_same(2) [of j k i] unfolding p by (auto simp: same_key_def)
  next
    case 2
    then show ?thesis
      using asym [OF 2] lt_same(2) [of j k i] trans [of k i j] trans [of j k i] unfolding p
      by (auto simp: same_key_def)
  next
    case 3
    then have "\<not> lt i k" "\<not> lt k i" by (auto simp: same_key_def)
    then show ?thesis unfolding p by auto
  qed
qed

lemma map_find_erase:
  assumes "sorted_wrt lt (map fst m)"
  shows "map_find lt j (map_erase lt k m) = (if same_key lt j k then None else map_find lt j m)"
  using assms
proof (induction m)
  case (Cons p m)
  obtain i w where p: "p = (i, w)" by (cases p)
  have above: "\<forall>q \<in> set m. lt i (fst q)" using Cons.prems p by auto
  have none: "map_find lt j m = None" if "lt j i \<or> same_key lt i j"
  proof (cases m)
    case (Cons q m')
    obtain j' u where "q = (j', u)" by (cases q)
    then show ?thesis using above that Cons trans [of j i j'] lt_same(1) [of i j j'] asym by auto
  qed simp
  consider "lt i k" | "lt k i" | "same_key lt i k" by (auto simp: same_key_def)
  then show ?case
  proof cases
    case 1
    then show ?thesis using Cons asym lt_same(2) [of j k i] unfolding p by (auto simp: same_key_def)
  next
    case 2
    then show ?thesis
      using asym [OF 2] asym [of j i] lt_same(1) [of j k i] none unfolding p by (auto simp: same_key_def)
  next
    case 3
    then have k: "\<not> lt i k" "\<not> lt k i" by (auto simp: same_key_def)
    moreover have "same_key lt j k \<longleftrightarrow> same_key lt i j" using 3 same_trans same_sym by blast
    ultimately show ?thesis using none unfolding p by (auto simp: same_key_def)
  qed
qed simp

lemma map_find_Some_iff:
  "sorted_wrt lt (map fst m) \<Longrightarrow>
     map_find lt k m = Some v \<longleftrightarrow> (\<exists>j. (j, v) \<in> set m \<and> same_key lt j k)"
proof (induction m)
  case (Cons p m)
  obtain i w where p: "p = (i, w)" by (cases p)
  have above: "\<forall>q \<in> set m. lt i (fst q)" using Cons.prems p by auto
  have "\<not> same_key lt j k" if "(j, v) \<in> set m" "lt k i \<or> same_key lt i k" for j
    using that above trans [of k i j] after_same [of i k j] by (auto simp: same_key_def)
  moreover have "same_key lt i k \<longleftrightarrow> \<not> lt i k \<and> \<not> lt k i" by (simp add: same_key_def)
  ultimately show ?case using Cons asym unfolding p by auto
qed simp

end

subsection \<open>The lexicographic order\<close>

fun lex_less :: "'a::linorder list \<Rightarrow> 'a list \<Rightarrow> bool" where
  "lex_less xs [] = False"
| "lex_less [] (y # ys) = True"
| "lex_less (x # xs) (y # ys) = (x < y \<or> x = y \<and> lex_less xs ys)"

lemma lex_less_irrefl: "\<not> lex_less xs xs"
  by (induction xs) auto

lemma lex_less_trans: "lex_less xs ys \<Longrightarrow> lex_less ys zs \<Longrightarrow> lex_less xs zs"
proof (induction xs ys arbitrary: zs rule: lex_less.induct)
  case (2 y ys)
  then show ?case by (cases zs) auto
next
  case (3 x xs y ys)
  then show ?case by (cases zs) auto
qed simp

lemma lex_less_total: "\<not> lex_less xs ys \<Longrightarrow> \<not> lex_less ys xs \<Longrightarrow> xs = ys"
proof (induction xs ys rule: lex_less.induct)
  case (1 xs)
  then show ?case by (cases xs) auto
qed auto

text \<open>\<open>operator<\<close> of \<open>std::string\<close> compares the characters as unsigned bytes.\<close>

definition string_less :: "string \<Rightarrow> string \<Rightarrow> bool" where
  "string_less a b = lex_less (map of_char a) (map of_char b :: nat list)"

lemma string_less_same: "same_key string_less a b \<longleftrightarrow> a = b"
proof -
  have "inj (of_char :: char \<Rightarrow> nat)" by (simp add: inj_def)
  then have "map of_char a = (map of_char b :: nat list) \<longleftrightarrow> a = b" by (simp add: inj_map_eq_map)
  then show ?thesis
    using lex_less_total lex_less_irrefl by (auto simp: same_key_def string_less_def)
qed

interpretation string_order: strict_weak string_less
proof
  show "\<not> string_less a a" for a by (simp add: string_less_def lex_less_irrefl)
  show "string_less a b \<Longrightarrow> string_less b c \<Longrightarrow> string_less a c" for a b c
    using lex_less_trans by (auto simp: string_less_def)
qed (simp add: string_less_same)

end
