(* ===== verification/TimerQueue.thy ===== *)
theory TimerQueue
  imports StdContainers
begin

text \<open>
  The timers: \<open>src/fiber/timer.cpp\<close>, \<open>include/fishjoy/fiber/timer.hpp\<close>.

  A \<open>Timer*\<close> is an address; the objects live in \<open>heap\<close>, so that a change of a timer's fields is
  seen by the manager's ordered set, whose order depends on them. Addresses are the results of
  \<open>new\<close> and shared pointers keep the objects alive, so every address in use is valid. The set
  \<open>m_timers\<close> is the list of its addresses in iteration order. \<open>now\<close> is the value of
  \<open>GetElapsedMS()\<close> at the call; times are \<open>uint64_t\<close> and wrap. A callback is a value of an
  arbitrary type. The locks make each operation atomic; \<open>addTimer\<close> returns whether it called
  \<open>onTimerInsertedAtFront\<close>.
\<close>

record 'cb timer =
  m_recurring :: bool
  m_ms :: u64
  m_next :: u64
  m_cb :: "'cb option"

type_synonym 'cb timer_heap = "nat \<Rightarrow> 'cb timer"

record 'cb timer_manager =
  heap :: "'cb timer_heap"
  m_timers :: "nat list"
  m_tickled :: bool
  m_previousTime :: u64

subsection \<open>The comparator\<close>

definition Comparator :: "'cb timer_heap \<Rightarrow> nat option \<Rightarrow> nat option \<Rightarrow> bool" where
  "Comparator h lhs rhs =
     (case lhs of
        None \<Rightarrow> (case rhs of None \<Rightarrow> False | Some r \<Rightarrow> True)
      | Some l \<Rightarrow>
          (case rhs of None \<Rightarrow> False
           | Some r \<Rightarrow>
               if m_next (h l) < m_next (h r) then True
               else if m_next (h r) < m_next (h l) then False
               else l < r))"

definition timer_less :: "'cb timer_heap \<Rightarrow> nat \<Rightarrow> nat \<Rightarrow> bool" where
  "timer_less h l r = Comparator h (Some l) (Some r)"

subsection \<open>Construction and insertion\<close>

definition new_Timer :: "u64 \<Rightarrow> u64 \<Rightarrow> 'cb option \<Rightarrow> bool \<Rightarrow> 'cb timer" where
  "new_Timer now ms cb recurring =
     \<lparr> m_recurring = recurring, m_ms = ms, m_next = now + ms, m_cb = cb \<rparr>"

definition now_Timer :: "u64 \<Rightarrow> 'cb timer" where
  "now_Timer nxt = \<lparr> m_recurring = False, m_ms = 0, m_next = nxt, m_cb = None \<rparr>"

definition new_TimerManager :: "u64 \<Rightarrow> 'cb timer_manager" where
  "new_TimerManager now =
     \<lparr> heap = (\<lambda>_. now_Timer 0), m_timers = [], m_tickled = False, m_previousTime = now \<rparr>"

text \<open>The \<open>addTimer(Timer::ptr, WriteLock&)\<close> overload.\<close>

definition addTimer_ptr :: "nat \<Rightarrow> 'cb timer_manager \<Rightarrow> bool \<times> 'cb timer_manager" where
  "addTimer_ptr val mgr =
     (let ts = set_insert (timer_less (heap mgr)) val (m_timers mgr);
          at_front = (hd ts = val \<and> \<not> m_tickled mgr)
      in (at_front, mgr\<lparr>m_timers := ts, m_tickled := m_tickled mgr \<or> at_front\<rparr>))"

definition addTimer ::
  "u64 \<Rightarrow> nat \<Rightarrow> u64 \<Rightarrow> 'cb option \<Rightarrow> bool \<Rightarrow> 'cb timer_manager \<Rightarrow> nat \<times> bool \<times> 'cb timer_manager" where
  "addTimer now p ms cb recurring mgr =
     (p, addTimer_ptr p (mgr\<lparr>heap := (heap mgr)(p := new_Timer now ms cb recurring)\<rparr>))"

text \<open>\<open>OnTimer\<close>: the callback of a condition timer runs while the condition object is alive.\<close>

definition OnTimer :: "bool \<Rightarrow> ('s \<Rightarrow> 's) \<Rightarrow> 's \<Rightarrow> 's" where
  "OnTimer alive cb s = (if alive then cb s else s)"

definition addConditionTimer ::
  "u64 \<Rightarrow> nat \<Rightarrow> u64 \<Rightarrow> ('s \<Rightarrow> 's) \<Rightarrow> ('s \<Rightarrow> bool) \<Rightarrow> bool \<Rightarrow> ('s \<Rightarrow> 's) timer_manager
     \<Rightarrow> nat \<times> bool \<times> ('s \<Rightarrow> 's) timer_manager" where
  "addConditionTimer now p ms cb weak_cond recurring mgr =
     addTimer now p ms (Some (\<lambda>s. OnTimer (weak_cond s) cb s)) recurring mgr"

subsection \<open>Operations on one timer\<close>

text \<open>\<open>set::erase\<close> of the iterator \<open>find\<close> returned; erasing \<open>end()\<close> is undefined.\<close>

definition erase_found :: "nat \<Rightarrow> 'cb timer_manager \<Rightarrow> 'cb timer_manager result" where
  "erase_found p mgr =
     (case set_find (timer_less (heap mgr)) p (m_timers mgr) of
        None \<Rightarrow> Inl Bad_access
      | Some q \<Rightarrow> Inr (mgr\<lparr>m_timers := set_erase (timer_less (heap mgr)) q (m_timers mgr)\<rparr>))"

definition cancel :: "nat \<Rightarrow> 'cb timer_manager \<Rightarrow> (bool \<times> 'cb timer_manager) result" where
  "cancel p mgr =
     (if m_cb (heap mgr p) \<noteq> None then
        rbind (erase_found p (mgr\<lparr>heap := (heap mgr)(p := (heap mgr p)\<lparr>m_cb := None\<rparr>)\<rparr>))
          (\<lambda>mgr'. Inr (True, mgr'))
      else Inr (False, mgr))"

definition refresh :: "u64 \<Rightarrow> nat \<Rightarrow> 'cb timer_manager \<Rightarrow> bool \<times> 'cb timer_manager" where
  "refresh now p mgr =
     (if m_cb (heap mgr p) = None then (False, mgr)
      else case set_find (timer_less (heap mgr)) p (m_timers mgr) of
        None \<Rightarrow> (False, mgr)
      | Some q \<Rightarrow>
          (let ts = set_erase (timer_less (heap mgr)) q (m_timers mgr);
               h = (heap mgr)(p := (heap mgr p)\<lparr>m_next := now + m_ms (heap mgr p)\<rparr>)
           in (True, mgr\<lparr>heap := h, m_timers := set_insert (timer_less h) p ts\<rparr>)))"

definition reset ::
  "u64 \<Rightarrow> nat \<Rightarrow> u64 \<Rightarrow> bool \<Rightarrow> 'cb timer_manager \<Rightarrow> bool \<times> bool \<times> 'cb timer_manager" where
  "reset now p ms from_now mgr =
     (if ms = m_ms (heap mgr p) \<and> \<not> from_now then (True, False, mgr)
      else if m_cb (heap mgr p) = None then (False, False, mgr)
      else case set_find (timer_less (heap mgr)) p (m_timers mgr) of
        None \<Rightarrow> (False, False, mgr)
      | Some q \<Rightarrow>
          (let ts = set_erase (timer_less (heap mgr)) q (m_timers mgr);
               start = (if from_now then now else m_next (heap mgr p) - m_ms (heap mgr p));
               h = (heap mgr)(p := (heap mgr p)\<lparr>m_ms := ms, m_next := start + ms\<rparr>)
           in (True, addTimer_ptr p (mgr\<lparr>heap := h, m_timers := ts\<rparr>))))"

subsection \<open>Expiry\<close>

definition hasTimer :: "'cb timer_manager \<Rightarrow> bool" where
  "hasTimer mgr = (m_timers mgr \<noteq> [])"

definition getNextTimer :: "u64 \<Rightarrow> 'cb timer_manager \<Rightarrow> u64 \<times> 'cb timer_manager" where
  "getNextTimer now_ms mgr =
     (let mgr' = mgr\<lparr>m_tickled := False\<rparr> in
      case m_timers mgr of
        [] \<Rightarrow> (- 1, mgr')
      | nxt # _ \<Rightarrow>
          if now_ms \<ge> m_next (heap mgr nxt) then (0, mgr')
          else (m_next (heap mgr nxt) - now_ms, mgr'))"

definition detectClockRollover :: "u64 \<Rightarrow> 'cb timer_manager \<Rightarrow> bool \<times> 'cb timer_manager" where
  "detectClockRollover now_ms mgr =
     (now_ms < m_previousTime mgr \<and> now_ms < m_previousTime mgr - 60 * 60 * 1000,
      mgr\<lparr>m_previousTime := now_ms\<rparr>)"

text \<open>The loop over \<open>expired\<close>, with the callbacks pushed so far.\<close>

fun expire_loop ::
  "u64 \<Rightarrow> nat list \<Rightarrow> 'cb option list \<Rightarrow> 'cb timer_manager \<Rightarrow> 'cb option list \<times> 'cb timer_manager" where
  "expire_loop now_ms [] cbs mgr = (cbs, mgr)"
| "expire_loop now_ms (p # ps) cbs mgr =
     (let t = heap mgr p in
      expire_loop now_ms ps (cbs @ [m_cb t])
        (if m_recurring t then
           let h = (heap mgr)(p := t\<lparr>m_next := now_ms + m_ms t\<rparr>)
           in mgr\<lparr>heap := h, m_timers := set_insert (timer_less h) p (m_timers mgr)\<rparr>
         else mgr\<lparr>heap := (heap mgr)(p := t\<lparr>m_cb := None\<rparr>)\<rparr>))"

text \<open>
  \<open>addr\<close> is the address of the temporary \<open>now_timer\<close>; the elements from iterator \<open>it\<close> on are
  what stays in the set.
\<close>

definition listExpiredCb ::
  "u64 \<Rightarrow> nat \<Rightarrow> 'cb option list \<Rightarrow> 'cb timer_manager \<Rightarrow> 'cb option list \<times> 'cb timer_manager" where
  "listExpiredCb now_ms addr cbs mgr0 =
     (if m_timers mgr0 = [] then (cbs, mgr0)
      else let (rollover, mgr) = detectClockRollover now_ms mgr0 in
        if \<not> rollover \<and> m_next (heap mgr (hd (m_timers mgr))) > now_ms then (cbs, mgr)
        else let h = (heap mgr)(addr := now_Timer now_ms);
                 from_it = (if rollover then [] else set_lower_bound (timer_less h) addr (m_timers mgr));
                 rest = dropWhile (\<lambda>p. m_next (heap mgr p) = now_ms) from_it;
                 expired = take (length (m_timers mgr) - length rest) (m_timers mgr)
             in expire_loop now_ms expired cbs (mgr\<lparr>m_timers := rest\<rparr>))"

subsection \<open>The comparator is a strict total order\<close>

lemma timer_less_iff:
  "timer_less h l r \<longleftrightarrow> m_next (h l) < m_next (h r) \<or> (m_next (h l) = m_next (h r) \<and> l < r)"
  by (auto simp: timer_less_def Comparator_def)

lemma same_timer [simp]: "same_key (timer_less h) l r \<longleftrightarrow> l = r"
  by (auto simp: same_key_def timer_less_iff)

interpretation ts: strict_weak "timer_less h" for h :: "'cb timer_heap"
  by unfold_locales (auto simp: timer_less_iff same_key_def)

lemma sorted_heap_cong:
  "(\<And>p. p \<in> set xs \<Longrightarrow> m_next (h p) = m_next (h' p)) \<Longrightarrow>
     sorted_wrt (timer_less h) xs = sorted_wrt (timer_less h') xs"
  by (induction xs) (simp_all add: timer_less_iff)

lemma sorted_heap_upd:
  "p \<notin> set xs \<or> m_next t = m_next (h p) \<Longrightarrow>
     sorted_wrt (timer_less (h(p := t))) xs = sorted_wrt (timer_less h) xs"
  by (rule sorted_heap_cong) auto

subsection \<open>The invariant and the operations on one timer\<close>

text \<open>The set is in the order of the comparator, and an armed timer is in the set.\<close>

definition tm_inv :: "'cb timer_manager \<Rightarrow> bool" where
  "tm_inv mgr \<longleftrightarrow> sorted_wrt (timer_less (heap mgr)) (m_timers mgr)
     \<and> (\<forall>p. m_cb (heap mgr p) \<noteq> None \<longrightarrow> p \<in> set (m_timers mgr))"

lemma tm_invD:
  assumes "tm_inv mgr"
  shows "sorted_wrt (timer_less (heap mgr)) (m_timers mgr)" "distinct (m_timers mgr)"
    "m_cb (heap mgr p) \<noteq> None \<Longrightarrow> p \<in> set (m_timers mgr)"
  using assms ts.sorted_distinct [of "heap mgr"] by (auto simp: tm_inv_def)

lemma new_TimerManager_inv: "tm_inv (new_TimerManager now)"
  by (simp add: tm_inv_def new_TimerManager_def now_Timer_def)

lemma find_timer:
  "sorted_wrt (timer_less h) xs \<Longrightarrow> set_find (timer_less h) p xs = (if p \<in> set xs then Some p else None)"
  using ts.set_find_Some_iff [of h xs p] ts.set_find_None_iff [of h xs p] by auto

lemma erase_timer:
  "sorted_wrt (timer_less h) xs \<Longrightarrow> set (set_erase (timer_less h) p xs) = set xs - {p}"
  using ts.set_erase_sorted [of h xs p] by auto

text \<open>
  Putting a timer outside the set into it, with new fields: the order is kept, and the timers are
  those before and the new one.
\<close>

lemma insert_timer:
  assumes "sorted_wrt (timer_less h) xs" "p \<notin> set xs"
  shows "sorted_wrt (timer_less (h(p := t))) (set_insert (timer_less (h(p := t))) p xs)"
    and "set (set_insert (timer_less (h(p := t))) p xs) = insert p (set xs)"
proof -
  have s: "sorted_wrt (timer_less (h(p := t))) xs"
    using sorted_heap_upd [of p xs t h] assms by simp
  then show "sorted_wrt (timer_less (h(p := t))) (set_insert (timer_less (h(p := t))) p xs)"
    by (rule ts.sorted_insert)
  show "set (set_insert (timer_less (h(p := t))) p xs) = insert p (set xs)"
    using ts.set_insert_new [OF s] assms(2) by auto
qed

lemma addTimer_ptr_simps [simp]:
  "heap (snd (addTimer_ptr p mgr)) = heap mgr"
  "m_timers (snd (addTimer_ptr p mgr)) = set_insert (timer_less (heap mgr)) p (m_timers mgr)"
  "m_previousTime (snd (addTimer_ptr p mgr)) = m_previousTime mgr"
  by (simp_all add: addTimer_ptr_def Let_def)

lemma addTimer_inv:
  assumes "tm_inv mgr" "p \<notin> set (m_timers mgr)" "addTimer now p ms cb rec mgr = (q, front, mgr')"
  shows "tm_inv mgr'" "set (m_timers mgr') = insert p (set (m_timers mgr))"
    "heap mgr' = (heap mgr)(p := new_Timer now ms cb rec)"
proof -
  have m: "mgr' = snd (addTimer_ptr p (mgr\<lparr>heap := (heap mgr)(p := new_Timer now ms cb rec)\<rparr>))"
    using assms(3) by (auto simp: addTimer_def)
  show "set (m_timers mgr') = insert p (set (m_timers mgr))"
    "heap mgr' = (heap mgr)(p := new_Timer now ms cb rec)"
    using insert_timer(2) [OF tm_invD(1) [OF assms(1)] assms(2)] unfolding m by simp_all
  with insert_timer(1) [OF tm_invD(1) [OF assms(1)] assms(2), of "new_Timer now ms cb rec"]
  show "tm_inv mgr'" using tm_invD(3) [OF assms(1)] m by (auto simp: tm_inv_def)
qed

lemma cancel_ok:
  assumes "tm_inv mgr"
  shows "\<exists>mgr'. cancel p mgr = Inr (m_cb (heap mgr p) \<noteq> None, mgr') \<and> tm_inv mgr'
      \<and> m_cb (heap mgr' p) = None
      \<and> (m_cb (heap mgr p) \<noteq> None \<longrightarrow> set (m_timers mgr') = set (m_timers mgr) - {p})
      \<and> (\<forall>q. q \<noteq> p \<longrightarrow> heap mgr' q = heap mgr q)"
proof (cases "m_cb (heap mgr p) = None")
  case True
  then show ?thesis using assms by (simp add: cancel_def)
next
  case False
  let ?h = "(heap mgr)(p := (heap mgr p)\<lparr>m_cb := None\<rparr>)"
  have "sorted_wrt (timer_less ?h) (m_timers mgr)"
    using sorted_heap_upd [of p "m_timers mgr" _ "heap mgr"] tm_invD(1) [OF assms] by simp
  moreover have "p \<in> set (m_timers mgr)" by (rule tm_invD(3) [OF assms False])
  ultimately have "cancel p mgr = Inr (True, mgr\<lparr>heap := ?h, m_timers := set_erase (timer_less ?h) p (m_timers mgr)\<rparr>)"
      "sorted_wrt (timer_less ?h) (set_erase (timer_less ?h) p (m_timers mgr))"
      "set (set_erase (timer_less ?h) p (m_timers mgr)) = set (m_timers mgr) - {p}"
    using False ts.sorted_erase by (auto simp: cancel_def erase_found_def find_timer erase_timer)
  then show ?thesis using False tm_invD(3) [OF assms] by (auto simp: tm_inv_def)
qed

lemma reinsert_inv:
  assumes "tm_inv mgr" "p \<in> set (m_timers mgr)"
  shows "tm_inv (mgr\<lparr>heap := (heap mgr)(p := t),
      m_timers := set_insert (timer_less ((heap mgr)(p := t))) p (set_erase (timer_less (heap mgr)) p (m_timers mgr))\<rparr>)"
    and "set (set_insert (timer_less ((heap mgr)(p := t))) p (set_erase (timer_less (heap mgr)) p (m_timers mgr)))
      = set (m_timers mgr)"
proof -
  let ?ts = "set_erase (timer_less (heap mgr)) p (m_timers mgr)"
  have e: "sorted_wrt (timer_less (heap mgr)) ?ts" "set ?ts = set (m_timers mgr) - {p}"
    using ts.sorted_erase [OF tm_invD(1) [OF assms(1)]] erase_timer [OF tm_invD(1) [OF assms(1)]] by auto
  then have "p \<notin> set ?ts" by simp
  from insert_timer [OF e(1) this, of t] e(2) assms tm_invD(3) [OF assms(1)]
  show "tm_inv (mgr\<lparr>heap := (heap mgr)(p := t),
      m_timers := set_insert (timer_less ((heap mgr)(p := t))) p ?ts\<rparr>)"
    "set (set_insert (timer_less ((heap mgr)(p := t))) p ?ts) = set (m_timers mgr)"
    by (auto simp: tm_inv_def)
qed

lemma refresh_inv:
  assumes "tm_inv mgr" "refresh now p mgr = (ok, mgr')"
  shows "tm_inv mgr'" "set (m_timers mgr') = set (m_timers mgr)"
    "ok \<longleftrightarrow> m_cb (heap mgr p) \<noteq> None"
    "ok \<Longrightarrow> m_next (heap mgr' p) = now + m_ms (heap mgr p)"
  using assms reinsert_inv [OF assms(1), of p] tm_invD(1,3) [OF assms(1)]
  by (auto simp: refresh_def find_timer Let_def split: if_splits)

lemma reset_inv:
  assumes "tm_inv mgr" "reset now p ms from_now mgr = (ok, front, mgr')"
  shows "tm_inv mgr'" "set (m_timers mgr') = set (m_timers mgr)"
    "m_cb (heap mgr p) \<noteq> None \<Longrightarrow> ok \<and> m_ms (heap mgr' p) = ms
      \<and> m_next (heap mgr' p) = (if from_now then now else m_next (heap mgr p) - m_ms (heap mgr p)) + ms"
proof -
  let ?t = "(heap mgr p)\<lparr>m_ms := ms, m_next := (if from_now then now else m_next (heap mgr p) - m_ms (heap mgr p)) + ms\<rparr>"
  let ?mgr = "mgr\<lparr>heap := (heap mgr)(p := ?t), m_timers := set_erase (timer_less (heap mgr)) p (m_timers mgr)\<rparr>"
  note R = reinsert_inv [OF assms(1), of p ?t] and S = tm_invD(1) [OF assms(1)]
  consider (same) "ms = m_ms (heap mgr p) \<and> \<not> from_now" "mgr' = mgr" "ok"
    | (off) "m_cb (heap mgr p) = None" "mgr' = mgr"
    | (moved) "m_cb (heap mgr p) \<noteq> None" "ok" "mgr' = snd (addTimer_ptr p ?mgr)"
  proof (cases "ms = m_ms (heap mgr p) \<and> \<not> from_now \<or> m_cb (heap mgr p) = None")
    case True
    then have "reset now p ms from_now mgr = (ms = m_ms (heap mgr p) \<and> \<not> from_now, False, mgr)"
      by (elim disjE) (simp_all add: reset_def)
    then have e: "ok \<longleftrightarrow> ms = m_ms (heap mgr p) \<and> \<not> from_now" "mgr' = mgr"
      unfolding assms(2) by simp_all
    show ?thesis
    proof (cases "ms = m_ms (heap mgr p) \<and> \<not> from_now")
      case True
      with e show ?thesis by (intro that(1)) blast+
    next
      case False
      with \<open>ms = m_ms (heap mgr p) \<and> \<not> from_now \<or> m_cb (heap mgr p) = None\<close> e(2)
      show ?thesis by (intro that(2)) blast+
    qed
  next
    case False
    then have nf: "(ms = m_ms (heap mgr p) \<and> \<not> from_now) = False" "(m_cb (heap mgr p) = None) = False"
      by blast+
    then have "reset now p ms from_now mgr = (True, addTimer_ptr p ?mgr)"
      using tm_invD(3) [OF assms(1), of p] S unfolding reset_def nf by (simp add: find_timer Let_def)
    then have "ok" "(front, mgr') = addTimer_ptr p ?mgr" unfolding assms(2) prod.inject by blast+
    then have "ok" "mgr' = snd (addTimer_ptr p ?mgr)" by (simp_all only: snd_conv flip: \<open>(front, mgr') = addTimer_ptr p ?mgr\<close>)
    with False show ?thesis by (intro that(3)) blast+
  qed
  note cases = this
  have moved_inv: "tm_inv (snd (addTimer_ptr p ?mgr)) = tm_inv (mgr\<lparr>heap := (heap mgr)(p := ?t),
      m_timers := set_insert (timer_less ((heap mgr)(p := ?t))) p (set_erase (timer_less (heap mgr)) p (m_timers mgr))\<rparr>)"
    by (simp add: tm_inv_def)
  show "tm_inv mgr'"
  proof (rule cases)
    assume armed: "m_cb (heap mgr p) \<noteq> None" and "mgr' = snd (addTimer_ptr p ?mgr)"
    then show "tm_inv mgr'" using R(1) [OF tm_invD(3) [OF assms(1) armed]] by (simp only: moved_inv)
  qed (use assms(1) in simp_all)
  show "set (m_timers mgr') = set (m_timers mgr)"
    by (rule cases) (use R(2) tm_invD(3) [OF assms(1)] in simp_all)
  show "m_cb (heap mgr p) \<noteq> None \<Longrightarrow> ok \<and> m_ms (heap mgr' p) = ms
      \<and> m_next (heap mgr' p) = (if from_now then now else m_next (heap mgr p) - m_ms (heap mgr p)) + ms"
    by (rule cases) simp_all
qed

subsection \<open>Expiry\<close>

text \<open>What expiry does to one timer.\<close>

definition fired :: "u64 \<Rightarrow> 'cb timer \<Rightarrow> 'cb timer" where
  "fired now t = (if m_recurring t then t\<lparr>m_next := now + m_ms t\<rparr> else t\<lparr>m_cb := None\<rparr>)"

lemma expire_loop_ok:
  assumes "sorted_wrt (timer_less (heap mgr)) (m_timers mgr)"
    and "distinct ps" "set ps \<inter> set (m_timers mgr) = {}"
    and "expire_loop now ps cbs mgr = (cbs', mgr')"
  shows "cbs' = cbs @ map (\<lambda>p. m_cb (heap mgr p)) ps
      \<and> sorted_wrt (timer_less (heap mgr')) (m_timers mgr')
      \<and> set (m_timers mgr') = set (m_timers mgr) \<union> {p \<in> set ps. m_recurring (heap mgr p)}
      \<and> heap mgr' = (\<lambda>p. if p \<in> set ps then fired now (heap mgr p) else heap mgr p)"
  using assms
proof (induction ps arbitrary: cbs mgr)
  case (Cons p ps)
  let ?t = "heap mgr p"
  let ?h = "(heap mgr)(p := fired now ?t)"
  let ?m = "if m_recurring ?t then mgr\<lparr>heap := ?h, m_timers := set_insert (timer_less ?h) p (m_timers mgr)\<rparr>
    else mgr\<lparr>heap := ?h\<rparr>"
  have p: "p \<notin> set (m_timers mgr)" "p \<notin> set ps" using Cons.prems by auto
  have run: "expire_loop now ps (cbs @ [m_cb ?t]) ?m = (cbs', mgr')"
    using Cons.prems(4) by (auto simp: fired_def Let_def split: if_splits)
  have s: "sorted_wrt (timer_less (heap ?m)) (m_timers ?m)"
      "set (m_timers ?m) = set (m_timers mgr) \<union> {q. q = p \<and> m_recurring ?t}" "heap ?m = ?h"
    using insert_timer [OF Cons.prems(1) p(1), of "fired now ?t"] sorted_heap_upd [of p "m_timers mgr"]
      Cons.prems(1) p(1) by auto
  have "set ps \<inter> set (m_timers ?m) = {}" using s(2) p(2) Cons.prems(3) by auto
  from Cons.IH [OF s(1) _ this run] Cons.prems(2)
  have IH: "cbs' = (cbs @ [m_cb ?t]) @ map (\<lambda>q. m_cb (?h q)) ps"
      "sorted_wrt (timer_less (heap mgr')) (m_timers mgr')"
      "set (m_timers mgr') = set (m_timers ?m) \<union> {q \<in> set ps. m_recurring (?h q)}"
      "heap mgr' = (\<lambda>q. if q \<in> set ps then fired now (?h q) else ?h q)"
    unfolding s(3) by auto
  have eq: "q \<in> set ps \<Longrightarrow> ?h q = heap mgr q" for q using p(2) by auto
  have "map (\<lambda>q. m_cb (?h q)) ps = map (\<lambda>q. m_cb (heap mgr q)) ps" using eq by simp
  moreover have "{q \<in> set ps. m_recurring (?h q)} = {q \<in> set ps. m_recurring (heap mgr q)}"
    using p(2) by auto
  moreover have "(\<lambda>q. if q \<in> set ps then fired now (?h q) else ?h q)
      = (\<lambda>q. if q \<in> set (p # ps) then fired now (heap mgr q) else heap mgr q)"
    using p(2) by auto
  ultimately show ?case using IH s(2) by auto
qed simp

text \<open>The iterator arithmetic around the temporary timer finds the timers due by \<open>now\<close>.\<close>

lemma due_prefix_gen:
  assumes "sorted_wrt (timer_less h) xs"
    and "\<And>y. y \<in> set xs \<Longrightarrow> lt y \<longleftrightarrow> m_next (h y) < now \<or> m_next (h y) = now \<and> y < addr"
  shows "dropWhile (\<lambda>p. m_next (h p) = now) (dropWhile lt xs) = dropWhile (\<lambda>p. m_next (h p) \<le> now) xs"
  using assms
proof (induction xs)
  case (Cons y ys)
  have mono: "m_next (h y) \<le> m_next (h z)" if "z \<in> set ys" for z
    using Cons.prems(1) that by (auto simp: timer_less_iff)
  show ?case
  proof (cases "lt y")
    case True
    then have "m_next (h y) \<le> now" using Cons.prems(2) [of y] by auto
    then show ?thesis using Cons True by simp
  next
    case False
    have "dropWhile (\<lambda>p. m_next (h p) = now) ys = dropWhile (\<lambda>p. m_next (h p) \<le> now) ys"
      if "m_next (h y) = now"
      by (rule dropWhile_cong) (use mono that in \<open>auto intro: antisym\<close>)
    with False Cons.prems(2) [of y] show ?thesis by auto
  qed
qed simp

lemma due_prefix:
  assumes "sorted_wrt (timer_less h) xs" "addr \<notin> set xs"
  shows "dropWhile (\<lambda>p. m_next (h p) = now)
      (set_lower_bound (timer_less (h(addr := now_Timer now))) addr xs)
    = dropWhile (\<lambda>p. m_next (h p) \<le> now) xs"
  unfolding set_lower_bound_def
  by (rule due_prefix_gen [where addr = addr, OF assms(1)])
     (use assms(2) in \<open>auto simp: timer_less_iff now_Timer_def\<close>)

lemma sorted_due_take:
  "sorted_wrt (timer_less h) xs \<Longrightarrow>
     takeWhile (\<lambda>p. m_next (h p) \<le> now) xs = filter (\<lambda>p. m_next (h p) \<le> now) xs"
proof (induction xs)
  case (Cons y ys)
  have "m_next (h y) \<le> m_next (h z)" if "z \<in> set ys" for z
    using Cons.prems that by (auto simp: timer_less_iff)
  then have "now < m_next (h y) \<Longrightarrow> \<forall>z \<in> set ys. now < m_next (h z)" by fastforce
  then show ?case using Cons by (auto simp: not_le filter_empty_conv)
qed simp

lemma sorted_due_drop:
  assumes "sorted_wrt (timer_less h) xs"
  shows "dropWhile (\<lambda>p. m_next (h p) \<le> now) xs = filter (\<lambda>p. m_next (h p) > now) xs"
proof -
  let ?d = "\<lambda>p. m_next (h p) \<le> now"
  have "filter (\<lambda>p. \<not> ?d p) xs = filter (\<lambda>p. \<not> ?d p) (takeWhile ?d xs @ dropWhile ?d xs)" by simp
  also have "\<dots> = filter (\<lambda>p. \<not> ?d p) (dropWhile ?d xs)"
    unfolding filter_append by (auto simp: filter_empty_conv dest: set_takeWhileD)
  also have "\<dots> = dropWhile ?d xs"
  proof (cases "dropWhile ?d xs")
    case (Cons z zs)
    have "\<not> ?d z" using Cons hd_dropWhile [of ?d xs] by auto
    moreover have "sorted_wrt (timer_less h) (z # zs)"
      using assms sorted_wrt_append [of "timer_less h" "takeWhile ?d xs" "dropWhile ?d xs"]
      unfolding takeWhile_dropWhile_id unfolding Cons by blast
    ultimately have "\<forall>w \<in> set (z # zs). \<not> ?d w" by (auto simp: timer_less_iff)
    then show ?thesis unfolding Cons by (simp only: filter_id_conv)
  next
    case Nil
    then show ?thesis by (simp only: filter.simps)
  qed
  finally show ?thesis by (simp add: not_le)
qed

text \<open>The timers that expire at a call: all of them after a clock rollover, else the due ones.\<close>

definition due :: "u64 \<Rightarrow> 'cb timer_manager \<Rightarrow> nat list" where
  "due now mgr = (if fst (detectClockRollover now mgr) then m_timers mgr
     else filter (\<lambda>p. m_next (heap mgr p) \<le> now) (m_timers mgr))"

lemma listExpiredCb_loop:
  assumes "tm_inv mgr" "addr \<notin> set (m_timers mgr)" "m_timers mgr \<noteq> []"
  shows "listExpiredCb now addr cbs mgr
    = expire_loop now (due now mgr) cbs
        (mgr\<lparr>m_previousTime := now, m_timers := filter (\<lambda>p. p \<notin> set (due now mgr)) (m_timers mgr)\<rparr>)"
proof -
  let ?ts = "m_timers mgr" and ?roll = "fst (detectClockRollover now mgr)"
  note S = tm_invD(1) [OF assms(1)]
  have det: "detectClockRollover now mgr = (?roll, mgr\<lparr>m_previousTime := now\<rparr>)"
    by (simp add: detectClockRollover_def)
  show ?thesis
  proof (cases ?roll)
    case True
    then have "listExpiredCb now addr cbs mgr = expire_loop now ?ts cbs (mgr\<lparr>m_previousTime := now, m_timers := []\<rparr>)"
      using assms(3) det by (simp add: listExpiredCb_def)
    moreover have "filter (\<lambda>p. p \<notin> set (due now mgr)) ?ts = []" using True by (simp add: due_def filter_empty_conv)
    ultimately show ?thesis using True by (simp add: due_def)
  next
    case False
    let ?due = "\<lambda>p. m_next (heap mgr p) \<le> now"
    have d: "due now mgr = takeWhile ?due ?ts" using False sorted_due_take [OF S] by (simp add: due_def)
    have r: "filter (\<lambda>p. p \<notin> set (due now mgr)) ?ts = dropWhile ?due ?ts"
      unfolding sorted_due_drop [OF S] due_def using False
      by (simp add: not_le cong: filter_cong)
    have t: "take (length ?ts - length (dropWhile ?due ?ts)) ?ts = takeWhile ?due ?ts"
      by (metis append_eq_conv_conj diff_add_inverse2 length_append takeWhile_dropWhile_id)
    show ?thesis
    proof (cases "?due (hd ?ts)")
      case True
      then show ?thesis
        using False assms(3) det d r t due_prefix [OF S assms(2), of now] leD [OF True]
        by (simp add: listExpiredCb_def)
    next
      case nd: False
      then have "takeWhile ?due ?ts = []" "dropWhile ?due ?ts = ?ts"
        using assms(3) by (auto simp: neq_Nil_conv)
      then show ?thesis
        using False nd assms(3) det d r by (simp add: listExpiredCb_def not_le)
    qed
  qed
qed

lemma due_subset: "set (due now mgr) \<subseteq> set (m_timers mgr)"
  by (auto simp: due_def)

lemma listExpiredCb_ok:
  assumes "tm_inv mgr" "addr \<notin> set (m_timers mgr)"
    and "listExpiredCb now addr cbs mgr = (cbs', mgr')"
  shows "cbs' = cbs @ map (\<lambda>p. m_cb (heap mgr p)) (due now mgr)"
    and "tm_inv mgr'"
    and "set (m_timers mgr') = (set (m_timers mgr) - set (due now mgr))
      \<union> {p \<in> set (due now mgr). m_recurring (heap mgr p)}"
    and "heap mgr' = (\<lambda>p. if p \<in> set (due now mgr) then fired now (heap mgr p) else heap mgr p)"
proof -
  let ?d = "due now mgr" and ?ts = "m_timers mgr"
  let ?m = "mgr\<lparr>m_previousTime := now, m_timers := filter (\<lambda>p. p \<notin> set ?d) ?ts\<rparr>"
  note S = tm_invD [OF assms(1)]
  have "cbs' = cbs @ map (\<lambda>p. m_cb (heap mgr p)) ?d
      \<and> sorted_wrt (timer_less (heap mgr')) (m_timers mgr')
      \<and> set (m_timers mgr') = (set ?ts - set ?d) \<union> {p \<in> set ?d. m_recurring (heap mgr p)}
      \<and> heap mgr' = (\<lambda>p. if p \<in> set ?d then fired now (heap mgr p) else heap mgr p)"
  proof (cases "?ts = []")
    case True
    then show ?thesis using assms(3) by (auto simp: listExpiredCb_def due_def)
  next
    case False
    have "sorted_wrt (timer_less (heap ?m)) (m_timers ?m)" using S(1) by (simp add: sorted_wrt_filter)
    moreover have "distinct ?d" using S(2) by (simp add: due_def)
    moreover have "set ?d \<inter> set (m_timers ?m) = {}" by auto
    moreover have "expire_loop now ?d cbs ?m = (cbs', mgr')"
      using assms(3) listExpiredCb_loop [OF assms(1,2) False] by simp
    ultimately show ?thesis using expire_loop_ok [of ?m ?d now cbs cbs' mgr'] by auto
  qed
  then show "cbs' = cbs @ map (\<lambda>p. m_cb (heap mgr p)) ?d"
    "set (m_timers mgr') = (set ?ts - set ?d) \<union> {p \<in> set ?d. m_recurring (heap mgr p)}"
    "heap mgr' = (\<lambda>p. if p \<in> set ?d then fired now (heap mgr p) else heap mgr p)"
    "tm_inv mgr'"
    using S(3) by (auto simp: tm_inv_def fired_def split: if_splits)
qed

subsection \<open>The manager as a state machine\<close>

text \<open>
  The steps other threads can take between two calls: creating a timer at a fresh address,
  cancelling, refreshing or resetting one, asking for the next deadline, collecting the expired.
\<close>

inductive tm_step :: "'cb timer_manager \<Rightarrow> 'cb timer_manager \<Rightarrow> bool" where
  add: "p \<notin> set (m_timers mgr) \<Longrightarrow> m_cb (heap mgr p) = None \<Longrightarrow>
     addTimer now p ms cb rec mgr = (q, front, mgr') \<Longrightarrow> tm_step mgr mgr'"
| cancel: "cancel p mgr = Inr (ok, mgr') \<Longrightarrow> tm_step mgr mgr'"
| refresh: "refresh now p mgr = (ok, mgr') \<Longrightarrow> tm_step mgr mgr'"
| reset: "reset now p ms from_now mgr = (ok, front, mgr') \<Longrightarrow> tm_step mgr mgr'"
| getNext: "getNextTimer now mgr = (d, mgr') \<Longrightarrow> tm_step mgr mgr'"
| expire: "addr \<notin> set (m_timers mgr) \<Longrightarrow> listExpiredCb now addr [] mgr = (cbs, mgr') \<Longrightarrow> tm_step mgr mgr'"

inductive tm_reachable :: "'cb timer_manager \<Rightarrow> bool" where
  init: "tm_reachable (new_TimerManager now)"
| step: "tm_reachable mgr \<Longrightarrow> tm_step mgr mgr' \<Longrightarrow> tm_reachable mgr'"

lemma tm_step_inv: "tm_step mgr mgr' \<Longrightarrow> tm_inv mgr \<Longrightarrow> tm_inv mgr'"
proof (induction rule: tm_step.induct)
  case (cancel p mgr ok mgr')
  then show ?case using cancel_ok [of mgr p] by auto
next
  case (getNext now mgr d mgr')
  then show ?case by (auto simp: getNextTimer_def tm_inv_def Let_def split: list.splits if_splits)
next
  case (add p mgr now ms cb rec q front mgr')
  then show ?case using addTimer_inv(1) by blast
next
  case (expire addr mgr now cbs mgr')
  then show ?case using listExpiredCb_ok(2) by blast
qed (auto dest: refresh_inv(1) reset_inv(1))

lemma tm_reachable_inv: "tm_reachable mgr \<Longrightarrow> tm_inv mgr"
  by (induction rule: tm_reachable.induct) (auto intro: new_TimerManager_inv tm_step_inv)

subsection \<open>Properties\<close>

text \<open>
  C25: in every state the manager can reach through any interleaving of its operations, the set is
  strictly ordered by deadline, every armed timer is in it, and \<open>cancel\<close> never erases the end
  iterator: it reports exactly whether the timer was armed, disarms it, and takes it out of the set.
\<close>

theorem cancel_safe:
  assumes "tm_reachable mgr"
  shows "sorted_wrt (timer_less (heap mgr)) (m_timers mgr)
      \<and> (\<exists>mgr'. cancel p mgr = Inr (m_cb (heap mgr p) \<noteq> None, mgr') \<and> tm_inv mgr'
          \<and> m_cb (heap mgr' p) = None
          \<and> (m_cb (heap mgr p) \<noteq> None \<longrightarrow> set (m_timers mgr') = set (m_timers mgr) - {p}))"
  using tm_invD(1) [OF tm_reachable_inv [OF assms]] cancel_ok [OF tm_reachable_inv [OF assms], of p]
  by blast

theorem cancel_safe_witness:
  "\<exists>mgr'. cancel 4 (new_TimerManager 7 :: nat timer_manager) = Inr (False, mgr')"
  using cancel_safe [OF tm_reachable.init [of 7], of 4]
  by (auto simp: new_TimerManager_def now_Timer_def)

text \<open>
  C4: when the clock has not gone back, \<open>listExpiredCb\<close> returns exactly the callbacks of the timers
  whose deadline has come, earliest deadline first; a one-shot timer among them leaves the set and
  is disarmed, a recurring one stays in it, keeps its callback and period and gets the deadline one period from now; nothing else of
  them changes, and the timers that are not due are untouched.
\<close>

theorem expired_exactly:
  assumes "tm_reachable mgr" "addr \<notin> set (m_timers mgr)" "m_previousTime mgr \<le> now"
  shows "\<exists>mgr'. listExpiredCb now addr [] mgr
        = (map (\<lambda>p. m_cb (heap mgr p)) (filter (\<lambda>p. m_next (heap mgr p) \<le> now) (m_timers mgr)), mgr')
      \<and> tm_inv mgr'
      \<and> set (m_timers mgr') = {p \<in> set (m_timers mgr). m_next (heap mgr p) > now \<or> m_recurring (heap mgr p)}
      \<and> (\<forall>p \<in> set (m_timers mgr). m_next (heap mgr p) \<le> now \<longrightarrow>
           heap mgr' p = (if m_recurring (heap mgr p) then (heap mgr p)\<lparr>m_next := now + m_ms (heap mgr p)\<rparr>
             else (heap mgr p)\<lparr>m_cb := None\<rparr>))
      \<and> (\<forall>p. p \<notin> set (m_timers mgr) \<or> m_next (heap mgr p) > now \<longrightarrow> heap mgr' p = heap mgr p)"
proof -
  obtain cbs mgr' where run: "listExpiredCb now addr [] mgr = (cbs, mgr')" by fastforce
  have "due now mgr = filter (\<lambda>p. m_next (heap mgr p) \<le> now) (m_timers mgr)"
    using leD [OF assms(3)] by (simp add: due_def detectClockRollover_def)
  note E = listExpiredCb_ok [OF tm_reachable_inv [OF assms(1)] assms(2) run, unfolded this]
  show ?thesis
  proof (intro exI [of _ mgr'] conjI)
    show "set (m_timers mgr') = {p \<in> set (m_timers mgr). m_next (heap mgr p) > now \<or> m_recurring (heap mgr p)}"
      unfolding E(3) by (auto simp: not_le)
  qed (use run E(1,2,4) in \<open>auto simp: fired_def not_le\<close>)
qed

theorem expired_exactly_witness:
  "\<exists>mgr'. listExpiredCb 9 1 [] (snd (snd (addTimer 5 0 3 (Some ''cb'') True (new_TimerManager 5))))
     = ([Some ''cb''], mgr') \<and> set (m_timers mgr') = {0} \<and> m_next (heap mgr' 0) = 12 \<and> m_cb (heap mgr' 0) = Some ''cb''"
proof -
  let ?m = "snd (snd (addTimer 5 0 3 (Some ''cb'') True (new_TimerManager 5)))"
  have m: "m_timers ?m = [0]" "heap ?m 0 = new_Timer 5 3 (Some ''cb'') True" "m_previousTime ?m = 5"
    by (simp_all add: addTimer_def addTimer_ptr_def new_TimerManager_def Let_def)
  have "tm_step (new_TimerManager 5) ?m"
    by (rule tm_step.add [where p = 0 and now = 5 and ms = 3 and cb = "Some ''cb''" and rec = True
        and q = 0 and front = True])
       (simp_all add: addTimer_def addTimer_ptr_def new_TimerManager_def now_Timer_def Let_def)
  then have "tm_reachable ?m" by (rule tm_reachable.step [OF tm_reachable.init])
  from expired_exactly [OF this, of 1 9] m show ?thesis by (auto simp: new_Timer_def)
qed

text \<open>
  \<open>getNextTimer\<close> is exact: it returns all ones when there is no timer, zero exactly when some
  timer is due, and otherwise the time to the earliest deadline.
\<close>

theorem next_timer_exact:
  assumes "tm_reachable mgr"
  shows "case m_timers mgr of
      [] \<Rightarrow> fst (getNextTimer now mgr) = - 1
    | _ # _ \<Rightarrow>
        if \<exists>p \<in> set (m_timers mgr). m_next (heap mgr p) \<le> now then fst (getNextTimer now mgr) = 0
        else fst (getNextTimer now mgr) \<noteq> 0
          \<and> (\<exists>p \<in> set (m_timers mgr). now + fst (getNextTimer now mgr) = m_next (heap mgr p))
          \<and> (\<forall>p \<in> set (m_timers mgr). now + fst (getNextTimer now mgr) \<le> m_next (heap mgr p))"
proof (cases "m_timers mgr")
  case Nil
  then show ?thesis by (simp add: getNextTimer_def)
next
  case (Cons x xs)
  have least: "\<forall>p \<in> set (m_timers mgr). m_next (heap mgr x) \<le> m_next (heap mgr p)"
    using tm_invD(1) [OF tm_reachable_inv [OF assms]] Cons by (auto simp: timer_less_iff)
  show ?thesis
  proof (cases "m_next (heap mgr x) \<le> now")
    case True
    then show ?thesis using Cons by (simp add: getNextTimer_def)
  next
    case False
    have "\<not> m_next (heap mgr p) \<le> now" if "p \<in> set (m_timers mgr)" for p
      using False least that order.trans by blast
    moreover have "getNextTimer now mgr = (m_next (heap mgr x) - now, mgr\<lparr>m_tickled := False\<rparr>)"
      using False Cons by (simp add: getNextTimer_def)
    ultimately show ?thesis using False least Cons by auto
  qed
qed

theorem next_timer_exact_witness:
  "fst (getNextTimer 3 (new_TimerManager 3 :: nat timer_manager)) = - 1"
  using next_timer_exact [OF tm_reachable.init [of 3], of 3] by (simp add: new_TimerManager_def)

text \<open>
  The rollover test subtracts an hour without a check. In the first hour of the monotonic clock
  the subtraction wraps, so any step back of the clock, however small, counts as a rollover; a
  timer that is not due for a long time then fires at once.
\<close>

theorem rollover_wraps:
  assumes "m_previousTime mgr < 60 * 60 * 1000" "now < m_previousTime mgr"
  shows "fst (detectClockRollover now mgr)"
proof -
  have "m_previousTime mgr < m_previousTime mgr - 60 * 60 * 1000"
    using assms(1) sub_wrap_lt [of "m_previousTime mgr" 3600000] by simp
  then show ?thesis using assms(2) by (simp add: detectClockRollover_def)
qed

theorem rollover_wraps_witness:
  "fst (detectClockRollover 9 (new_TimerManager 10 :: nat timer_manager))"
  by (rule rollover_wraps) (simp_all add: new_TimerManager_def)

end
