(* ===== verification/StringUtil.thy ===== *)
theory StringUtil
  imports Prelude
begin

text \<open>
  Text helpers: the string part of \<open>src/utils/util.cpp\<close> and \<open>include/fishjoy/utils/util.hpp\<close>, with
  the members of \<open>std::string\<close> and of the C library that the sources use. A \<open>std::string\<close> is a
  list of characters; a position that may be \<open>npos\<close> is an option.
\<close>

subsection \<open>Members of \<open>std::string\<close>\<close>

fun find_from :: "('a \<Rightarrow> bool) \<Rightarrow> nat \<Rightarrow> 'a list \<Rightarrow> nat option" where
  "find_from P i [] = None"
| "find_from P i (x # xs) = (if P x then Some i else find_from P (Suc i) xs)"

definition find_char :: "char \<Rightarrow> string \<Rightarrow> nat option" where
  "find_char c str = find_from (\<lambda>x. x = c) 0 str"

definition find_first_not_of :: "string \<Rightarrow> string \<Rightarrow> nat option" where
  "find_first_not_of delimit str = find_from (\<lambda>x. x \<notin> set delimit) 0 str"

definition find_last_not_of :: "string \<Rightarrow> string \<Rightarrow> nat option" where
  "find_last_not_of delimit str =
     map_option (\<lambda>i. length str - 1 - i) (find_from (\<lambda>x. x \<notin> set delimit) 0 (rev str))"

text \<open>\<open>substr(pos, count)\<close>; a \<open>pos\<close> past the end throws \<open>out_of_range\<close>.\<close>

definition substr :: "nat \<Rightarrow> nat \<Rightarrow> string \<Rightarrow> string" where
  "substr off n str = take n (drop off str)"

lemma find_from_eq:
  "find_from P i xs = (if \<exists>x \<in> set xs. P x then Some (i + length (takeWhile (\<lambda>x. \<not> P x) xs)) else None)"
  by (induction xs arbitrary: i) auto

lemma drop_takeWhile: "drop (length (takeWhile P xs)) xs = dropWhile P xs"
  by (induction xs) auto

lemma char_less_256: "(of_char c :: nat) < 256"
  by (rule nat_of_char_less_256)

subsection \<open>Case\<close>

text \<open>\<open>toupper\<close> and \<open>tolower\<close> in the C locale.\<close>

definition toupper :: "char \<Rightarrow> char" where
  "toupper c = (let n = of_char c :: nat in if 97 \<le> n \<and> n \<le> 122 then char_of (n - 32) else c)"

definition tolower :: "char \<Rightarrow> char" where
  "tolower c = (let n = of_char c :: nat in if 65 \<le> n \<and> n \<le> 90 then char_of (n + 32) else c)"

definition ToUpper :: "string \<Rightarrow> string" where
  "ToUpper name = map toupper name"

definition ToLower :: "string \<Rightarrow> string" where
  "ToLower name = map tolower name"

subsection \<open>Numbers\<close>

definition is_digit :: "char \<Rightarrow> bool" where
  "is_digit c \<longleftrightarrow> 48 \<le> (of_char c :: nat) \<and> (of_char c :: nat) \<le> 57"

definition isspace :: "char \<Rightarrow> bool" where
  "isspace c \<longleftrightarrow> (of_char c :: nat) = 32 \<or> (9 \<le> (of_char c :: nat) \<and> (of_char c :: nat) \<le> 13)"

definition digits_value :: "string \<Rightarrow> nat" where
  "digits_value ds = foldl (\<lambda>acc c. 10 * acc + (of_char c - 48)) 0 ds"

text \<open>
  \<open>strtoull(s, nullptr, 10)\<close>: leading space, an optional sign, the digits that follow; a value
  out of range saturates, a minus sign negates the value as an unsigned number.
\<close>

definition strtoull :: "string \<Rightarrow> u64" where
  "strtoull s =
     (let s1 = dropWhile isspace s;
          neg = (s1 \<noteq> [] \<and> hd s1 = CHR ''-'');
          s2 = (if s1 \<noteq> [] \<and> (hd s1 = CHR ''-'' \<or> hd s1 = CHR ''+'') then tl s1 else s1);
          n = digits_value (takeWhile is_digit s2)
      in if n \<ge> 2 ^ 64 then - 1 else if neg then - of_nat n else of_nat n)"

definition ToChar :: "string \<Rightarrow> char" where
  "ToChar str = (if str = [] then char_of (0::nat) else hd str)"

definition Atoi :: "string \<Rightarrow> u64" where
  "Atoi str = (if str = [] then 0 else strtoull str)"

text \<open>Decimal output of an unsigned value by an \<open>ostream\<close>.\<close>

fun dec_digits :: "nat \<Rightarrow> string \<Rightarrow> string" where
  "dec_digits n acc =
     (let acc' = char_of (48 + n mod 10) # acc in if n < 10 then acc' else dec_digits (n div 10) acc')"

declare dec_digits.simps [simp del]

definition dec :: "nat \<Rightarrow> string" where
  "dec n = dec_digits n []"

subsection \<open>Percent encoding\<close>

definition uri_chars :: "nat list" where
  "uri_chars =
     [0, 0, 0, 0, 0, 0, 0, 0, 0, 0, 0, 0, 0, 0, 0, 0,
      0, 0, 0, 0, 0, 0, 0, 0, 0, 0, 0, 0, 0, 0, 0, 0,
      0, 0, 0, 0, 0, 0, 0, 0, 0, 0, 0, 0, 0, 1, 1, 0,
      1, 1, 1, 1, 1, 1, 1, 1, 1, 1, 0, 0, 0, 1, 0, 0,
      0, 1, 1, 1, 1, 1, 1, 1, 1, 1, 1, 1, 1, 1, 1, 1,
      1, 1, 1, 1, 1, 1, 1, 1, 1, 1, 1, 0, 0, 0, 0, 1,
      0, 1, 1, 1, 1, 1, 1, 1, 1, 1, 1, 1, 1, 1, 1, 1,
      1, 1, 1, 1, 1, 1, 1, 1, 1, 1, 1, 0, 0, 0, 1, 0,
      0, 0, 0, 0, 0, 0, 0, 0, 0, 0, 0, 0, 0, 0, 0, 0,
      0, 0, 0, 0, 0, 0, 0, 0, 0, 0, 0, 0, 0, 0, 0, 0,
      0, 0, 0, 0, 0, 0, 0, 0, 0, 0, 0, 0, 0, 0, 0, 0,
      0, 0, 0, 0, 0, 0, 0, 0, 0, 0, 0, 0, 0, 0, 0, 0,
      0, 0, 0, 0, 0, 0, 0, 0, 0, 0, 0, 0, 0, 0, 0, 0,
      0, 0, 0, 0, 0, 0, 0, 0, 0, 0, 0, 0, 0, 0, 0, 0,
      0, 0, 0, 0, 0, 0, 0, 0, 0, 0, 0, 0, 0, 0, 0, 0,
      0, 0, 0, 0, 0, 0, 0, 0, 0, 0, 0, 0, 0, 0, 0, 0]"

definition xdigit_chars :: "nat list" where
  "xdigit_chars =
     [0, 0, 0, 0, 0, 0, 0, 0, 0, 0, 0, 0, 0, 0, 0, 0,
      0, 0, 0, 0, 0, 0, 0, 0, 0, 0, 0, 0, 0, 0, 0, 0,
      0, 0, 0, 0, 0, 0, 0, 0, 0, 0, 0, 0, 0, 0, 0, 0,
      0, 1, 2, 3, 4, 5, 6, 7, 8, 9, 0, 0, 0, 0, 0, 0,
      0, 10, 11, 12, 13, 14, 15, 0, 0, 0, 0, 0, 0, 0, 0, 0,
      0, 0, 0, 0, 0, 0, 0, 0, 0, 0, 0, 0, 0, 0, 0, 0,
      0, 10, 11, 12, 13, 14, 15, 0, 0, 0, 0, 0, 0, 0, 0, 0,
      0, 0, 0, 0, 0, 0, 0, 0, 0, 0, 0, 0, 0, 0, 0, 0,
      0, 0, 0, 0, 0, 0, 0, 0, 0, 0, 0, 0, 0, 0, 0, 0,
      0, 0, 0, 0, 0, 0, 0, 0, 0, 0, 0, 0, 0, 0, 0, 0,
      0, 0, 0, 0, 0, 0, 0, 0, 0, 0, 0, 0, 0, 0, 0, 0,
      0, 0, 0, 0, 0, 0, 0, 0, 0, 0, 0, 0, 0, 0, 0, 0,
      0, 0, 0, 0, 0, 0, 0, 0, 0, 0, 0, 0, 0, 0, 0, 0,
      0, 0, 0, 0, 0, 0, 0, 0, 0, 0, 0, 0, 0, 0, 0, 0,
      0, 0, 0, 0, 0, 0, 0, 0, 0, 0, 0, 0, 0, 0, 0, 0,
      0, 0, 0, 0, 0, 0, 0, 0, 0, 0, 0, 0, 0, 0, 0, 0]"

definition CHAR_IS_UNRESERVED :: "char \<Rightarrow> bool" where
  "CHAR_IS_UNRESERVED c = (uri_chars ! of_char c \<noteq> 0)"

definition hexdigits :: string where
  "hexdigits = ''0123456789ABCDEF''"

definition isxdigit :: "char \<Rightarrow> bool" where
  "isxdigit c = (c \<in> set ''0123456789abcdefABCDEF'')"

text \<open>
  The loops carry the characters already passed and \<open>ss\<close>, which is null until the first
  character that has to be rewritten.
\<close>

definition start_copy :: "string option \<Rightarrow> string \<Rightarrow> string" where
  "start_copy ss passed = (case ss of None \<Rightarrow> passed | Some t \<Rightarrow> t)"

fun UrlEncode_loop :: "bool \<Rightarrow> string \<Rightarrow> string option \<Rightarrow> string \<Rightarrow> string option" where
  "UrlEncode_loop space_as_plus passed ss [] = ss"
| "UrlEncode_loop space_as_plus passed ss (c # cs) =
     UrlEncode_loop space_as_plus (passed @ [c])
       (if \<not> CHAR_IS_UNRESERVED c then
          Some (start_copy ss passed @
            (if c = CHR '' '' \<and> space_as_plus then ''+''
             else [CHR ''%'', hexdigits ! (of_char c div 16), hexdigits ! (of_char c mod 16)]))
        else map_option (\<lambda>t. t @ [c]) ss) cs"

definition UrlEncode :: "string \<Rightarrow> bool \<Rightarrow> string" where
  "UrlEncode str space_as_plus =
     (case UrlEncode_loop space_as_plus [] None str of None \<Rightarrow> str | Some rt \<Rightarrow> rt)"

fun UrlDecode_loop :: "bool \<Rightarrow> string \<Rightarrow> string option \<Rightarrow> string \<Rightarrow> string option" where
  "UrlDecode_loop space_as_plus passed ss [] = ss"
| "UrlDecode_loop space_as_plus passed ss (c # cs) =
     (if c = CHR ''+'' \<and> space_as_plus then
        UrlDecode_loop space_as_plus (passed @ [c]) (Some (start_copy ss passed @ '' '')) cs
      else if c = CHR ''%'' \<and> length cs \<ge> 2 \<and> isxdigit (cs ! 0) \<and> isxdigit (cs ! 1) then
        UrlDecode_loop space_as_plus (passed @ c # take 2 cs)
          (Some (start_copy ss passed @
             [char_of (16 * xdigit_chars ! of_char (cs ! 0) + xdigit_chars ! of_char (cs ! 1))]))
          (drop 2 cs)
      else UrlDecode_loop space_as_plus (passed @ [c]) (map_option (\<lambda>t. t @ [c]) ss) cs)"

definition UrlDecode :: "string \<Rightarrow> bool \<Rightarrow> string" where
  "UrlDecode str space_as_plus =
     (case UrlDecode_loop space_as_plus [] None str of None \<Rightarrow> str | Some rt \<Rightarrow> rt)"

subsection \<open>Trimming\<close>

definition Trim :: "string \<Rightarrow> string \<Rightarrow> string" where
  "Trim str delimit =
     (case find_first_not_of delimit str of
        None \<Rightarrow> []
      | Some b \<Rightarrow> (case find_last_not_of delimit str of
          None \<Rightarrow> substr b (length str) str
        | Some e \<Rightarrow> substr b (e - b + 1) str))"

definition TrimLeft :: "string \<Rightarrow> string \<Rightarrow> string" where
  "TrimLeft str delimit =
     (case find_first_not_of delimit str of None \<Rightarrow> [] | Some b \<Rightarrow> drop b str)"

definition TrimRight :: "string \<Rightarrow> string \<Rightarrow> string" where
  "TrimRight str delimit =
     (case find_last_not_of delimit str of None \<Rightarrow> [] | Some e \<Rightarrow> substr 0 e str)"

subsection \<open>What trimming returns\<close>

lemma find_last_not_of_eq:
  "find_last_not_of d s = (if \<exists>x \<in> set s. x \<notin> set d
     then Some (length s - 1 - length (takeWhile (\<lambda>x. x \<in> set d) (rev s))) else None)"
  by (simp add: find_last_not_of_def find_from_eq)

lemma TrimLeft_eq: "TrimLeft s d = dropWhile (\<lambda>x. x \<in> set d) s"
proof (cases "\<exists>x \<in> set s. x \<notin> set d")
  case False
  then have "dropWhile (\<lambda>x. x \<in> set d) s = []" by simp
  moreover have "TrimLeft s d = []" using False by (simp add: TrimLeft_def find_first_not_of_def find_from_eq)
  ultimately show ?thesis by (simp only:)
qed (simp add: TrimLeft_def find_first_not_of_def find_from_eq drop_takeWhile)

definition strip_end :: "string \<Rightarrow> string \<Rightarrow> string" where
  "strip_end s d = rev (dropWhile (\<lambda>x. x \<in> set d) (rev s))"

lemma strip_end_take: "strip_end s d = take (length s - length (takeWhile (\<lambda>x. x \<in> set d) (rev s))) s"
proof -
  have "rev (strip_end s d) = drop (length (takeWhile (\<lambda>x. x \<in> set d) (rev s))) (rev s)"
    by (simp add: strip_end_def drop_takeWhile)
  then have "strip_end s d = rev (drop (length (takeWhile (\<lambda>x. x \<in> set d) (rev s))) (rev s))"
    by (metis rev_rev_ident)
  then show ?thesis by (simp add: rev_drop)
qed

lemma length_takeWhile_lt: "\<exists>x \<in> set xs. \<not> P x \<Longrightarrow> length (takeWhile P xs) < length xs"
  by (induction xs) auto

lemma TrimRight_eq: "TrimRight s d = butlast (strip_end s d)"
proof (cases "\<exists>x \<in> set s. x \<notin> set d")
  case True
  then have "length (takeWhile (\<lambda>x. x \<in> set d) (rev s)) < length s"
    using length_takeWhile_lt [of "rev s" "\<lambda>x. x \<in> set d"] by simp
  then show ?thesis
    using True by (simp add: TrimRight_def find_last_not_of_eq substr_def strip_end_take butlast_take)
next
  case False
  then have "strip_end s d = []" by (simp add: strip_end_def)
  with False show ?thesis by (simp add: TrimRight_def find_last_not_of_eq)
qed

lemma Trim_eq: "Trim s d = strip_end (dropWhile (\<lambda>x. x \<in> set d) s) d"
proof (cases "\<exists>x \<in> set s. x \<notin> set d")
  case True
  let ?l = "length (takeWhile (\<lambda>x. x \<in> set d) s)" and ?r = "length (takeWhile (\<lambda>x. x \<in> set d) (rev s))"
  have s: "s = takeWhile (\<lambda>x. x \<in> set d) s @ dropWhile (\<lambda>x. x \<in> set d) s" by simp
  obtain x where x: "x \<in> set (dropWhile (\<lambda>x. x \<in> set d) s)" "x \<notin> set d"
    using True by (metis (mono_tags, lifting) dropWhile_eq_Nil_conv hd_dropWhile hd_in_set)
  have "takeWhile (\<lambda>x. x \<in> set d) (rev s) = takeWhile (\<lambda>x. x \<in> set d) (rev (dropWhile (\<lambda>x. x \<in> set d) s))"
    by (subst s, subst rev_append, subst takeWhile_append1 [of x]) (use x in auto)
  moreover have "length (dropWhile (\<lambda>x. x \<in> set d) s) = length s - ?l"
    by (metis drop_takeWhile length_drop)
  moreover have "?r < length (dropWhile (\<lambda>x. x \<in> set d) s)"
    using length_takeWhile_lt [of "rev (dropWhile (\<lambda>x. x \<in> set d) s)" "\<lambda>x. x \<in> set d"] x
    unfolding calculation(1) by auto
  moreover from calculation have "length s - 1 - ?r - ?l + 1 = length (dropWhile (\<lambda>x. x \<in> set d) s) - ?r" by linarith
  moreover have "Trim s d = take (length s - 1 - ?r - ?l + 1) (dropWhile (\<lambda>x. x \<in> set d) s)"
    using True
    by (simp add: Trim_def find_first_not_of_def find_from_eq find_last_not_of_eq substr_def drop_takeWhile)
  ultimately show ?thesis by (simp only: strip_end_take)
next
  case False
  then show ?thesis
    by (auto simp: Trim_def find_first_not_of_def find_from_eq strip_end_def dest: set_dropWhileD)
qed

subsection \<open>Percent encoding is inverted\<close>

definition encode_char :: "bool \<Rightarrow> char \<Rightarrow> string" where
  "encode_char sp c =
     (if CHAR_IS_UNRESERVED c then [c] else if c = CHR '' '' \<and> sp then ''+''
      else [CHR ''%'', hexdigits ! (of_char c div 16), hexdigits ! (of_char c mod 16)])"

lemma UrlEncode_loop_step:
  "\<exists>ss'. UrlEncode_loop sp passed ss (c # cs) = UrlEncode_loop sp (passed @ [c]) ss' cs
     \<and> start_copy ss' (passed @ [c]) = start_copy ss passed @ encode_char sp c"
  by (cases ss) (auto simp: encode_char_def start_copy_def)

lemma UrlEncode_loop_eq:
  "(case UrlEncode_loop sp passed ss cs of None \<Rightarrow> passed @ cs | Some rt \<Rightarrow> rt)
     = start_copy ss passed @ concat (map (encode_char sp) cs)"
proof (induction cs arbitrary: passed ss)
  case Nil
  then show ?case by (cases ss) (simp_all add: start_copy_def)
next
  case (Cons c cs)
  obtain ss' where "UrlEncode_loop sp passed ss (c # cs) = UrlEncode_loop sp (passed @ [c]) ss' cs"
      "start_copy ss' (passed @ [c]) = start_copy ss passed @ encode_char sp c"
    using UrlEncode_loop_step by blast
  with Cons.IH [of "passed @ [c]" ss'] show ?case
    by (simp only: append_assoc append_Cons append_Nil list.map concat.simps)
qed

lemma UrlEncode_eq: "UrlEncode s sp = concat (map (encode_char sp) s)"
  using UrlEncode_loop_eq [where sp = sp and passed = "[]" and ss = None and cs = s]
  unfolding append_Nil by (simp add: UrlEncode_def start_copy_def)

fun decode_chars :: "bool \<Rightarrow> string \<Rightarrow> string" where
  "decode_chars sp [] = []"
| "decode_chars sp (c # cs) =
     (if c = CHR ''+'' \<and> sp then CHR '' '' # decode_chars sp cs
      else if c = CHR ''%'' \<and> length cs \<ge> 2 \<and> isxdigit (cs ! 0) \<and> isxdigit (cs ! 1) then
        char_of (16 * xdigit_chars ! of_char (cs ! 0) + xdigit_chars ! of_char (cs ! 1))
          # decode_chars sp (drop 2 cs)
      else c # decode_chars sp cs)"

lemma UrlDecode_loop_step:
  "\<exists>ss' n out. UrlDecode_loop sp passed ss (c # cs) = UrlDecode_loop sp (passed @ c # take n cs) ss' (drop n cs)
     \<and> start_copy ss' (passed @ c # take n cs) = start_copy ss passed @ out
     \<and> decode_chars sp (c # cs) = out @ decode_chars sp (drop n cs)"
proof -
  consider (plus) "c = CHR ''+'' \<and> sp"
    | (esc) "\<not> (c = CHR ''+'' \<and> sp)" "c = CHR ''%'' \<and> length cs \<ge> 2 \<and> isxdigit (cs ! 0) \<and> isxdigit (cs ! 1)"
    | (plain) "\<not> (c = CHR ''+'' \<and> sp)" "\<not> (c = CHR ''%'' \<and> length cs \<ge> 2 \<and> isxdigit (cs ! 0) \<and> isxdigit (cs ! 1))"
    by blast
  then show ?thesis
  proof cases
    case plus
    then show ?thesis by (intro exI [of _ "Some (start_copy ss passed @ '' '')"] exI [of _ 0] exI [of _ "'' ''"])
        (simp add: start_copy_def)
  next
    case esc
    let ?c = "[char_of (16 * xdigit_chars ! of_char (cs ! 0) + xdigit_chars ! of_char (cs ! 1))]"
    show ?thesis
      by (rule exI [of _ "Some (start_copy ss passed @ ?c)"], rule exI [of _ 2], rule exI [of _ ?c])
         (use esc in \<open>simp add: start_copy_def\<close>)
  next
    case plain
    show ?thesis
      by (rule exI [of _ "map_option (\<lambda>t. t @ [c]) ss"], rule exI [of _ 0], rule exI [of _ "[c]"])
         (cases ss; simp only: UrlDecode_loop.simps decode_chars.simps plain if_False;
          simp add: start_copy_def)
  qed
qed

lemma UrlDecode_loop_eq:
  "(case UrlDecode_loop sp passed ss cs of None \<Rightarrow> passed @ cs | Some rt \<Rightarrow> rt)
     = start_copy ss passed @ decode_chars sp cs"
proof (induction cs arbitrary: passed ss rule: length_induct)
  case (1 cs)
  show ?case
  proof (cases cs)
    case Nil
    then show ?thesis by (cases ss) (simp_all add: start_copy_def)
  next
    case (Cons c ds)
    obtain ss' n out where
        st: "UrlDecode_loop sp passed ss (c # ds) = UrlDecode_loop sp (passed @ c # take n ds) ss' (drop n ds)"
          "start_copy ss' (passed @ c # take n ds) = start_copy ss passed @ out"
          "decode_chars sp (c # ds) = out @ decode_chars sp (drop n ds)"
      using UrlDecode_loop_step by blast
    have "length (drop n ds) < length cs" using Cons by simp
    with 1 have "(case UrlDecode_loop sp (passed @ c # take n ds) ss' (drop n ds) of
          None \<Rightarrow> (passed @ c # take n ds) @ drop n ds | Some rt \<Rightarrow> rt)
        = start_copy ss' (passed @ c # take n ds) @ decode_chars sp (drop n ds)"
      by blast
    moreover have "(passed @ c # take n ds) @ drop n ds = passed @ cs" using Cons by simp
    ultimately show ?thesis unfolding Cons st append_assoc by (simp only: append_assoc)
  qed
qed

lemma UrlDecode_eq: "UrlDecode s sp = decode_chars sp s"
  using UrlDecode_loop_eq [where sp = sp and passed = "[]" and ss = None and cs = s]
  unfolding append_Nil by (simp add: UrlDecode_def start_copy_def)

lemma hexdigits_decode: "n < 16 \<Longrightarrow> isxdigit (hexdigits ! n) \<and> xdigit_chars ! of_char (hexdigits ! n) = n"
proof -
  have "\<forall>n \<in> set [0..<16]. isxdigit (hexdigits ! n) \<and> xdigit_chars ! of_char (hexdigits ! n) = n"
    by code_simp
  then show "n < 16 \<Longrightarrow> isxdigit (hexdigits ! n) \<and> xdigit_chars ! of_char (hexdigits ! n) = n" by simp
qed

lemma reserved_marks: "\<not> CHAR_IS_UNRESERVED (CHR ''+'')" "\<not> CHAR_IS_UNRESERVED (CHR ''%'')"
  by code_simp+

lemma decode_escape:
  assumes "isxdigit a" "isxdigit b"
  shows "decode_chars sp (CHR ''%'' # a # b # cs)
    = char_of (16 * xdigit_chars ! of_char a + xdigit_chars ! of_char b) # decode_chars sp cs"
proof -
  have "CHR ''%'' \<noteq> CHR ''+''" by simp
  then show ?thesis
    using assms
    by (simp only: decode_chars.simps(2) [of sp "CHR ''%''"] simp_thms if_False if_True list.size
        nth_Cons_0 nth_Cons_Suc One_nat_def numeral_2_eq_2 drop_Suc_Cons drop_0) simp
qed

lemma decode_encode_char: "decode_chars sp (encode_char sp c @ cs) = c # decode_chars sp cs"
proof -
  have n: "of_char c div 16 < (16 :: nat)" "of_char c mod 16 < (16 :: nat)"
    using char_less_256 [of c] by (auto simp: less_mult_imp_div_less)
  note d = hexdigits_decode [OF n(1)] hexdigits_decode [OF n(2)]
  have "char_of (16 * (of_char c div 16) + of_char c mod 16 :: nat) = c" by simp
  then have esc: "decode_chars sp (CHR ''%'' # hexdigits ! (of_char c div 16) # hexdigits ! (of_char c mod 16) # cs)
      = c # decode_chars sp cs"
    using d decode_escape [of "hexdigits ! (of_char c div 16)" "hexdigits ! (of_char c mod 16)" sp cs]
    by (simp only:)
  consider "CHAR_IS_UNRESERVED c" | "\<not> CHAR_IS_UNRESERVED c" "c = CHR '' '' \<and> sp"
    | "\<not> CHAR_IS_UNRESERVED c" "\<not> (c = CHR '' '' \<and> sp)" by blast
  then show ?thesis
  proof cases
    case 1
    then have "c \<noteq> CHR ''+''" "c \<noteq> CHR ''%''" using reserved_marks by auto
    then show ?thesis using 1 by (simp add: encode_char_def)
  next
    case 2
    then show ?thesis by (simp add: encode_char_def)
  next
    case 3
    then show ?thesis using esc by (simp only: encode_char_def if_False append_Cons append_Nil)
  qed
qed

lemma decode_encode: "decode_chars sp (concat (map (encode_char sp) s)) = s"
  by (induction s) (simp_all add: decode_encode_char)

subsection \<open>Decimal output is read back\<close>

lemma dec_digits_append: "dec_digits n acc = dec_digits n [] @ acc"
proof (induction n arbitrary: acc rule: less_induct)
  case (less n)
  show ?case
  proof (cases "n < 10")
    case False
    then show ?thesis
      using less.IH [of "n div 10" "[char_of (48 + n mod 10)]"]
        less.IH [of "n div 10" "char_of (48 + n mod 10) # acc"]
      by (simp add: dec_digits.simps [of n] Let_def)
  qed (simp add: dec_digits.simps)
qed

lemma dec_rec: "dec n = (if n < 10 then [char_of (48 + n)] else dec (n div 10) @ [char_of (48 + n mod 10)])"
  using dec_digits_append [of "n div 10" "[char_of (48 + n mod 10)]"]
  by (simp add: dec_def dec_digits.simps [of n] Let_def)

lemma digits_value_snoc: "digits_value (ds @ [c]) = 10 * digits_value ds + (of_char c - 48)"
  by (simp add: digits_value_def)

lemma digits_value_dec: "digits_value (dec n) = n \<and> (\<forall>c \<in> set (dec n). is_digit c) \<and> dec n \<noteq> []"
proof (induction n rule: less_induct)
  case (less n)
  have d: "of_char (char_of (48 + n mod 10) :: char) = 48 + n mod 10"
    by (simp add: of_char_of)
  show ?case
    using less.IH [of "n div 10"] d
    by (cases "n < 10") (auto simp: dec_rec [of n] digits_value_snoc digits_value_def is_digit_def)
qed

subsection \<open>Properties\<close>



text \<open>
  \<open>Trim\<close> and \<open>TrimLeft\<close> remove exactly the leading and trailing (the leading) delimiters, but
  \<open>TrimRight\<close> also drops the last character it should keep: it is the text without its trailing
  delimiters and without one more character.
\<close>

theorem trim_spec:
  "Trim s d = strip_end (dropWhile (\<lambda>x. x \<in> set d) s) d
     \<and> TrimLeft s d = dropWhile (\<lambda>x. x \<in> set d) s
     \<and> TrimRight s d = butlast (strip_end s d)"
  by (simp add: Trim_eq TrimLeft_eq TrimRight_eq)

end
