(* ===== verification/Address.thy ===== *)
theory Address
  imports Endian StringUtil StdContainers
begin

text \<open>
  Socket addresses: \<open>src/net/address.cpp\<close>, \<open>include/fishjoy/net/address.hpp\<close>.

  The \<open>sockaddr\<close> structures are records of their fields as the host loads them; \<open>bo\<close> is the host's
  byte order. The name service (\<open>getaddrinfo\<close>), \<open>inet_pton\<close> and the interface list
  (\<open>getifaddrs\<close>) are parameters. An \<open>Address::ptr\<close> is an option.
\<close>

definition AF_UNSPEC :: nat where "AF_UNSPEC = 0"
definition AF_UNIX :: nat where "AF_UNIX = 1"
definition AF_INET :: nat where "AF_INET = 2"
definition AF_INET6 :: nat where "AF_INET6 = 10"

record sockaddr_in =
  sin_family :: u16
  sin_port :: u16
  s_addr :: u32
  sin_zero :: "byte list"

record sockaddr_in6 =
  sin6_family :: u16
  sin6_port :: u16
  sin6_flowinfo :: u32
  s6_addr :: "byte list"
  sin6_scope_id :: u32

record sockaddr_un =
  sun_family :: u16
  sun_path :: "char list"

record sockaddr_gen =
  sa_family :: u16
  sa_data :: "byte list"

datatype address =
    IPv4Address sockaddr_in
  | IPv6Address sockaddr_in6
  | UnixAddress sockaddr_un nat
  | UnknownAddress sockaddr_gen

text \<open>A \<open>const sockaddr*\<close> handed over by the system: what its family says it points to.\<close>

datatype sockaddr_ptr =
    Sockaddr_in sockaddr_in
  | Sockaddr_in6 sockaddr_in6
  | Sockaddr_other sockaddr_gen

subsection \<open>Masks and counting\<close>

text \<open>
  \<open>CreateMask<T>\<close> for a \<open>T\<close> of \<open>width\<close> bits: \<open>1\<close> is an \<open>int\<close>, so a shift by 32 or more is undefined.
  The subtraction wraps in two's complement.
\<close>

definition CreateMask :: "nat \<Rightarrow> nat \<Rightarrow> u32 result" where
  "CreateMask width bits =
     (if bits > width \<or> width - bits \<ge> 32 then Inl (Undefined ''shift'')
      else Inr (push_bit (width - bits) 1 - 1))"

lemma and_pred_less: "v \<noteq> 0 \<Longrightarrow> unat (v AND (v - 1)) < unat (v :: 'a::len word)"
proof -
  assume "v \<noteq> 0"
  then have "v - 1 < v" by (simp add: word_less_nat_alt unat_minus_one unat_gt_0)
  moreover have "v AND (v - 1) \<le> v - 1" by (simp add: word_and_le1)
  ultimately show ?thesis by (simp add: word_less_nat_alt word_le_nat_alt)
qed

function CountBytes_loop :: "nat \<Rightarrow> 'a::len word \<Rightarrow> nat" where
  "CountBytes_loop result v =
     (if v = 0 then result else CountBytes_loop (Suc result) (v AND (v - 1)))"
  by pat_completeness auto
termination
  by (relation "measure (\<lambda>(r, v). unat v)") (auto simp: and_pred_less)

declare CountBytes_loop.simps [simp del]

definition CountBytes :: "'a::len word \<Rightarrow> nat" where
  "CountBytes v = CountBytes_loop 0 v"

subsection \<open>Creation and comparison\<close>

definition Create :: "sockaddr_ptr option \<Rightarrow> address option" where
  "Create addr =
     (case addr of None \<Rightarrow> None
      | Some (Sockaddr_in a) \<Rightarrow> Some (IPv4Address a)
      | Some (Sockaddr_in6 a) \<Rightarrow> Some (IPv6Address a)
      | Some (Sockaddr_other a) \<Rightarrow> Some (UnknownAddress a))"

definition sa_family_of :: "sockaddr_ptr \<Rightarrow> nat" where
  "sa_family_of sa = (case sa of Sockaddr_in a \<Rightarrow> unat (sin_family a)
     | Sockaddr_in6 a \<Rightarrow> unat (sin6_family a) | Sockaddr_other a \<Rightarrow> unat (sa_family a))"

definition getFamily :: "address \<Rightarrow> nat" where
  "getFamily a = (case a of IPv4Address x \<Rightarrow> unat (sin_family x) | IPv6Address x \<Rightarrow> unat (sin6_family x)
     | UnixAddress x _ \<Rightarrow> unat (sun_family x) | UnknownAddress x \<Rightarrow> unat (sa_family x))"

text \<open>The memory behind \<open>getAddr()\<close>.\<close>

definition getAddr :: "nat \<Rightarrow> address \<Rightarrow> byte list" where
  "getAddr bo a = (case a of
      IPv4Address x \<Rightarrow> host_bytes bo 2 (sin_family x) @ host_bytes bo 2 (sin_port x)
        @ host_bytes bo 4 (s_addr x) @ sin_zero x
    | IPv6Address x \<Rightarrow> host_bytes bo 2 (sin6_family x) @ host_bytes bo 2 (sin6_port x)
        @ host_bytes bo 4 (sin6_flowinfo x) @ s6_addr x @ host_bytes bo 4 (sin6_scope_id x)
    | UnixAddress x _ \<Rightarrow> host_bytes bo 2 (sun_family x) @ map (\<lambda>c. of_nat (of_char c)) (sun_path x)
    | UnknownAddress x \<Rightarrow> host_bytes bo 2 (sa_family x) @ sa_data x)"

definition getAddrLen :: "address \<Rightarrow> nat" where
  "getAddrLen a = (case a of IPv4Address _ \<Rightarrow> 16 | IPv6Address _ \<Rightarrow> 28
     | UnixAddress _ m_length \<Rightarrow> m_length | UnknownAddress _ \<Rightarrow> 16)"

fun memcmp :: "byte list \<Rightarrow> byte list \<Rightarrow> nat \<Rightarrow> int" where
  "memcmp (x # xs) (y # ys) (Suc n) = (if x < y then - 1 else if y < x then 1 else memcmp xs ys n)"
| "memcmp _ _ _ = 0"

definition address_less :: "nat \<Rightarrow> address \<Rightarrow> address \<Rightarrow> bool" where
  "address_less bo lhs rhs =
     (let minlen = min (getAddrLen lhs) (getAddrLen rhs);
          result = memcmp (getAddr bo lhs) (getAddr bo rhs) minlen
      in if result < 0 then True
         else if result > 0 then False
         else if getAddrLen lhs < getAddrLen rhs then True else False)"

definition address_eq :: "nat \<Rightarrow> address \<Rightarrow> address \<Rightarrow> bool" where
  "address_eq bo lhs rhs =
     (getAddrLen lhs = getAddrLen rhs \<and> memcmp (getAddr bo lhs) (getAddr bo rhs) (getAddrLen lhs) = 0)"

subsection \<open>Name lookup\<close>

text \<open>The host text as node and service; a service pointer is the rest of the text from there.\<close>

definition split_host :: "string \<Rightarrow> string \<times> string option" where
  "split_host host =
     (let (node, service) =
        (if host \<noteq> [] \<and> hd host = CHR ''['' then
           (case find_char (CHR '']'') (tl host) of
              None \<Rightarrow> ([], None)
            | Some k \<Rightarrow>
                (take k (tl host),
                 if k + 2 < length host \<and> host ! (k + 2) = CHR '':'' then Some (drop (k + 3) host) else None))
         else ([], None));
          (node, service) =
        (if node = [] then
           (case find_char (CHR '':'') host of
              None \<Rightarrow> (node, None)
            | Some k \<Rightarrow>
                if CHR '':'' \<notin> set (drop (k + 1) host) then (take k host, Some (drop (k + 1) host))
                else (node, Some (drop k host)))
         else (node, service))
      in (if node = [] then host else node, service))"

type_synonym gai = "string \<Rightarrow> string option \<Rightarrow> nat \<Rightarrow> nat \<Rightarrow> nat \<Rightarrow> int + sockaddr_ptr list"

definition Lookup ::
  "gai \<Rightarrow> address option list \<Rightarrow> string \<Rightarrow> nat \<Rightarrow> nat \<Rightarrow> nat \<Rightarrow> bool \<times> address option list" where
  "Lookup getaddrinfo result host family type protocol =
     (let (node, service) = split_host host in
      case getaddrinfo node service family type protocol of
        Inl error \<Rightarrow> (False, result)
      | Inr infos \<Rightarrow>
          (let result' = result @ map (\<lambda>ai. Create (Some ai)) infos in (result' \<noteq> [], result')))"

definition LookupAny :: "gai \<Rightarrow> string \<Rightarrow> nat \<Rightarrow> nat \<Rightarrow> nat \<Rightarrow> address option" where
  "LookupAny getaddrinfo host family type protocol =
     (let (ok, result) = Lookup getaddrinfo [] host family type protocol in
      if ok then result ! 0 else None)"

definition is_IPAddress :: "address option \<Rightarrow> bool" where
  "is_IPAddress a = (case a of Some (IPv4Address _) \<Rightarrow> True | Some (IPv6Address _) \<Rightarrow> True | _ \<Rightarrow> False)"

definition LookupAnyIPAddress :: "gai \<Rightarrow> string \<Rightarrow> nat \<Rightarrow> nat \<Rightarrow> nat \<Rightarrow> address option" where
  "LookupAnyIPAddress getaddrinfo host family type protocol =
     (let (ok, result) = Lookup getaddrinfo [] host family type protocol in
      if ok then (case filter is_IPAddress result of [] \<Rightarrow> None | v # _ \<Rightarrow> v) else None)"

subsection \<open>IPv4\<close>

definition new_IPv4Address :: "nat \<Rightarrow> u32 \<Rightarrow> u16 \<Rightarrow> sockaddr_in" where
  "new_IPv4Address bo addr prt =
     \<lparr> sin_family = of_nat AF_INET, sin_port = byteswapOnLittleEndian16 bo prt,
       s_addr = byteswapOnLittleEndian32 bo addr, sin_zero = replicate 8 0 \<rparr>"

text \<open>\<open>inet_pton\<close> gives the stored address, or nothing for a text that is not one.\<close>

definition IPv4_Create :: "(string \<Rightarrow> u32 option) \<Rightarrow> nat \<Rightarrow> string \<Rightarrow> u16 \<Rightarrow> sockaddr_in option" where
  "IPv4_Create inet_pton bo addr prt =
     (let rt = (new_IPv4Address bo 0 0)\<lparr>sin_port := byteswapOnLittleEndian16 bo prt\<rparr> in
      case inet_pton addr of None \<Rightarrow> None | Some a \<Rightarrow> Some (rt\<lparr>s_addr := a\<rparr>))"

definition IPv4_insert :: "nat \<Rightarrow> sockaddr_in \<Rightarrow> string" where
  "IPv4_insert bo m_addr =
     (let addr = byteswapOnLittleEndian32 bo (s_addr m_addr) in
      dec (unat (drop_bit 24 addr AND 255)) @ ''.'' @ dec (unat (drop_bit 16 addr AND 255)) @ ''.''
      @ dec (unat (drop_bit 8 addr AND 255)) @ ''.'' @ dec (unat (addr AND 255))
      @ '':'' @ dec (unat (byteswapOnLittleEndian16 bo (sin_port m_addr))))"

definition IPv4_broadcastAddress :: "nat \<Rightarrow> nat \<Rightarrow> sockaddr_in \<Rightarrow> sockaddr_in option result" where
  "IPv4_broadcastAddress bo prefix_len m_addr =
     (if prefix_len > 32 then Inr None
      else rbind (CreateMask 32 prefix_len) (\<lambda>mask.
        Inr (Some (m_addr\<lparr>s_addr := s_addr m_addr OR byteswapOnLittleEndian32 bo mask\<rparr>))))"

definition IPv4_networkAddress :: "nat \<Rightarrow> nat \<Rightarrow> sockaddr_in \<Rightarrow> sockaddr_in option result" where
  "IPv4_networkAddress bo prefix_len m_addr =
     (if prefix_len > 32 then Inr None
      else rbind (CreateMask 32 prefix_len) (\<lambda>mask.
        Inr (Some (m_addr\<lparr>s_addr := s_addr m_addr AND byteswapOnLittleEndian32 bo (NOT mask)\<rparr>))))"

definition IPv4_subnetMask :: "nat \<Rightarrow> nat \<Rightarrow> sockaddr_in result" where
  "IPv4_subnetMask bo prefix_len =
     rbind (CreateMask 32 prefix_len) (\<lambda>mask.
       Inr \<lparr> sin_family = of_nat AF_INET, sin_port = 0,
             s_addr = NOT (byteswapOnLittleEndian32 bo mask), sin_zero = replicate 8 0 \<rparr>)"

definition IPv4_getPort :: "nat \<Rightarrow> sockaddr_in \<Rightarrow> u32" where
  "IPv4_getPort bo m_addr = ucast (byteswapOnLittleEndian16 bo (sin_port m_addr))"

definition IPv4_setPort :: "nat \<Rightarrow> u16 \<Rightarrow> sockaddr_in \<Rightarrow> sockaddr_in" where
  "IPv4_setPort bo v m_addr = m_addr\<lparr>sin_port := byteswapOnLittleEndian16 bo v\<rparr>"

subsection \<open>IPv6\<close>

definition new_IPv6Address :: "nat \<Rightarrow> byte list \<Rightarrow> u16 \<Rightarrow> sockaddr_in6" where
  "new_IPv6Address bo addr prt =
     \<lparr> sin6_family = of_nat AF_INET6, sin6_port = byteswapOnLittleEndian16 bo prt, sin6_flowinfo = 0,
       s6_addr = addr, sin6_scope_id = 0 \<rparr>"

definition IPv6_any :: sockaddr_in6 where
  "IPv6_any =
     \<lparr> sin6_family = of_nat AF_INET6, sin6_port = 0, sin6_flowinfo = 0, s6_addr = replicate 16 0,
       sin6_scope_id = 0 \<rparr>"

definition IPv6_Create :: "(string \<Rightarrow> byte list option) \<Rightarrow> nat \<Rightarrow> string \<Rightarrow> u16 \<Rightarrow> sockaddr_in6 option" where
  "IPv6_Create inet_pton bo addr prt =
     (let rt = IPv6_any\<lparr>sin6_port := byteswapOnLittleEndian16 bo prt\<rparr> in
      case inet_pton addr of None \<Rightarrow> None | Some a \<Rightarrow> Some (rt\<lparr>s6_addr := a\<rparr>))"

definition hex_low :: "nat \<Rightarrow> char" where
  "hex_low n = (if n < 10 then char_of (48 + n) else char_of (87 + n))"

fun hex_digits :: "nat \<Rightarrow> string \<Rightarrow> string" where
  "hex_digits n acc =
     (let acc' = hex_low (n mod 16) # acc in if n < 16 then acc' else hex_digits (n div 16) acc')"

declare hex_digits.simps [simp del]

definition group16 :: "nat \<Rightarrow> sockaddr_in6 \<Rightarrow> nat \<Rightarrow> u16" where
  "group16 bo m_addr i = of_host_bytes bo (slice_of (2 * i) 2 (s6_addr m_addr))"

fun IPv6_insert_loop :: "nat \<Rightarrow> sockaddr_in6 \<Rightarrow> nat list \<Rightarrow> bool \<Rightarrow> string \<Rightarrow> string \<times> bool" where
  "IPv6_insert_loop bo m_addr [] used_zeros os = (os, used_zeros)"
| "IPv6_insert_loop bo m_addr (i # is) used_zeros os =
     (if group16 bo m_addr i = 0 \<and> \<not> used_zeros then IPv6_insert_loop bo m_addr is used_zeros os
      else
        let skipped = (i \<noteq> 0 \<and> group16 bo m_addr (i - 1) = 0 \<and> \<not> used_zeros);
            os1 = (if skipped then os @ '':'' else os);
            os2 = (if i \<noteq> 0 then os1 @ '':'' else os1);
            os3 = os2 @ hex_digits (unat (byteswapOnLittleEndian16 bo (group16 bo m_addr i))) []
        in IPv6_insert_loop bo m_addr is (used_zeros \<or> skipped) os3)"

definition IPv6_insert :: "nat \<Rightarrow> sockaddr_in6 \<Rightarrow> string" where
  "IPv6_insert bo m_addr =
     (let (os, used_zeros) = IPv6_insert_loop bo m_addr [0..<8] False ''['';
          os' = (if \<not> used_zeros \<and> group16 bo m_addr 7 = 0 then os @ ''::'' else os)
      in os' @ '']:'' @ dec (unat (byteswapOnLittleEndian16 bo (sin6_port m_addr))))"

text \<open>An access to \<open>s6_addr[i]\<close> beyond the sixteen bytes is out of bounds.\<close>

definition update_s6 :: "nat \<Rightarrow> (byte \<Rightarrow> byte) \<Rightarrow> byte list \<Rightarrow> byte list result" where
  "update_s6 i f bs = (if i < 16 \<and> i < length bs then Inr (bs[i := f (bs ! i)]) else Inl Bad_access)"

definition fill_from :: "nat \<Rightarrow> byte \<Rightarrow> byte list \<Rightarrow> byte list" where
  "fill_from i b bs = take i bs @ replicate (length bs - i) b"

definition IPv6_broadcastAddress :: "nat \<Rightarrow> sockaddr_in6 \<Rightarrow> sockaddr_in6 result" where
  "IPv6_broadcastAddress prefix_len m_addr =
     rbind (CreateMask 8 (prefix_len mod 8)) (\<lambda>mask.
     rbind (update_s6 (prefix_len div 8) (\<lambda>b. b OR ucast mask) (s6_addr m_addr)) (\<lambda>bs.
       Inr (m_addr\<lparr>s6_addr := fill_from (prefix_len div 8 + 1) 255 bs\<rparr>)))"

definition IPv6_networkAddress :: "nat \<Rightarrow> sockaddr_in6 \<Rightarrow> sockaddr_in6 result" where
  "IPv6_networkAddress prefix_len m_addr =
     rbind (CreateMask 8 (prefix_len mod 8)) (\<lambda>mask.
     rbind (update_s6 (prefix_len div 8) (\<lambda>b. b AND ucast mask) (s6_addr m_addr)) (\<lambda>bs.
       Inr (m_addr\<lparr>s6_addr := fill_from (prefix_len div 8 + 1) 0 bs\<rparr>)))"

definition IPv6_subnetMask :: "nat \<Rightarrow> sockaddr_in6 result" where
  "IPv6_subnetMask prefix_len =
     rbind (CreateMask 8 (prefix_len mod 8)) (\<lambda>mask.
     rbind (update_s6 (prefix_len div 8) (\<lambda>_. NOT (ucast mask)) (replicate 16 0)) (\<lambda>bs.
       Inr (IPv6_any\<lparr>s6_addr := replicate (prefix_len div 8) 255 @ drop (prefix_len div 8) bs\<rparr>)))"

definition IPv6_getPort :: "nat \<Rightarrow> sockaddr_in6 \<Rightarrow> u32" where
  "IPv6_getPort bo m_addr = ucast (byteswapOnLittleEndian16 bo (sin6_port m_addr))"

definition IPv6_setPort :: "nat \<Rightarrow> u16 \<Rightarrow> sockaddr_in6 \<Rightarrow> sockaddr_in6" where
  "IPv6_setPort bo v m_addr = m_addr\<lparr>sin6_port := byteswapOnLittleEndian16 bo v\<rparr>"

definition IPAddress_Create :: "gai \<Rightarrow> nat \<Rightarrow> string \<Rightarrow> u16 \<Rightarrow> address option result" where
  "IPAddress_Create getaddrinfo bo addr prt =
     (case getaddrinfo addr None AF_UNSPEC 0 0 of
        Inl error \<Rightarrow> Inr None
      | Inr [] \<Rightarrow> Inl Null_deref
      | Inr (ai # _) \<Rightarrow>
          (case Create (Some ai) of
             Some (IPv4Address a) \<Rightarrow> Inr (Some (IPv4Address (IPv4_setPort bo prt a)))
           | Some (IPv6Address a) \<Rightarrow> Inr (Some (IPv6Address (IPv6_setPort bo prt a)))
           | _ \<Rightarrow> Inr None))"

subsection \<open>Unix addresses\<close>

definition sun_path_size :: nat where "sun_path_size = 108"
definition sun_path_offset :: nat where "sun_path_offset = 2"
definition MAX_PATH_LEN :: nat where "MAX_PATH_LEN = sun_path_size - 1"
definition NUL :: char where "NUL = char_of (0 :: nat)"

definition UnixAddress_default :: address where
  "UnixAddress_default =
     UnixAddress \<lparr> sun_family = of_nat AF_UNIX, sun_path = replicate sun_path_size NUL \<rparr>
       (sun_path_offset + MAX_PATH_LEN)"

definition new_UnixAddress :: "string \<Rightarrow> address result" where
  "new_UnixAddress path =
     (let m_length = length path + 1;
          m_length = (if path \<noteq> [] \<and> hd path = NUL then m_length - 1 else m_length)
      in if m_length > sun_path_size then Inl (Logic_error ''path too long'')
         else Inr (UnixAddress \<lparr> sun_family = of_nat AF_UNIX,
                     sun_path = overwrite 0 (take m_length (path @ [NUL])) (replicate sun_path_size NUL) \<rparr>
                   (m_length + sun_path_offset)))"

definition setAddrLen :: "nat \<Rightarrow> address \<Rightarrow> address" where
  "setAddrLen v a = (case a of UnixAddress x _ \<Rightarrow> UnixAddress x v | _ \<Rightarrow> a)"

definition Unix_getPath :: "sockaddr_un \<Rightarrow> nat \<Rightarrow> string" where
  "Unix_getPath m_addr m_length =
     (if m_length > sun_path_offset \<and> hd (sun_path m_addr) = NUL
      then [CHR 0x5C, CHR ''0''] @ take (m_length - sun_path_offset - 1) (drop 1 (sun_path m_addr))
      else takeWhile (\<lambda>c. c \<noteq> NUL) (sun_path m_addr))"

definition insert_address :: "nat \<Rightarrow> address \<Rightarrow> string" where
  "insert_address bo a =
     (case a of IPv4Address x \<Rightarrow> IPv4_insert bo x | IPv6Address x \<Rightarrow> IPv6_insert bo x
      | UnixAddress x n \<Rightarrow> Unix_getPath x n
      | UnknownAddress x \<Rightarrow> ''[UnknownAddress family='' @ dec (unat (sa_family x)) @ '']'')"

definition UnknownAddress_family :: "nat \<Rightarrow> address" where
  "UnknownAddress_family family = UnknownAddress \<lparr> sa_family = of_nat family, sa_data = replicate 14 0 \<rparr>"

subsection \<open>Interfaces\<close>

record ifaddrs =
  ifa_name :: string
  ifa_addr :: "sockaddr_ptr option"
  ifa_netmask :: "sockaddr_ptr option"

text \<open>The address and prefix length of one entry, nothing when the entry is skipped.\<close>

definition interface_entry :: "nat \<Rightarrow> ifaddrs \<Rightarrow> (address \<times> nat) option result" where
  "interface_entry family nxt =
     (case ifa_addr nxt of None \<Rightarrow> Inl Null_deref
      | Some sa \<Rightarrow>
          if family \<noteq> AF_UNSPEC \<and> family \<noteq> sa_family_of sa then Inr None
          else (case sa of
              Sockaddr_in a \<Rightarrow>
                (case ifa_netmask nxt of
                   Some (Sockaddr_in m) \<Rightarrow> Inr (Some (IPv4Address a, CountBytes (s_addr m)))
                 | None \<Rightarrow> Inl Null_deref | _ \<Rightarrow> Inl Bad_access)
            | Sockaddr_in6 a \<Rightarrow>
                (case ifa_netmask nxt of
                   Some (Sockaddr_in6 m) \<Rightarrow> Inr (Some (IPv6Address a, sum_list (map CountBytes (s6_addr m))))
                 | None \<Rightarrow> Inl Null_deref | _ \<Rightarrow> Inl Bad_access)
            | Sockaddr_other _ \<Rightarrow> Inr None))"

fun interface_loop ::
  "nat \<Rightarrow> ifaddrs list \<Rightarrow> (string \<times> address \<times> nat) list \<Rightarrow> (string \<times> address \<times> nat) list result" where
  "interface_loop family [] result = Inr result"
| "interface_loop family (nxt # rest) result =
     rbind (interface_entry family nxt) (\<lambda>e.
       interface_loop family rest
         (case e of None \<Rightarrow> result | Some ap \<Rightarrow> result @ [(ifa_name nxt, ap)]))"

text \<open>
  The multimap is the list of its entries in insertion order; entries of one name keep that
  order, which is all \<open>equal_range\<close> shows. \<open>getifaddrs\<close> gives nothing when it fails.
\<close>

definition GetInterfaceAddresses ::
  "ifaddrs list option \<Rightarrow> (string \<times> address \<times> nat) list \<Rightarrow> nat
     \<Rightarrow> (bool \<times> (string \<times> address \<times> nat) list) result" where
  "GetInterfaceAddresses getifaddrs result family =
     (case getifaddrs of None \<Rightarrow> Inr (False, result)
      | Some infos \<Rightarrow> rbind (interface_loop family infos result) (\<lambda>r. Inr (r \<noteq> [], r)))"

definition GetInterfaceAddresses_iface ::
  "ifaddrs list option \<Rightarrow> nat \<Rightarrow> (address \<times> nat) list \<Rightarrow> string \<Rightarrow> nat
     \<Rightarrow> (bool \<times> (address \<times> nat) list) result" where
  "GetInterfaceAddresses_iface getifaddrs bo result iface family =
     (if iface = [] \<or> iface = ''*'' then
        Inr (True, result
          @ (if family = AF_INET \<or> family = AF_UNSPEC then [(IPv4Address (new_IPv4Address bo 0 0), 0)] else [])
          @ (if family = AF_INET6 \<or> family = AF_UNSPEC then [(IPv6Address IPv6_any, 0)] else []))
      else rbind (GetInterfaceAddresses getifaddrs [] family) (\<lambda>(ok, results).
        if \<not> ok then Inr (False, result)
        else let result' = result @ map snd (filter (\<lambda>e. fst e = iface) results)
             in Inr (result' \<noteq> [], result')))"

subsection \<open>Subnet arithmetic\<close>

lemma CreateMask_32: "0 < p \<Longrightarrow> p \<le> 32 \<Longrightarrow> CreateMask 32 p = Inr (mask (32 - p))"
  by (auto simp: CreateMask_def mask_eq_exp_minus_1 push_bit_of_1)

lemma byteswapOn_bitwise:
  "byteswapOnLittleEndian32 bo (a AND b) = byteswapOnLittleEndian32 bo a AND byteswapOnLittleEndian32 bo b"
  "byteswapOnLittleEndian32 bo (a OR b) = byteswapOnLittleEndian32 bo a OR byteswapOnLittleEndian32 bo b"
  "byteswapOnLittleEndian32 bo (NOT a) = NOT (byteswapOnLittleEndian32 bo a)"
  by (simp_all add: byteswapOnLittleEndian32_def byteswap32_bitwise byteswap32_NOT)

text \<open>The address as the number its dotted form denotes.\<close>

definition host_addr :: "nat \<Rightarrow> sockaddr_in \<Rightarrow> u32" where
  "host_addr bo x = byteswapOnLittleEndian32 bo (s_addr x)"

lemma IPv4_network_eq:
  assumes "0 < p" "p \<le> 32"
  shows "\<exists>n. IPv4_networkAddress bo p x = Inr (Some n) \<and> host_addr bo n = host_addr bo x AND NOT (mask (32 - p))
      \<and> n = x\<lparr>s_addr := byteswapOnLittleEndian32 bo (host_addr bo x AND NOT (mask (32 - p)))\<rparr>"
  using assms by (simp add: IPv4_networkAddress_def CreateMask_32 host_addr_def byteswapOn_bitwise)

lemma IPv4_broadcast_eq:
  assumes "0 < p" "p \<le> 32"
  shows "\<exists>n. IPv4_broadcastAddress bo p x = Inr (Some n) \<and> host_addr bo n = host_addr bo x OR mask (32 - p)
      \<and> n = x\<lparr>s_addr := byteswapOnLittleEndian32 bo (host_addr bo x OR mask (32 - p))\<rparr>"
  using assms by (simp add: IPv4_broadcastAddress_def CreateMask_32 host_addr_def byteswapOn_bitwise)

lemma mask_count: "\<forall>p \<in> set [1..<33]. CountBytes (NOT (byteswapOnLittleEndian32 bo (mask (32 - p)))) = p"
proof -
  have "\<forall>p \<in> set [1..<33]. CountBytes (NOT (mask (32 - p)) :: u32) = p" by code_simp
  moreover have "\<forall>p \<in> set [1..<33]. CountBytes (NOT (byteswap32 (mask (32 - p)))) = p" by code_simp
  ultimately show ?thesis by (simp add: byteswapOnLittleEndian32_def)
qed

subsection \<open>The order of addresses is lexicographic\<close>

definition addr_key :: "nat \<Rightarrow> address \<Rightarrow> byte list" where
  "addr_key bo a = take (getAddrLen a) (getAddr bo a)"

definition addr_ok :: "address \<Rightarrow> bool" where
  "addr_ok a = (case a of IPv4Address x \<Rightarrow> length (sin_zero x) = 8 | IPv6Address x \<Rightarrow> length (s6_addr x) = 16
     | UnixAddress x n \<Rightarrow> length (sun_path x) = 108 \<and> n \<le> 110 | UnknownAddress x \<Rightarrow> length (sa_data x) = 14)"

lemma length_addr_key: "addr_ok a \<Longrightarrow> length (addr_key bo a) = getAddrLen a"
  by (cases a) (auto simp: addr_ok_def addr_key_def getAddr_def getAddrLen_def)

lemma memcmp_lex:
  assumes "m \<le> length xs" "n \<le> length ys"
  shows "lex_less (take m xs) (take n ys) \<longleftrightarrow>
    memcmp xs ys (min m n) < 0 \<or> memcmp xs ys (min m n) = 0 \<and> m < n"
    and "memcmp xs ys (min m n) = 0 \<longleftrightarrow> take (min m n) xs = take (min m n) ys"
  using assms
proof (induction m arbitrary: n xs ys)
  case 0
  { case 1 then show ?case by (cases n; cases ys) auto }
  { case 2 then show ?case by simp }
next
  case (Suc m)
  { case 1
    then show ?case using Suc.IH by (cases n; cases xs; cases ys) (auto simp: not_less) }
  { case 2
    then show ?case using Suc.IH by (cases n; cases xs; cases ys) (auto simp: not_less) }
qed

lemma address_less_lex:
  assumes "addr_ok a" "addr_ok b"
  shows "address_less bo a b \<longleftrightarrow> lex_less (addr_key bo a) (addr_key bo b)"
    and "address_eq bo a b \<longleftrightarrow> addr_key bo a = addr_key bo b"
proof -
  have len: "getAddrLen a \<le> length (getAddr bo a)" "getAddrLen b \<le> length (getAddr bo b)"
    using assms length_addr_key [of a bo] length_addr_key [of b bo] by (auto simp: addr_key_def)
  note L = memcmp_lex [OF len]
  show "address_less bo a b \<longleftrightarrow> lex_less (addr_key bo a) (addr_key bo b)"
    using L(1) by (auto simp: address_less_def addr_key_def Let_def)
  have "addr_key bo a = addr_key bo b \<Longrightarrow> getAddrLen a = getAddrLen b"
    using length_addr_key assms by metis
  then show "address_eq bo a b \<longleftrightarrow> addr_key bo a = addr_key bo b"
    using L(2) by (auto simp: address_eq_def addr_key_def)
qed

subsection \<open>Host texts\<close>

lemma find_char_append:
  "c \<notin> set xs \<Longrightarrow> find_char c (xs @ c # ys) = Some (length xs)"
  "c \<notin> set xs \<Longrightarrow> find_char c xs = None"
proof -
  show "c \<notin> set xs \<Longrightarrow> find_char c (xs @ c # ys) = Some (length xs)"
    by (induction xs) (auto simp: find_char_def find_from_eq)
qed (auto simp: find_char_def find_from_eq)

subsection \<open>Properties\<close>

text \<open>
  C36: for a prefix of 1 to 32 bits, whatever the byte order of the host, \<open>networkAddress\<close> clears and
  \<open>broadcastAddress\<close> sets exactly the host bits; the address lies between the two, and the
  network of the broadcast address is the network.
\<close>

theorem ipv4_subnet:
  assumes "0 < p" "p \<le> 32"
  shows "\<exists>n b. IPv4_networkAddress bo p x = Inr (Some n) \<and> IPv4_broadcastAddress bo p x = Inr (Some b)
      \<and> host_addr bo n = host_addr bo x AND NOT (mask (32 - p))
      \<and> host_addr bo b = host_addr bo x OR mask (32 - p)
      \<and> host_addr bo n \<le> host_addr bo x \<and> host_addr bo x \<le> host_addr bo b
      \<and> IPv4_networkAddress bo p b = Inr (Some n)"
proof -
  obtain n where n: "IPv4_networkAddress bo p x = Inr (Some n)"
      "host_addr bo n = host_addr bo x AND NOT (mask (32 - p))"
      "n = x\<lparr>s_addr := byteswapOnLittleEndian32 bo (host_addr bo x AND NOT (mask (32 - p)))\<rparr>"
    using IPv4_network_eq [OF assms] by blast
  obtain b where b: "IPv4_broadcastAddress bo p x = Inr (Some b)"
      "host_addr bo b = host_addr bo x OR mask (32 - p)"
      "b = x\<lparr>s_addr := byteswapOnLittleEndian32 bo (host_addr bo x OR mask (32 - p))\<rparr>"
    using IPv4_broadcast_eq [OF assms] by blast
  have "(host_addr bo x OR mask (32 - p)) AND NOT (mask (32 - p)) = host_addr bo x AND NOT (mask (32 - p))"
    by (simp add: bit.conj_disj_distrib2)
  then have "IPv4_networkAddress bo p b = Inr (Some n)"
    using IPv4_network_eq [OF assms, of bo b] n(3) b(2,3) by auto
  moreover have "host_addr bo n \<le> host_addr bo x" "host_addr bo x \<le> host_addr bo b"
    unfolding n(2) b(2) by (simp_all add: word_and_le2 le_word_or2 word_and_le1)
  ultimately show ?thesis using n b by blast
qed

theorem ipv4_subnet_witness:
  "\<exists>n b. IPv4_networkAddress FISHJOY_LITTLE_ENDIAN 24 (new_IPv4Address FISHJOY_LITTLE_ENDIAN 0xC0A80105 80) = Inr (Some n)
      \<and> IPv4_broadcastAddress FISHJOY_LITTLE_ENDIAN 24 (new_IPv4Address FISHJOY_LITTLE_ENDIAN 0xC0A80105 80) = Inr (Some b)
      \<and> host_addr FISHJOY_LITTLE_ENDIAN n = 0xC0A80100 \<and> host_addr FISHJOY_LITTLE_ENDIAN b = 0xC0A801FF"
proof -
  have h: "host_addr FISHJOY_LITTLE_ENDIAN (new_IPv4Address FISHJOY_LITTLE_ENDIAN 0xC0A80105 80) = 0xC0A80105"
    by (simp add: host_addr_def new_IPv4Address_def)
  have "(0xC0A80105 :: u32) AND NOT (mask 8) = 0xC0A80100" "(0xC0A80105 :: u32) OR mask 8 = 0xC0A801FF"
    by code_simp+
  with ipv4_subnet [of 24 FISHJOY_LITTLE_ENDIAN "new_IPv4Address FISHJOY_LITTLE_ENDIAN 0xC0A80105 80"] h
  show ?thesis by auto
qed

text \<open>
  Counting the bits of the subnet mask of a prefix gives the prefix back, for every prefix of 1
  to 32 bits and both byte orders, so the prefix length \<open>GetInterfaceAddresses\<close> reports for an
  interface is the one its mask was made from; the prefix 0 shifts an \<open>int\<close> by 32, which is undefined.
\<close>

theorem subnet_mask_prefix:
  assumes "p \<le> 32"
  shows "if p = 0 then IPv4_subnetMask bo p = Inl (Undefined ''shift'')
    else \<exists>m. IPv4_subnetMask bo p = Inr m
      \<and> interface_entry AF_INET \<lparr>ifa_name = name, ifa_addr = Some (Sockaddr_in (new_IPv4Address bo a 0)),
            ifa_netmask = Some (Sockaddr_in m)\<rparr>
          = Inr (Some (IPv4Address (new_IPv4Address bo a 0), p))"
proof (cases "p = 0")
  case True
  then show ?thesis by (simp add: IPv4_subnetMask_def CreateMask_def)
next
  case False
  then have "CountBytes (NOT (byteswapOnLittleEndian32 bo (mask (32 - p)))) = p"
    using mask_count [of bo] assms by simp
  then show ?thesis
    using False assms
    by (simp add: IPv4_subnetMask_def CreateMask_32 interface_entry_def sa_family_of_def
        new_IPv4Address_def AF_INET_def AF_UNSPEC_def)
qed

theorem subnet_mask_prefix_witness:
  "\<exists>m. IPv4_subnetMask FISHJOY_LITTLE_ENDIAN 20 = Inr m"
  using subnet_mask_prefix [of 20 FISHJOY_LITTLE_ENDIAN "''eth0''" 1] by auto

text \<open>
  \<open>IPv6Address::networkAddress\<close> keeps what it should clear: it masks the boundary byte with the
  host bits instead of their complement. For a prefix that ends at a byte boundary the first byte
  behind the prefix is left as it is.
\<close>

theorem ipv6_network_keeps_host_byte:
  assumes "length (s6_addr x) = 16" "p < 128" "p mod 8 = 0"
  shows "\<exists>n. IPv6_networkAddress p x = Inr n \<and> s6_addr n ! (p div 8) = s6_addr x ! (p div 8)"
proof -
  have m: "(255 :: u8) = - 1" by simp
  have "b AND (255 :: u8) = b" for b unfolding m by simp
  moreover have "p div 8 < 16" using assms(2) by (simp add: less_mult_imp_div_less)
  ultimately show ?thesis
    using assms by (simp add: IPv6_networkAddress_def CreateMask_def update_s6_def fill_from_def
        nth_append push_bit_of_1)
qed

theorem ipv6_network_keeps_host_byte_witness:
  "\<exists>n. IPv6_networkAddress 64 (IPv6_any\<lparr>s6_addr := replicate 16 7\<rparr>) = Inr n \<and> s6_addr n ! 8 = 7"
  using ipv6_network_keeps_host_byte [of "IPv6_any\<lparr>s6_addr := replicate 16 7\<rparr>" 64] by simp

text \<open>
  C37: \<open>operator<\<close> on addresses is a strict total order on their contents, compatible with
  \<open>operator==\<close>: irreflexive, transitive, and two addresses are equal exactly when neither is less.
\<close>

theorem address_order:
  assumes "addr_ok a" "addr_ok b" "addr_ok c"
  shows "\<not> address_less bo a a
      \<and> (address_less bo a b \<and> address_less bo b c \<longrightarrow> address_less bo a c)
      \<and> (address_eq bo a b \<longleftrightarrow> \<not> address_less bo a b \<and> \<not> address_less bo b a)"
  using assms lex_less_irrefl lex_less_trans lex_less_total by (auto simp: address_less_lex)

theorem address_order_witness:
  "\<not> address_less FISHJOY_BIG_ENDIAN (IPv6Address IPv6_any) (IPv6Address IPv6_any)"
  using address_order [of "IPv6Address IPv6_any" "IPv6Address IPv6_any" "IPv6Address IPv6_any" FISHJOY_BIG_ENDIAN]
  by (simp add: addr_ok_def IPv6_any_def)

text \<open>
  How \<open>Lookup\<close> reads a host text: \<open>node\<close>, \<open>node:service\<close> and \<open>[ipv6]:service\<close> are taken apart as
  written, but an IPv6 address without brackets is passed on with the text from its first colon as
  a service, which no name service accepts.
\<close>

theorem host_forms:
  assumes "CHR '':'' \<notin> set node" "node \<noteq> []" "hd node \<noteq> CHR ''[''" "CHR '':'' \<notin> set service"
    and "CHR '']'' \<notin> set v6" "v6 \<noteq> []"
  shows "split_host node = (node, None)
      \<and> split_host (node @ '':'' @ service) = (node, Some service)
      \<and> split_host (''['' @ v6 @ '']:'' @ service) = (v6, Some service)
      \<and> split_host (''['' @ v6 @ '']'') = (v6, None)
      \<and> split_host (node @ ''::'' @ service) = (node @ ''::'' @ service, Some (''::'' @ service))"
proof (intro conjI)
  show "split_host node = (node, None)"
    using assms find_char_append(2) [OF assms(1)] by (simp add: split_host_def)
  show "split_host (node @ '':'' @ service) = (node, Some service)"
    using assms find_char_append(1) [OF assms(1), of service] by (simp add: split_host_def)
  show "split_host (''['' @ v6 @ '']:'' @ service) = (v6, Some service)"
    using assms find_char_append(1) [OF assms(5), of "'':'' @ service"]
    by (simp add: split_host_def nth_append numeral_3_eq_3)
  show "split_host (''['' @ v6 @ '']'') = (v6, None)"
    using assms find_char_append(1) [OF assms(5), of "[]"] by (simp add: split_host_def)
  show "split_host (node @ ''::'' @ service) = (node @ ''::'' @ service, Some (''::'' @ service))"
    using assms find_char_append(1) [OF assms(1), of "'':'' @ service"] by (simp add: split_host_def)
qed

theorem host_forms_witness:
  "split_host ''fe80::1'' = (''fe80::1'', Some ''::1'') \<and> split_host ''[::1]:80'' = (''::1'', Some ''80'')"
  using host_forms [of "''fe80''" "''1''" "''::1''"] host_forms [of "''a''" "''80''" "''::1''"] by simp

end
