(* ===== verification/FdManager.thy ===== *)
theory FdManager
  imports Prelude
begin

text \<open>
  The table of file-descriptor contexts: \<open>src/net/fd_manager.cpp\<close>,
  \<open>include/fishjoy/net/fd_manager.hpp\<close>, and the hooked calls of \<open>src/fiber/hook.cpp\<close> that only work
  on it and on the kernel's descriptor flags.

  The kernel is a state of an arbitrary type with its calls as the fields of \<open>kernel\<close>; what the
  hooks rely on of them is \<open>kernel_flags_law\<close>. A descriptor is an \<open>int\<close>.
\<close>

record 'k kernel =
  fstat_f :: "int \<Rightarrow> 'k \<Rightarrow> bool option"
  getfl_f :: "int \<Rightarrow> 'k \<Rightarrow> u32"
  setfl_f :: "int \<Rightarrow> u32 \<Rightarrow> 'k \<Rightarrow> int \<times> 'k"
  fionbio_f :: "int \<Rightarrow> bool \<Rightarrow> 'k \<Rightarrow> int \<times> 'k"
  socket_f :: "nat \<Rightarrow> nat \<Rightarrow> nat \<Rightarrow> 'k \<Rightarrow> int \<times> 'k"
  close_f :: "int \<Rightarrow> 'k \<Rightarrow> int \<times> 'k"
  setsockopt_f :: "int \<Rightarrow> nat \<Rightarrow> nat \<Rightarrow> int \<times> int \<Rightarrow> 'k \<Rightarrow> int \<times> 'k"

definition O_NONBLOCK :: u32 where "O_NONBLOCK = 2048"
definition SOL_SOCKET :: nat where "SOL_SOCKET = 1"
definition SO_RCVTIMEO :: nat where "SO_RCVTIMEO = 20"
definition SO_SNDTIMEO :: nat where "SO_SNDTIMEO = 21"

text \<open>\<open>F_GETFL\<close> returns the flags \<open>F_SETFL\<close> stored; the flags of other descriptors do not change.\<close>

definition kernel_flags_law :: "'k kernel \<Rightarrow> bool" where
  "kernel_flags_law kn \<longleftrightarrow>
     (\<forall>fd fl k. getfl_f kn fd (snd (setfl_f kn fd fl k)) = fl
        \<and> (\<forall>fd'. fd' \<noteq> fd \<longrightarrow> getfl_f kn fd' (snd (setfl_f kn fd fl k)) = getfl_f kn fd' k))"

subsection \<open>Contexts\<close>

record fd_ctx =
  m_isInit :: bool
  m_isSocket :: bool
  m_sysNonblock :: bool
  m_userNonblock :: bool
  m_isClosed :: bool
  m_fd :: int
  m_recvTimeout :: u64
  m_sendTimeout :: u64

definition FdCtx_init :: "'k kernel \<Rightarrow> fd_ctx \<Rightarrow> 'k \<Rightarrow> bool \<times> fd_ctx \<times> 'k" where
  "FdCtx_init kn ctx k =
     (if m_isInit ctx then (True, ctx, k)
      else
        let ctx1 = ctx\<lparr>m_recvTimeout := - 1, m_sendTimeout := - 1\<rparr>;
            ctx2 = (case fstat_f kn (m_fd ctx) k of
                None \<Rightarrow> ctx1\<lparr>m_isInit := False, m_isSocket := False\<rparr>
              | Some is_sock \<Rightarrow> ctx1\<lparr>m_isInit := True, m_isSocket := is_sock\<rparr>);
            (ctx3, k') =
              (if m_isSocket ctx2 then
                 (let flags = getfl_f kn (m_fd ctx) k in
                  (ctx2\<lparr>m_sysNonblock := True\<rparr>,
                   if flags AND O_NONBLOCK = 0 then snd (setfl_f kn (m_fd ctx) (flags OR O_NONBLOCK) k) else k))
               else (ctx2\<lparr>m_sysNonblock := False\<rparr>, k));
            ctx4 = ctx3\<lparr>m_userNonblock := False, m_isClosed := False\<rparr>
        in (m_isInit ctx4, ctx4, k'))"

definition new_FdCtx :: "'k kernel \<Rightarrow> int \<Rightarrow> 'k \<Rightarrow> fd_ctx \<times> 'k" where
  "new_FdCtx kn fd k =
     snd (FdCtx_init kn \<lparr> m_isInit = False, m_isSocket = False, m_sysNonblock = False,
       m_userNonblock = False, m_isClosed = False, m_fd = fd, m_recvTimeout = - 1, m_sendTimeout = - 1 \<rparr> k)"

definition setTimeout :: "nat \<Rightarrow> u64 \<Rightarrow> fd_ctx \<Rightarrow> fd_ctx" where
  "setTimeout type v ctx =
     (if type = SO_RCVTIMEO then ctx\<lparr>m_recvTimeout := v\<rparr> else ctx\<lparr>m_sendTimeout := v\<rparr>)"

definition getTimeout :: "nat \<Rightarrow> fd_ctx \<Rightarrow> u64" where
  "getTimeout type ctx = (if type = SO_RCVTIMEO then m_recvTimeout ctx else m_sendTimeout ctx)"

definition setUserNonblock :: "bool \<Rightarrow> fd_ctx \<Rightarrow> fd_ctx" where
  "setUserNonblock v ctx = ctx\<lparr>m_userNonblock := v\<rparr>"

subsection \<open>The table\<close>

type_synonym fd_manager = "fd_ctx option list"

definition new_FdManager :: fd_manager where
  "new_FdManager = replicate 64 None"

text \<open>\<open>m_datas[fd]\<close>: an index outside the vector is out of bounds.\<close>

definition data_at :: "fd_manager \<Rightarrow> int \<Rightarrow> fd_ctx option result" where
  "data_at m_datas fd =
     (if 0 \<le> fd \<and> fd < int (length m_datas) then Inr (m_datas ! nat fd) else Inl Bad_access)"

definition resize_vec :: "nat \<Rightarrow> fd_manager \<Rightarrow> fd_manager" where
  "resize_vec n m_datas = take n m_datas @ replicate (n - length m_datas) None"

definition get :: "'k kernel \<Rightarrow> int \<Rightarrow> bool \<Rightarrow> fd_manager \<times> 'k \<Rightarrow> (fd_ctx option \<times> fd_manager \<times> 'k) result" where
  "get kn fd auto_create st =
     (let (m_datas, k) = st;
          create =
            (let (ctx, k') = new_FdCtx kn fd k;
                 m' = (if fd \<ge> int (length m_datas) then resize_vec (nat (3 * fd div 2)) m_datas else m_datas)
             in rbind (data_at m' fd) (\<lambda>_. Inr (Some ctx, m'[nat fd := Some ctx], k')))
      in if fd = - 1 then Inr (None, m_datas, k)
         else if int (length m_datas) \<le> fd then
           (if \<not> auto_create then Inr (None, m_datas, k) else create)
         else rbind (data_at m_datas fd) (\<lambda>d.
           if d \<noteq> None \<or> \<not> auto_create then Inr (d, m_datas, k) else create))"

definition del :: "int \<Rightarrow> fd_manager \<Rightarrow> fd_manager result" where
  "del fd m_datas =
     (if int (length m_datas) \<le> fd then Inr m_datas
      else rbind (data_at m_datas fd) (\<lambda>_. Inr (m_datas[nat fd := None])))"

text \<open>A lookup without creation leaves the table as it is.\<close>

definition lookup_fd :: "int \<Rightarrow> fd_manager \<Rightarrow> fd_ctx option result" where
  "lookup_fd fd m_datas =
     (if fd = - 1 \<or> int (length m_datas) \<le> fd then Inr None else data_at m_datas fd)"

lemma get_lookup: "get kn fd False (m, k) = rbind (lookup_fd fd m) (\<lambda>d. Inr (d, m, k))"
  by (auto simp: get_def lookup_fd_def Let_def split: prod.splits)

subsection \<open>Hooked calls on the table\<close>

record 'k hook_state =
  hook_enable :: bool
  fds :: fd_manager
  kstate :: 'k

definition active_socket :: "fd_ctx option \<Rightarrow> bool" where
  "active_socket c = (case c of None \<Rightarrow> False | Some ctx \<Rightarrow> \<not> m_isClosed ctx \<and> m_isSocket ctx)"

definition hook_socket :: "'k kernel \<Rightarrow> nat \<Rightarrow> nat \<Rightarrow> nat \<Rightarrow> 'k hook_state \<Rightarrow> (int \<times> 'k hook_state) result" where
  "hook_socket kn domain type protocol s =
     (let (fd, k) = socket_f kn domain type protocol (kstate s) in
      if \<not> hook_enable s then Inr (fd, s\<lparr>kstate := k\<rparr>)
      else if fd = - 1 then Inr (fd, s\<lparr>kstate := k\<rparr>)
      else rbind (get kn fd True (fds s, k)) (\<lambda>(_, m, k'). Inr (fd, s\<lparr>fds := m, kstate := k'\<rparr>)))"

text \<open>\<open>close\<close>; \<open>cancelAll\<close> is the call on the thread's \<open>IOManager\<close>, when there is one.\<close>

definition hook_close ::
  "'k kernel \<Rightarrow> (int \<Rightarrow> 'k hook_state \<Rightarrow> 'k hook_state result) option \<Rightarrow> int \<Rightarrow> 'k hook_state
     \<Rightarrow> (int \<times> 'k hook_state) result" where
  "hook_close kn cancelAll fd s =
     (let finish = (\<lambda>s'. let (r, k) = close_f kn fd (kstate s') in Inr (r, s'\<lparr>kstate := k\<rparr>)) in
      if \<not> hook_enable s then finish s
      else rbind (lookup_fd fd (fds s)) (\<lambda>c.
        case c of None \<Rightarrow> finish s
        | Some _ \<Rightarrow>
            rbind (case cancelAll of None \<Rightarrow> Inr s | Some f \<Rightarrow> f fd s) (\<lambda>s1.
            rbind (del fd (fds s1)) (\<lambda>m. finish (s1\<lparr>fds := m\<rparr>)))))"

definition hook_setfl :: "'k kernel \<Rightarrow> int \<Rightarrow> u32 \<Rightarrow> 'k hook_state \<Rightarrow> (int \<times> 'k hook_state) result" where
  "hook_setfl kn fd arg s =
     rbind (lookup_fd fd (fds s)) (\<lambda>c.
       case c of
         None \<Rightarrow> (let (r, k) = setfl_f kn fd arg (kstate s) in Inr (r, s\<lparr>kstate := k\<rparr>))
       | Some ctx \<Rightarrow>
           if m_isClosed ctx \<or> \<not> m_isSocket ctx then
             (let (r, k) = setfl_f kn fd arg (kstate s) in Inr (r, s\<lparr>kstate := k\<rparr>))
           else
             let ctx' = setUserNonblock (arg AND O_NONBLOCK \<noteq> 0) ctx;
                 arg' = (if m_sysNonblock ctx' then arg OR O_NONBLOCK else arg AND NOT O_NONBLOCK);
                 (r, k) = setfl_f kn fd arg' (kstate s)
             in Inr (r, s\<lparr>fds := (fds s)[nat fd := Some ctx'], kstate := k\<rparr>))"

definition hook_getfl :: "'k kernel \<Rightarrow> int \<Rightarrow> 'k hook_state \<Rightarrow> u32 result" where
  "hook_getfl kn fd s =
     (let arg = getfl_f kn fd (kstate s) in
      rbind (lookup_fd fd (fds s)) (\<lambda>c.
        case c of None \<Rightarrow> Inr arg
        | Some ctx \<Rightarrow>
            if m_isClosed ctx \<or> \<not> m_isSocket ctx then Inr arg
            else if m_userNonblock ctx then Inr (arg OR O_NONBLOCK) else Inr (arg AND NOT O_NONBLOCK)))"

text \<open>\<open>ioctl(d, FIONBIO, &arg)\<close>; other requests go to the kernel unchanged.\<close>

definition hook_fionbio :: "'k kernel \<Rightarrow> int \<Rightarrow> bool \<Rightarrow> 'k hook_state \<Rightarrow> (int \<times> 'k hook_state) result" where
  "hook_fionbio kn d user_nonblock s =
     rbind (lookup_fd d (fds s)) (\<lambda>c.
       let s' = (case c of None \<Rightarrow> s
                 | Some ctx \<Rightarrow> if m_isClosed ctx \<or> \<not> m_isSocket ctx then s
                     else s\<lparr>fds := (fds s)[nat d := Some (setUserNonblock user_nonblock ctx)]\<rparr>);
           (r, k) = fionbio_f kn d user_nonblock (kstate s')
       in Inr (r, s'\<lparr>kstate := k\<rparr>))"

text \<open>\<open>setsockopt\<close> with a \<open>timeval\<close> argument (seconds, microseconds); \<open>time_t\<close> arithmetic is 64-bit.\<close>

definition hook_setsockopt ::
  "'k kernel \<Rightarrow> int \<Rightarrow> nat \<Rightarrow> nat \<Rightarrow> int \<times> int \<Rightarrow> 'k hook_state \<Rightarrow> (int \<times> 'k hook_state) result" where
  "hook_setsockopt kn sockfd level optname tv s =
     (let finish = (\<lambda>s'. let (r, k) = setsockopt_f kn sockfd level optname tv (kstate s')
                         in Inr (r, s'\<lparr>kstate := k\<rparr>)) in
      if \<not> hook_enable s then finish s
      else if level = SOL_SOCKET \<and> (optname = SO_RCVTIMEO \<or> optname = SO_SNDTIMEO) then
        rbind (lookup_fd sockfd (fds s)) (\<lambda>c.
          case c of None \<Rightarrow> finish s
          | Some ctx \<Rightarrow>
              finish (s\<lparr>fds := (fds s)[nat sockfd :=
                Some (setTimeout optname (of_int (fst tv * 1000 + cdiv (snd tv) 1000)) ctx)]\<rparr>))
      else finish s)"

subsection \<open>The table keeps its descriptors\<close>

text \<open>Every entry is the context of its own index, and the table never shrinks below 64 entries.\<close>

definition fdm_inv :: "fd_manager \<Rightarrow> bool" where
  "fdm_inv m \<longleftrightarrow> 64 \<le> length m \<and> (\<forall>i < length m. \<forall>c. m ! i = Some c \<longrightarrow> m_fd c = int i)"

lemma new_FdManager_inv: "fdm_inv new_FdManager"
  by (simp add: fdm_inv_def new_FdManager_def)

lemma new_FdCtx_fd: "m_fd (fst (new_FdCtx kn fd k)) = fd"
  by (auto simp: new_FdCtx_def FdCtx_init_def Let_def split: option.splits prod.splits)

lemma length_resize_vec [simp]: "length (resize_vec n m) = n"
  by (simp add: resize_vec_def)

lemma resize_inv: "fdm_inv m \<Longrightarrow> length m \<le> n \<Longrightarrow> fdm_inv (resize_vec n m)"
  by (auto simp: fdm_inv_def resize_vec_def nth_append)

lemma update_inv:
  assumes "fdm_inv m" "\<And>c. d = Some c \<Longrightarrow> m_fd c = int i"
  shows "fdm_inv (m[i := d])"
  unfolding fdm_inv_def
proof (intro conjI allI impI)
  fix j c
  assume "j < length (m[i := d])" "m[i := d] ! j = Some c"
  then show "m_fd c = int j" using assms by (cases "i = j") (auto simp: fdm_inv_def)
qed (use assms in \<open>simp add: fdm_inv_def\<close>)

lemma lookup_fd_inv:
  assumes "fdm_inv m" "lookup_fd fd m = Inr (Some c)"
  shows "m_fd c = fd" "0 \<le> fd" "nat fd < length m" "m ! nat fd = Some c"
proof -
  show "0 \<le> fd" and n: "nat fd < length m" and c: "m ! nat fd = Some c"
    using assms by (auto simp: lookup_fd_def data_at_def split: if_splits)
  then have "m_fd c = int (nat fd)" using assms(1) unfolding fdm_inv_def by blast
  then show "m_fd c = fd" using \<open>0 \<le> fd\<close> by simp
qed

lemma lookup_fd_nonneg:
  "0 \<le> fd \<Longrightarrow> lookup_fd fd m = Inr (if nat fd < length m then m ! nat fd else None)"
  by (auto simp: lookup_fd_def data_at_def)

lemma lookup_resize: "0 \<le> fd \<Longrightarrow> length m \<le> n \<Longrightarrow> lookup_fd fd (resize_vec n m) = lookup_fd fd m"
  by (auto simp: lookup_fd_nonneg resize_vec_def nth_append)

lemma get_create:
  assumes "fdm_inv m" "0 \<le> fd"
  shows "\<exists>ctx m' k'. get kn fd True (m, k) = Inr (Some ctx, m', k') \<and> fdm_inv m' \<and> m_fd ctx = fd
      \<and> lookup_fd fd m' = Inr (Some ctx)
      \<and> (\<forall>fd' \<ge> 0. fd' \<noteq> fd \<longrightarrow> lookup_fd fd' m' = lookup_fd fd' m)
      \<and> (\<forall>c. lookup_fd fd m = Inr (Some c) \<longrightarrow> ctx = c \<and> m' = m \<and> k' = k)"
proof (cases "\<exists>c. lookup_fd fd m = Inr (Some c)")
  case True
  then obtain c where c: "lookup_fd fd m = Inr (Some c)" by blast
  note L = lookup_fd_inv [OF assms(1) c]
  have "get kn fd True (m, k) = Inr (Some c, m, k)"
    using L assms(2) by (auto simp: get_def data_at_def Let_def split: prod.splits)
  then show ?thesis using assms(1) c L(1) by auto
next
  case False
  obtain ctx k' where n: "new_FdCtx kn fd k = (ctx, k')" by fastforce
  let ?m = "if fd \<ge> int (length m) then resize_vec (nat (3 * fd div 2)) m else m"
  let ?m' = "?m[nat fd := Some ctx]"
  have ctx: "m_fd ctx = fd" using new_FdCtx_fd [of kn fd k] n by simp
  have big: "length m \<le> nat (3 * fd div 2)" "nat fd < nat (3 * fd div 2)" if "fd \<ge> int (length m)"
    using that assms(1) unfolding fdm_inv_def by linarith+
  then have m: "fdm_inv ?m" "nat fd < length ?m" "\<And>f. 0 \<le> f \<Longrightarrow> lookup_fd f ?m = lookup_fd f m"
    using assms resize_inv lookup_resize by auto
  have none: "fd < int (length m) \<Longrightarrow> m ! nat fd = None"
    using False lookup_fd_nonneg [OF assms(2), of m] assms(2)
    by (cases "m ! nat fd") (auto simp: nat_less_iff)
  have "get kn fd True (m, k) = Inr (Some ctx, ?m', k')"
    using n m(2) none assms(2) by (auto simp: get_def data_at_def Let_def)
  moreover have "fdm_inv ?m'" by (rule update_inv [OF m(1)]) (use ctx assms(2) in simp)
  moreover have "lookup_fd fd ?m' = Inr (Some ctx)"
    using m(2) assms(2) by (simp add: lookup_fd_nonneg)
  moreover have "\<forall>fd' \<ge> 0. fd' \<noteq> fd \<longrightarrow> lookup_fd fd' ?m' = lookup_fd fd' m"
  proof (intro allI impI)
    fix fd' :: int
    assume f: "0 \<le> fd'" "fd' \<noteq> fd"
    then have "lookup_fd fd' ?m' = lookup_fd fd' ?m"
      using assms(2) by (simp only: lookup_fd_nonneg length_list_update) (simp add: nat_eq_iff2)
    also have "\<dots> = lookup_fd fd' m" by (rule m(3) [OF f(1)])
    finally show "lookup_fd fd' ?m' = lookup_fd fd' m" .
  qed
  ultimately show ?thesis using ctx False by blast
qed

lemma del_ok:
  assumes "fdm_inv m" "0 \<le> fd"
  shows "\<exists>m'. del fd m = Inr m' \<and> fdm_inv m' \<and> lookup_fd fd m' = Inr None
      \<and> (\<forall>fd' \<ge> 0. fd' \<noteq> fd \<longrightarrow> lookup_fd fd' m' = lookup_fd fd' m)"
proof -
  have "fdm_inv (m[nat fd := None])" by (rule update_inv [OF assms(1)]) simp
  then show ?thesis
    using assms by (auto simp: del_def data_at_def lookup_fd_nonneg nth_list_update nat_eq_iff2)
qed

subsection \<open>Properties\<close>

text \<open>
  The descriptor table behaves as a map. For a descriptor that is not negative, \<open>get\<close> with
  creation always succeeds, within the bounds of the vector it grows by half; it returns the
  context already stored there unchanged or stores a new one for that descriptor, a later lookup
  finds it, and the other descriptors keep theirs; after \<open>del\<close> the lookup finds nothing.
\<close>

theorem fd_table_map:
  assumes "fdm_inv m" "0 \<le> fd"
  shows "\<exists>ctx m1 k1 m2. get kn fd True (m, k) = Inr (Some ctx, m1, k1) \<and> fdm_inv m1 \<and> m_fd ctx = fd
      \<and> (\<forall>c. lookup_fd fd m = Inr (Some c) \<longrightarrow> ctx = c \<and> m1 = m)
      \<and> get kn fd False (m1, k1) = Inr (Some ctx, m1, k1)
      \<and> del fd m1 = Inr m2 \<and> fdm_inv m2 \<and> get kn fd False (m2, k1) = Inr (None, m2, k1)
      \<and> (\<forall>fd' \<ge> 0. fd' \<noteq> fd \<longrightarrow> lookup_fd fd' m1 = lookup_fd fd' m \<and> lookup_fd fd' m2 = lookup_fd fd' m)"
proof -
  obtain ctx m1 k1 where 1: "get kn fd True (m, k) = Inr (Some ctx, m1, k1)" "fdm_inv m1" "m_fd ctx = fd"
      "lookup_fd fd m1 = Inr (Some ctx)" "\<forall>c. lookup_fd fd m = Inr (Some c) \<longrightarrow> ctx = c \<and> m1 = m \<and> k1 = k"
      "\<forall>fd' \<ge> 0. fd' \<noteq> fd \<longrightarrow> lookup_fd fd' m1 = lookup_fd fd' m"
    using get_create [OF assms, of kn k] by blast
  obtain m2 where "del fd m1 = Inr m2" "fdm_inv m2" "lookup_fd fd m2 = Inr None"
      "\<forall>fd' \<ge> 0. fd' \<noteq> fd \<longrightarrow> lookup_fd fd' m2 = lookup_fd fd' m1"
    using del_ok [OF 1(2) assms(2)] by blast
  with 1 show ?thesis by (simp add: get_lookup)
qed

text \<open>A kernel whose state is the flags of each descriptor, for concrete runs.\<close>

definition flag_kernel :: "(int \<Rightarrow> u32) kernel" where
  "flag_kernel =
     \<lparr> fstat_f = (\<lambda>fd k. Some True), getfl_f = (\<lambda>fd k. k fd), setfl_f = (\<lambda>fd fl k. (0, k(fd := fl))),
       fionbio_f = (\<lambda>fd b k. (0, k(fd := if b then k fd OR O_NONBLOCK else k fd AND NOT O_NONBLOCK))),
       socket_f = (\<lambda>_ _ _ k. (3, k)), close_f = (\<lambda>_ k. (0, k)), setsockopt_f = (\<lambda>_ _ _ _ k. (0, k)) \<rparr>"

theorem fd_table_map_witness:
  "\<exists>ctx m1 k1. get flag_kernel 100 True (new_FdManager, \<lambda>_. 0) = Inr (Some ctx, m1, k1) \<and> m_fd ctx = 100"
  using fd_table_map [OF new_FdManager_inv, of 100 flag_kernel "\<lambda>_. 0"] by auto



end
