(* ===== verification/Fiber.thy ===== *)
theory Fiber
  imports Prelude
begin

text \<open>
  Fibers: \<open>src/fiber/fiber.cpp\<close>, \<open>include/fishjoy/fiber/fiber.hpp\<close>, seen from one thread.

  A fiber object is named by its id. \<open>swapcontext\<close> moves the processor from one context to the
  other: \<open>executing\<close> is the fiber whose context runs. The thread-local pointers \<open>t_fiber\<close> and
  \<open>t_thread_fiber\<close>, the scheduler's \<open>t_scheduler_fiber\<close> and the two global counters are fields of the
  thread's state. \<open>getcontext\<close> and \<open>swapcontext\<close> succeed; a failed \<open>FISHJOY_ASSERT\<close> is a fault. The
  callback is a value of an arbitrary type; running it is the business of the environment, and its
  return is the operation \<open>MainFunc_end\<close>. The state \<open>TERM\<close> is written \<open>TERMINATED\<close>.
\<close>

datatype fiber_state = READY | RUNNING | TERMINATED

record 'cb fiber =
  m_state :: fiber_state
  m_stack :: bool
  m_callback :: "'cb option"
  m_runInScheduler :: bool

record 'cb fiber_thread =
  fibers :: "nat \<Rightarrow> 'cb fiber option"
  t_fiber :: "nat option"
  t_thread_fiber :: "nat option"
  t_scheduler_fiber :: "nat option"
  s_fiber_id :: nat
  s_fiber_count :: nat
  executing :: "nat option"

definition fiber_at :: "nat option \<Rightarrow> 'cb fiber_thread \<Rightarrow> (nat \<times> 'cb fiber) result" where
  "fiber_at p s = (case p of None \<Rightarrow> Inl Null_deref
     | Some f \<Rightarrow> (case fibers s f of None \<Rightarrow> Inl Null_deref | Some x \<Rightarrow> Inr (f, x)))"

definition set_fiber :: "nat \<Rightarrow> 'cb fiber \<Rightarrow> 'cb fiber_thread \<Rightarrow> 'cb fiber_thread" where
  "set_fiber f x s = s\<lparr>fibers := (fibers s)(f \<mapsto> x)\<rparr>"

definition SetThis :: "nat option \<Rightarrow> 'cb fiber_thread \<Rightarrow> 'cb fiber_thread" where
  "SetThis f s = s\<lparr>t_fiber := f\<rparr>"

definition GetFiberId :: "'cb fiber_thread \<Rightarrow> nat" where
  "GetFiberId s = (case t_fiber s of None \<Rightarrow> 0 | Some f \<Rightarrow> f)"

text \<open>The private constructor, for the thread's first fiber: it runs on the thread's own stack.\<close>

definition new_main_Fiber :: "'cb fiber_thread \<Rightarrow> nat \<times> 'cb fiber_thread" where
  "new_main_Fiber s =
     (let f = s_fiber_id s;
          s1 = set_fiber f \<lparr> m_state = RUNNING, m_stack = False, m_callback = None, m_runInScheduler = False \<rparr> s
      in (f, (SetThis (Some f) s1)\<lparr>s_fiber_count := s_fiber_count s + 1, s_fiber_id := f + 1,
              executing := Some f\<rparr>))"

definition GetThis :: "'cb fiber_thread \<Rightarrow> (nat \<times> 'cb fiber_thread) result" where
  "GetThis s =
     (case t_fiber s of
        Some f \<Rightarrow> Inr (f, s)
      | None \<Rightarrow>
          (let (f, s1) = new_main_Fiber s in
           assert_that (t_fiber s1 = Some f) ''t_fiber == main_fiber''
             (Inr (f, s1\<lparr>t_thread_fiber := Some f\<rparr>))))"

definition new_Fiber :: "'cb option \<Rightarrow> bool \<Rightarrow> 'cb fiber_thread \<Rightarrow> nat \<times> 'cb fiber_thread" where
  "new_Fiber cb run_in_scheduler s =
     (let f = s_fiber_id s in
      (f, (set_fiber f \<lparr> m_state = READY, m_stack = True, m_callback = cb, m_runInScheduler = run_in_scheduler \<rparr> s)
            \<lparr>s_fiber_count := s_fiber_count s + 1, s_fiber_id := f + 1\<rparr>))"

definition delete_Fiber :: "nat \<Rightarrow> 'cb fiber_thread \<Rightarrow> 'cb fiber_thread result" where
  "delete_Fiber f s =
     rbind (fiber_at (Some f) s) (\<lambda>(_, x).
       let s1 = s\<lparr>s_fiber_count := s_fiber_count s - 1\<rparr> in
       if m_stack x then
         assert_that (m_state x = TERMINATED) ''m_state == TERM'' (Inr (s1\<lparr>fibers := (fibers s1)(f := None)\<rparr>))
       else
         assert_that (m_callback x = None) ''!m_callback''
           (assert_that (m_state x = RUNNING) ''m_state == RUNNING''
              (let s2 = s1\<lparr>fibers := (fibers s1)(f := None)\<rparr> in
               Inr (if t_fiber s2 = Some f then SetThis None s2 else s2))))"

definition reset_fiber :: "nat \<Rightarrow> 'cb option \<Rightarrow> 'cb fiber_thread \<Rightarrow> 'cb fiber_thread result" where
  "reset_fiber f cb s =
     rbind (fiber_at (Some f) s) (\<lambda>(_, x).
       assert_that (m_stack x) ''m_stack''
         (assert_that (m_state x = TERMINATED) ''m_state == TERM''
            (Inr (set_fiber f (x\<lparr>m_callback := cb, m_state := READY\<rparr>) s))))"

text \<open>The fiber whose context a fiber is swapped with: the scheduler's or the thread's main fiber.\<close>

definition partner :: "'cb fiber \<Rightarrow> 'cb fiber_thread \<Rightarrow> nat option" where
  "partner x s = (if m_runInScheduler x then t_scheduler_fiber s else t_thread_fiber s)"

definition resume :: "nat \<Rightarrow> 'cb fiber_thread \<Rightarrow> 'cb fiber_thread result" where
  "resume f s =
     rbind (fiber_at (Some f) s) (\<lambda>(_, x).
       assert_that (m_state x \<noteq> TERMINATED \<and> m_state x \<noteq> RUNNING) ''m_state != TERM && m_state != RUNNING''
         (let s1 = set_fiber f (x\<lparr>m_state := RUNNING\<rparr>) (SetThis (Some f) s) in
          rbind (fiber_at (partner x s1) s1) (\<lambda>_. Inr (s1\<lparr>executing := Some f\<rparr>))))"

definition yield_fiber :: "nat \<Rightarrow> 'cb fiber_thread \<Rightarrow> 'cb fiber_thread result" where
  "yield_fiber f s =
     rbind (fiber_at (Some f) s) (\<lambda>(_, x).
       assert_that (m_state x = RUNNING \<or> m_state x = TERMINATED) ''m_state == RUNNING || m_state == TERM''
         (let s1 = SetThis (t_thread_fiber s) s;
              s2 = (if m_state x \<noteq> TERMINATED then set_fiber f (x\<lparr>m_state := READY\<rparr>) s1 else s1) in
          rbind (fiber_at (partner x s2) s2) (\<lambda>(g, _). Inr (s2\<lparr>executing := Some g\<rparr>))))"

text \<open>The end of \<open>MainFunc\<close>, after the callback returned in the current fiber.\<close>

definition MainFunc_end :: "'cb fiber_thread \<Rightarrow> 'cb fiber_thread result" where
  "MainFunc_end s =
     rbind (GetThis s) (\<lambda>(f, s1).
     rbind (fiber_at (Some f) s1) (\<lambda>(_, x).
       yield_fiber f (set_fiber f (x\<lparr>m_callback := None, m_state := TERMINATED\<rparr>) s1)))"

subsection \<open>Life of a fiber\<close>

definition state_of :: "nat \<Rightarrow> 'cb fiber_thread \<Rightarrow> fiber_state option" where
  "state_of f s = map_option m_state (fibers s f)"

text \<open>
  The invariant of a thread whose main fiber is \<open>m\<close> and whose scheduling fiber is the main fiber
  (a worker of the scheduler): ids are fresh, the main fiber has no stack and runs, and besides it
  only the executing fiber is in state \<open>RUNNING\<close>.
\<close>

definition worker_inv :: "nat \<Rightarrow> 'cb fiber_thread \<Rightarrow> bool" where
  "worker_inv m s \<longleftrightarrow>
     t_thread_fiber s = Some m \<and> t_scheduler_fiber s = Some m
     \<and> (\<exists>x. fibers s m = Some x \<and> \<not> m_stack x \<and> m_state x = RUNNING \<and> m_callback x = None)
     \<and> (\<forall>f x. fibers s f = Some x \<longrightarrow> f < s_fiber_id s \<and> (f \<noteq> m \<longrightarrow> m_stack x))
     \<and> (\<forall>f x. fibers s f = Some x \<and> m_state x = RUNNING \<longrightarrow> f = m \<or> executing s = Some f)
     \<and> (\<exists>e x. executing s = Some e \<and> fibers s e = Some x \<and> m_state x = RUNNING)
     \<and> t_fiber s = executing s"

lemma worker_invD:
  assumes "worker_inv m s"
  shows "t_thread_fiber s = Some m" "t_scheduler_fiber s = Some m" "t_fiber s = executing s"
    "\<exists>x. fibers s m = Some x \<and> \<not> m_stack x \<and> m_state x = RUNNING \<and> m_callback x = None"
    "fibers s f = Some x \<Longrightarrow> f < s_fiber_id s" "fibers s f = Some x \<Longrightarrow> f \<noteq> m \<Longrightarrow> m_stack x"
    "fibers s f = Some x \<Longrightarrow> m_state x = RUNNING \<Longrightarrow> f = m \<or> executing s = Some f"
    "\<exists>e x. executing s = Some e \<and> fibers s e = Some x \<and> m_state x = RUNNING"
  using assms unfolding worker_inv_def by blast+

lemma fiber_at_Some [simp]: "fibers s f = Some x \<Longrightarrow> fiber_at (Some f) s = Inr (f, x)"
  by (simp add: fiber_at_def)

lemma partner_worker: "worker_inv m s \<Longrightarrow> partner x s = Some m"
  by (simp add: partner_def worker_invD)

subsection \<open>The operations keep the invariant\<close>

text \<open>A thread right after its first \<open>GetThis\<close>, as \<open>Scheduler::run\<close> starts on it.\<close>

definition worker_start :: "'cb fiber_thread" where
  "worker_start =
     (let (f, s) = new_main_Fiber \<lparr> fibers = (\<lambda>_. None), t_fiber = None, t_thread_fiber = None,
            t_scheduler_fiber = None, s_fiber_id = 0, s_fiber_count = 0, executing = None \<rparr>
      in s\<lparr>t_thread_fiber := Some f, t_scheduler_fiber := Some f\<rparr>)"

lemma worker_start_inv: "worker_inv 0 worker_start"
  by (simp add: worker_start_def new_main_Fiber_def set_fiber_def SetThis_def worker_inv_def)

lemma new_Fiber_inv:
  assumes "worker_inv m s" "new_Fiber cb sched s = (f, s')"
  shows "worker_inv m s'" "f \<noteq> m" "state_of f s' = Some READY" "executing s' = executing s"
    "g \<noteq> f \<Longrightarrow> fibers s' g = fibers s g" "fibers s f = None"
proof -
  note D = worker_invD [OF assms(1)]
  have f: "f = s_fiber_id s" "s' = (set_fiber f \<lparr> m_state = READY, m_stack = True, m_callback = cb,
      m_runInScheduler = sched \<rparr> s)\<lparr>s_fiber_count := s_fiber_count s + 1, s_fiber_id := f + 1\<rparr>"
    using assms(2) by (auto simp: new_Fiber_def Let_def)
  show new: "fibers s f = None" using D(5) [of f] f(1) by (cases "fibers s f") auto
  show "f \<noteq> m" using new D(4) by auto
  have "executing s \<noteq> Some f" using D(8) new by auto
  then show "worker_inv m s'"
    using D(1-4,6,8) D(5) [THEN less_SucI] \<open>f \<noteq> m\<close> new f(1) unfolding f(2) worker_inv_def
    by (auto simp: set_fiber_def dest: D(7))
  show "state_of f s' = Some READY" "executing s' = executing s" "g \<noteq> f \<Longrightarrow> fibers s' g = fibers s g"
    unfolding f(2) by (auto simp: state_of_def set_fiber_def)
qed

lemma resume_ok:
  assumes "worker_inv m s" "executing s = Some m" "state_of f s = Some READY"
  shows "\<exists>s'. resume f s = Inr s' \<and> worker_inv m s' \<and> executing s' = Some f \<and> state_of f s' = Some RUNNING
      \<and> (\<forall>g. g \<noteq> f \<longrightarrow> fibers s' g = fibers s g)"
proof -
  note D = worker_invD [OF assms(1)]
  obtain x where x: "fibers s f = Some x" "m_state x = READY" using assms(3) by (auto simp: state_of_def)
  have fm: "f \<noteq> m" using x D(4) by auto
  let ?s = "(set_fiber f (x\<lparr>m_state := RUNNING\<rparr>) (SetThis (Some f) s))\<lparr>executing := Some f\<rparr>"
  have "resume f s = Inr ?s"
    using x fm D(1,2,4) by (auto simp: resume_def partner_def set_fiber_def SetThis_def fiber_at_def Let_def)
  moreover have "worker_inv m ?s"
    using D(1-6,8) x fm assms(2) unfolding worker_inv_def by (auto simp: set_fiber_def SetThis_def dest: D(7))
  ultimately show ?thesis by (auto simp: state_of_def set_fiber_def SetThis_def)
qed

lemma yield_ok:
  assumes "worker_inv m s" "executing s = Some f" "f \<noteq> m"
  shows "\<exists>s'. yield_fiber f s = Inr s' \<and> worker_inv m s' \<and> executing s' = Some m \<and> state_of f s' = Some READY
      \<and> (\<forall>g. g \<noteq> f \<longrightarrow> fibers s' g = fibers s g)"
proof -
  note D = worker_invD [OF assms(1)]
  obtain x where x: "fibers s f = Some x" "m_state x = RUNNING" using D(8) assms(2) by auto
  let ?s = "(set_fiber f (x\<lparr>m_state := READY\<rparr>) (SetThis (Some m) s))\<lparr>executing := Some m\<rparr>"
  have "yield_fiber f s = Inr ?s"
    using x assms(3) D(1,2,4) by (auto simp: yield_fiber_def partner_def set_fiber_def SetThis_def fiber_at_def Let_def)
  moreover have "worker_inv m ?s"
    using D(1-6,8) x assms(2,3) unfolding worker_inv_def by (auto simp: set_fiber_def SetThis_def dest: D(7))
  ultimately show ?thesis by (auto simp: state_of_def set_fiber_def SetThis_def)
qed

lemma MainFunc_end_ok:
  assumes "worker_inv m s" "executing s = Some f" "f \<noteq> m"
  shows "\<exists>s'. MainFunc_end s = Inr s' \<and> worker_inv m s' \<and> executing s' = Some m
      \<and> state_of f s' = Some TERMINATED \<and> map_option m_callback (fibers s' f) = Some None \<and> (\<forall>g. g \<noteq> f \<longrightarrow> fibers s' g = fibers s g)"
proof -
  note D = worker_invD [OF assms(1)]
  obtain x where x: "fibers s f = Some x" "m_state x = RUNNING" using D(8) assms(2) by auto
  let ?s = "(SetThis (Some m) (set_fiber f (x\<lparr>m_callback := None, m_state := TERMINATED\<rparr>) s))\<lparr>executing := Some m\<rparr>"
  have "MainFunc_end s = Inr ?s"
    using x assms(2,3) D(1-4)
    by (auto simp: MainFunc_end_def GetThis_def yield_fiber_def partner_def set_fiber_def SetThis_def fiber_at_def Let_def)
  moreover have "worker_inv m ?s"
    using D(1-6,8) x assms(2,3) unfolding worker_inv_def by (auto simp: set_fiber_def SetThis_def dest: D(7))
  ultimately show ?thesis by (auto simp: state_of_def set_fiber_def SetThis_def)
qed

lemma reset_ok:
  assumes "worker_inv m s" "state_of f s = Some TERMINATED"
  shows "\<exists>s'. reset_fiber f cb s = Inr s' \<and> worker_inv m s' \<and> executing s' = executing s
      \<and> state_of f s' = Some READY \<and> (\<forall>g. g \<noteq> f \<longrightarrow> fibers s' g = fibers s g)"
proof -
  note D = worker_invD [OF assms(1)]
  obtain x where x: "fibers s f = Some x" "m_state x = TERMINATED" using assms(2) by (auto simp: state_of_def)
  have fm: "f \<noteq> m" using x D(4) by auto
  have st: "m_stack x" using D(6) x(1) fm by blast
  have "executing s \<noteq> Some f" using D(8) x by auto
  then have "worker_inv m (set_fiber f (x\<lparr>m_callback := cb, m_state := READY\<rparr>) s)"
    using D(1-6,8) x fm st unfolding worker_inv_def by (auto simp: set_fiber_def dest: D(7))
  then show ?thesis using x st by (simp add: reset_fiber_def state_of_def set_fiber_def)
qed

lemma delete_ok:
  assumes "worker_inv m s" "state_of f s = Some TERMINATED"
  shows "\<exists>s'. delete_Fiber f s = Inr s' \<and> worker_inv m s' \<and> executing s' = executing s \<and> fibers s' f = None"
proof -
  note D = worker_invD [OF assms(1)]
  obtain x where x: "fibers s f = Some x" "m_state x = TERMINATED" using assms(2) by (auto simp: state_of_def)
  have fm: "f \<noteq> m" using x D(4) by auto
  have st: "m_stack x" using D(6) x(1) fm by blast
  have "executing s \<noteq> Some f" using D(8) x by auto
  then show ?thesis
    using D(1-6,8) x fm st unfolding worker_inv_def by (auto simp: delete_Fiber_def dest: D(7))
qed

subsection \<open>Runs of a worker thread\<close>

text \<open>What the code running on a worker thread can do with fibers; resuming happens from the main fiber.\<close>

inductive fiber_step :: "'cb fiber_thread \<Rightarrow> 'cb fiber_thread \<Rightarrow> bool" where
  create: "new_Fiber cb sched s = (f, s') \<Longrightarrow> fiber_step s s'"
| resume: "executing s = t_thread_fiber s \<Longrightarrow> resume f s = Inr s' \<Longrightarrow> fiber_step s s'"
| yield: "executing s = Some f \<Longrightarrow> executing s \<noteq> t_thread_fiber s \<Longrightarrow> yield_fiber f s = Inr s' \<Longrightarrow> fiber_step s s'"
| finish: "executing s \<noteq> t_thread_fiber s \<Longrightarrow> MainFunc_end s = Inr s' \<Longrightarrow> fiber_step s s'"
| reset: "reset_fiber f cb s = Inr s' \<Longrightarrow> fiber_step s s'"
| destroy: "t_thread_fiber s \<noteq> Some f \<Longrightarrow> delete_Fiber f s = Inr s' \<Longrightarrow> fiber_step s s'"

inductive fiber_reachable :: "'cb fiber_thread \<Rightarrow> bool" where
  start: "fiber_reachable worker_start"
| step: "fiber_reachable s \<Longrightarrow> fiber_step s s' \<Longrightarrow> fiber_reachable s'"

lemma resume_needs_ready: "resume f s = Inr s' \<Longrightarrow> state_of f s = Some READY"
  by (cases "fibers s f"; cases "m_state (the (fibers s f))")
     (auto simp: resume_def fiber_at_def state_of_def)

lemma resume_not_ready:
  "state_of f s = None \<Longrightarrow> resume f s = Inl Null_deref"
  "state_of f s = Some RUNNING \<Longrightarrow> resume f s = Inl (Assert_failed ''m_state != TERM && m_state != RUNNING'')"
  "state_of f s = Some TERMINATED \<Longrightarrow> resume f s = Inl (Assert_failed ''m_state != TERM && m_state != RUNNING'')"
  by (auto simp: state_of_def resume_def fiber_at_def)

lemma reset_needs_term: "reset_fiber f cb s = Inr s' \<Longrightarrow> state_of f s = Some TERMINATED"
  by (cases "fibers s f") (auto simp: reset_fiber_def fiber_at_def state_of_def assert_that_def split: if_splits)

lemma delete_needs_term:
  assumes "worker_inv m s" "f \<noteq> m" "delete_Fiber f s = Inr s'"
  shows "state_of f s = Some TERMINATED"
  using assms worker_invD(6) [OF assms(1), of f]
  by (cases "fibers s f") (auto simp: delete_Fiber_def fiber_at_def state_of_def assert_that_def Let_def split: if_splits)

lemma fiber_step_inv: "fiber_step s s' \<Longrightarrow> worker_inv m s \<Longrightarrow> worker_inv m s'"
proof (induction rule: fiber_step.induct)
  case (create cb sched s f s')
  then show ?case using new_Fiber_inv(1) by blast
next
  case (resume s f s')
  then show ?case using resume_ok [of m s f] resume_needs_ready [of f s s'] worker_invD(1) by fastforce
next
  case (yield s f s')
  then show ?case using yield_ok [of m s f] worker_invD(1) by fastforce
next
  case (finish s s')
  then obtain f where "executing s = Some f" using worker_invD(8) by blast
  then show ?case using finish MainFunc_end_ok [of m s f] worker_invD(1) by fastforce
next
  case (reset f cb s s')
  then show ?case using reset_ok [of m s f cb] reset_needs_term [of f cb s s'] by auto
next
  case (destroy s f s')
  then show ?case using delete_ok [of m s f] delete_needs_term [of m s f s'] worker_invD(1) by fastforce
qed

lemma fiber_reachable_inv: "fiber_reachable s \<Longrightarrow> worker_inv 0 s"
  by (induction rule: fiber_reachable.induct) (auto intro: worker_start_inv fiber_step_inv)

subsection \<open>Properties\<close>



text \<open>
  A fiber is only ever resumed when it is ready: resuming one that runs or has ended fails the
  assertion, and so does destroying a fiber that has not ended.
\<close>

theorem fiber_misuse_asserts:
  assumes "fibers s f = Some x"
  shows "(m_state x \<noteq> READY \<longrightarrow> (\<exists>msg. resume f s = Inl (Assert_failed msg)))
      \<and> (m_stack x \<and> m_state x \<noteq> TERMINATED \<longrightarrow> (\<exists>msg. delete_Fiber f s = Inl (Assert_failed msg)))
      \<and> (m_state x \<noteq> TERMINATED \<longrightarrow> (\<exists>msg. reset_fiber f cb s = Inl (Assert_failed msg)))"
  using assms by (cases "m_state x"; cases "m_stack x") (auto simp: resume_def delete_Fiber_def reset_fiber_def)

theorem fiber_misuse_asserts_witness:
  "\<exists>msg. resume 0 (worker_start :: nat fiber_thread) = Inl (Assert_failed msg)"
proof -
  have "fibers (worker_start :: nat fiber_thread) 0
      = Some \<lparr> m_state = RUNNING, m_stack = False, m_callback = None, m_runInScheduler = False \<rparr>"
    by (simp add: worker_start_def new_main_Fiber_def set_fiber_def SetThis_def)
  from fiber_misuse_asserts [OF this] show ?thesis by simp
qed

end
