(* ===== verification/Scheduler.thy ===== *)
theory Scheduler
  imports Fiber "HOL-Library.Multiset"
begin

text \<open>
  The N:M scheduler: \<open>src/fiber/scheduler.cpp\<close>, \<open>include/fishjoy/fiber/scheduler.hpp\<close>.

  The scheduler object is a record; the lock around the task queue makes \<open>schedule\<close> and the choice
  of a task atomic. The worker threads are interleaved by a step relation whose program counters
  are the points of \<open>run\<close> between two accesses to shared state. A thread id is an \<open>int\<close>, \<open>-1\<close> for
  any thread. A callback is a value of an arbitrary type.
\<close>

record 'cb task =
  task_fiber :: "nat option"
  task_callback :: "'cb option"
  task_thread :: int

record 'cb scheduler =
  m_tasks :: "'cb task list"
  m_threads :: "nat"
  m_threadIds :: "int list"
  m_threadCount :: nat
  m_activeThreadCount :: nat
  m_idleThreadCount :: nat
  m_useCaller :: bool
  m_rootThread :: int
  m_stopping :: bool

definition fiber_task :: "nat option \<Rightarrow> int \<Rightarrow> 'cb task" where
  "fiber_task f thr = \<lparr> task_fiber = f, task_callback = None, task_thread = thr \<rparr>"

definition callback_task :: "'cb option \<Rightarrow> int \<Rightarrow> 'cb task" where
  "callback_task f thr = \<lparr> task_fiber = None, task_callback = f, task_thread = thr \<rparr>"

subsection \<open>Construction, start and stop\<close>

text \<open>\<open>has_scheduler\<close>: the calling thread already has a scheduler; \<open>tid\<close> is its id.\<close>

definition new_Scheduler :: "nat \<Rightarrow> bool \<Rightarrow> bool \<Rightarrow> int \<Rightarrow> 'cb scheduler result" where
  "new_Scheduler threads use_caller has_scheduler tid =
     assert_that (threads > 0) ''threads > 0''
       (if use_caller then
          assert_that (\<not> has_scheduler) ''GetThis() == nullptr''
            (Inr \<lparr> m_tasks = [], m_threads = 0, m_threadIds = [tid], m_threadCount = threads - 1,
                   m_activeThreadCount = 0, m_idleThreadCount = 0, m_useCaller = True,
                   m_rootThread = tid, m_stopping = False \<rparr>)
        else
          Inr \<lparr> m_tasks = [], m_threads = 0, m_threadIds = [], m_threadCount = threads,
                m_activeThreadCount = 0, m_idleThreadCount = 0, m_useCaller = False,
                m_rootThread = - 1, m_stopping = False \<rparr>)"

text \<open>\<open>ids\<close> are the ids of the threads the pool creates, in order.\<close>

definition start_scheduler :: "int list \<Rightarrow> 'cb scheduler \<Rightarrow> 'cb scheduler result" where
  "start_scheduler ids s =
     (if m_stopping s then Inr s
      else assert_that (m_threads s = 0) ''m_threads.empty()''
        (Inr (s\<lparr>m_threads := m_threadCount s, m_threadIds := m_threadIds s @ take (m_threadCount s) ids\<rparr>)))"

definition stopping :: "'cb scheduler \<Rightarrow> bool" where
  "stopping s \<longleftrightarrow> m_stopping s \<and> m_tasks s = [] \<and> m_activeThreadCount s = 0"

text \<open>The part of \<open>stop\<close> up to the joins; the result counts the calls of \<open>tickle\<close>.\<close>

definition stop_scheduler :: "bool \<Rightarrow> 'cb scheduler \<Rightarrow> (nat \<times> 'cb scheduler) result" where
  "stop_scheduler this_is_mine s =
     (if stopping s then Inr (0, s)
      else assert_that (this_is_mine = m_useCaller s) ''GetThis()''
        (Inr (m_threadCount s + (if m_useCaller s then 1 else 0), s\<lparr>m_stopping := True, m_threads := 0\<rparr>)))"

definition hasIdleThreads :: "'cb scheduler \<Rightarrow> bool" where
  "hasIdleThreads s = (m_idleThreadCount s > 0)"

subsection \<open>Scheduling\<close>

definition scheduleNoLock :: "'cb task \<Rightarrow> 'cb scheduler \<Rightarrow> bool \<times> 'cb scheduler" where
  "scheduleNoLock task s =
     (let need_tickle = (m_tasks s = []) in
      (need_tickle,
       if task_fiber task \<noteq> None \<or> task_callback task \<noteq> None then s\<lparr>m_tasks := m_tasks s @ [task]\<rparr> else s))"

text \<open>\<open>schedule\<close>: the result says whether it tickled.\<close>

definition schedule :: "'cb task \<Rightarrow> 'cb scheduler \<Rightarrow> bool \<times> 'cb scheduler" where
  "schedule task s = scheduleNoLock task s"

text \<open>
  The search of \<open>run\<close> through the queue on thread \<open>tid\<close>: \<open>seen\<close> are the tasks passed over. The result
  is the task taken, the queue left, and \<open>tickle_me\<close>.
\<close>

definition fiber_running :: "(nat \<Rightarrow> fiber_state) \<Rightarrow> 'cb task \<Rightarrow> bool" where
  "fiber_running fstate t = (case task_fiber t of None \<Rightarrow> False | Some f \<Rightarrow> fstate f = RUNNING)"

fun pick_loop ::
  "(nat \<Rightarrow> fiber_state) \<Rightarrow> int \<Rightarrow> 'cb task list \<Rightarrow> 'cb task list \<Rightarrow> bool
     \<Rightarrow> ('cb task option \<times> 'cb task list \<times> bool) result" where
  "pick_loop fstate tid seen [] tickle_me = Inr (None, seen, tickle_me)"
| "pick_loop fstate tid seen (t # ts) tickle_me =
     (if task_thread t \<noteq> - 1 \<and> task_thread t \<noteq> tid then pick_loop fstate tid (seen @ [t]) ts True
      else assert_that (task_fiber t \<noteq> None \<or> task_callback t \<noteq> None) ''it->fiber || it->callback''
        (if fiber_running fstate t then pick_loop fstate tid (seen @ [t]) ts tickle_me
         else Inr (Some t, seen @ ts, tickle_me \<or> ts \<noteq> [])))"

definition pick :: "(nat \<Rightarrow> fiber_state) \<Rightarrow> int \<Rightarrow> 'cb scheduler \<Rightarrow> ('cb task option \<times> bool \<times> 'cb scheduler) result" where
  "pick fstate tid s =
     rbind (pick_loop fstate tid [] (m_tasks s) False) (\<lambda>(t, ts, tickle_me).
       Inr (t, tickle_me,
            s\<lparr>m_tasks := ts,
              m_activeThreadCount := (if t = None then m_activeThreadCount s else m_activeThreadCount s + 1)\<rparr>))"

subsection \<open>The choice of a task\<close>

definition runnable :: "(nat \<Rightarrow> fiber_state) \<Rightarrow> int \<Rightarrow> 'cb task \<Rightarrow> bool" where
  "runnable fstate tid t \<longleftrightarrow> (task_thread t = - 1 \<or> task_thread t = tid)
     \<and> \<not> fiber_running fstate t"

definition task_ok :: "'cb task \<Rightarrow> bool" where
  "task_ok t \<longleftrightarrow> task_fiber t \<noteq> None \<or> task_callback t \<noteq> None"

lemma pick_loop_skip:
  assumes "task_ok t" "\<not> runnable fstate tid t"
  shows "pick_loop fstate tid seen (t # ts) tick
    = pick_loop fstate tid (seen @ [t]) ts (tick \<or> task_thread t \<noteq> - 1 \<and> task_thread t \<noteq> tid)"
  using assms by (auto simp: runnable_def task_ok_def)

lemma pick_loop_take:
  assumes "task_ok t" "runnable fstate tid t"
  shows "pick_loop fstate tid seen (t # ts) tick = Inr (Some t, seen @ ts, tick \<or> ts \<noteq> [])"
  using assms by (auto simp: runnable_def task_ok_def)

lemma pick_loop_none:
  assumes "\<forall>t \<in> set ts. task_ok t \<and> \<not> runnable fstate tid t"
  shows "pick_loop fstate tid seen ts tick
    = Inr (None, seen @ ts, tick \<or> (\<exists>t \<in> set ts. task_thread t \<noteq> - 1 \<and> task_thread t \<noteq> tid))"
  using assms
proof (induction ts arbitrary: seen tick)
  case (Cons t ts)
  then show ?case by (auto simp: pick_loop_skip simp del: pick_loop.simps)
qed simp

lemma pick_loop_some:
  assumes "\<forall>t \<in> set pre. task_ok t \<and> \<not> runnable fstate tid t" "task_ok t" "runnable fstate tid t"
  shows "pick_loop fstate tid seen (pre @ t # post) tick
    = Inr (Some t, seen @ pre @ post,
           tick \<or> (\<exists>u \<in> set pre. task_thread u \<noteq> - 1 \<and> task_thread u \<noteq> tid) \<or> post \<noteq> [])"
  using assms(1)
proof (induction pre arbitrary: seen tick)
  case Nil
  then show ?case using assms(2,3) by (simp add: pick_loop_take del: pick_loop.simps)
next
  case (Cons u pre)
  then show ?case by (auto simp: pick_loop_skip simp del: pick_loop.simps)
qed

lemma pick_cases:
  assumes "\<forall>t \<in> set (m_tasks s). task_ok t"
  obtains (none) "\<forall>t \<in> set (m_tasks s). \<not> runnable fstate tid t"
      "\<exists>b. pick fstate tid s = Inr (None, b, s)"
  | (some) pre t post where "m_tasks s = pre @ t # post" "\<forall>u \<in> set pre. \<not> runnable fstate tid u"
      "runnable fstate tid t"
      "\<exists>b. pick fstate tid s = Inr (Some t, b, s\<lparr>m_tasks := pre @ post, m_activeThreadCount := m_activeThreadCount s + 1\<rparr>)"
proof (cases "\<exists>t \<in> set (m_tasks s). runnable fstate tid t")
  case True
  then obtain pre t post where sp: "m_tasks s = pre @ t # post" "runnable fstate tid t"
      "\<forall>u \<in> set pre. \<not> runnable fstate tid u"
    by (auto dest!: split_list_first_prop)
  have "pick_loop fstate tid [] (m_tasks s) False
      = Inr (Some t, pre @ post, (\<exists>u \<in> set pre. task_thread u \<noteq> - 1 \<and> task_thread u \<noteq> tid) \<or> post \<noteq> [])"
    using pick_loop_some [of pre fstate tid t "[]" post False] sp assms by simp
  then show ?thesis using some [OF sp(1,3,2)] by (simp add: pick_def)
next
  case False
  then have "pick_loop fstate tid [] (m_tasks s) False
      = Inr (None, m_tasks s, \<exists>t \<in> set (m_tasks s). task_thread t \<noteq> - 1 \<and> task_thread t \<noteq> tid)"
    using pick_loop_none [of "m_tasks s" fstate tid "[]" False] assms by simp
  then show ?thesis using none False by (simp add: pick_def)
qed

subsection \<open>The worker threads\<close>

text \<open>
  Where a thread is in \<open>run\<close>: at the head of the loop, with a
  task taken and not yet resumed, running it, in the idle fiber, or out of the loop; the flag says whether the idle fiber has ended. A failed
  assertion aborts the process: there is no step for it.
\<close>

datatype 'cb pc = Head bool | Taken bool "'cb task" | Running bool "'cb task" | Idling | Gone

record 'cb sched_sys =
  sched :: "'cb scheduler"
  fstate :: "nat \<Rightarrow> fiber_state"
  workers :: "int list"
  pcs :: "int \<Rightarrow> 'cb pc"
  scheduled :: "'cb task list"
  finished :: "'cb task list"

text \<open>
  \<open>submit\<close> is a call of \<open>schedule\<close> from anywhere, \<open>stop\<close> sets the flag; a resumed fiber comes back
  ready or terminated; the idle fiber ends when it finds \<open>stopping\<close>.
\<close>

inductive sched_step :: "'cb sched_sys \<Rightarrow> 'cb sched_sys \<Rightarrow> bool" where
  submit: "task_ok t \<Longrightarrow> schedule t (sched S) = (b, s') \<Longrightarrow>
     sched_step S (S\<lparr>sched := s', scheduled := scheduled S @ [t]\<rparr>)"
| stop: "sched_step S (S\<lparr>sched := (sched S)\<lparr>m_stopping := True\<rparr>\<rparr>)"
| take: "w \<in> set (workers S) \<Longrightarrow> pcs S w = Head e \<Longrightarrow> pick (fstate S) w (sched S) = Inr (Some t, b, s') \<Longrightarrow>
     sched_step S (S\<lparr>sched := s', pcs := (pcs S)(w := Taken e t)\<rparr>)"
| resume: "w \<in> set (workers S) \<Longrightarrow> pcs S w = Taken e t \<Longrightarrow>
     (\<forall>f. task_fiber t = Some f \<longrightarrow> fstate S f = READY) \<Longrightarrow>
     sched_step S (S\<lparr>fstate := (case task_fiber t of None \<Rightarrow> fstate S | Some f \<Rightarrow> (fstate S)(f := RUNNING)),
                     pcs := (pcs S)(w := Running e t)\<rparr>)"
| finish: "w \<in> set (workers S) \<Longrightarrow> pcs S w = Running e t \<Longrightarrow> st \<noteq> RUNNING \<Longrightarrow>
     sched_step S (S\<lparr>sched := (sched S)\<lparr>m_activeThreadCount := m_activeThreadCount (sched S) - 1\<rparr>,
                     fstate := (case task_fiber t of None \<Rightarrow> fstate S | Some f \<Rightarrow> (fstate S)(f := st)),
                     pcs := (pcs S)(w := Head e), finished := finished S @ [t]\<rparr>)"
| idle: "w \<in> set (workers S) \<Longrightarrow> pcs S w = Head False \<Longrightarrow> pick (fstate S) w (sched S) = Inr (None, b, s') \<Longrightarrow>
     sched_step S (S\<lparr>sched := s'\<lparr>m_idleThreadCount := m_idleThreadCount s' + 1\<rparr>, pcs := (pcs S)(w := Idling)\<rparr>)"
| wake: "w \<in> set (workers S) \<Longrightarrow> pcs S w = Idling \<Longrightarrow>
     sched_step S (S\<lparr>sched := (sched S)\<lparr>m_idleThreadCount := m_idleThreadCount (sched S) - 1\<rparr>,
                     pcs := (pcs S)(w := Head (stopping (sched S)))\<rparr>)"
| leave: "w \<in> set (workers S) \<Longrightarrow> pcs S w = Head True \<Longrightarrow> pick (fstate S) w (sched S) = Inr (None, b, s') \<Longrightarrow>
     sched_step S (S\<lparr>sched := s', pcs := (pcs S)(w := Gone)\<rparr>)"

definition sched_init :: "'cb scheduler \<Rightarrow> int list \<Rightarrow> (nat \<Rightarrow> fiber_state) \<Rightarrow> 'cb sched_sys" where
  "sched_init s ws fs = \<lparr> sched = s, fstate = fs, workers = ws, pcs = (\<lambda>_. Head False),
     scheduled = [], finished = [] \<rparr>"

inductive sched_reachable :: "'cb sched_sys \<Rightarrow> bool" where
  init: "new_Scheduler n uc False tid = Inr s \<Longrightarrow> distinct ws \<Longrightarrow> sched_reachable (sched_init s ws fs)"
| step: "sched_reachable S \<Longrightarrow> sched_step S S' \<Longrightarrow> sched_reachable S'"

text \<open>The tasks in the hands of the threads.\<close>

fun held :: "'cb pc \<Rightarrow> 'cb task list" where
  "held (Taken e t) = [t]"
| "held (Running e t) = [t]"
| "held _ = []"

definition in_hand :: "'cb sched_sys \<Rightarrow> 'cb task list" where
  "in_hand S = concat (map (\<lambda>w. held (pcs S w)) (workers S))"

definition sched_inv :: "'cb sched_sys \<Rightarrow> bool" where
  "sched_inv S \<longleftrightarrow> distinct (workers S) \<and> (\<forall>t \<in> set (m_tasks (sched S)). task_ok t)
     \<and> m_activeThreadCount (sched S) = length (in_hand S)
     \<and> m_idleThreadCount (sched S) = length (filter (\<lambda>w. pcs S w = Idling) (workers S))
     \<and> mset (scheduled S) = mset (m_tasks (sched S)) + mset (in_hand S) + mset (finished S)"

lemma in_hand_upd:
  assumes "distinct ws" "w \<in> set ws"
  shows "mset (concat (map (\<lambda>v. held ((p(w := c)) v)) ws)) + mset (held (p w))
    = mset (concat (map (\<lambda>v. held (p v)) ws)) + mset (held c)"
  using assms
proof (induction ws)
  case (Cons v ws)
  show ?case
  proof (cases "v = w")
    case True
    then have e: "map (\<lambda>v. held ((p(w := c)) v)) ws = map (\<lambda>v. held (p v)) ws"
      using Cons.prems by (intro map_cong) auto
    show ?thesis unfolding list.map concat.simps e using True by (simp add: ac_simps)
  next
    case False
    then show ?thesis using Cons by (simp add: add.assoc)
  qed
qed simp

lemma idlers_upd:
  assumes "distinct ws" "w \<in> set ws"
  shows "length (filter (\<lambda>v. (p(w := c)) v = Idling) ws) + (if p w = Idling then 1 else 0)
    = length (filter (\<lambda>v. p v = Idling) ws) + (if c = Idling then 1 else 0)"
  using assms
proof (induction ws)
  case (Cons v ws)
  show ?case
  proof (cases "v = w")
    case True
    then have "filter (\<lambda>v. (p(w := c)) v = Idling) ws = filter (\<lambda>v. p v = Idling) ws"
      using Cons.prems by (intro filter_cong) auto
    then show ?thesis using True by simp
  next
    case False
    then show ?thesis using Cons by auto
  qed
qed simp

lemma sched_inv_move:
  assumes "sched_inv S" "w \<in> set (workers S)"
    and "S' = S\<lparr>sched := s', fstate := fs, pcs := (pcs S)(w := c), finished := fin\<rparr>"
    and "\<forall>t \<in> set (m_tasks s'). task_ok t"
    and "m_activeThreadCount s' + length (held (pcs S w)) = m_activeThreadCount (sched S) + length (held c)"
    and "m_idleThreadCount s' + (if pcs S w = Idling then 1 else 0)
      = m_idleThreadCount (sched S) + (if c = Idling then 1 else 0)"
    and "mset (m_tasks s') + mset (held c) + mset fin
      = mset (m_tasks (sched S)) + mset (held (pcs S w)) + mset (finished S)"
  shows "sched_inv S'"
proof -
  have d: "distinct (workers S)" using assms(1) by (simp add: sched_inv_def)
  have H: "mset (in_hand S') + mset (held (pcs S w)) = mset (in_hand S) + mset (held c)"
    using in_hand_upd [OF d assms(2), of "pcs S" c] unfolding assms(3) in_hand_def by simp
  then have "length (in_hand S') + length (held (pcs S w)) = length (in_hand S) + length (held c)"
    by (metis size_mset size_union)
  moreover have "mset (m_tasks s') + mset (in_hand S') + mset fin
      = mset (m_tasks (sched S)) + mset (in_hand S) + mset (finished S)"
  proof -
    have "mset (m_tasks s') + mset (in_hand S') + mset fin + mset (held (pcs S w))
        = (mset (m_tasks s') + mset fin) + (mset (in_hand S) + mset (held c))"
      using H by (simp add: ac_simps)
    also have "\<dots> = mset (m_tasks (sched S)) + mset (in_hand S) + mset (finished S) + mset (held (pcs S w))"
      using assms(7) by (simp add: ac_simps)
    finally show ?thesis by simp
  qed
  moreover have "length (filter (\<lambda>v. pcs S' v = Idling) (workers S')) + (if pcs S w = Idling then 1 else 0)
      = length (filter (\<lambda>v. pcs S v = Idling) (workers S)) + (if c = Idling then 1 else 0)"
    using idlers_upd [OF d assms(2), of "pcs S" c] unfolding assms(3) by simp
  ultimately show ?thesis
    using assms(1,4-6) unfolding sched_inv_def by (auto simp: assms(3))
qed

lemma pick_effect:
  assumes "\<forall>t \<in> set (m_tasks s). task_ok t" "pick fs w s = Inr (r, b, s')"
  shows "mset (m_tasks s) = mset (m_tasks s') + mset (case r of None \<Rightarrow> [] | Some t \<Rightarrow> [t])"
    "\<forall>t \<in> set (m_tasks s'). task_ok t" "m_idleThreadCount s' = m_idleThreadCount s"
    "m_activeThreadCount s' = m_activeThreadCount s + (case r of None \<Rightarrow> 0 | Some _ \<Rightarrow> 1)"
    "r = None \<Longrightarrow> s' = s"
proof -
  consider (none) "r = None" "s' = s"
    | (some) pre t post where "r = Some t" "m_tasks s = pre @ t # post"
        "s' = s\<lparr>m_tasks := pre @ post, m_activeThreadCount := m_activeThreadCount s + 1\<rparr>"
  proof (rule pick_cases [OF assms(1), of fs w])
    assume "\<exists>b. pick fs w s = Inr (None, b, s)"
    then show ?thesis using assms(2) that(1) by auto
  next
    fix pre t post
    assume "m_tasks s = pre @ t # post"
      "\<exists>b. pick fs w s = Inr (Some t, b, s\<lparr>m_tasks := pre @ post, m_activeThreadCount := m_activeThreadCount s + 1\<rparr>)"
    then show ?thesis using assms(2) that(2) [of t pre post] by auto
  qed
  then show "mset (m_tasks s) = mset (m_tasks s') + mset (case r of None \<Rightarrow> [] | Some t \<Rightarrow> [t])"
    "\<forall>t \<in> set (m_tasks s'). task_ok t" "m_idleThreadCount s' = m_idleThreadCount s"
    "m_activeThreadCount s' = m_activeThreadCount s + (case r of None \<Rightarrow> 0 | Some _ \<Rightarrow> 1)"
    "r = None \<Longrightarrow> s' = s"
    using assms(1) by (cases; simp)+
qed

lemma sched_step_inv: "sched_step S S' \<Longrightarrow> sched_inv S \<Longrightarrow> sched_inv S'"
proof (induction rule: sched_step.induct)
  case (submit t S b s')
  then show ?case
    by (auto simp: sched_inv_def schedule_def scheduleNoLock_def task_ok_def in_hand_def)
next
  case (stop S)
  then show ?case by (simp add: sched_inv_def in_hand_def)
next
  case (take w S e t b s')
  note P = pick_effect [OF _ take(3)]
  show ?case
    by (rule sched_inv_move [OF take(4,1), where s' = s' and c = "Taken e t" and fs = "fstate S" and fin = "finished S"])
       (use take P in \<open>simp_all add: sched_inv_def\<close>)
next
  case (resume w S e t)
  show ?case
    by (rule sched_inv_move [OF resume(4,1), where s' = "sched S" and c = "Running e t" and fin = "finished S"
          and fs = "case task_fiber t of None \<Rightarrow> fstate S | Some f \<Rightarrow> (fstate S)(f := RUNNING)"])
       (use resume in \<open>simp_all add: sched_inv_def\<close>)
next
  case (finish w S e t st)
  have "0 < length (in_hand S)"
    using finish(1,2) by (auto simp: in_hand_def intro!: bexI [of _ w])
  then have "0 < m_activeThreadCount (sched S)" using finish(4) by (simp add: sched_inv_def)
  then show ?case
    by (intro sched_inv_move [OF finish(4,1), where c = "Head e" and fin = "finished S @ [t]"
          and s' = "(sched S)\<lparr>m_activeThreadCount := m_activeThreadCount (sched S) - 1\<rparr>"
          and fs = "case task_fiber t of None \<Rightarrow> fstate S | Some f \<Rightarrow> (fstate S)(f := st)"])
       (use finish in \<open>simp_all add: sched_inv_def\<close>)
next
  case (idle w S b s')
  note P = pick_effect [OF _ idle(3)]
  show ?case
    by (rule sched_inv_move [OF idle(4,1), where c = Idling and fs = "fstate S" and fin = "finished S"
          and s' = "s'\<lparr>m_idleThreadCount := m_idleThreadCount s' + 1\<rparr>"])
       (use idle P in \<open>simp_all add: sched_inv_def\<close>)
next
  case (wake w S)
  have "0 < length (filter (\<lambda>v. pcs S v = Idling) (workers S))"
    using wake(1,2) by (auto simp: filter_empty_conv)
  then have "0 < m_idleThreadCount (sched S)" using wake(3) by (simp add: sched_inv_def)
  then show ?case
    by (intro sched_inv_move [OF wake(3,1), where c = "Head (stopping (sched S))" and fs = "fstate S"
          and fin = "finished S" and s' = "(sched S)\<lparr>m_idleThreadCount := m_idleThreadCount (sched S) - 1\<rparr>"])
       (use wake in \<open>simp_all add: sched_inv_def\<close>)
next
  case (leave w S b s')
  note P = pick_effect [OF _ leave(3)]
  show ?case
    by (rule sched_inv_move [OF leave(4,1), where c = Gone and fs = "fstate S" and fin = "finished S" and s' = s'])
       (use leave P in \<open>simp_all add: sched_inv_def\<close>)
qed

lemma sched_reachable_inv: "sched_reachable S \<Longrightarrow> sched_inv S"
proof (induction rule: sched_reachable.induct)
  case (init n uc tid s ws fs)
  have "concat (map (\<lambda>w. []) ws) = []" for ws :: "int list" by simp
  then show ?case
    using init by (auto simp: sched_inv_def sched_init_def in_hand_def new_Scheduler_def assert_that_def split: if_splits)
next
  case (step S S')
  then show ?case using sched_step_inv by blast
qed

subsection \<open>Properties\<close>

text \<open>
  C2: no task is lost or run twice. In every state the threads can reach, every task ever
  scheduled is exactly once in the queue, in the hands of a thread, or finished; the counters of
  active and idle threads are the numbers of threads that hold a task and that idle; so when
  \<open>stopping\<close> holds, every scheduled task has been run.
\<close>

theorem scheduler_conserves_tasks:
  assumes "sched_reachable S"
  shows "mset (scheduled S) = mset (m_tasks (sched S)) + mset (in_hand S) + mset (finished S)
      \<and> m_activeThreadCount (sched S) = length (in_hand S)
      \<and> m_idleThreadCount (sched S) = length (filter (\<lambda>w. pcs S w = Idling) (workers S))
      \<and> (stopping (sched S) \<longrightarrow> mset (finished S) = mset (scheduled S))"
  using sched_reachable_inv [OF assms] by (auto simp: sched_inv_def stopping_def)

theorem scheduler_conserves_tasks_witness:
  "\<exists>s. new_Scheduler 2 False False 1 = Inr s
     \<and> mset (finished (sched_init s [5, 6] (\<lambda>_. READY) :: nat sched_sys)) = {#}"
proof -
  obtain s :: "nat scheduler" where s: "new_Scheduler 2 False False 1 = Inr s"
    by (simp add: new_Scheduler_def)
  have "sched_reachable (sched_init s [5, 6] (\<lambda>_. READY))" by (rule sched_reachable.init [OF s]) simp
  from scheduler_conserves_tasks [OF this] s show ?thesis by (auto simp: sched_init_def)
qed

text \<open>
  A thread takes the first task of the queue it may run, one that is bound to it or to no
  thread and whose fiber is not still running; the other tasks keep their order, and when it takes
  none, no task in the queue was eligible for it.
\<close>

theorem pick_first_runnable:
  assumes "\<forall>t \<in> set (m_tasks s). task_ok t"
  shows "\<exists>b r s'. pick fs w s = Inr (r, b, s') \<and>
    (case r of
       None \<Rightarrow> s' = s \<and> (\<forall>t \<in> set (m_tasks s). \<not> runnable fs w t)
     | Some t \<Rightarrow> \<exists>pre post. m_tasks s = pre @ t # post \<and> m_tasks s' = pre @ post
         \<and> runnable fs w t \<and> (\<forall>u \<in> set pre. \<not> runnable fs w u)
         \<and> m_activeThreadCount s' = m_activeThreadCount s + 1)"
  using assms
proof (cases rule: pick_cases [of s fs w])
  case none
  then show ?thesis by fastforce
next
  case (some pre t post)
  then obtain b where b: "pick fs w s = Inr (Some t, b, s\<lparr>m_tasks := pre @ post, m_activeThreadCount := m_activeThreadCount s + 1\<rparr>)"
    by blast
  let ?s = "s\<lparr>m_tasks := pre @ post, m_activeThreadCount := m_activeThreadCount s + 1\<rparr>"
  have "\<exists>pre post. m_tasks s = pre @ t # post \<and> m_tasks ?s = pre @ post
         \<and> runnable fs w t \<and> (\<forall>u \<in> set pre. \<not> runnable fs w u)
         \<and> m_activeThreadCount ?s = m_activeThreadCount s + 1"
    by (rule exI [of _ pre], rule exI [of _ post]) (use some in simp)
  with b show ?thesis by (intro exI [of _ b] exI [of _ "Some t"] exI [of _ ?s]) simp
qed

theorem pick_first_runnable_witness:
  "\<exists>b s'. pick (\<lambda>f. if f = 0 then RUNNING else READY) 7
     \<lparr> m_tasks = [fiber_task (Some 0) (- 1), fiber_task (Some 1) 8, fiber_task (Some 2) (- 1) :: nat task],
       m_threads = 0, m_threadIds = [], m_threadCount = 1, m_activeThreadCount = 0, m_idleThreadCount = 0,
       m_useCaller = False, m_rootThread = - 1, m_stopping = False \<rparr>
     = Inr (Some (fiber_task (Some 2) (- 1)), b, s')"
proof -
  let ?s = "\<lparr> m_tasks = [fiber_task (Some 0) (- 1), fiber_task (Some 1) 8, fiber_task (Some 2) (- 1) :: nat task],
       m_threads = 0, m_threadIds = [], m_threadCount = 1, m_activeThreadCount = 0, m_idleThreadCount = 0,
       m_useCaller = False, m_rootThread = - 1, m_stopping = False \<rparr>"
  have "\<forall>t \<in> set (m_tasks ?s). task_ok t" by (simp add: task_ok_def fiber_task_def)
  from pick_first_runnable [OF this, of "\<lambda>f. if f = 0 then RUNNING else READY" 7]
  show ?thesis by (auto simp: pick_def fiber_task_def fiber_running_def)
qed

end
