(* ===== verification/IOManager.thy ===== *)
theory IOManager
  imports Scheduler TimerQueue
begin

text \<open>
  The event loop: \<open>src/fiber/iomanager.cpp\<close>, \<open>include/fishjoy/fiber/iomanager.hpp\<close>.

  An \<open>FdContext*\<close> is the index of its object in \<open>m_fdContexts\<close>, whose entries are never moved or freed
  while the manager lives. A \<open>Scheduler*\<close> is the index of the scheduler in \<open>io_scheds\<close>; \<open>io_self\<close> is
  the scheduler the manager derives from. The kernel (epoll and the wake-up pipe) is a record of
  functions on a state of its own. \<open>delEvent\<close>, \<open>cancelEvent\<close>, \<open>cancelAll\<close> and the handling of a report
  hold the lock of the descriptor's context and are one step. \<open>addEvent\<close> does not take that lock: it is two steps, up to
  its \<open>epoll_ctl\<close> and from there on, between which other threads make theirs.
\<close>

definition NONE :: u32 where "NONE = 0"
definition READ :: u32 where "READ = 1"
definition WRITE :: u32 where "WRITE = 4"

definition EPOLLIN :: u32 where "EPOLLIN = 1"
definition EPOLLOUT :: u32 where "EPOLLOUT = 4"
definition EPOLLERR :: u32 where "EPOLLERR = 8"
definition EPOLLHUP :: u32 where "EPOLLHUP = 16"
definition EPOLLET :: u32 where "EPOLLET = 2147483648"

lemmas event_defs = NONE_def READ_def WRITE_def EPOLLIN_def EPOLLOUT_def EPOLLERR_def EPOLLHUP_def

datatype epoll_op = EPOLL_CTL_ADD | EPOLL_CTL_MOD | EPOLL_CTL_DEL

text \<open>
  The kernel: \<open>epoll_ctl\<close> on the manager's epoll descriptor, the interest list it keeps, and the pipe.
  \<open>epoll_law\<close> is what the manual of \<open>epoll_ctl\<close> promises: a call that returns 0 registers, changes or
  removes exactly the descriptor, a call that fails changes nothing, and \<open>EPOLL_CTL_ADD\<close> succeeds only
  on a descriptor that is not registered, the other two only on one that is. The pipe does not
  change the interest list.
\<close>

record 'k epoll =
  epoll_ctl :: "epoll_op \<Rightarrow> int \<Rightarrow> u32 \<Rightarrow> 'k \<Rightarrow> int \<times> 'k"
  interest :: "'k \<Rightarrow> int \<Rightarrow> u32 option"
  pipe_write :: "'k \<Rightarrow> int \<times> 'k"
  pipe_drain :: "'k \<Rightarrow> 'k"

definition fits :: "'k epoll \<Rightarrow> epoll_op \<Rightarrow> int \<Rightarrow> 'k \<Rightarrow> bool" where
  "fits ep op fd k \<longleftrightarrow> (op = EPOLL_CTL_ADD \<longleftrightarrow> interest ep k fd = None)"

definition epoll_law :: "'k epoll \<Rightarrow> bool" where
  "epoll_law ep \<longleftrightarrow>
     (\<forall>op fd ev k rt k'. epoll_ctl ep op fd ev k = (rt, k') \<longrightarrow>
        (if rt = 0
         then fits ep op fd k
            \<and> interest ep k' = (interest ep k)(fd := (if op = EPOLL_CTL_DEL then None else Some ev))
         else interest ep k' = interest ep k))
     \<and> (\<forall>k. interest ep (snd (pipe_write ep k)) = interest ep k)
     \<and> (\<forall>k. interest ep (pipe_drain ep k) = interest ep k)"

subsection \<open>Contexts\<close>

record 'cb event_context =
  ev_scheduler :: "nat option"
  ev_fiber :: "nat option"
  ev_cb :: "'cb option"

record 'cb fd_context =
  ctx_read :: "'cb event_context"
  ctx_write :: "'cb event_context"
  ctx_fd :: int
  ctx_events :: u32

record 'cb iomanager =
  io_scheds :: "nat \<Rightarrow> 'cb scheduler"
  io_self :: nat
  io_timers :: "'cb timer_manager"
  m_epfd :: int
  m_tickleFds :: "int \<times> int"
  m_pendingEventCount :: u64
  m_fdContexts :: "'cb fd_context list"

definition empty_ctx :: "'cb event_context" where
  "empty_ctx = \<lparr> ev_scheduler = None, ev_fiber = None, ev_cb = None \<rparr>"

definition new_FdContext :: "int \<Rightarrow> 'cb fd_context" where
  "new_FdContext fd = \<lparr> ctx_read = empty_ctx, ctx_write = empty_ctx, ctx_fd = fd, ctx_events = NONE \<rparr>"

text \<open>The reference \<open>getEventContext\<close> returns: to the read or to the write member.\<close>

datatype member = Read_ctx | Write_ctx

definition getEventContext :: "u32 \<Rightarrow> member result" where
  "getEventContext event =
     (if event = READ then Inr Read_ctx else if event = WRITE then Inr Write_ctx
      else Inl (Assert_failed ''getContext''))"

definition ctx_get :: "member \<Rightarrow> 'cb fd_context \<Rightarrow> 'cb event_context" where
  "ctx_get m c = (case m of Read_ctx \<Rightarrow> ctx_read c | Write_ctx \<Rightarrow> ctx_write c)"

definition ctx_put :: "member \<Rightarrow> 'cb event_context \<Rightarrow> 'cb fd_context \<Rightarrow> 'cb fd_context" where
  "ctx_put m e c = (case m of Read_ctx \<Rightarrow> c\<lparr>ctx_read := e\<rparr> | Write_ctx \<Rightarrow> c\<lparr>ctx_write := e\<rparr>)"

definition resetEventContext :: "member \<Rightarrow> 'cb fd_context \<Rightarrow> 'cb fd_context" where
  "resetEventContext m c = ctx_put m \<lparr> ev_scheduler = None, ev_fiber = None, ev_cb = None \<rparr> c"

subsection \<open>Waking the idle threads\<close>

definition tickle :: "'k epoll \<Rightarrow> 'cb iomanager \<times> 'k \<Rightarrow> ('cb iomanager \<times> 'k) result" where
  "tickle ep st =
     (let (s, k) = st in
      if \<not> hasIdleThreads (io_scheds s (io_self s)) then Inr (s, k)
      else let (rt, k') = pipe_write ep k in assert_that (rt = 1) ''rt == 1'' (Inr (s, k')))"

definition onTimerInsertedAtFront :: "'k epoll \<Rightarrow> 'cb iomanager \<times> 'k \<Rightarrow> ('cb iomanager \<times> 'k) result" where
  "onTimerInsertedAtFront ep st = tickle ep st"

text \<open>
  \<open>Scheduler::schedule\<close> on a scheduler pointer. \<open>tickle\<close> is virtual: for the manager itself it is the
  one above; another scheduler's wake-up is that scheduler's own matter.
\<close>

definition schedule_on :: "'k epoll \<Rightarrow> nat option \<Rightarrow> 'cb task \<Rightarrow> 'cb iomanager \<times> 'k \<Rightarrow> ('cb iomanager \<times> 'k) result" where
  "schedule_on ep p t st =
     (case p of None \<Rightarrow> Inl Null_deref
      | Some i \<Rightarrow>
          let (s, k) = st; (need_tickle, sc) = schedule t (io_scheds s i);
              s' = s\<lparr>io_scheds := (io_scheds s)(i := sc)\<rparr>
          in if need_tickle \<and> i = io_self s then tickle ep (s', k) else Inr (s', k))"

subsection \<open>Triggering\<close>

text \<open>
  \<open>FdContext::triggerEvent\<close>, as written: the parameter \<open>event\<close> is tested against itself and cleared
  by its own complement; the member \<open>events\<close> is not touched.
\<close>

definition triggerEvent :: "'k epoll \<Rightarrow> nat \<Rightarrow> u32 \<Rightarrow> 'cb iomanager \<times> 'k \<Rightarrow> ('cb iomanager \<times> 'k) result" where
  "triggerEvent ep i event st =
     assert_that (event AND event \<noteq> 0) ''event & event''
       (let event' = event AND NOT event in
        rbind (getEventContext event') (\<lambda>m.
          let ctx = ctx_get m (m_fdContexts (fst st) ! i) in
          rbind (if ev_cb ctx \<noteq> None
                 then schedule_on ep (ev_scheduler ctx) (callback_task (ev_cb ctx) (- 1)) st
                 else schedule_on ep (ev_scheduler ctx) (fiber_task (ev_fiber ctx) (- 1)) st)
            (\<lambda>(s, k). Inr (s\<lparr>m_fdContexts := (m_fdContexts s)[i := resetEventContext m (m_fdContexts s ! i)]\<rparr>, k))))"

subsection \<open>Registration\<close>

definition contextResize :: "nat \<Rightarrow> 'cb fd_context list \<Rightarrow> 'cb fd_context list" where
  "contextResize sz ctxs =
     take sz ctxs @ map (\<lambda>i. new_FdContext (int i)) [length ctxs..<sz]"

text \<open>The context of \<open>fd\<close> in a table larger than \<open>fd\<close>; a negative index is out of bounds.\<close>

definition ctx_at :: "int \<Rightarrow> 'cb fd_context list \<Rightarrow> nat result" where
  "ctx_at fd ctxs = (if 0 \<le> fd \<and> nat fd < length ctxs then Inr (nat fd) else Inl Bad_access)"

text \<open>
  \<open>addEvent\<close> up to \<open>epoll_ctl\<close>, whose result is returned, and the rest, which counts and stores the event.
  \<open>cur\<close> is the thread's scheduler, \<open>fiber\<close> and \<open>fibstate\<close> its current fiber and that fiber's state.
\<close>

definition addEvent_ctl :: "'k epoll \<Rightarrow> int \<Rightarrow> u32 \<Rightarrow> 'cb iomanager \<times> 'k \<Rightarrow> (int \<times> 'cb iomanager \<times> 'k) result" where
  "addEvent_ctl ep fd event st =
     (let (s, k) = st;
          ctxs = (if int (length (m_fdContexts s)) > fd then m_fdContexts s
                  else contextResize (3 * nat fd div 2) (m_fdContexts s))
      in rbind (ctx_at fd ctxs) (\<lambda>i.
         let fd_ctx = ctxs ! i; s = s\<lparr>m_fdContexts := ctxs\<rparr> in
         assert_that (ctx_events fd_ctx AND event = 0) ''!(fd_ctx->events & event)''
           (let op = (if ctx_events fd_ctx \<noteq> 0 then EPOLL_CTL_MOD else EPOLL_CTL_ADD);
                (rt, k) = epoll_ctl ep op fd (EPOLLET OR ctx_events fd_ctx OR event) k
            in Inr (rt, s, k))))"

definition addEvent_store ::
  "nat option \<Rightarrow> nat \<Rightarrow> fiber_state \<Rightarrow> int \<Rightarrow> u32 \<Rightarrow> 'cb option \<Rightarrow> 'cb iomanager \<Rightarrow> 'cb iomanager result" where
  "addEvent_store cur fiber fibstate fd event callback s =
     rbind (ctx_at fd (m_fdContexts s)) (\<lambda>i.
       let s = s\<lparr>m_pendingEventCount := m_pendingEventCount s + 1\<rparr>;
           fd_ctx = m_fdContexts s ! i;
           fd_ctx = fd_ctx\<lparr>ctx_events := ctx_events fd_ctx OR event\<rparr>
       in rbind (getEventContext event) (\<lambda>m.
            let event_ctx = ctx_get m fd_ctx in
            assert_that (ev_scheduler event_ctx = None \<and> ev_fiber event_ctx = None \<and> ev_cb event_ctx = None)
              ''!event_ctx.scheduler && !event_ctx.fiber && !event_ctx.cb''
              (let event_ctx = event_ctx\<lparr>ev_scheduler := cur\<rparr> in
               rbind (if callback \<noteq> None then Inr (event_ctx\<lparr>ev_cb := callback\<rparr>)
                      else assert_that (fibstate = RUNNING) ''state'' (Inr (event_ctx\<lparr>ev_fiber := Some fiber\<rparr>)))
                 (\<lambda>event_ctx. Inr (s\<lparr>m_fdContexts := (m_fdContexts s)[i := ctx_put m event_ctx fd_ctx]\<rparr>)))))"

definition addEvent ::
  "'k epoll \<Rightarrow> nat option \<Rightarrow> nat \<Rightarrow> fiber_state \<Rightarrow> int \<Rightarrow> u32 \<Rightarrow> 'cb option \<Rightarrow> 'cb iomanager \<times> 'k
     \<Rightarrow> (int \<times> 'cb iomanager \<times> 'k) result" where
  "addEvent ep cur fiber fibstate fd event callback st =
     rbind (addEvent_ctl ep fd event st) (\<lambda>(rt, s, k).
       if rt \<noteq> 0 then Inr (- 1, s, k)
       else rbind (addEvent_store cur fiber fibstate fd event callback s) (\<lambda>s. Inr (0, s, k)))"

definition delEvent :: "'k epoll \<Rightarrow> int \<Rightarrow> u32 \<Rightarrow> 'cb iomanager \<times> 'k \<Rightarrow> (bool \<times> 'cb iomanager \<times> 'k) result" where
  "delEvent ep fd event st =
     (let (s, k) = st in
      if int (length (m_fdContexts s)) \<le> fd then Inr (False, s, k)
      else rbind (ctx_at fd (m_fdContexts s)) (\<lambda>i.
        let fd_ctx = m_fdContexts s ! i in
        if ctx_events fd_ctx AND event = 0 then Inr (False, s, k)
        else
          let new_events = ctx_events fd_ctx AND NOT event;
              op = (if new_events \<noteq> 0 then EPOLL_CTL_MOD else EPOLL_CTL_DEL);
              (rt, k) = epoll_ctl ep op fd (EPOLLET OR new_events) k
          in if rt \<noteq> 0 then Inr (False, s, k)
             else
               let s = s\<lparr>m_pendingEventCount := m_pendingEventCount s - 1\<rparr>;
                   fd_ctx = fd_ctx\<lparr>ctx_events := new_events\<rparr>
               in rbind (getEventContext event) (\<lambda>m.
                    Inr (True, s\<lparr>m_fdContexts := (m_fdContexts s)[i := resetEventContext m fd_ctx]\<rparr>, k))))"

definition cancelEvent :: "'k epoll \<Rightarrow> int \<Rightarrow> u32 \<Rightarrow> 'cb iomanager \<times> 'k \<Rightarrow> (bool \<times> 'cb iomanager \<times> 'k) result" where
  "cancelEvent ep fd event st =
     (let (s, k) = st in
      if int (length (m_fdContexts s)) \<le> fd then Inr (False, s, k)
      else rbind (ctx_at fd (m_fdContexts s)) (\<lambda>i.
        let fd_ctx = m_fdContexts s ! i in
        if ctx_events fd_ctx AND event = 0 then Inr (False, s, k)
        else
          let new_events = ctx_events fd_ctx AND NOT event;
              op = (if new_events \<noteq> 0 then EPOLL_CTL_MOD else EPOLL_CTL_DEL);
              (rt, k) = epoll_ctl ep op fd (EPOLLET OR new_events) k
          in if rt \<noteq> 0 then Inr (False, s, k)
             else rbind (triggerEvent ep i event (s, k)) (\<lambda>(s, k).
               Inr (True, s\<lparr>m_pendingEventCount := m_pendingEventCount s - 1\<rparr>, k))))"

text \<open>One of the two calls \<open>triggerEvent(e); --m_pendingEventCount;\<close> under its test.\<close>

definition trigger_if :: "'k epoll \<Rightarrow> bool \<Rightarrow> nat \<Rightarrow> u32 \<Rightarrow> 'cb iomanager \<times> 'k \<Rightarrow> ('cb iomanager \<times> 'k) result" where
  "trigger_if ep b i event st =
     (if b then rbind (triggerEvent ep i event st) (\<lambda>(s, k).
          Inr (s\<lparr>m_pendingEventCount := m_pendingEventCount s - 1\<rparr>, k))
      else Inr st)"

definition cancelAll :: "'k epoll \<Rightarrow> int \<Rightarrow> 'cb iomanager \<times> 'k \<Rightarrow> (bool \<times> 'cb iomanager \<times> 'k) result" where
  "cancelAll ep fd st =
     (let (s, k) = st in
      if int (length (m_fdContexts s)) \<le> fd then Inr (False, s, k)
      else rbind (ctx_at fd (m_fdContexts s)) (\<lambda>i.
        if ctx_events (m_fdContexts s ! i) = 0 then Inr (False, s, k)
        else
          let (rt, k) = epoll_ctl ep EPOLL_CTL_DEL fd 0 k in
          if rt \<noteq> 0 then Inr (False, s, k)
          else
            rbind (trigger_if ep (ctx_events (m_fdContexts s ! i) AND READ \<noteq> 0) i READ (s, k)) (\<lambda>(s, k).
            rbind (trigger_if ep (ctx_events (m_fdContexts s ! i) AND WRITE \<noteq> 0) i WRITE (s, k)) (\<lambda>(s, k).
              assert_that (ctx_events (m_fdContexts s ! i) = 0) ''fd_ctx->events == 0'' (Inr (True, s, k))))))"

text \<open>
  The constructor: \<open>epfd\<close>, \<open>pipe_rt\<close>, \<open>tfds\<close> and \<open>fcntl_rt\<close> are the results of \<open>epoll_create\<close>, \<open>pipe\<close> and
  \<open>fcntl\<close>; \<open>ids\<close> are the ids of the threads \<open>start\<close> creates.
\<close>

definition new_IOManager ::
  "'k epoll \<Rightarrow> (nat \<Rightarrow> 'cb scheduler) \<Rightarrow> nat \<Rightarrow> nat \<Rightarrow> bool \<Rightarrow> bool \<Rightarrow> int \<Rightarrow> int list \<Rightarrow> int \<Rightarrow> int \<Rightarrow> int \<times> int \<Rightarrow> int
     \<Rightarrow> u64 \<Rightarrow> 'k \<Rightarrow> ('cb iomanager \<times> 'k) result" where
  "new_IOManager ep scheds self threads use_caller has_scheduler tid ids epfd pipe_rt tfds fcntl_rt now k =
     rbind (new_Scheduler threads use_caller has_scheduler tid) (\<lambda>sc.
       assert_that (epfd > 0) ''m_epfd > 0'' (assert_that (pipe_rt = 0) ''!rt'' (assert_that (fcntl_rt = 0) ''!rt''
         (let (rt, k) = epoll_ctl ep EPOLL_CTL_ADD (fst tfds) (EPOLLIN OR EPOLLET) k in
          assert_that (rt = 0) ''!rt''
            (rbind (start_scheduler ids sc) (\<lambda>sc.
               Inr (\<lparr> io_scheds = scheds(self := sc), io_self = self, io_timers = new_TimerManager now,
                     m_epfd = epfd, m_tickleFds = tfds, m_pendingEventCount = 0,
                     m_fdContexts = contextResize 32 [] \<rparr>, k)))))))"

subsection \<open>The idle loop\<close>

definition stopping_timeout :: "u64 \<Rightarrow> 'cb iomanager \<Rightarrow> bool \<times> u64 \<times> 'cb iomanager" where
  "stopping_timeout now s =
     (let (timeout, tm) = getNextTimer now (io_timers s) in
      (timeout = - 1 \<and> m_pendingEventCount s = 0 \<and> stopping (io_scheds s (io_self s)),
       timeout, s\<lparr>io_timers := tm\<rparr>))"

text \<open>
  The time \<open>epoll_wait\<close> is given: \<open>next_timeout\<close> is narrowed to \<open>int\<close> before the minimum is taken,
  widened back into the \<open>uint64_t\<close>, and narrowed again for the call.
\<close>

definition MAX_TIMEOUT :: "32 word" where "MAX_TIMEOUT = 5000"

definition narrow_timeout :: "u64 \<Rightarrow> u64" where
  "narrow_timeout next_timeout =
     (if next_timeout \<noteq> - 1
      then (let t = (ucast next_timeout :: u32) in scast (if t <s MAX_TIMEOUT then t else MAX_TIMEOUT))
      else scast MAX_TIMEOUT)"

definition wait_timeout :: "u64 \<Rightarrow> int" where
  "wait_timeout next_timeout = sint (ucast (narrow_timeout next_timeout) :: u32)"

datatype ev_data = Tickle_fd | Fd_ctx nat

record epoll_event =
  ep_events :: u32
  ep_data :: ev_data

definition real_events :: "u32 \<Rightarrow> u32 \<Rightarrow> u32" where
  "real_events evs registered =
     (let evs = (if evs AND (EPOLLERR OR EPOLLHUP) \<noteq> 0 then evs OR ((EPOLLIN OR EPOLLOUT) AND registered) else evs)
      in (if evs AND EPOLLIN \<noteq> 0 then READ else NONE) OR (if evs AND EPOLLOUT \<noteq> 0 then WRITE else NONE))"

text \<open>The body of the loop over the events \<open>epoll_wait\<close> reported.\<close>

definition handle_event :: "'k epoll \<Rightarrow> epoll_event \<Rightarrow> 'cb iomanager \<times> 'k \<Rightarrow> ('cb iomanager \<times> 'k) result" where
  "handle_event ep event st =
     (let (s, k) = st in
      case ep_data event of
        Tickle_fd \<Rightarrow> Inr (s, pipe_drain ep k)
      | Fd_ctx i \<Rightarrow>
          if length (m_fdContexts s) \<le> i then Inl Bad_access
          else
            let fd_ctx = m_fdContexts s ! i; real = real_events (ep_events event) (ctx_events fd_ctx) in
            if ctx_events fd_ctx AND real = NONE then Inr (s, k)
            else
              let left_events = ctx_events fd_ctx AND NOT real;
                  op = (if left_events \<noteq> 0 then EPOLL_CTL_MOD else EPOLL_CTL_DEL);
                  (rt2, k) = epoll_ctl ep op (ctx_fd fd_ctx) (EPOLLET OR left_events) k
              in if rt2 \<noteq> 0 then Inr (s, k)
                 else
                   rbind (trigger_if ep (real AND READ \<noteq> 0) i READ (s, k)) (\<lambda>st.
                     trigger_if ep (real AND WRITE \<noteq> 0) i WRITE st))"

fun handle_events :: "'k epoll \<Rightarrow> epoll_event list \<Rightarrow> 'cb iomanager \<times> 'k \<Rightarrow> ('cb iomanager \<times> 'k) result" where
  "handle_events ep [] st = Inr st"
| "handle_events ep (event # events) st = rbind (handle_event ep event st) (handle_events ep events)"

fun schedule_cbs :: "'k epoll \<Rightarrow> 'cb option list \<Rightarrow> 'cb iomanager \<times> 'k \<Rightarrow> ('cb iomanager \<times> 'k) result" where
  "schedule_cbs ep [] st = Inr st"
| "schedule_cbs ep (cb # cbs) st =
     rbind (schedule_on ep (Some (io_self (fst st))) (callback_task cb (- 1)) st) (schedule_cbs ep cbs)"

text \<open>
  One round of \<open>idle\<close>: \<open>now\<close> is the clock at the test of \<open>stopping\<close>, \<open>now2\<close> the clock after \<open>epoll_wait\<close>,
  \<open>addr\<close> the address of the timer \<open>listExpiredCb\<close> makes for the search,
  \<open>events\<close> what \<open>epoll_wait\<close> reported (nothing on an error). The result says whether the loop goes on.
\<close>

definition idle_round ::
  "'k epoll \<Rightarrow> u64 \<Rightarrow> u64 \<Rightarrow> nat \<Rightarrow> epoll_event list \<Rightarrow> 'cb iomanager \<times> 'k \<Rightarrow> (bool \<times> 'cb iomanager \<times> 'k) result" where
  "idle_round ep now now2 addr events st =
     (let (s, k) = st; (stp, next_timeout, s) = stopping_timeout now s in
      if stp then Inr (False, s, k)
      else
        let (cbs, tm) = listExpiredCb now2 addr [] (io_timers s) in
        rbind (schedule_cbs ep cbs (s\<lparr>io_timers := tm\<rparr>, k)) (\<lambda>st.
        rbind (handle_events ep events st) (\<lambda>(s, k). Inr (True, s, k))))"

subsection \<open>The registration invariant\<close>

text \<open>The events registered for a descriptor, none for one the table does not reach.\<close>

definition registered :: "'cb iomanager \<Rightarrow> int \<Rightarrow> u32" where
  "registered s fd =
     (if 0 \<le> fd \<and> nat fd < length (m_fdContexts s) then ctx_events (m_fdContexts s ! nat fd) else 0)"

text \<open>A member is filled exactly while its event is registered.\<close>

definition reg_ok :: "'cb fd_context \<Rightarrow> bool" where
  "reg_ok c \<longleftrightarrow> ctx_events c \<in> {0, 1, 4, 5}
     \<and> (ctx_events c AND READ = 0 \<longrightarrow> ctx_read c = empty_ctx)
     \<and> (ctx_events c AND READ \<noteq> 0 \<longrightarrow> ev_cb (ctx_read c) \<noteq> None \<or> ev_fiber (ctx_read c) \<noteq> None)
     \<and> (ctx_events c AND WRITE = 0 \<longrightarrow> ctx_write c = empty_ctx)
     \<and> (ctx_events c AND WRITE \<noteq> 0 \<longrightarrow> ev_cb (ctx_write c) \<noteq> None \<or> ev_fiber (ctx_write c) \<noteq> None)"

text \<open>The calls of \<open>addEvent\<close> between their two steps, by descriptor, and the event each is about to store.\<close>

record 'cb add_request =
  ar_event :: u32
  ar_cur :: "nat option"
  ar_fiber :: nat
  ar_callback :: "'cb option"

definition flying :: "(int \<Rightarrow> 'cb add_request option) \<Rightarrow> int \<Rightarrow> u32" where
  "flying fl fd = (case fl fd of None \<Rightarrow> 0 | Some req \<Rightarrow> ar_event req)"

definition event_count :: "u32 \<Rightarrow> nat" where
  "event_count ev = (if ev AND READ \<noteq> 0 then 1 else 0) + (if ev AND WRITE \<noteq> 0 then 1 else 0)"

definition pending_total :: "'cb iomanager \<Rightarrow> nat" where
  "pending_total s = sum_list (map (\<lambda>c. event_count (ctx_events c)) (m_fdContexts s))"

definition interest_ok :: "'k epoll \<Rightarrow> (int \<Rightarrow> 'cb add_request option) \<Rightarrow> 'cb iomanager \<Rightarrow> 'k \<Rightarrow> bool" where
  "interest_ok ep fl s k \<longleftrightarrow>
     (\<forall>fd. if fd = fst (m_tickleFds s) then interest ep k fd \<noteq> None \<and> registered s fd = 0 \<and> fl fd = None
           else interest ep k fd = (if registered s fd OR flying fl fd = 0 then None
                  else Some (EPOLLET OR registered s fd OR flying fl fd)))"

definition flying_ok :: "(int \<Rightarrow> 'cb add_request option) \<Rightarrow> 'cb iomanager \<Rightarrow> bool" where
  "flying_ok fl s \<longleftrightarrow>
     (\<forall>fd req. fl fd = Some req \<longrightarrow> 0 \<le> fd \<and> nat fd < length (m_fdContexts s) \<and> ar_event req \<in> {READ, WRITE}
        \<and> registered s fd AND ar_event req = 0)"

definition io_inv :: "'k epoll \<Rightarrow> (int \<Rightarrow> 'cb add_request option) \<Rightarrow> 'cb iomanager \<times> 'k \<Rightarrow> bool" where
  "io_inv ep fl st \<longleftrightarrow>
     (let (s, k) = st in
      32 \<le> length (m_fdContexts s)
      \<and> (\<forall>i < length (m_fdContexts s). ctx_fd (m_fdContexts s ! i) = int i \<and> reg_ok (m_fdContexts s ! i))
      \<and> m_pendingEventCount s = of_nat (pending_total s)
      \<and> interest_ok ep fl s k \<and> flying_ok fl s)"

lemma io_invD:
  assumes "io_inv ep fl (s, k)"
  shows "32 \<le> length (m_fdContexts s)"
    and "\<And>i. i < length (m_fdContexts s) \<Longrightarrow> ctx_fd (m_fdContexts s ! i) = int i"
    and "\<And>i. i < length (m_fdContexts s) \<Longrightarrow> reg_ok (m_fdContexts s ! i)"
    and "m_pendingEventCount s = of_nat (pending_total s)"
    and "interest_ok ep fl s k" "flying_ok fl s"
  using assms by (auto simp: io_inv_def)

lemma interest_at:
  assumes "io_inv ep fl (s, k)"
  shows "interest ep k (fst (m_tickleFds s)) \<noteq> None" "registered s (fst (m_tickleFds s)) = 0" "fl (fst (m_tickleFds s)) = None"
    and "fd \<noteq> fst (m_tickleFds s) \<Longrightarrow>
      interest ep k fd = (if registered s fd OR flying fl fd = 0 then None else Some (EPOLLET OR registered s fd OR flying fl fd))"
proof -
  have a: "if fd = fst (m_tickleFds s) then interest ep k fd \<noteq> None \<and> registered s fd = 0 \<and> fl fd = None
      else interest ep k fd = (if registered s fd OR flying fl fd = 0 then None
        else Some (EPOLLET OR registered s fd OR flying fl fd))" for fd
    using io_invD(5) [OF assms] unfolding interest_ok_def by (rule spec)
  show "interest ep k (fst (m_tickleFds s)) \<noteq> None" "registered s (fst (m_tickleFds s)) = 0" "fl (fst (m_tickleFds s)) = None"
    using a [of "fst (m_tickleFds s)"] by simp_all
  show "fd \<noteq> fst (m_tickleFds s) \<Longrightarrow>
      interest ep k fd = (if registered s fd OR flying fl fd = 0 then None else Some (EPOLLET OR registered s fd OR flying fl fd))"
    using a [of fd] by simp
qed

lemma flying_none: "fl fd = None \<Longrightarrow> flying fl fd = 0"
  by (simp add: flying_def)

lemma interest_quiet:
  assumes "io_inv ep fl (s, k)" "fl fd = None" "fd \<noteq> fst (m_tickleFds s)"
  shows "interest ep k fd = (if registered s fd = 0 then None else Some (EPOLLET OR registered s fd))"
  using interest_at(4) [OF assms(1,3)] flying_none [of fl fd] assms(2) by simp

lemma registered_values: "io_inv ep fl (s, k) \<Longrightarrow> registered s fd \<in> {0, 1, 4, 5}"
  using io_invD(3) [of ep fl s k] by (auto simp: registered_def reg_ok_def)

lemma new_FdContext_ok: "reg_ok (new_FdContext fd)" "ctx_events (new_FdContext fd) = 0" "ctx_fd (new_FdContext fd) = fd"
  by (simp_all add: reg_ok_def new_FdContext_def event_defs)

lemma length_contextResize [simp]: "length (contextResize n cs) = n"
  by (simp add: contextResize_def)

lemma nth_contextResize:
  "i < n \<Longrightarrow> contextResize n cs ! i = (if i < length cs then cs ! i else new_FdContext (int i))"
  by (auto simp: contextResize_def nth_append)

lemma registered_contextResize:
  "length (m_fdContexts s) \<le> n \<Longrightarrow>
    registered (s\<lparr>m_fdContexts := contextResize n (m_fdContexts s)\<rparr>) = registered s"
  by (auto simp: registered_def nth_contextResize new_FdContext_ok fun_eq_iff)

lemma pending_total_contextResize:
  "length (m_fdContexts s) \<le> n \<Longrightarrow>
    pending_total (s\<lparr>m_fdContexts := contextResize n (m_fdContexts s)\<rparr>) = pending_total s"
  by (simp add: pending_total_def contextResize_def new_FdContext_ok event_count_def comp_def)

lemma contextResize_inv:
  assumes I: "io_inv ep fl (s, k)" and n: "length (m_fdContexts s) \<le> n"
  shows "io_inv ep fl (s\<lparr>m_fdContexts := contextResize n (m_fdContexts s)\<rparr>, k)"
proof -
  let ?s = "s\<lparr>m_fdContexts := contextResize n (m_fdContexts s)\<rparr>"
  have "flying_ok fl ?s"
    using io_invD(6) [OF I] n registered_contextResize [OF n] unfolding flying_ok_def by (auto intro: less_le_trans)
  then show ?thesis
    using io_invD(1-5) [OF I] n registered_contextResize [OF n] pending_total_contextResize [OF n]
    by (simp add: io_inv_def interest_ok_def nth_contextResize new_FdContext_ok)
qed

lemma sum_list_map_update:
  "i < length xs \<Longrightarrow> sum_list (map f (xs[i := x])) + f (xs ! i) = sum_list (map f xs) + (f x :: nat)"
  by (induction xs arbitrary: i) (auto split: nat.splits simp: nth_Cons')

lemma io_inv_interest: "io_inv ep fl (s, k) \<Longrightarrow> interest ep k' = interest ep k \<Longrightarrow> io_inv ep fl (s, k')"
  by (simp add: io_inv_def interest_ok_def)

text \<open>Replacing one context, with the kernel's view and the counter following.\<close>

lemma io_inv_update:
  assumes I: "io_inv ep fl (s, k)" and i: "i < length (m_fdContexts s)"
    and c: "ctx_fd c = int i" "reg_ok c"
    and int: "int i \<noteq> fst (m_tickleFds s)"
      "interest ep k' = (interest ep k)(int i := (if ctx_events c = 0 then None else Some (EPOLLET OR ctx_events c)))"
    and cnt: "p + of_nat (event_count (registered s (int i))) = m_pendingEventCount s + of_nat (event_count (ctx_events c))"
    and s': "s' = s\<lparr>m_pendingEventCount := p, m_fdContexts := (m_fdContexts s)[i := c]\<rparr>"
  shows "io_inv ep (fl(int i := None)) (s', k') \<and> registered s' = (registered s)(int i := ctx_events c)"
proof -
  have reg: "registered s' = (registered s)(int i := ctx_events c)"
    using i s' by (auto simp: registered_def fun_eq_iff nth_list_update)
  have "pending_total s' + event_count (registered s (int i)) = pending_total s + event_count (ctx_events c)"
    using sum_list_map_update [OF i, of "\<lambda>c. event_count (ctx_events c)" c] i s'
    by (simp add: pending_total_def registered_def)
  then have "of_nat (pending_total s') + of_nat (event_count (registered s (int i)))
      = of_nat (pending_total s) + (of_nat (event_count (ctx_events c)) :: u64)"
    by (metis of_nat_add)
  then have "p = of_nat (pending_total s')"
    using cnt io_invD(4) [OF I] by (metis add_right_cancel)
  then have "m_pendingEventCount s' = of_nat (pending_total s')" by (simp add: s')
  moreover have "interest_ok ep (fl(int i := None)) s' k'"
    using io_invD(5) [OF I] int(1) reg s' unfolding interest_ok_def int(2) by (auto simp: flying_def)
  moreover have "flying_ok (fl(int i := None)) s'"
    using io_invD(6) [OF I] reg s' unfolding flying_ok_def by auto
  ultimately have "io_inv ep (fl(int i := None)) (s', k')"
    using io_invD(1-3) [OF I] c s' i unfolding io_inv_def by (auto simp: nth_list_update)
  then show ?thesis using reg by blast
qed

text \<open>An event that has been given to the kernel and not been stored yet.\<close>

lemma io_inv_fly:
  assumes I: "io_inv ep fl (s, k)" and fd: "0 \<le> fd" "nat fd < length (m_fdContexts s)" "fd \<noteq> fst (m_tickleFds s)"
    and e: "ar_event req \<in> {READ, WRITE}" "registered s fd AND ar_event req = 0"
    and k': "interest ep k' = (interest ep k)(fd := Some (EPOLLET OR registered s fd OR ar_event req))"
    and ne: "registered s fd OR ar_event req \<noteq> 0"
  shows "io_inv ep (fl(fd := Some req)) (s, k')"
proof -
  have "interest_ok ep (fl(fd := Some req)) s k'"
    using io_invD(5) [OF I] fd(3) ne unfolding interest_ok_def k' by (auto simp: flying_def)
  moreover have "flying_ok (fl(fd := Some req)) s"
    using io_invD(6) [OF I] fd(1,2) e unfolding flying_ok_def by auto
  ultimately show ?thesis using io_invD(1-4) [OF I] by (simp add: io_inv_def)
qed

subsection \<open>What the operations do to it\<close>

definition ctx_for :: "nat option \<Rightarrow> nat \<Rightarrow> 'cb option \<Rightarrow> 'cb event_context" where
  "ctx_for cur fiber callback =
     \<lparr> ev_scheduler = cur, ev_fiber = (if callback = None then Some fiber else None), ev_cb = callback \<rparr>"

definition member_of :: "u32 \<Rightarrow> member" where
  "member_of e = (if e = READ then Read_ctx else Write_ctx)"

lemma getEventContext_ok: "e \<in> {READ, WRITE} \<Longrightarrow> getEventContext e = Inr (member_of e)"
  by (auto simp: getEventContext_def member_of_def event_defs)

lemma event_bits:
  assumes "v \<in> {0, 1, 4, 5 :: u32}" "e \<in> {READ, WRITE}"
  shows "v OR e \<in> {0, 1, 4, 5}" "v AND NOT e \<in> {0, 1, 4, 5}" "v OR e \<noteq> 0"
    and "v AND e = 0 \<Longrightarrow> event_count (v OR e) = event_count v + 1"
    and "v AND e \<noteq> 0 \<Longrightarrow> event_count v = event_count (v AND NOT e) + 1"
    and "(v OR e) AND e \<noteq> 0" "(v AND NOT e) AND e = 0"
    and "e' \<in> {READ, WRITE} \<Longrightarrow> e' \<noteq> e \<Longrightarrow> (v OR e) AND e' = v AND e' \<and> (v AND NOT e) AND e' = v AND e'"
  using assms by (auto simp: event_defs event_count_def)

lemma member_cases:
  assumes "e \<in> {READ, WRITE}"
  obtains "e = READ" "member_of e = Read_ctx" | "e = WRITE" "member_of e = Write_ctx"
  using assms by (auto simp: member_of_def event_defs)

lemma RW_distinct [simp]: "READ \<noteq> WRITE" "WRITE \<noteq> READ"
  by (simp_all add: event_defs)

lemma reg_ok_add:
  assumes "reg_ok c" "e \<in> {READ, WRITE}" "ctx_events c AND e = 0"
  shows "ctx_get (member_of e) c = empty_ctx"
    and "reg_ok (ctx_put (member_of e) (ctx_for cur fiber callback) (c\<lparr>ctx_events := ctx_events c OR e\<rparr>))"
proof -
  have v: "ctx_events c \<in> {0, 1, 4, 5}" using assms(1) by (simp add: reg_ok_def)
  have f: "ev_cb (ctx_for cur fiber callback) \<noteq> None \<or> ev_fiber (ctx_for cur fiber callback) \<noteq> None"
    by (simp add: ctx_for_def)
  from assms(2) show "ctx_get (member_of e) c = empty_ctx"
    by (cases rule: member_cases) (use assms in \<open>simp_all add: reg_ok_def ctx_get_def\<close>)
  from assms(2) show "reg_ok (ctx_put (member_of e) (ctx_for cur fiber callback) (c\<lparr>ctx_events := ctx_events c OR e\<rparr>))"
    by (cases rule: member_cases)
      (use assms f event_bits(1,6) [OF v assms(2)] event_bits(8) [OF v assms(2), of READ] event_bits(8) [OF v assms(2), of WRITE]
       in \<open>simp_all add: reg_ok_def ctx_put_def\<close>)
qed

lemma reg_ok_del:
  assumes "reg_ok c" "e \<in> {READ, WRITE}"
  shows "reg_ok (resetEventContext (member_of e) (c\<lparr>ctx_events := ctx_events c AND NOT e\<rparr>))"
proof -
  have v: "ctx_events c \<in> {0, 1, 4, 5}" using assms(1) by (simp add: reg_ok_def)
  from assms(2) show ?thesis
    by (cases rule: member_cases)
      (use assms event_bits(2,7) [OF v assms(2)] event_bits(8) [OF v assms(2), of READ] event_bits(8) [OF v assms(2), of WRITE]
       in \<open>simp_all add: reg_ok_def ctx_put_def resetEventContext_def empty_ctx_def\<close>)
qed

lemma ctx_put_simps [simp]:
  "ctx_events (ctx_put m e c) = ctx_events c" "ctx_fd (ctx_put m e c) = ctx_fd c"
  "ctx_get m (ctx_put m e c) = e"
  "ctx_events (resetEventContext m c) = ctx_events c" "ctx_fd (resetEventContext m c) = ctx_fd c"
  by (simp_all add: ctx_put_def resetEventContext_def ctx_get_def split: member.splits)

lemma epoll_fail: "epoll_law ep \<Longrightarrow> epoll_ctl ep op fd ev k = (rt, k') \<Longrightarrow> rt \<noteq> 0 \<Longrightarrow> interest ep k' = interest ep k"
  unfolding epoll_law_def by meson

lemma epoll_done:
  assumes "epoll_law ep" "epoll_ctl ep op fd ev k = (0, k')"
  shows "interest ep k' = (interest ep k)(fd := (if op = EPOLL_CTL_DEL then None else Some ev))"
    and "fits ep op fd k"
proof -
  have "if (0 :: int) = 0 then fits ep op fd k
            \<and> interest ep k' = (interest ep k)(fd := (if op = EPOLL_CTL_DEL then None else Some ev))
         else interest ep k' = interest ep k"
    using assms unfolding epoll_law_def by blast
  then show "interest ep k' = (interest ep k)(fd := (if op = EPOLL_CTL_DEL then None else Some ev))"
    and "fits ep op fd k" by simp_all
qed

text \<open>The first step of \<open>addEvent\<close>: the kernel refuses the event, or has it while the context does not.\<close>

lemma addEvent_ctl_ok:
  assumes I: "io_inv ep fl (s, k)" and law: "epoll_law ep" and e: "event \<in> {READ, WRITE}" and quiet: "fl fd = None"
    and run: "addEvent_ctl ep fd event (s, k) = Inr (rt, s', k')"
  shows "registered s' = registered s" "m_pendingEventCount s' = m_pendingEventCount s" "registered s fd AND event = 0" "0 \<le> fd"
    and "rt \<noteq> 0 \<Longrightarrow> io_inv ep fl (s', k') \<and> interest ep k' = interest ep k"
    and "rt = 0 \<Longrightarrow> ar_event req = event \<Longrightarrow> io_inv ep (fl(fd := Some req)) (s', k') \<and> fd \<noteq> fst (m_tickleFds s)"
    and "rt = 0 \<Longrightarrow> interest ep k' = (interest ep k)(fd := Some (EPOLLET OR registered s fd OR event))"
proof -
  define s1 where "s1 = (if int (length (m_fdContexts s)) > fd then s
      else s\<lparr>m_fdContexts := contextResize (3 * nat fd div 2) (m_fdContexts s)\<rparr>)"
  have len: "length (m_fdContexts s) \<le> 3 * nat fd div 2" if "\<not> int (length (m_fdContexts s)) > fd"
    using that by linarith
  have I1: "io_inv ep fl (s1, k)" and r1: "registered s1 = registered s"
    using I contextResize_inv [OF I] registered_contextResize len by (auto simp: s1_def)
  have ctx: "(if fd < int (length (m_fdContexts s)) then m_fdContexts s
      else contextResize (3 * nat fd div 2) (m_fdContexts s)) = m_fdContexts s1" by (simp add: s1_def)
  have s1: "s\<lparr>m_fdContexts := m_fdContexts s1\<rparr> = s1" by (simp add: s1_def)
  obtain i where i: "ctx_at fd (m_fdContexts s1) = Inr i"
    using run unfolding addEvent_ctl_def Let_def prod.case ctx by (auto simp: rbind_eq_Inr_iff)
  then have fd: "0 \<le> fd" "nat fd < length (m_fdContexts s1)" "i = nat fd" by (auto simp: ctx_at_def split: if_splits)
  have ev: "ctx_events (m_fdContexts s1 ! nat fd) = registered s fd"
    using fd r1 by (metis registered_def)
  define op where "op = (if registered s fd \<noteq> 0 then EPOLL_CTL_MOD else EPOLL_CTL_ADD)"
  have out: "registered s fd AND event = 0" "epoll_ctl ep op fd (EPOLLET OR registered s fd OR event) k = (rt, k')" "s' = s1"
    using run unfolding addEvent_ctl_def Let_def prod.case ctx i rbind_simps fd(3) s1 ev op_def
    by (auto simp: assert_that_def split: if_splits prod.splits)
  note bits = event_bits(3) [OF registered_values [OF I] e, of fd]
  show "registered s' = registered s" "m_pendingEventCount s' = m_pendingEventCount s" "registered s fd AND event = 0" "0 \<le> fd"
    using r1 out fd by (simp_all add: s1_def)
  show "io_inv ep fl (s', k') \<and> interest ep k' = interest ep k" if "rt \<noteq> 0"
    using epoll_fail [OF law out(2) that] io_inv_interest [OF I1, of k'] out(3) by simp
  show k': "interest ep k' = (interest ep k)(fd := Some (EPOLLET OR registered s fd OR event))" if "rt = 0"
    using epoll_done(1) [OF law out(2) [unfolded that]] by (simp add: op_def)
  show "io_inv ep (fl(fd := Some req)) (s', k') \<and> fd \<noteq> fst (m_tickleFds s)" if "rt = 0" "ar_event req = event"
  proof -
    have nt: "fd \<noteq> fst (m_tickleFds s1)"
      using epoll_done(2) [OF law out(2) [unfolded that(1)]] interest_at(1,2) [OF I1] r1 by (auto simp: fits_def op_def)
    have "io_inv ep (fl(fd := Some req)) (s1, k')"
      by (rule io_inv_fly [OF I1 fd(1,2) nt]) (use that e out(1) r1 k' bits in simp_all)
    moreover have "m_tickleFds s1 = m_tickleFds s" by (simp add: s1_def)
    ultimately show ?thesis using nt out(3) by simp
  qed
qed

lemma ctl_pending:
  assumes "addEvent_ctl ep fd event (s, k) = Inr (rt, s', k')"
  shows "pending_total s' = pending_total s"
proof (cases "int (length (m_fdContexts s)) > fd")
  case True
  then have "s' = s" using assms by (auto simp: addEvent_ctl_def Let_def rbind_eq_Inr_iff assert_that_def split: if_splits prod.splits)
  then show ?thesis by simp
next
  case False
  then have "length (m_fdContexts s) \<le> 3 * nat fd div 2" by linarith
  moreover have "s' = s\<lparr>m_fdContexts := contextResize (3 * nat fd div 2) (m_fdContexts s)\<rparr>"
    using False assms by (auto simp: addEvent_ctl_def Let_def rbind_eq_Inr_iff assert_that_def split: if_splits prod.splits)
  ultimately show ?thesis using pending_total_contextResize by simp
qed

text \<open>The second step completes the registration.\<close>

lemma addEvent_store_ok:
  assumes I: "io_inv ep fl (s, k)" and req: "fl fd = Some req"
  shows "\<exists>s'. addEvent_store (ar_cur req) (ar_fiber req) RUNNING fd (ar_event req) (ar_callback req) s = Inr s'
      \<and> io_inv ep (fl(fd := None)) (s', k) \<and> registered s' = (registered s)(fd := registered s fd OR ar_event req)
      \<and> m_pendingEventCount s' = m_pendingEventCount s + 1
      \<and> ctx_get (member_of (ar_event req)) (m_fdContexts s' ! nat fd) = ctx_for (ar_cur req) (ar_fiber req) (ar_callback req)"
proof -
  let ?e = "ar_event req" and ?c = "m_fdContexts s ! nat fd"
  have fd: "0 \<le> fd" "nat fd < length (m_fdContexts s)" and e: "?e \<in> {READ, WRITE}" "registered s fd AND ?e = 0"
    using io_invD(6) [OF I] req unfolding flying_ok_def by blast+
  have nt: "fd \<noteq> fst (m_tickleFds s)" using interest_at(3) [OF I] req by auto
  have ev: "ctx_events ?c = registered s fd" using fd by (simp add: registered_def)
  note R = reg_ok_add [OF io_invD(3) [OF I fd(2)] e(1), unfolded ev, OF e(2)]
  note bits = event_bits(3) [OF registered_values [OF I] e(1), of fd] event_bits(4) [OF registered_values [OF I] e(1) e(2)]
  define c where "c = ctx_put (member_of ?e) (ctx_for (ar_cur req) (ar_fiber req) (ar_callback req)) (?c\<lparr>ctx_events := registered s fd OR ?e\<rparr>)"
  define s2 where "s2 = s\<lparr>m_pendingEventCount := m_pendingEventCount s + 1, m_fdContexts := (m_fdContexts s)[nat fd := c]\<rparr>"
  have at: "ctx_at fd (m_fdContexts s) = Inr (nat fd)" using fd by (simp add: ctx_at_def)
  have em: "ctx_get (member_of ?e) (?c\<lparr>ctx_events := registered s fd OR ?e\<rparr>) = empty_ctx"
    using R(1) by (simp add: ctx_get_def split: member.splits)
  have run: "addEvent_store (ar_cur req) (ar_fiber req) RUNNING fd ?e (ar_callback req) s = Inr s2"
    unfolding addEvent_store_def at rbind_simps Let_def
    using em by (auto simp: ev getEventContext_ok [OF e(1)] s2_def c_def ctx_for_def empty_ctx_def)
  have U: "io_inv ep (fl(int (nat fd) := None)) (s2, k) \<and> registered s2 = (registered s)(int (nat fd) := ctx_events c)"
  proof (rule io_inv_update [OF I fd(2), where c = c and p = "m_pendingEventCount s + 1"])
    show "ctx_fd c = int (nat fd)" using io_invD(2) [OF I fd(2)] by (simp add: c_def)
    show "reg_ok c" using R(2) by (simp add: c_def)
    show "int (nat fd) \<noteq> fst (m_tickleFds s)" using nt fd by simp
    show "interest ep k = (interest ep k)(int (nat fd) := if ctx_events c = 0 then None else Some (EPOLLET OR ctx_events c))"
      using interest_at(4) [OF I nt] fd bits(1) req by (simp add: c_def flying_def or.assoc fun_upd_idem)
    show "m_pendingEventCount s + 1 + word_of_nat (event_count (registered s (int (nat fd))))
        = m_pendingEventCount s + word_of_nat (event_count (ctx_events c))"
      using bits(2) fd by (simp add: c_def)
  qed (simp_all add: s2_def)
  then show ?thesis using run fd by (auto simp: s2_def c_def)
qed

text \<open>The operations on a descriptor none of whose events is meant return without a change.\<close>

lemma not_registered:
  assumes "0 \<le> fd" "registered s fd AND event = 0"
  shows "delEvent ep fd event (s, k) = Inr (False, s, k)" "cancelEvent ep fd event (s, k) = Inr (False, s, k)"
    and "registered s fd = 0 \<Longrightarrow> cancelAll ep fd (s, k) = Inr (False, s, k)"
  using assms by (auto simp: delEvent_def cancelEvent_def cancelAll_def registered_def ctx_at_def)

lemma registered_inside:
  assumes "registered s fd AND event \<noteq> 0"
  shows "0 \<le> fd" "nat fd < length (m_fdContexts s)" "ctx_at fd (m_fdContexts s) = Inr (nat fd)"
    "ctx_events (m_fdContexts s ! nat fd) = registered s fd" "\<not> int (length (m_fdContexts s)) \<le> fd"
  using assms by (auto simp: registered_def ctx_at_def split: if_splits)

lemma registered_not_tickle:
  "io_inv ep fl (s, k) \<Longrightarrow> registered s fd AND event \<noteq> 0 \<Longrightarrow> fd \<noteq> fst (m_tickleFds s)"
  using interest_at(2) by fastforce

text \<open>\<open>delEvent\<close> of a registered event: the kernel refuses, or the event is gone.\<close>

lemma delEvent_ok:
  assumes I: "io_inv ep fl (s, k)" and law: "epoll_law ep" and quiet: "fl fd = None"
    and e: "event \<in> {READ, WRITE}" "registered s fd AND event \<noteq> 0"
  obtains (refused) k' where "delEvent ep fd event (s, k) = Inr (False, s, k')" "io_inv ep fl (s, k')"
      "interest ep k' = interest ep k"
    | (deleted) s' k' where "delEvent ep fd event (s, k) = Inr (True, s', k')" "io_inv ep fl (s', k')"
      "registered s' = (registered s)(fd := registered s fd AND NOT event)"
      "m_pendingEventCount s' = m_pendingEventCount s - 1"
proof -
  note In = registered_inside [OF e(2)]
  note bits = event_bits(5) [OF registered_values [OF I] e(1) e(2)]
  let ?c = "m_fdContexts s ! nat fd"
  define new where "new = registered s fd AND NOT event"
  define op where "op = (if new \<noteq> 0 then EPOLL_CTL_MOD else EPOLL_CTL_DEL)"
  define c where "c = resetEventContext (member_of event) (?c\<lparr>ctx_events := new\<rparr>)"
  define s2 where "s2 = s\<lparr>m_pendingEventCount := m_pendingEventCount s - 1, m_fdContexts := (m_fdContexts s)[nat fd := c]\<rparr>"
  obtain rt k' where ctl: "epoll_ctl ep op fd (EPOLLET OR new) k = (rt, k')" by fastforce
  have run: "delEvent ep fd event (s, k) = (if rt \<noteq> 0 then Inr (False, s, k') else Inr (True, s2, k'))"
    unfolding delEvent_def Let_def prod.case In(3) rbind_simps
    using In(5) by (simp add: In(4) e(2) new_def [symmetric] op_def [symmetric] ctl getEventContext_ok [OF e(1)] s2_def c_def)
  show thesis
  proof (cases "rt = 0")
    case True
    note dn = epoll_done(1) [OF law ctl [unfolded True]]
    have same: "fl(int (nat fd) := None) = fl" using quiet In(1) by (simp add: fun_upd_idem)
    have U: "io_inv ep (fl(int (nat fd) := None)) (s2, k') \<and> registered s2 = (registered s)(int (nat fd) := ctx_events c)"
    proof (rule io_inv_update [OF I In(2), where c = c and p = "m_pendingEventCount s - 1"])
      show "ctx_fd c = int (nat fd)" using io_invD(2) [OF I In(2)] by (simp add: c_def)
      show "reg_ok c" using reg_ok_del [OF io_invD(3) [OF I In(2)] e(1)] by (simp add: c_def In(4) new_def)
      show "int (nat fd) \<noteq> fst (m_tickleFds s)" using registered_not_tickle [OF I e(2)] In(1) by simp
      show "interest ep k' = (interest ep k)(int (nat fd) := if ctx_events c = 0 then None else Some (EPOLLET OR ctx_events c))"
        using dn In(1) by (simp add: c_def op_def)
      show "m_pendingEventCount s - 1 + word_of_nat (event_count (registered s (int (nat fd))))
          = m_pendingEventCount s + word_of_nat (event_count (ctx_events c))"
        using bits In(1) by (simp add: c_def new_def)
    qed (simp add: s2_def)
    show thesis
      by (rule deleted [of s2 k']) (use run True U [unfolded same] In(1) in \<open>simp_all add: s2_def c_def new_def\<close>)
  next
    case False
    then show thesis
      using refused [of k'] run epoll_fail [OF law ctl False] io_inv_interest [OF I, of k'] by simp
  qed
qed

subsection \<open>Triggering never schedules\<close>

lemma triggerEvent_faults:
  "\<exists>msg. triggerEvent ep i event st = Inl (Assert_failed msg)"
  by (auto simp: triggerEvent_def getEventContext_def event_defs assert_that_def)

lemma trigger_if_faults: "\<exists>msg. trigger_if ep True i event st = Inl (Assert_failed msg)"
  using triggerEvent_faults [of ep i event st] by (auto simp: trigger_if_def)

lemma triggerEvent_fault: "event \<noteq> 0 \<Longrightarrow> triggerEvent ep i event st = Inl (Assert_failed ''getContext'')"
  by (simp add: triggerEvent_def getEventContext_def event_defs)

text \<open>What is left of a descriptor's events, and the operation it takes.\<close>

definition mod_or_del :: "u32 \<Rightarrow> epoll_op" where
  "mod_or_del left_events = (if left_events \<noteq> 0 then EPOLL_CTL_MOD else EPOLL_CTL_DEL)"

lemma cancelEvent_registered:
  assumes "registered s fd AND event \<noteq> 0"
  shows "cancelEvent ep fd event (s, k) =
    (let (rt, k') = epoll_ctl ep (mod_or_del (registered s fd AND NOT event)) fd (EPOLLET OR (registered s fd AND NOT event)) k
     in if rt \<noteq> 0 then Inr (False, s, k') else Inl (Assert_failed ''getContext''))"
proof -
  note In = registered_inside [OF assms]
  have "event \<noteq> 0" using assms by auto
  then show ?thesis
    unfolding cancelEvent_def Let_def prod.case In(3) rbind_simps
    using In(5) assms by (simp add: In(4) mod_or_del_def triggerEvent_fault split: prod.split)
qed

lemma trigger_if_simps: "trigger_if ep False i e st = Inr st" "e \<noteq> 0 \<Longrightarrow> trigger_if ep True i e st = Inl (Assert_failed ''getContext'')"
  by (simp_all add: trigger_if_def triggerEvent_fault)

lemma RW_nonzero: "READ \<noteq> 0" "WRITE \<noteq> 0"
  by (simp_all add: event_defs)

lemma cancelAll_registered:
  assumes "registered s fd \<in> {1, 4, 5}"
  shows "cancelAll ep fd (s, k) =
    (let (rt, k') = epoll_ctl ep EPOLL_CTL_DEL fd 0 k in if rt \<noteq> 0 then Inr (False, s, k') else Inl (Assert_failed ''getContext''))"
proof -
  have "registered s fd AND registered s fd \<noteq> 0" using assms by auto
  note In = registered_inside [OF this]
  have one: "registered s fd AND READ \<noteq> 0 \<or> (registered s fd AND READ = 0 \<and> registered s fd AND WRITE \<noteq> 0)"
    using assms by (auto simp: event_defs)
  have ne: "registered s fd \<noteq> 0" using assms by auto
  show ?thesis
    unfolding cancelAll_def Let_def prod.case In(3) rbind_simps
    using In(5) one by (cases "registered s fd AND READ = 0") (simp_all add: In(4) ne trigger_if_simps RW_nonzero split: prod.split)
qed

lemma handle_event_registered:
  assumes ev: "ep_data event = Fd_ctx i" "i < length (m_fdContexts s)" "ctx_fd (m_fdContexts s ! i) = int i"
    and rl: "rl = real_events (ep_events event) (registered s (int i))" "registered s (int i) AND rl \<noteq> 0"
  shows "handle_event ep event (s, k) =
    (let (rt, k') = epoll_ctl ep (mod_or_del (registered s (int i) AND NOT rl)) (int i) (EPOLLET OR (registered s (int i) AND NOT rl)) k
     in if rt \<noteq> 0 then Inr (s, k') else Inl (Assert_failed ''getContext''))"
proof -
  have cv: "ctx_events (m_fdContexts s ! i) = registered s (int i)" using ev(2) by (simp add: registered_def)
  have "rl \<noteq> 0" using rl(2) by auto
  then have one: "rl AND READ \<noteq> 0 \<or> (rl AND READ = 0 \<and> rl AND WRITE \<noteq> 0)"
    unfolding rl(1) by (auto simp: real_events_def Let_def event_defs)
  show ?thesis
    unfolding handle_event_def Let_def prod.case ev(1) ev_data.case
    using ev(2,3) one rl(2)
    by (cases "rl AND READ = 0"; cases "registered s (int i) AND NOT rl = 0")
      (simp_all add: cv rl(1) [symmetric] NONE_def mod_or_del_def trigger_if_simps RW_nonzero split: prod.split)
qed

text \<open>A call or a report that meets a registered event and returns has been refused by the kernel.\<close>

lemma cancelEvent_cases:
  assumes "registered s fd AND event \<noteq> 0" "epoll_law ep" "cancelEvent ep fd event (s, k) = Inr (b, s', k')"
  shows "\<not> b \<and> s' = s \<and> interest ep k' = interest ep k"
  using assms(3) epoll_fail [OF assms(2)]
  unfolding cancelEvent_registered [OF assms(1)] Let_def by (fastforce split: prod.splits if_splits)

lemma cancelAll_cases:
  assumes "io_inv ep fl (s, k)" "registered s fd \<noteq> 0" "epoll_law ep" "cancelAll ep fd (s, k) = Inr (b, s', k')"
  shows "s' = s \<and> interest ep k' = interest ep k"
proof -
  have "registered s fd \<in> {1, 4, 5}" using registered_values [OF assms(1), of fd] assms(2) by auto
  then show ?thesis
    using assms(4) epoll_fail [OF assms(3)] unfolding cancelAll_registered [OF \<open>registered s fd \<in> {1, 4, 5}\<close>] Let_def
    by (fastforce split: prod.splits if_splits)
qed

lemma handle_event_cases:
  assumes "io_inv ep fl (s, k)" "epoll_law ep" "ep_data event = Fd_ctx i" "i < length (m_fdContexts s)"
    and "ctx_events (m_fdContexts s ! i) AND real_events (ep_events event) (ctx_events (m_fdContexts s ! i)) \<noteq> 0"
    and run: "handle_event ep event (s, k) = Inr (s', k')"
  shows "s' = s \<and> interest ep k' = interest ep k"
proof -
  have "registered s (int i) AND real_events (ep_events event) (registered s (int i)) \<noteq> 0"
    using assms(4,5) by (simp add: registered_def)
  from run [unfolded handle_event_registered [OF assms(3,4) io_invD(2) [OF assms(1,4)] refl this] Let_def]
  show ?thesis using epoll_fail [OF assms(2)] by (fastforce split: prod.splits if_splits)
qed

subsection \<open>Reachable states\<close>

lemma io_inv_cong:
  assumes "io_inv ep fl (s, k)" "m_fdContexts s' = m_fdContexts s" "m_pendingEventCount s' = m_pendingEventCount s"
    "m_tickleFds s' = m_tickleFds s" "interest ep k' = interest ep k"
  shows "io_inv ep fl (s', k')"
proof -
  have "registered s' = registered s" "pending_total s' = pending_total s"
    using assms(2) by (simp_all add: registered_def pending_total_def fun_eq_iff)
  then show ?thesis using assms by (simp add: io_inv_def interest_ok_def flying_ok_def)
qed

lemma epoll_pipe: "epoll_law ep \<Longrightarrow> interest ep (snd (pipe_write ep k)) = interest ep k"
  "epoll_law ep \<Longrightarrow> interest ep (pipe_drain ep k) = interest ep k"
  by (simp_all add: epoll_law_def)

lemma tickle_inv:
  assumes "io_inv ep fl (s, k)" "epoll_law ep" "tickle ep (s, k) = Inr (s', k')"
  shows "io_inv ep fl (s', k')"
  using assms epoll_pipe(1) [OF assms(2), of k]
  by (auto simp: tickle_def Let_def assert_that_def split: if_splits prod.splits intro: io_inv_interest)

lemma schedule_on_inv:
  assumes "io_inv ep fl (s, k)" "epoll_law ep" "schedule_on ep p t (s, k) = Inr (s', k')"
  shows "io_inv ep fl (s', k')"
proof -
  obtain i where p: "p = Some i" using assms(3) by (auto simp: schedule_on_def split: option.splits)
  obtain b sc where sc: "schedule t (io_scheds s i) = (b, sc)" by fastforce
  have "io_inv ep fl (s\<lparr>io_scheds := (io_scheds s)(i := sc)\<rparr>, k)"
    by (rule io_inv_cong [OF assms(1)]) simp_all
  then show ?thesis
    using assms(2,3) p sc by (auto simp: schedule_on_def Let_def split: if_splits intro: tickle_inv)
qed

lemma schedule_cbs_inv:
  "io_inv ep fl st \<Longrightarrow> epoll_law ep \<Longrightarrow> schedule_cbs ep cbs st = Inr st' \<Longrightarrow> io_inv ep fl st'"
proof (induction cbs arbitrary: st)
  case (Cons cb cbs)
  obtain s k where st: "st = (s, k)" by (rule prod.exhaust)
  from Cons.prems(3) obtain st1 where 1: "schedule_on ep (Some (io_self (fst st))) (callback_task cb (- 1)) st = Inr st1"
      "schedule_cbs ep cbs st1 = Inr st'"
    unfolding schedule_cbs.simps rbind_eq_Inr_iff by blast
  obtain s1 k1 where st1: "st1 = (s1, k1)" by (rule prod.exhaust)
  have "io_inv ep fl (s1, k1)"
    by (rule schedule_on_inv [OF Cons.prems(1)[unfolded st] Cons.prems(2) 1(1)[unfolded st st1]])
  then show ?case using Cons.IH [OF _ Cons.prems(2) 1(2)] st1 by simp
qed simp

lemma handle_event_inv:
  assumes "io_inv ep fl (s, k)" "epoll_law ep" "handle_event ep event (s, k) = Inr (s', k')"
  shows "io_inv ep fl (s', k')"
proof (cases "ep_data event")
  case Tickle_fd
  then show ?thesis
    using assms epoll_pipe(2) [OF assms(2), of k] by (auto simp: handle_event_def intro: io_inv_interest)
next
  case (Fd_ctx i)
  then have i: "i < length (m_fdContexts s)" using assms(3) by (auto simp: handle_event_def split: if_splits)
  show ?thesis
  proof (cases "ctx_events (m_fdContexts s ! i) AND real_events (ep_events event) (ctx_events (m_fdContexts s ! i)) = 0")
    case True
    then show ?thesis using assms Fd_ctx i by (simp add: handle_event_def NONE_def)
  next
    case False
    from handle_event_cases [OF assms(1,2) Fd_ctx i this assms(3)]
    show ?thesis using io_inv_interest [OF assms(1)] by blast
  qed
qed

lemma handle_events_inv:
  "io_inv ep fl st \<Longrightarrow> epoll_law ep \<Longrightarrow> handle_events ep evs st = Inr st' \<Longrightarrow> io_inv ep fl st'"
proof (induction evs arbitrary: st)
  case (Cons e evs)
  obtain s k where st: "st = (s, k)" by (rule prod.exhaust)
  from Cons.prems(3) obtain st1 where 1: "handle_event ep e st = Inr st1" "handle_events ep evs st1 = Inr st'"
    unfolding handle_events.simps rbind_eq_Inr_iff by blast
  obtain s1 k1 where st1: "st1 = (s1, k1)" by (rule prod.exhaust)
  have "io_inv ep fl (s1, k1)"
    by (rule handle_event_inv [OF Cons.prems(1)[unfolded st] Cons.prems(2) 1(1)[unfolded st st1]])
  then show ?case using Cons.IH [OF _ Cons.prems(2) 1(2)] st1 by simp
qed simp

lemma new_IOManager_inv:
  assumes "epoll_law ep" "interest ep k = (\<lambda>_. None)"
    "new_IOManager ep scheds self threads use_caller has_scheduler tid ids epfd pipe_rt tfds fcntl_rt now k = Inr (s, k')"
  shows "io_inv ep (\<lambda>_. None) (s, k')"
proof -
  obtain rt k1 where ctl: "epoll_ctl ep EPOLL_CTL_ADD (fst tfds) (EPOLLIN OR EPOLLET) k = (rt, k1)"
    by (rule prod.exhaust)
  have r: "rt = 0" "k' = k1" "m_fdContexts s = contextResize 32 []" "m_pendingEventCount s = 0" "m_tickleFds s = tfds"
    using assms(3) ctl by (auto simp: new_IOManager_def Let_def rbind_eq_Inr_iff assert_that_def split: if_splits)
  have "registered s = (\<lambda>_. 0)" "pending_total s = 0"
    using r by (auto simp: registered_def pending_total_def nth_contextResize new_FdContext_ok fun_eq_iff
        contextResize_def event_count_def comp_def)
  moreover have "interest ep k1 = (\<lambda>_. None)(fst tfds := Some (EPOLLIN OR EPOLLET))"
    using epoll_done(1) [OF assms(1) ctl [unfolded r(1)]] assms(2) by simp
  ultimately show ?thesis
    using r by (simp add: io_inv_def interest_ok_def flying_ok_def flying_def nth_contextResize new_FdContext_ok)
qed

lemma idle_round_inv:
  assumes "io_inv ep fl (s, k)" "epoll_law ep" "idle_round ep now now2 addr events (s, k) = Inr (b, s', k')"
  shows "io_inv ep fl (s', k')"
proof -
  obtain stp t s1 where stp: "stopping_timeout now s = (stp, t, s1)" by (metis surj_pair)
  obtain cbs tm where le: "listExpiredCb now2 addr [] (io_timers s1) = (cbs, tm)" by (rule prod.exhaust)
  have s1: "m_fdContexts s1 = m_fdContexts s" "m_pendingEventCount s1 = m_pendingEventCount s" "m_tickleFds s1 = m_tickleFds s"
    using stp by (auto simp: stopping_timeout_def Let_def split: prod.splits)
  have I: "io_inv ep fl (s1, k)" "io_inv ep fl (s1\<lparr>io_timers := tm\<rparr>, k)"
    by (rule io_inv_cong [OF assms(1)]; simp add: s1)+
  show ?thesis
  proof (cases stp)
    case True
    then show ?thesis using assms(3) I(1) by (simp add: idle_round_def stp)
  next
    case False
    then obtain st1 where "schedule_cbs ep cbs (s1\<lparr>io_timers := tm\<rparr>, k) = Inr st1" "handle_events ep events st1 = Inr (s', k')"
      using assms(3) by (auto simp: idle_round_def stp le rbind_eq_Inr_iff)
    then show ?thesis using schedule_cbs_inv [OF I(2) assms(2)] handle_events_inv [OF _ assms(2)] by blast
  qed
qed

text \<open>
  The states a program can bring the manager to: from the constructor on an empty epoll instance,
  by the calls of the interface and by rounds of the idle loop, with any descriptor, callback,
  fiber and reported events; the current fiber of a thread is running. A call that fails an assertion has no successor.
  \<open>fl\<close> are the calls of \<open>addEvent\<close> between their two steps; everything may happen meanwhile but a second \<open>addEvent\<close> or a \<open>delEvent\<close> of
  the same descriptor, which is what a lock of the context would exclude and the code does not.
\<close>

inductive io_reachable :: "'k epoll \<Rightarrow> (int \<Rightarrow> 'cb add_request option) \<Rightarrow> 'cb iomanager \<times> 'k \<Rightarrow> bool" for ep where
  start: "interest ep k = (\<lambda>_. None) \<Longrightarrow>
    new_IOManager ep scheds self threads use_caller has_scheduler tid ids epfd pipe_rt tfds fcntl_rt now k = Inr (s, k') \<Longrightarrow>
    io_reachable ep (\<lambda>_. None) (s, k')"
| add_ctl: "io_reachable ep fl (s, k) \<Longrightarrow> ar_event req \<in> {READ, WRITE} \<Longrightarrow> fl fd = None \<Longrightarrow>
    addEvent_ctl ep fd (ar_event req) (s, k) = Inr (rt, s', k') \<Longrightarrow>
    io_reachable ep (if rt = 0 then fl(fd := Some req) else fl) (s', k')"
| add_store: "io_reachable ep fl (s, k) \<Longrightarrow> fl fd = Some req \<Longrightarrow>
    addEvent_store (ar_cur req) (ar_fiber req) RUNNING fd (ar_event req) (ar_callback req) s = Inr s' \<Longrightarrow>
    io_reachable ep (fl(fd := None)) (s', k)"
| del: "io_reachable ep fl (s, k) \<Longrightarrow> event \<in> {READ, WRITE} \<Longrightarrow> fl fd = None \<Longrightarrow>
    delEvent ep fd event (s, k) = Inr (b, s', k') \<Longrightarrow> io_reachable ep fl (s', k')"
| cancel: "io_reachable ep fl (s, k) \<Longrightarrow> event \<in> {READ, WRITE} \<Longrightarrow>
    cancelEvent ep fd event (s, k) = Inr (b, s', k') \<Longrightarrow> io_reachable ep fl (s', k')"
| cancel_all: "io_reachable ep fl (s, k) \<Longrightarrow> cancelAll ep fd (s, k) = Inr (b, s', k') \<Longrightarrow> io_reachable ep fl (s', k')"
| idle: "io_reachable ep fl (s, k) \<Longrightarrow> idle_round ep now now2 addr events (s, k) = Inr (b, s', k') \<Longrightarrow>
    io_reachable ep fl (s', k')"

lemma op_nonneg:
  assumes "32 \<le> length (m_fdContexts s)"
  shows "delEvent ep fd event (s, k) = Inr r' \<Longrightarrow> 0 \<le> fd"
    and "cancelEvent ep fd event (s, k) = Inr r' \<Longrightarrow> 0 \<le> fd"
    and "cancelAll ep fd (s, k) = Inr r' \<Longrightarrow> 0 \<le> fd"
  using assms
  by (auto simp: delEvent_def cancelEvent_def cancelAll_def Let_def ctx_at_def rbind_eq_Inr_iff split: if_splits)

lemma io_reachable_inv:
  assumes "io_reachable ep fl st" "epoll_law ep"
  shows "io_inv ep fl st"
  using assms(1)
proof induction
  case start
  then show ?case using new_IOManager_inv [OF assms(2)] by blast
next
  case (add_ctl fl s k req fd rt s' k')
  note ok = addEvent_ctl_ok [OF add_ctl(5) assms(2) add_ctl(2,3,4)]
  show ?case using ok(5) ok(6) [where req = req] by simp
next
  case (add_store fl s k fd req s')
  from addEvent_store_ok [OF add_store(4,2)] have "io_inv ep (fl(fd := None)) (s', k)" unfolding add_store(3) by blast
  then show ?case .
next
  case (del fl s k event fd b s' k')
  note fd = op_nonneg(1) [OF io_invD(1) [OF del(5)] del(4)]
  show ?case
  proof (cases "registered s fd AND event = 0")
    case True
    show ?thesis using not_registered(1) [OF fd True, of ep k] del(4,5) by simp
  next
    case False
    show ?thesis
      by (cases rule: delEvent_ok [OF del(5) assms(2) del(3,2) False]) (use del(4) in simp_all)
  qed
next
  case (cancel fl s k event fd b s' k')
  note fd = op_nonneg(2) [OF io_invD(1) [OF cancel(4)] cancel(3)]
  show ?case
  proof (cases "registered s fd AND event = 0")
    case True
    show ?thesis using not_registered(2) [OF fd True, of ep k] cancel(3,4) by simp
  next
    case False
    then have "s' = s" "interest ep k' = interest ep k"
      using cancelEvent_cases [OF False assms(2) cancel(3)] by simp_all
    then show ?thesis using io_inv_interest [OF cancel(4)] by simp
  qed
next
  case (cancel_all fl s k fd b s' k')
  note fd = op_nonneg(3) [OF io_invD(1) [OF cancel_all(3)] cancel_all(2)]
  show ?case
  proof (cases "registered s fd = 0")
    case True
    show ?thesis using not_registered(3) [OF fd _ True, of 0 ep k] cancel_all(2,3) by simp
  next
    case False
    then have "s' = s" "interest ep k' = interest ep k"
      using cancelAll_cases [OF cancel_all(3) False assms(2) cancel_all(2)] by simp_all
    then show ?thesis using io_inv_interest [OF cancel_all(3)] by simp
  qed
next
  case (idle fl s k now now2 addr events b s' k')
  show ?case by (rule idle_round_inv [OF idle(3) assms(2) idle(2)])
qed

subsection \<open>The time given to epoll\<close>

lemma ucast_scast_id: "ucast (scast x :: u64) = (x :: u32)"
  by (rule bit_eqI) (auto simp: bit_simps)

lemma wait_timeout_eq:
  "wait_timeout t = (if t = - 1 then 5000 else min (sint (ucast t :: u32)) 5000)"
proof -
  have m: "sint MAX_TIMEOUT = 5000" by (simp add: MAX_TIMEOUT_def)
  show ?thesis
    by (auto simp: wait_timeout_def narrow_timeout_def Let_def ucast_scast_id m word_sless_alt min_def)
qed

lemma sint_low:
  fixes t :: u64
  shows "sint (ucast t :: u32) = (if unat t mod 2 ^ 32 < 2 ^ 31 then int (unat t mod 2 ^ 32) else int (unat t mod 2 ^ 32) - 2 ^ 32)"
proof -
  have "sint (ucast t :: u32) = signed_take_bit 31 (int (unat t))"
    by (simp add: signed_ucast_eq)
  also have "\<dots> = (int (unat t) + 2 ^ 31) mod 2 ^ 32 - 2 ^ 31"
    by (simp add: signed_take_bit_eq_take_bit_shift take_bit_eq_mod)
  also have "\<dots> = (int (unat t mod 2 ^ 32) + 2 ^ 31) mod 2 ^ 32 - 2 ^ 31"
    by (simp only: zmod_int of_nat_power of_nat_numeral mod_add_left_eq)
  also have "\<dots> = (if unat t mod 2 ^ 32 < 2 ^ 31 then int (unat t mod 2 ^ 32) else int (unat t mod 2 ^ 32) - 2 ^ 32)"
  proof -
    have r: "unat t mod 2 ^ 32 < 2 ^ 32" by simp
    show ?thesis
    proof (cases "unat t mod 2 ^ 32 < 2 ^ 31")
      case False
      then have "(int (unat t mod 2 ^ 32) + 2 ^ 31) mod 2 ^ 32 = int (unat t mod 2 ^ 32) + 2 ^ 31 - 2 ^ 32"
        using r by (simp add: mod_pos_geq)
      then show ?thesis using False by simp
    qed simp
  qed
  finally show ?thesis .
qed

subsection \<open>A kernel\<close>

text \<open>An epoll instance whose state is its interest list; the pipe takes every byte.\<close>

definition list_epoll :: "(int \<Rightarrow> u32 option) epoll" where
  "list_epoll =
     \<lparr> epoll_ctl = (\<lambda>op fd ev k. if (op = EPOLL_CTL_ADD) = (k fd = None)
         then (0, k(fd := (if op = EPOLL_CTL_DEL then None else Some ev))) else (- 1, k)),
       interest = (\<lambda>k. k), pipe_write = (\<lambda>k. (1, k)), pipe_drain = (\<lambda>k. k) \<rparr>"

lemma list_epoll_law: "epoll_law list_epoll"
  by (simp add: epoll_law_def fits_def list_epoll_def)

definition sched0 :: "nat \<Rightarrow> nat scheduler" where
  "sched0 = (\<lambda>_. \<lparr> m_tasks = [], m_threads = 0, m_threadIds = [], m_threadCount = 1, m_activeThreadCount = 0,
     m_idleThreadCount = 0, m_useCaller = False, m_rootThread = - 1, m_stopping = False \<rparr>)"

definition io0 :: "nat iomanager \<times> (int \<Rightarrow> u32 option)" where
  "io0 = (\<lparr> io_scheds = sched0(0 := (sched0 0)\<lparr>m_threads := 1, m_threadIds := [7]\<rparr>), io_self = 0,
      io_timers = new_TimerManager 0, m_epfd = 3, m_tickleFds = (4, 5), m_pendingEventCount = 0,
      m_fdContexts = contextResize 32 [] \<rparr>, (\<lambda>_. None)(4 := Some (EPOLLIN OR EPOLLET)))"

lemma io0_reachable: "io_reachable list_epoll (\<lambda>_. None) io0"
proof -
  have "new_IOManager list_epoll sched0 0 1 False False 1 [7] 3 0 (4, 5) 0 0 (\<lambda>_. None) = Inr io0"
    by (simp add: new_IOManager_def new_Scheduler_def start_scheduler_def list_epoll_def io0_def sched0_def)
  moreover have "interest list_epoll (\<lambda>_. None) = (\<lambda>_. None)" by (simp add: list_epoll_def)
  moreover obtain s k where io: "io0 = (s, k)" by (rule prod.exhaust)
  ultimately show ?thesis using io_reachable.start unfolding io by fast
qed

lemma io0_registered: "registered (fst io0) = (\<lambda>_. 0)"
  by (auto simp: io0_def registered_def nth_contextResize new_FdContext_ok fun_eq_iff)

subsection \<open>Properties\<close>


text \<open>A state in which the kernel has an event of descriptor 40 and the context does not.\<close>

definition req0 :: "nat add_request" where
  "req0 = \<lparr> ar_event = READ, ar_cur = Some 0, ar_fiber = 2, ar_callback = None \<rparr>"

definition io1 :: "nat iomanager \<times> (int \<Rightarrow> u32 option)" where
  "io1 = ((fst io0)\<lparr>m_fdContexts := contextResize 60 (m_fdContexts (fst io0))\<rparr>, (snd io0)(40 := Some (EPOLLET OR READ)))"

lemma io1_step: "addEvent_ctl list_epoll 40 READ io0 = Inr (0, io1)"
  by (simp add: io0_def io1_def addEvent_ctl_def list_epoll_def ctx_at_def nth_contextResize new_FdContext_ok)

lemma io1_reachable: "io_reachable list_epoll ((\<lambda>_. None)(40 := Some req0)) io1"
proof -
  have r0: "io_reachable list_epoll (\<lambda>_. None) (fst io0, snd io0)" using io0_reachable by simp
  have c0: "addEvent_ctl list_epoll 40 (ar_event req0) (fst io0, snd io0) = Inr (0, fst io1, snd io1)"
    using io1_step by (simp add: req0_def)
  from io_reachable.add_ctl [OF r0 _ _ c0] show ?thesis by (simp add: req0_def)
qed


text \<open>
  C?: the two steps of \<open>addEvent\<close> race with \<open>delEvent\<close>. On a descriptor whose reading event is registered, with any kernel that grants the two
  operations: when a \<open>delEvent\<close> of the reading event comes between the two steps of an \<open>addEvent\<close> of the writing event, all three calls
  succeed, the writing event is registered and counted, and the kernel's interest list does not have the descriptor, so that the
  event is never reported and the manager never stops.
\<close>

theorem add_del_race:
  assumes "io_reachable ep fl (s, k)" "epoll_law ep" "fl fd = None" "registered s fd = READ"
    and "addEvent_ctl ep fd WRITE (s, k) = Inr (0, s1, k1)"
    and "fst (epoll_ctl ep EPOLL_CTL_DEL fd EPOLLET k1) = 0"
  shows "\<exists>s2 k2 s3. delEvent ep fd READ (s1, k1) = Inr (True, s2, k2)
    \<and> addEvent_store cur fiber RUNNING fd WRITE callback s2 = Inr s3
    \<and> registered s3 fd = WRITE \<and> m_pendingEventCount s3 = m_pendingEventCount s
    \<and> interest ep k2 fd = None
    \<and> (pending_total s < 2 ^ 64 \<longrightarrow> \<not> fst (stopping_timeout now s3))"
proof -
  note I = io_reachable_inv [OF assms(1,2)]
  define req where "req = \<lparr> ar_event = WRITE, ar_cur = cur, ar_fiber = fiber, ar_callback = callback \<rparr>"
  have W: "WRITE \<in> {READ, WRITE}" by simp
  note ok = addEvent_ctl_ok [OF I assms(2) W assms(3,5)]
  have I1: "io_inv ep (fl(fd := Some req)) (s1, k1)" using ok(6) [where req = req] by (simp add: req_def)
  have reg: "registered s1 fd = READ" using ok(1) assms(4) by simp
  then have "registered s1 fd AND READ \<noteq> 0" by (simp add: event_defs)
  note In = registered_inside [OF this]
  let ?c = "m_fdContexts s1 ! nat fd"
  obtain k2 where ctl: "epoll_ctl ep EPOLL_CTL_DEL fd EPOLLET k1 = (0, k2)" using assms(6) by (metis prod.collapse)
  define s2 where "s2 = s1\<lparr>m_pendingEventCount := m_pendingEventCount s1 - 1,
    m_fdContexts := (m_fdContexts s1)[nat fd := resetEventContext Read_ctx (?c\<lparr>ctx_events := 0\<rparr>)]\<rparr>"
  have ev: "ctx_events ?c = READ" using In(4) reg by simp
  have del: "delEvent ep fd READ (s1, k1) = Inr (True, s2, k2)"
    unfolding delEvent_def Let_def prod.case In(3) rbind_simps
    using In(5) ctl by (simp add: ev s2_def getEventContext_def event_defs)
  have wr: "ctx_write ?c = empty_ctx"
    using io_invD(3) [OF I1 In(2)] ev by (simp add: reg_ok_def event_defs)
  define s3 where "s3 = s2\<lparr>m_pendingEventCount := m_pendingEventCount s2 + 1,
    m_fdContexts := (m_fdContexts s2)[nat fd := ctx_put Write_ctx (ctx_for cur fiber callback)
      ((resetEventContext Read_ctx (?c\<lparr>ctx_events := 0\<rparr>))\<lparr>ctx_events := WRITE\<rparr>)]\<rparr>"
  have len: "nat fd < length (m_fdContexts s2)" "ctx_at fd (m_fdContexts s2) = Inr (nat fd)"
    using In(1,2) by (simp_all add: s2_def ctx_at_def)
  have at2: "m_fdContexts s2 ! nat fd = resetEventContext Read_ctx (?c\<lparr>ctx_events := 0\<rparr>)" using In(2) by (simp add: s2_def)
  have st: "addEvent_store cur fiber RUNNING fd WRITE callback s2 = Inr s3"
    unfolding addEvent_store_def len(2) rbind_simps Let_def
    using wr by (auto simp: at2 s3_def getEventContext_def event_defs ctx_get_def ctx_put_def resetEventContext_def empty_ctx_def ctx_for_def)
  have pend: "m_pendingEventCount s3 = m_pendingEventCount s" using ok(2) by (simp add: s3_def s2_def)
  have "m_pendingEventCount s3 \<noteq> 0" if "pending_total s < 2 ^ 64"
  proof -
    have "event_count (registered s1 fd) \<le> pending_total s1"
      unfolding pending_total_def using In(1,2)
      by (intro member_le_sum_list) (auto simp: registered_def in_set_conv_nth intro!: image_eqI [where x = ?c])
    then have "0 < pending_total s1" using reg by (simp add: event_count_def event_defs)
    moreover have "(of_nat (pending_total s1) :: u64) = of_nat (pending_total s)"
      using io_invD(4) [OF I1] io_invD(4) [OF I] ok(2) by simp
    moreover have "pending_total s1 = pending_total s" by (rule ctl_pending [OF assms(5)])
    ultimately have "of_nat (pending_total s) \<noteq> (0 :: u64)"
      using that by (simp add: word_of_nat_eq_0_iff) (use nat_dvd_not_less in fastforce)
    then show ?thesis using pend io_invD(4) [OF I] by simp
  qed
  then have "pending_total s < 2 ^ 64 \<longrightarrow> \<not> fst (stopping_timeout now s3)"
    by (simp add: stopping_timeout_def split: prod.splits)
  moreover have "registered s3 fd = WRITE" using In(1) len(1) by (simp add: registered_def s3_def)
  moreover have "interest ep k2 fd = None" using epoll_done(1) [OF assms(2) ctl] by simp
  ultimately show ?thesis using del st pend by blast
qed

theorem add_del_race_witness:
  "\<exists>s k s1 k1 s2 k2 s3. addEvent list_epoll (Some 0) 2 RUNNING 40 READ None io0 = Inr (0, s, k)
     \<and> addEvent_ctl list_epoll 40 WRITE (s, k) = Inr (0, s1, k1) \<and> delEvent list_epoll 40 READ (s1, k1) = Inr (True, s2, k2)
     \<and> addEvent_store (Some 0) 2 RUNNING 40 WRITE None s2 = Inr s3 \<and> registered s3 40 = WRITE \<and> interest list_epoll k2 40 = None"
proof -
  note I = io_reachable_inv [OF io1_reachable list_epoll_law]
  have "io_inv list_epoll ((\<lambda>_. None)(40 := Some req0)) (fst io1, snd io1)" using I by simp
  from addEvent_store_ok [OF this, of 40 req0] obtain s where
      st: "addEvent_store (Some 0) 2 RUNNING 40 READ None (fst io1) = Inr s"
      "registered s = (registered (fst io1))(40 := registered (fst io1) 40 OR READ)"
      "m_pendingEventCount s = m_pendingEventCount (fst io1) + 1"
    by (auto simp: req0_def)
  have reg: "registered s 40 = READ"
    using st(2) by (simp add: io1_def io0_def registered_def nth_contextResize new_FdContext_ok)
  have r: "io_reachable list_epoll (((\<lambda>_. None)(40 := Some req0))(40 := None)) (s, snd io1)"
    by (rule io_reachable.add_store [where s = "fst io1" and req = req0])
      (use io1_reachable st(1) in \<open>simp_all add: req0_def\<close>)
  have len: "length (m_fdContexts s) = 60"
    using st(1) by (auto simp: addEvent_store_def rbind_eq_Inr_iff Let_def assert_that_def io1_def split: if_splits)
  have ev: "ctx_events (m_fdContexts s ! 40) = READ" using reg len by (simp add: registered_def)
  have ctl: "addEvent_ctl list_epoll 40 WRITE (s, snd io1) = Inr (0, s, (snd io1)(40 := Some (EPOLLET OR READ OR WRITE)))"
    using len ev by (simp add: addEvent_ctl_def ctx_at_def list_epoll_def io1_def event_defs)
  have "fst (epoll_ctl list_epoll EPOLL_CTL_DEL 40 EPOLLET ((snd io1)(40 := Some (EPOLLET OR READ OR WRITE)))) = 0"
    by (simp add: list_epoll_def)
  from add_del_race [OF r list_epoll_law _ reg ctl this, of "Some 0" 2 None 0]
  have "\<exists>s2 k2 s3. delEvent list_epoll 40 READ (s, (snd io1)(40 := Some (EPOLLET OR READ OR WRITE))) = Inr (True, s2, k2)
      \<and> addEvent_store (Some 0) 2 RUNNING 40 WRITE None s2 = Inr s3 \<and> registered s3 40 = WRITE \<and> interest list_epoll k2 40 = None"
    by auto
  moreover have "addEvent list_epoll (Some 0) 2 RUNNING 40 READ None io0 = Inr (0, s, snd io1)"
    using io1_step st(1) by (simp add: addEvent_def rbind_def case_prod_beta)
  ultimately show ?thesis using ctl by blast
qed



text \<open>
  The time \<open>idle\<close> sleeps. A next deadline below \<open>2^31\<close> milliseconds gives the deadline or five seconds,
  whichever is earlier, and no timer gives five seconds; a deadline whose low half has its top bit
  set is narrowed to a negative number, which lets \<open>epoll_wait\<close> block without limit.
\<close>

theorem idle_wait:
  "wait_timeout (- 1) = 5000
   \<and> (unat t < 2 ^ 31 \<longrightarrow> wait_timeout t = min (int (unat t)) 5000)
   \<and> (t \<noteq> - 1 \<and> 2 ^ 31 \<le> unat t mod 2 ^ 32 \<longrightarrow> wait_timeout t < 0)"
proof -
  have ne: "t \<noteq> - 1" if "unat t < 2 ^ 31"
    using that by (auto simp: unsigned_minus_1_eq_mask mask_eq_exp_minus_1)
  have r: "unat t mod 2 ^ 32 < 2 ^ 32" by simp
  show ?thesis using ne r by (auto simp: wait_timeout_eq sint_low)
qed

theorem idle_wait_witness: "wait_timeout 70 = 70 \<and> wait_timeout 60000 = 5000 \<and> wait_timeout (2 ^ 31) < 0"
  using idle_wait [of 70] idle_wait [of 60000] idle_wait [of "2 ^ 31"] by simp

end
