(* ===== verification/Socket.thy ===== *)
theory Socket
  imports Address FdManager
begin

text \<open>
  Sockets: \<open>src/net/socket.cpp\<close>, \<open>include/fishjoy/net/socket.hpp\<close>.

  A \<open>Socket\<close> is a record. The system calls it makes are the fields of a record \<open>os\<close> of functions on
  the state of the system; \<open>sock_law\<close> says which descriptors they open and close, and \<open>data_law\<close> what
  bytes they move. A null \<open>Address::ptr\<close> argument is not passed by any caller. The lines the sources
  write to the log are left out.
\<close>

definition SOCK_STREAM :: nat where "SOCK_STREAM = 1"
definition SOCK_DGRAM :: nat where "SOCK_DGRAM = 2"
definition SO_REUSEADDR :: nat where "SO_REUSEADDR = 2"
definition SO_ERROR :: nat where "SO_ERROR = 4"
definition IPPROTO_TCP :: nat where "IPPROTO_TCP = 6"
definition TCP_NODELAY :: nat where "TCP_NODELAY = 1"

record 'n os =
  os_socket :: "nat \<Rightarrow> nat \<Rightarrow> nat \<Rightarrow> 'n \<Rightarrow> int \<times> 'n"
  os_close :: "int \<Rightarrow> 'n \<Rightarrow> int \<times> 'n"
  os_accept :: "int \<Rightarrow> 'n \<Rightarrow> int \<times> 'n"
  os_bind :: "int \<Rightarrow> address \<Rightarrow> 'n \<Rightarrow> int \<times> 'n"
  os_listen :: "int \<Rightarrow> int \<Rightarrow> 'n \<Rightarrow> int \<times> 'n"
  os_connect :: "int \<Rightarrow> address \<Rightarrow> u64 option \<Rightarrow> 'n \<Rightarrow> int \<times> 'n"
  os_setsockopt :: "int \<Rightarrow> nat \<Rightarrow> nat \<Rightarrow> int \<Rightarrow> 'n \<Rightarrow> int \<times> 'n"
  os_getsockopt :: "int \<Rightarrow> nat \<Rightarrow> nat \<Rightarrow> 'n \<Rightarrow> int \<times> int"
  os_errno :: "'n \<Rightarrow> int"
  os_send :: "int \<Rightarrow> byte list \<Rightarrow> address option \<Rightarrow> nat \<Rightarrow> 'n \<Rightarrow> int \<times> 'n"
  os_recv :: "int \<Rightarrow> nat \<Rightarrow> nat \<Rightarrow> 'n \<Rightarrow> int \<times> byte list \<times> 'n"
  os_recvfrom :: "int \<Rightarrow> nat \<Rightarrow> address \<Rightarrow> nat \<Rightarrow> 'n \<Rightarrow> int \<times> byte list \<times> address \<times> 'n"
  os_getpeername :: "int \<Rightarrow> address \<Rightarrow> 'n \<Rightarrow> (address \<times> nat) option"
  os_getsockname :: "int \<Rightarrow> address \<Rightarrow> 'n \<Rightarrow> (address \<times> nat) option"
  os_fdctx :: "int \<Rightarrow> 'n \<Rightarrow> fd_ctx option"
  os_unlink :: "string \<Rightarrow> 'n \<Rightarrow> 'n"
  os_cancelEvent :: "int \<Rightarrow> u32 \<Rightarrow> 'n \<Rightarrow> (bool \<times> 'n) result"
  os_cancelAll :: "int \<Rightarrow> 'n \<Rightarrow> (bool \<times> 'n) result"

record sock =
  m_sock :: int
  m_family :: nat
  m_type :: nat
  m_protocol :: nat
  m_isConnected :: bool
  m_localAddress :: "address option"
  m_remoteAddress :: "address option"

definition new_Socket :: "nat \<Rightarrow> nat \<Rightarrow> nat \<Rightarrow> sock" where
  "new_Socket family type protocol =
     \<lparr> m_sock = - 1, m_family = family, m_type = type, m_protocol = protocol, m_isConnected = False,
       m_localAddress = None, m_remoteAddress = None \<rparr>"

definition isValid :: "sock \<Rightarrow> bool" where
  "isValid s = (m_sock s \<noteq> - 1)"

subsection \<open>Options\<close>

definition setOption :: "'n os \<Rightarrow> nat \<Rightarrow> nat \<Rightarrow> int \<Rightarrow> sock \<Rightarrow> 'n \<Rightarrow> bool \<times> 'n" where
  "setOption os level option v s n =
     (let (rt, n') = os_setsockopt os (m_sock s) level option v n in (rt = 0, n'))"

definition getOption :: "'n os \<Rightarrow> nat \<Rightarrow> nat \<Rightarrow> sock \<Rightarrow> 'n \<Rightarrow> bool \<times> int" where
  "getOption os level option s n =
     (let (rt, v) = os_getsockopt os (m_sock s) level option n in (rt = 0, v))"

definition getError :: "'n os \<Rightarrow> sock \<Rightarrow> 'n \<Rightarrow> int" where
  "getError os s n = (let (ok, error) = getOption os SOL_SOCKET SO_ERROR s n in if ok then error else os_errno os n)"

definition initSock :: "'n os \<Rightarrow> sock \<Rightarrow> 'n \<Rightarrow> 'n" where
  "initSock os s n =
     (let (_, n) = setOption os SOL_SOCKET SO_REUSEADDR 1 s n in
      if m_type s = SOCK_STREAM then snd (setOption os IPPROTO_TCP TCP_NODELAY 1 s n) else n)"

definition newSock :: "'n os \<Rightarrow> sock \<Rightarrow> 'n \<Rightarrow> sock \<times> 'n" where
  "newSock os s n =
     (let (fd, n) = os_socket os (m_family s) (m_type s) (m_protocol s) n; s = s\<lparr>m_sock := fd\<rparr> in
      if fd \<noteq> - 1 then (s, initSock os s n) else (s, n))"

text \<open>The timeouts go through the hooked \<open>setsockopt\<close> and are read back from the descriptor's context.\<close>

definition timeval_of :: "int \<Rightarrow> int \<times> int" where
  "timeval_of v = (int32 (cdiv v 1000), int32 (cmod v 1000 * 1000))"

definition setSendTimeout :: "'k kernel \<Rightarrow> int \<Rightarrow> sock \<Rightarrow> 'k hook_state \<Rightarrow> (int \<times> 'k hook_state) result" where
  "setSendTimeout kn v s h = hook_setsockopt kn (m_sock s) SOL_SOCKET SO_SNDTIMEO (timeval_of v) h"

definition setRecvTimeout :: "'k kernel \<Rightarrow> int \<Rightarrow> sock \<Rightarrow> 'k hook_state \<Rightarrow> (int \<times> 'k hook_state) result" where
  "setRecvTimeout kn v s h = hook_setsockopt kn (m_sock s) SOL_SOCKET SO_RCVTIMEO (timeval_of v) h"

definition getSendTimeout :: "sock \<Rightarrow> 'k hook_state \<Rightarrow> int result" where
  "getSendTimeout s h = rbind (lookup_fd (m_sock s) (fds h)) (\<lambda>c.
     case c of None \<Rightarrow> Inr (- 1) | Some ctx \<Rightarrow> Inr (sint (getTimeout SO_SNDTIMEO ctx)))"

definition getRecvTimeout :: "sock \<Rightarrow> 'k hook_state \<Rightarrow> int result" where
  "getRecvTimeout s h = rbind (lookup_fd (m_sock s) (fds h)) (\<lambda>c.
     case c of None \<Rightarrow> Inr (- 1) | Some ctx \<Rightarrow> Inr (sint (getTimeout SO_RCVTIMEO ctx)))"

text \<open>A system state that holds the state of the hooked calls; \<open>setRecvTimeout\<close> on it, with a \<open>uint64_t\<close> argument.\<close>

record ('n, 'k) hooked =
  hk_kernel :: "'k kernel"
  hk_state :: "'n \<Rightarrow> 'k hook_state"
  hk_put :: "'k hook_state \<Rightarrow> 'n \<Rightarrow> 'n"

definition setRecvTimeout_on :: "('n, 'k) hooked \<Rightarrow> u64 \<Rightarrow> sock \<Rightarrow> 'n \<Rightarrow> 'n result" where
  "setRecvTimeout_on hk v s n =
     rbind (setRecvTimeout (hk_kernel hk) (sint v) s (hk_state hk n)) (\<lambda>(_, h). Inr (hk_put hk h n))"

subsection \<open>Creation\<close>

definition udp_ready :: "'n os \<Rightarrow> sock \<Rightarrow> 'n \<Rightarrow> sock \<times> 'n" where
  "udp_ready os s n = (let (s, n) = newSock os s n in (s\<lparr>m_isConnected := True\<rparr>, n))"

definition CreateTCP :: "address \<Rightarrow> sock" where
  "CreateTCP a = new_Socket (getFamily a) SOCK_STREAM 0"
definition CreateUDP :: "'n os \<Rightarrow> address \<Rightarrow> 'n \<Rightarrow> sock \<times> 'n" where
  "CreateUDP os a n = udp_ready os (new_Socket (getFamily a) SOCK_DGRAM 0) n"
definition CreateTCPSocket :: sock where
  "CreateTCPSocket = new_Socket AF_INET SOCK_STREAM 0"
definition CreateUDPSocket :: "'n os \<Rightarrow> 'n \<Rightarrow> sock \<times> 'n" where
  "CreateUDPSocket os n = udp_ready os (new_Socket AF_INET SOCK_DGRAM 0) n"
definition CreateTCPSocket6 :: sock where
  "CreateTCPSocket6 = new_Socket AF_INET6 SOCK_STREAM 0"
definition CreateUDPSocket6 :: "'n os \<Rightarrow> 'n \<Rightarrow> sock \<times> 'n" where
  "CreateUDPSocket6 os n = udp_ready os (new_Socket AF_INET6 SOCK_DGRAM 0) n"
definition CreateUnixTCPSocket :: sock where
  "CreateUnixTCPSocket = new_Socket AF_UNIX SOCK_STREAM 0"
definition CreateUnixUDPSocket :: sock where
  "CreateUnixUDPSocket = new_Socket AF_UNIX SOCK_DGRAM 0"

subsection \<open>Addresses\<close>

definition address_template :: "nat \<Rightarrow> nat \<Rightarrow> address" where
  "address_template bo family =
     (if family = AF_INET then IPv4Address (new_IPv4Address bo 0 0)
      else if family = AF_INET6 then IPv6Address IPv6_any
      else if family = AF_UNIX then UnixAddress_default
      else UnknownAddress_family family)"

definition getRemoteAddress :: "'n os \<Rightarrow> nat \<Rightarrow> sock \<Rightarrow> 'n \<Rightarrow> address \<times> sock" where
  "getRemoteAddress os bo s n =
     (case m_remoteAddress s of Some a \<Rightarrow> (a, s)
      | None \<Rightarrow>
          (case os_getpeername os (m_sock s) (address_template bo (m_family s)) n of
             None \<Rightarrow> (UnknownAddress_family (m_family s), s)
           | Some (result, addrlen) \<Rightarrow>
               let result = (if m_family s = AF_UNIX then setAddrLen addrlen result else result)
               in (result, s\<lparr>m_remoteAddress := Some result\<rparr>)))"

definition getLocalAddress :: "'n os \<Rightarrow> nat \<Rightarrow> sock \<Rightarrow> 'n \<Rightarrow> address \<times> sock" where
  "getLocalAddress os bo s n =
     (case m_localAddress s of Some a \<Rightarrow> (a, s)
      | None \<Rightarrow>
          (case os_getsockname os (m_sock s) (address_template bo (m_family s)) n of
             None \<Rightarrow> (UnknownAddress_family (m_family s), s)
           | Some (result, addrlen) \<Rightarrow>
               let result = (if m_family s = AF_UNIX then setAddrLen addrlen result else result)
               in (result, s\<lparr>m_localAddress := Some result\<rparr>)))"

subsection \<open>Connecting and listening\<close>

definition close_sock :: "'n os \<Rightarrow> sock \<Rightarrow> 'n \<Rightarrow> bool \<times> sock \<times> 'n" where
  "close_sock os s n =
     (if \<not> m_isConnected s \<and> m_sock s = - 1 then (True, s, n)
      else
        let s = s\<lparr>m_isConnected := False\<rparr> in
        if m_sock s \<noteq> - 1 then (let (_, n) = os_close os (m_sock s) n in (False, s\<lparr>m_sock := - 1\<rparr>, n))
        else (False, s, n))"

definition connect :: "'n os \<Rightarrow> nat \<Rightarrow> address \<Rightarrow> u64 \<Rightarrow> sock \<Rightarrow> 'n \<Rightarrow> bool \<times> sock \<times> 'n" where
  "connect os bo addr timeout_ms s n =
     (let s = s\<lparr>m_remoteAddress := Some addr\<rparr>;
          (s, n) = (if \<not> isValid s then newSock os s n else (s, n))
      in if \<not> isValid s then (False, s, n)
         else if getFamily addr \<noteq> m_family s then (False, s, n)
         else
           let (rt, n) = os_connect os (m_sock s) addr (if timeout_ms = - 1 then None else Some timeout_ms) n in
           if rt \<noteq> 0 then (let (_, s, n) = close_sock os s n in (False, s, n))
           else
             let s = s\<lparr>m_isConnected := True\<rparr>;
                 s = snd (getRemoteAddress os bo s n);
                 s = snd (getLocalAddress os bo s n)
             in (True, s, n))"

definition reconnect :: "'n os \<Rightarrow> nat \<Rightarrow> u64 \<Rightarrow> sock \<Rightarrow> 'n \<Rightarrow> bool \<times> sock \<times> 'n" where
  "reconnect os bo timeout_ms s n =
     (case m_remoteAddress s of None \<Rightarrow> (False, s, n)
      | Some a \<Rightarrow> connect os bo a timeout_ms (s\<lparr>m_localAddress := None\<rparr>) n)"

text \<open>
  \<open>bind\<close>: for a Unix address a scratch socket tries to connect to it first; the scratch socket is
  closed by its destructor at the end of the block.
\<close>

definition bind :: "'n os \<Rightarrow> nat \<Rightarrow> address \<Rightarrow> sock \<Rightarrow> 'n \<Rightarrow> bool \<times> sock \<times> 'n" where
  "bind os bo addr s n =
     (let s = s\<lparr>m_localAddress := Some addr\<rparr>;
          (s, n) = (if \<not> isValid s then newSock os s n else (s, n))
      in if \<not> isValid s then (False, s, n)
         else if getFamily addr \<noteq> m_family s then (False, s, n)
         else
           let (in_use, n) =
             (case addr of
                UnixAddress x len \<Rightarrow>
                  let (ok, t, n) = connect os bo addr (- 1) CreateUnixTCPSocket n;
                      n = (if ok then n else os_unlink os (Unix_getPath x len) n);
                      (_, _, n) = close_sock os t n
                  in (ok, n)
              | _ \<Rightarrow> (False, n))
           in if in_use then (False, s, n)
              else
                let (rt, n) = os_bind os (m_sock s) addr n in
                if rt \<noteq> 0 then (False, s, n)
                else (True, snd (getLocalAddress os bo s n), n))"

definition listen :: "'n os \<Rightarrow> int \<Rightarrow> sock \<Rightarrow> 'n \<Rightarrow> bool \<times> 'n" where
  "listen os backlog s n =
     (if \<not> isValid s then (False, n)
      else let (rt, n) = os_listen os (m_sock s) backlog n in (rt = 0, n))"

definition init_sock :: "'n os \<Rightarrow> nat \<Rightarrow> int \<Rightarrow> sock \<Rightarrow> 'n \<Rightarrow> bool \<times> sock \<times> 'n" where
  "init_sock os bo fd s n =
     (if active_socket (os_fdctx os fd n) then
        let s = s\<lparr>m_sock := fd, m_isConnected := True\<rparr>;
            n = initSock os s n;
            s = snd (getLocalAddress os bo s n);
            s = snd (getRemoteAddress os bo s n)
        in (True, s, n)
      else (False, s, n))"

definition accept :: "'n os \<Rightarrow> nat \<Rightarrow> sock \<Rightarrow> 'n \<Rightarrow> sock option \<times> 'n" where
  "accept os bo s n =
     (let t = new_Socket (m_family s) (m_type s) (m_protocol s);
          (newsock, n) = os_accept os (m_sock s) n
      in if newsock = - 1 then (None, n)
         else
           let (ok, t, n) = init_sock os bo newsock t n in
           if ok then (Some t, n) else (None, snd (snd (close_sock os t n))))"

subsection \<open>Sending and receiving\<close>

definition send :: "'n os \<Rightarrow> byte list \<Rightarrow> nat \<Rightarrow> sock \<Rightarrow> 'n \<Rightarrow> int \<times> 'n" where
  "send os buf flags s n =
     (if m_isConnected s then (let (rt, n) = os_send os (m_sock s) buf None flags n in (int32 rt, n)) else (- 1, n))"

definition sendTo :: "'n os \<Rightarrow> byte list \<Rightarrow> address \<Rightarrow> nat \<Rightarrow> sock \<Rightarrow> 'n \<Rightarrow> int \<times> 'n" where
  "sendTo os buf dest flags s n =
     (if m_isConnected s then (let (rt, n) = os_send os (m_sock s) buf (Some dest) flags n in (int32 rt, n)) else (- 1, n))"

definition recv :: "'n os \<Rightarrow> nat \<Rightarrow> nat \<Rightarrow> sock \<Rightarrow> 'n \<Rightarrow> int \<times> byte list \<times> 'n" where
  "recv os len flags s n =
     (if m_isConnected s then (let (rt, bs, n) = os_recv os (m_sock s) len flags n in (int32 rt, bs, n)) else (- 1, [], n))"

definition recvFrom :: "'n os \<Rightarrow> nat \<Rightarrow> address \<Rightarrow> nat \<Rightarrow> sock \<Rightarrow> 'n \<Rightarrow> int \<times> byte list \<times> address \<times> 'n" where
  "recvFrom os len src flags s n =
     (if m_isConnected s
      then (let (rt, bs, src', n) = os_recvfrom os (m_sock s) len src flags n in (int32 rt, bs, src', n))
      else (- 1, [], src, n))"

definition cancelRead :: "'n os \<Rightarrow> sock \<Rightarrow> 'n \<Rightarrow> (bool \<times> 'n) result" where
  "cancelRead os s n = os_cancelEvent os (m_sock s) 1 n"
definition cancelWrite :: "'n os \<Rightarrow> sock \<Rightarrow> 'n \<Rightarrow> (bool \<times> 'n) result" where
  "cancelWrite os s n = os_cancelEvent os (m_sock s) 4 n"
definition cancelAccept :: "'n os \<Rightarrow> sock \<Rightarrow> 'n \<Rightarrow> (bool \<times> 'n) result" where
  "cancelAccept os s n = os_cancelEvent os (m_sock s) 1 n"
definition cancelAll_sock :: "'n os \<Rightarrow> sock \<Rightarrow> 'n \<Rightarrow> (bool \<times> 'n) result" where
  "cancelAll_sock os s n = os_cancelAll os (m_sock s) n"

definition dump_sock :: "nat \<Rightarrow> sock \<Rightarrow> string" where
  "dump_sock bo s =
     ''[Socket sock='' @ (if m_sock s < 0 then ''-'' @ dec (nat (- m_sock s)) else dec (nat (m_sock s)))
     @ '' is_connected='' @ (if m_isConnected s then ''1'' else ''0'')
     @ '' family='' @ dec (m_family s) @ '' type='' @ dec (m_type s) @ '' protocol='' @ dec (m_protocol s)
     @ (case m_localAddress s of None \<Rightarrow> [] | Some a \<Rightarrow> '' local_address='' @ insert_address bo a)
     @ (case m_remoteAddress s of None \<Rightarrow> [] | Some a \<Rightarrow> '' remote_address='' @ insert_address bo a)
     @ '']''"

subsection \<open>Which descriptors are open\<close>

text \<open>
  \<open>opn n\<close> is the set of open descriptors. \<open>socket\<close> and \<open>accept\<close> return -1 and open nothing, or return a
  descriptor that was not open; \<open>close\<close> closes its argument; the other calls open and close nothing.
\<close>

definition fresh_fd :: "('n \<Rightarrow> int set) \<Rightarrow> 'n \<Rightarrow> int \<Rightarrow> 'n \<Rightarrow> bool" where
  "fresh_fd opn n fd n' \<longleftrightarrow>
     (if fd = - 1 then opn n' = opn n else 0 \<le> fd \<and> fd \<notin> opn n \<and> opn n' = insert fd (opn n))"

definition sock_law :: "'n os \<Rightarrow> ('n \<Rightarrow> int set) \<Rightarrow> bool" where
  "sock_law os opn \<longleftrightarrow>
     (\<forall>f t p n. fresh_fd opn n (fst (os_socket os f t p n)) (snd (os_socket os f t p n)))
     \<and> (\<forall>fd n. fresh_fd opn n (fst (os_accept os fd n)) (snd (os_accept os fd n)))
     \<and> (\<forall>fd n. opn (snd (os_close os fd n)) = opn n - {fd})
     \<and> (\<forall>fd a n. opn (snd (os_bind os fd a n)) = opn n)
     \<and> (\<forall>fd a t n. opn (snd (os_connect os fd a t n)) = opn n)
     \<and> (\<forall>fd l q v n. opn (snd (os_setsockopt os fd l q v n)) = opn n)
     \<and> (\<forall>p n. opn (os_unlink os p n) = opn n)
     \<and> (\<forall>fd b n. opn (snd (os_listen os fd b n)) = opn n)"

definition owned :: "sock \<Rightarrow> int set" where
  "owned s = (if m_sock s = - 1 then {} else {m_sock s})"

text \<open>An operation that took \<open>(s, n)\<close> to \<open>(s', n')\<close> touched no descriptor but the socket's own.\<close>

definition owns_step :: "('n \<Rightarrow> int set) \<Rightarrow> sock \<Rightarrow> 'n \<Rightarrow> sock \<Rightarrow> 'n \<Rightarrow> bool" where
  "owns_step opn s n s' n' \<longleftrightarrow> owned s \<subseteq> opn n \<longrightarrow>
     owned s' \<subseteq> opn n' \<and> opn n' - owned s' = opn n - owned s"

lemma owns_refl: "owned s' = owned s \<Longrightarrow> opn n' = opn n \<Longrightarrow> owns_step opn s n s' n'"
  by (simp add: owns_step_def)

lemma owns_trans: "owns_step opn s n s1 n1 \<Longrightarrow> owns_step opn s1 n1 s2 n2 \<Longrightarrow> owns_step opn s n s2 n2"
  by (simp add: owns_step_def)

lemma sock_lawD:
  assumes "sock_law os opn"
  shows "os_socket os f t p n = (fd, n') \<Longrightarrow> fresh_fd opn n fd n'"
    and "os_accept os l n = (fd, n') \<Longrightarrow> fresh_fd opn n fd n'"
    and "os_close os fd n = (r, n') \<Longrightarrow> opn n' = opn n - {fd}"
    and "os_bind os fd a n = (r, n') \<Longrightarrow> opn n' = opn n"
    and "os_connect os fd a tm n = (r, n') \<Longrightarrow> opn n' = opn n"
    and "opn (os_unlink os path n) = opn n"
    and "opn (initSock os s n) = opn n"
proof -
  note L = assms [unfolded sock_law_def]
  show "os_socket os f t p n = (fd, n') \<Longrightarrow> fresh_fd opn n fd n'"
    and "os_accept os l n = (fd, n') \<Longrightarrow> fresh_fd opn n fd n'"
    and "os_close os fd n = (r, n') \<Longrightarrow> opn n' = opn n - {fd}"
    and "os_bind os fd a n = (r, n') \<Longrightarrow> opn n' = opn n"
    and "os_connect os fd a tm n = (r, n') \<Longrightarrow> opn n' = opn n"
    and "opn (os_unlink os path n) = opn n"
    using L by (metis fst_conv snd_conv)+
  have "opn (snd (setOption os lv op v s n)) = opn n" for lv op v n
    using L by (simp add: setOption_def Let_def split: prod.splits) (metis snd_conv)
  then show "opn (initSock os s n) = opn n"
    by (simp add: initSock_def Let_def split: prod.splits) (metis snd_conv)
qed

lemma address_keeps_owned [simp]:
  "owned (snd (getRemoteAddress os bo s n)) = owned s" "owned (snd (getLocalAddress os bo s n)) = owned s"
  "m_isConnected (snd (getRemoteAddress os bo s n)) = m_isConnected s"
  "m_isConnected (snd (getLocalAddress os bo s n)) = m_isConnected s"
  "m_sock (snd (getRemoteAddress os bo s n)) = m_sock s" "m_sock (snd (getLocalAddress os bo s n)) = m_sock s"
  "m_remoteAddress (snd (getLocalAddress os bo s n)) = m_remoteAddress s"
  "m_remoteAddress s = Some a \<Longrightarrow> snd (getRemoteAddress os bo s n) = s"
  by (auto simp: getRemoteAddress_def getLocalAddress_def owned_def Let_def split: option.splits prod.splits)

lemma newSock_owns:
  assumes "sock_law os opn" "m_sock s = - 1" "newSock os s n = (s', n')"
  shows "owns_step opn s n s' n'" "m_isConnected s' = m_isConnected s" "m_family s' = m_family s"
    "m_remoteAddress s' = m_remoteAddress s" "m_localAddress s' = m_localAddress s"
proof -
  obtain fd n1 where fd: "os_socket os (m_family s) (m_type s) (m_protocol s) n = (fd, n1)" by (rule prod.exhaust)
  then have fr: "fresh_fd opn n fd n1" by (rule sock_lawD(1) [OF assms(1)])
  have s': "s' = s\<lparr>m_sock := fd\<rparr>" "n' = (if fd \<noteq> - 1 then initSock os s' n1 else n1)"
    using assms(3) fd by (auto simp: newSock_def Let_def split: if_splits)
  then have "opn n' = opn n1" using sock_lawD(7) [OF assms(1)] by simp
  then show "owns_step opn s n s' n'"
    using fr assms(2) s'(1) by (auto simp: owns_step_def owned_def fresh_fd_def split: if_splits)
qed (use assms(3) in \<open>auto simp: newSock_def Let_def split: prod.splits if_splits\<close>)

lemma close_owns:
  assumes "sock_law os opn" "close_sock os s n = (b, s', n')"
  shows "owns_step opn s n s' n'" "owned s' = {}" "\<not> m_isConnected s'" "m_sock s' = - 1"
  using assms(2) sock_lawD(3) [OF assms(1)]
  by (auto simp: close_sock_def owns_step_def owned_def Let_def split: if_splits prod.splits)

lemma connect_owns:
  assumes L: "sock_law os opn" and c: "connect os bo addr tm s n = (b, s', n')"
  shows "owns_step opn s n s' n' \<and> m_remoteAddress s' = Some addr
    \<and> (b \<longrightarrow> m_isConnected s' \<and> m_sock s' \<noteq> - 1) \<and> (\<not> b \<and> \<not> m_isConnected s \<longrightarrow> \<not> m_isConnected s')"
proof -
  let ?s = "s\<lparr>m_remoteAddress := Some addr\<rparr>"
  obtain s1 n1 where 1: "(if \<not> isValid ?s then newSock os ?s n else (?s, n)) = (s1, n1)" by (rule prod.exhaust)
  have s1: "owns_step opn s n s1 n1" "m_isConnected s1 = m_isConnected s" "m_remoteAddress s1 = Some addr"
  proof -
    have own: "owns_step opn s n ?s n" by (rule owns_refl) (simp_all add: owned_def)
    have new: "m_sock ?s = - 1 \<Longrightarrow> newSock os ?s n = (s1, n1) \<Longrightarrow>
        owns_step opn ?s n s1 n1 \<and> m_isConnected s1 = m_isConnected ?s \<and> m_remoteAddress s1 = m_remoteAddress ?s"
      using newSock_owns [OF L, of ?s n s1 n1] by blast
    show "owns_step opn s n s1 n1" "m_isConnected s1 = m_isConnected s" "m_remoteAddress s1 = Some addr"
      using 1 new own owns_trans [OF own] by (auto simp: isValid_def split: if_splits)
  qed
  show ?thesis
  proof (cases "\<not> isValid s1 \<or> getFamily addr \<noteq> m_family s1")
    case True
    then have "(b, s', n') = (False, s1, n1)"
      using c unfolding connect_def Let_def 1 by (auto split: if_splits)
    then show ?thesis using s1 by simp
  next
    case False
    obtain rt n2 where 2: "os_connect os (m_sock s1) addr (if tm = - 1 then None else Some tm) n1 = (rt, n2)"
      by (rule prod.exhaust)
    then have o2: "opn n2 = opn n1" by (rule sock_lawD(5) [OF L])
    have own2: "owns_step opn s n s1 n2" by (rule owns_trans [OF s1(1)]) (simp add: owns_refl o2)
    show ?thesis
    proof (cases "rt = 0")
      case True
      let ?c = "s1\<lparr>m_isConnected := True\<rparr>"
      have r: "m_remoteAddress ?c = Some addr" using s1(3) by simp
      have e: "b" "n' = n2" "s' = snd (getLocalAddress os bo ?c n2)"
        using c False True address_keeps_owned(8) [OF r, of os bo n2]
        unfolding connect_def Let_def 1 prod.case 2 by auto
      have ow: "owned s' = owned s1" unfolding e(3) by (simp add: owned_def)
      have "owns_step opn s n s' n'"
        using own2 ow e(2) unfolding owns_step_def by simp
      moreover have "m_isConnected s' \<and> m_sock s' \<noteq> - 1 \<and> m_remoteAddress s' = Some addr"
        unfolding e(3) using r False by (simp add: isValid_def)
      ultimately show ?thesis using e(1) by blast
    next
      case rt: False
      obtain b3 s3 n3 where 3: "close_sock os s1 n2 = (b3, s3, n3)" by (metis prod.exhaust)
      have e: "(b, s', n') = (False, s3, n3)"
        using c False rt 3 unfolding connect_def Let_def 1 prod.case 2 by auto
      have "m_remoteAddress s3 = m_remoteAddress s1"
        using 3 by (auto simp: close_sock_def Let_def split: if_splits prod.splits)
      then show ?thesis
        using owns_trans [OF own2 close_owns(1) [OF L 3]] close_owns(3) [OF L 3] e s1(3) by simp
    qed
  qed
qed

lemma bind_owns:
  assumes L: "sock_law os opn" and c: "bind os bo addr s n = (b, s', n')"
  shows "owns_step opn s n s' n' \<and> m_isConnected s' = m_isConnected s \<and> m_localAddress s' = Some addr"
proof -
  let ?s = "s\<lparr>m_localAddress := Some addr\<rparr>"
  obtain s1 n1 where 1: "(if \<not> isValid ?s then newSock os ?s n else (?s, n)) = (s1, n1)" by (rule prod.exhaust)
  have own: "owns_step opn s n ?s n" by (rule owns_refl) (simp_all add: owned_def)
  have new: "m_sock ?s = - 1 \<Longrightarrow> newSock os ?s n = (s1, n1) \<Longrightarrow>
      owns_step opn ?s n s1 n1 \<and> m_isConnected s1 = m_isConnected ?s \<and> m_localAddress s1 = m_localAddress ?s"
    using newSock_owns [OF L, of ?s n s1 n1] by blast
  have s1: "owns_step opn s n s1 n1" "m_isConnected s1 = m_isConnected s" "m_localAddress s1 = Some addr"
    using 1 new own owns_trans [OF own] by (auto simp: isValid_def split: if_splits)
  show ?thesis
  proof (cases "\<not> isValid s1 \<or> getFamily addr \<noteq> m_family s1")
    case True
    then have "(b, s', n') = (False, s1, n1)"
      using c unfolding bind_def Let_def 1 by (auto split: if_splits)
    then show ?thesis using s1 by simp
  next
    case False
    define probe where "probe = (case addr of
        UnixAddress x len \<Rightarrow>
          let (ok, t, n) = connect os bo addr (- 1) CreateUnixTCPSocket n1;
              n = (if ok then n else os_unlink os (Unix_getPath x len) n);
              (_, _, n) = close_sock os t n
          in (ok, n)
      | _ \<Rightarrow> (False, n1))"
    obtain in_use n2 where 2: "probe = (in_use, n2)" by (rule prod.exhaust)
    have o2: "opn n2 = opn n1"
    proof (cases addr)
      case (UnixAddress x len)
      obtain ok t n3 where 3: "connect os bo addr (- 1) CreateUnixTCPSocket n1 = (ok, t, n3)" by (metis prod.exhaust)
      let ?n4 = "if ok then n3 else os_unlink os (Unix_getPath x len) n3"
      obtain b5 t5 n5 where 5: "close_sock os t ?n4 = (b5, t5, n5)" by (metis prod.exhaust)
      have e: "n2 = n5" using 2 3 5 UnixAddress by (auto simp: probe_def Let_def)
      have e0: "owned CreateUnixTCPSocket = {}" by (simp add: owned_def CreateUnixTCPSocket_def new_Socket_def)
      have o3: "owned t \<subseteq> opn n3 \<and> opn n3 - owned t = opn n1"
        using connect_owns [OF L 3] e0 by (simp add: owns_step_def)
      have o4: "opn ?n4 = opn n3" using sock_lawD(6) [OF L] by simp
      have "opn n5 = opn ?n4 - owned t"
        using close_owns(1,2) [OF L 5] o3 o4 by (auto simp: owns_step_def)
      then show ?thesis using o3 o4 e by simp
    qed (use 2 in \<open>simp_all add: probe_def\<close>)
    have own2: "owns_step opn s n s1 n2" by (rule owns_trans [OF s1(1)]) (simp add: owns_refl o2)
    obtain rt n3 where 3: "os_bind os (m_sock s1) addr n2 = (rt, n3)" by (rule prod.exhaust)
    have o3: "opn n3 = opn n2" by (rule sock_lawD(4) [OF L 3])
    have own3: "owns_step opn s n s1 n3" by (rule owns_trans [OF own2]) (simp add: owns_refl o3)
    have loc: "snd (getLocalAddress os bo s1 n3) = s1" using s1(3) by (simp add: getLocalAddress_def)
    have "(b, s', n') = (if in_use then (False, s1, n2) else if rt \<noteq> 0 then (False, s1, n3) else (True, s1, n3))"
      using c False 2 [unfolded probe_def] unfolding bind_def Let_def 1 prod.case
      by (auto simp: 3 loc split: if_splits prod.splits)
    then show ?thesis using s1 own2 own3 by (auto split: if_splits)
  qed
qed

lemma accept_owns:
  assumes L: "sock_law os opn" and o: "os_accept os (m_sock s) n = (fd, n1)" and a: "accept os bo s n = (r, n')"
  shows "opn n' = (if fd = - 1 then opn n else insert fd (opn n)) \<and> (fd \<noteq> - 1 \<longrightarrow> fd \<notin> opn n)
    \<and> (case r of None \<Rightarrow> fd = - 1 \<or> \<not> active_socket (os_fdctx os fd n1)
        | Some t \<Rightarrow> fd \<noteq> - 1 \<and> owned t = {fd} \<and> m_isConnected t)"
proof -
  have fr: "fresh_fd opn n fd n1" by (rule sock_lawD(2) [OF L o])
  let ?t = "new_Socket (m_family s) (m_type s) (m_protocol s)"
  let ?c = "?t\<lparr>m_sock := fd, m_isConnected := True\<rparr>"
  have cl: "close_sock os ?t n1 = (True, ?t, n1)" by (simp add: close_sock_def new_Socket_def)
  show ?thesis
  proof (cases "fd = - 1 \<or> \<not> active_socket (os_fdctx os fd n1)")
    case True
    then have "(r, n') = (None, n1)"
      using a o cl by (auto simp: accept_def init_sock_def Let_def split: if_splits)
    then show ?thesis using True fr by (auto simp: fresh_fd_def split: if_splits)
  next
    case False
    let ?n2 = "initSock os ?c n1"
    have "(r, n') = (Some (snd (getRemoteAddress os bo (snd (getLocalAddress os bo ?c ?n2)) ?n2)), ?n2)"
      using a o False by (auto simp: accept_def init_sock_def Let_def)
    then show ?thesis
      using False fr sock_lawD(7) [OF L, of ?c n1] by (auto simp: fresh_fd_def owned_def)
  qed
qed

lemma sint_of_int_small: "- (2 ^ 63) \<le> x \<Longrightarrow> x < 2 ^ 63 \<Longrightarrow> sint (of_int x :: u64) = x"
  by (simp add: sint_sbintrunc' signed_take_bit_int_eq_self)

lemma timeval_of_small:
  assumes "0 \<le> v" "v < 2 ^ 31"
  shows "fst (timeval_of v) * 1000 + cdiv (snd (timeval_of v)) 1000 = v"
proof -
  have "v mod 1000 < 1000" "0 \<le> v mod 1000" by simp_all
  then have "v mod 1000 * 1000 < 2 ^ 31 \<and> 0 \<le> v mod 1000 * 1000" by simp
  moreover have "v div 1000 \<le> v" "0 \<le> v div 1000" using assms(1) by linarith+
  ultimately show ?thesis
    using assms by (simp add: timeval_of_def cdiv_nonneg cmod_nonneg int32_id)
qed

text \<open>A system whose state is the open descriptors and the next one it hands out.\<close>

definition plain_os :: "(int list \<times> nat) os" where
  "plain_os =
     \<lparr> os_socket = (\<lambda>f t p (l, nx). (int nx, int nx # l, nx + 1)),
       os_close = (\<lambda>fd (l, nx). (0, filter (\<lambda>x. x \<noteq> fd) l, nx)),
       os_accept = (\<lambda>fd n. (- 1, n)), os_bind = (\<lambda>fd a n. (0, n)), os_listen = (\<lambda>fd b n. (0, n)),
       os_connect = (\<lambda>fd a t n. (- 1, n)), os_setsockopt = (\<lambda>fd l q v n. (0, n)),
       os_getsockopt = (\<lambda>fd l q n. (0, 0)), os_errno = (\<lambda>n. 0), os_send = (\<lambda>fd bs a fl n. (- 1, n)),
       os_recv = (\<lambda>fd l fl n. (- 1, [], n)), os_recvfrom = (\<lambda>fd l a fl n. (- 1, [], a, n)),
       os_getpeername = (\<lambda>fd a n. None), os_getsockname = (\<lambda>fd a n. None), os_fdctx = (\<lambda>fd n. None),
       os_unlink = (\<lambda>p n. n), os_cancelEvent = (\<lambda>fd e n. Inr (False, n)), os_cancelAll = (\<lambda>fd n. Inr (False, n)) \<rparr>"

definition plain_open :: "int list \<times> nat \<Rightarrow> int set" where
  "plain_open n = {fd \<in> set (fst n). 0 \<le> fd \<and> fd < int (snd n)}"

lemma plain_os_law: "sock_law plain_os plain_open"
  by (auto simp: sock_law_def plain_os_def plain_open_def fresh_fd_def split: prod.splits)

subsection \<open>Properties\<close>

text \<open>
  C21: a socket touches no descriptor but its own. When its descriptor is open, \<open>connect\<close>, \<open>reconnect\<close>
  and \<open>bind\<close>, the probe of a Unix path included, whether they succeed or fail, leave every other
  descriptor as it was and the socket with an open descriptor or none; a successful \<open>connect\<close> leaves
  it connected; \<open>close\<close> leaves it with none and not connected.
\<close>

theorem socket_ownership:
  assumes L: "sock_law os opn" and o: "owned s \<subseteq> opn n"
  shows "(case connect os bo addr tm s n of (b, s', n') \<Rightarrow>
           owned s' \<subseteq> opn n' \<and> opn n' - owned s' = opn n - owned s \<and> (b \<longrightarrow> m_isConnected s' \<and> isValid s'))
      \<and> (case reconnect os bo tm s n of (b, s', n') \<Rightarrow>
           owned s' \<subseteq> opn n' \<and> opn n' - owned s' = opn n - owned s \<and> (b \<longrightarrow> m_isConnected s' \<and> isValid s'))
      \<and> (case bind os bo addr s n of (b, s', n') \<Rightarrow>
           owned s' \<subseteq> opn n' \<and> opn n' - owned s' = opn n - owned s \<and> m_isConnected s' = m_isConnected s)
      \<and> (case close_sock os s n of (b, s', n') \<Rightarrow>
           owned s' = {} \<and> opn n' = opn n - owned s \<and> \<not> m_isConnected s' \<and> \<not> isValid s')"
proof (intro conjI)
  have conn: "owned s' \<subseteq> opn n' \<and> opn n' - owned s' = opn n - owned s \<and> (b \<longrightarrow> m_isConnected s' \<and> isValid s')"
    if "connect os bo a tm t n = (b, s', n')" "owned t = owned s" for a t b s' n'
    using connect_owns [OF L that(1)] o that(2) by (simp add: owns_step_def isValid_def)
  show "case connect os bo addr tm s n of (b, s', n') \<Rightarrow>
      owned s' \<subseteq> opn n' \<and> opn n' - owned s' = opn n - owned s \<and> (b \<longrightarrow> m_isConnected s' \<and> isValid s')"
    using conn by (auto split: prod.splits)
  show "case reconnect os bo tm s n of (b, s', n') \<Rightarrow>
      owned s' \<subseteq> opn n' \<and> opn n' - owned s' = opn n - owned s \<and> (b \<longrightarrow> m_isConnected s' \<and> isValid s')"
  proof (cases "m_remoteAddress s")
    case (Some a)
    have "owned (s\<lparr>m_localAddress := None\<rparr>) = owned s" by (simp add: owned_def)
    then show ?thesis using conn Some by (auto simp: reconnect_def split: prod.splits)
  qed (simp add: reconnect_def o)
  show "case bind os bo addr s n of (b, s', n') \<Rightarrow>
      owned s' \<subseteq> opn n' \<and> opn n' - owned s' = opn n - owned s \<and> m_isConnected s' = m_isConnected s"
    using bind_owns [OF L] o by (fastforce simp: owns_step_def)
  obtain b s' n' where c: "close_sock os s n = (b, s', n')" by (metis prod.exhaust)
  show "case close_sock os s n of (b, s', n') \<Rightarrow>
      owned s' = {} \<and> opn n' = opn n - owned s \<and> \<not> m_isConnected s' \<and> \<not> isValid s'"
    using close_owns [OF L c] o c by (simp add: owns_step_def isValid_def)
qed

theorem socket_ownership_witness:
  "case connect plain_os FISHJOY_BIG_ENDIAN (IPv6Address IPv6_any) 5 CreateTCPSocket6 ([4], 9) of (b, s', n') \<Rightarrow>
     owned s' \<subseteq> plain_open n' \<and> plain_open n' - owned s' = {4}"
proof -
  have "owned CreateTCPSocket6 \<subseteq> plain_open ([4], 9)" "plain_open ([4], 9) - owned CreateTCPSocket6 = {4}"
    by (auto simp: owned_def CreateTCPSocket6_def new_Socket_def plain_open_def)
  with socket_ownership [OF plain_os_law this(1), of FISHJOY_BIG_ENDIAN "IPv6Address IPv6_any" 5]
  show ?thesis by (auto split: prod.splits)
qed

text \<open>
  \<open>accept\<close> opens exactly the descriptor the system returns. The new socket owns it and is
  connected; but when the descriptor has no active context in the descriptor table, \<open>accept\<close>
  returns no socket and the descriptor stays open with no owner.
\<close>

theorem accept_descriptor:
  assumes "sock_law os opn" "os_accept os (m_sock s) n = (fd, n1)" "fd \<noteq> - 1"
  shows "opn (snd (accept os bo s n)) = insert fd (opn n) \<and> fd \<notin> opn n
      \<and> (if active_socket (os_fdctx os fd n1)
         then \<exists>t. fst (accept os bo s n) = Some t \<and> owned t = {fd} \<and> m_isConnected t
         else fst (accept os bo s n) = None)"
proof -
  obtain r n' where a: "accept os bo s n = (r, n')" by (rule prod.exhaust)
  show ?thesis
  proof (cases "active_socket (os_fdctx os fd n1)")
    case True
    then show ?thesis using accept_owns [OF assms(1,2) a] assms(3) a by (auto split: option.splits)
  next
    case False
    have "r = None" using a assms(2,3) False by (auto simp: accept_def init_sock_def Let_def split: if_splits)
    then show ?thesis using accept_owns [OF assms(1,2) a] assms(3) a False by simp
  qed
qed

theorem accept_descriptor_witness:
  "\<exists>os :: (int list \<times> nat) os. plain_open (snd (accept os 0 CreateTCPSocket ([], 3))) = {3}
     \<and> fst (accept os 0 CreateTCPSocket ([], 3)) = None"
proof -
  let ?os = "plain_os\<lparr>os_accept := \<lambda>fd (l, nx). (int nx, int nx # l, nx + 1)\<rparr>"
  have "sock_law ?os plain_open"
    by (auto simp: sock_law_def plain_os_def plain_open_def fresh_fd_def split: prod.splits)
  moreover have "os_accept ?os (m_sock CreateTCPSocket) ([], 3) = (3, [3], 4)" by simp
  ultimately have "plain_open (snd (accept ?os 0 CreateTCPSocket ([], 3))) = insert 3 (plain_open ([], 3))
      \<and> fst (accept ?os 0 CreateTCPSocket ([], 3)) = None"
    using accept_descriptor [of ?os plain_open CreateTCPSocket "([], 3)" 3 "([3], 4)" 0]
    by (simp add: active_socket_def plain_os_def)
  then show ?thesis by (intro exI [of _ ?os]) (simp add: plain_open_def)
qed

text \<open>
  Timeouts round-trip through three components. On a descriptor in the table, with hooking on,
  a timeout of up to \<open>2^31 - 1\<close> milliseconds set on the socket is split into a \<open>timeval\<close>, joined again by
  the hooked \<open>setsockopt\<close>, stored in the descriptor's context and read back unchanged; the other
  direction's timeout is kept.
\<close>

theorem timeout_roundtrip:
  assumes "hook_enable h" "fdm_inv (fds h)" "lookup_fd (m_sock s) (fds h) = Inr (Some ctx)" "0 \<le> v" "v < 2 ^ 31"
  shows "(\<exists>r h'. setSendTimeout kn v s h = Inr (r, h') \<and> getSendTimeout s h' = Inr v
            \<and> getRecvTimeout s h' = getRecvTimeout s h)
      \<and> (\<exists>r h'. setRecvTimeout kn v s h = Inr (r, h') \<and> getRecvTimeout s h' = Inr v
            \<and> getSendTimeout s h' = getSendTimeout s h)"
proof -
  note L = lookup_fd_inv [OF assms(2,3)]
  have t: "sint (of_int (fst (timeval_of v) * 1000 + cdiv (snd (timeval_of v)) 1000) :: u64) = v"
    unfolding timeval_of_small [OF assms(4,5)] using assms(4,5) by (intro sint_of_int_small) simp_all
  have look: "lookup_fd (m_sock s) ((fds h)[nat (m_sock s) := Some c]) = Inr (Some c)" for c
    using L(2,3) by (simp add: lookup_fd_nonneg)
  show ?thesis
    using t assms(1,3)
    by (simp add: setSendTimeout_def setRecvTimeout_def getSendTimeout_def getRecvTimeout_def hook_setsockopt_def
        SO_RCVTIMEO_def SO_SNDTIMEO_def Let_def setTimeout_def getTimeout_def look split: prod.splits)
qed

theorem timeout_roundtrip_witness:
  "\<exists>r h'. setSendTimeout flag_kernel 2500 (CreateTCPSocket\<lparr>m_sock := 7\<rparr>)
      \<lparr> hook_enable = True, fds = new_FdManager[7 := Some (fst (new_FdCtx flag_kernel 7 (\<lambda>_. 0)))], kstate = (\<lambda>_. 0) \<rparr>
      = Inr (r, h') \<and> getSendTimeout (CreateTCPSocket\<lparr>m_sock := 7\<rparr>) h' = Inr 2500"
proof -
  let ?c = "fst (new_FdCtx flag_kernel 7 (\<lambda>_. 0))"
  let ?h = "\<lparr> hook_enable = True, fds = new_FdManager[7 := Some ?c], kstate = (\<lambda>_. 0) \<rparr>"
  have "fdm_inv (new_FdManager[7 := Some ?c])"
    by (rule update_inv [OF new_FdManager_inv]) (simp add: new_FdCtx_fd)
  moreover have "lookup_fd 7 (new_FdManager[7 := Some ?c]) = Inr (Some ?c)"
    by (simp add: lookup_fd_nonneg new_FdManager_def)
  ultimately show ?thesis
    using timeout_roundtrip [of ?h "CreateTCPSocket\<lparr>m_sock := 7\<rparr>" ?c 2500 flag_kernel] by fastforce
qed

end
