(* ===== verification/Streams.thy ===== *)
theory Streams
  imports Socket ByteArrayBuffers
begin

text \<open>
  Streams: \<open>src/streams/stream.cpp\<close>, \<open>src/streams/socket_stream.cpp\<close> and their headers.

  The fixed-size transfers of \<open>Stream\<close> call the virtual \<open>read\<close> and \<open>write\<close> in a loop; the loop is a
  function of that operation. An operation takes the offset in the caller's buffer, the length and
  the state it works on; the overloads on a \<open>ByteArray\<close> keep their position in the array and do not
  use the offset. \<open>&iovs[0]\<close> of an empty vector is read as an empty range.
\<close>

subsection \<open>Fixed-size transfers\<close>

type_synonym 's stream_fun = "nat \<Rightarrow> nat \<Rightarrow> 's \<Rightarrow> (int \<times> 's) result"

text \<open>The loop: it ends with the value of a call that was not positive, or with nothing left.\<close>

function fix_loop :: "'s stream_fun \<Rightarrow> nat \<Rightarrow> int \<Rightarrow> 's \<Rightarrow> (int option \<times> 's) result" where
  "fix_loop op offset left s =
     (if left > 0 then
        (case op offset (nat left) s of
           Inl e \<Rightarrow> Inl e
         | Inr (len, s') \<Rightarrow>
             if len \<le> 0 then Inr (Some len, s')
             else fix_loop op (offset + nat len) (left - len) s')
      else Inr (None, s))"
  by pat_completeness auto
termination
  by (relation "measure (\<lambda>(op, offset, left, s). nat left)") auto

declare fix_loop.simps [simp del]

definition fix_size :: "'s stream_fun \<Rightarrow> nat \<Rightarrow> 's \<Rightarrow> (int \<times> 's) result" where
  "fix_size op len s =
     rbind (fix_loop op 0 (int64 (int len)) s) (\<lambda>(r, s').
       Inr (case r of Some v \<Rightarrow> int32 v | None \<Rightarrow> int32 (int len), s'))"

subsection \<open>Socket streams\<close>

record socket_stream =
  m_socket :: "sock option"
  m_owner :: bool

definition stream_isConnected :: "socket_stream \<Rightarrow> bool" where
  "stream_isConnected ss = (case m_socket ss of None \<Rightarrow> False | Some s \<Rightarrow> m_isConnected s)"

definition stream_close :: "'n os \<Rightarrow> socket_stream \<Rightarrow> 'n \<Rightarrow> socket_stream \<times> 'n" where
  "stream_close os ss n =
     (case m_socket ss of None \<Rightarrow> (ss, n)
      | Some s \<Rightarrow> (let (_, s', n') = close_sock os s n in (ss\<lparr>m_socket := Some s'\<rparr>, n')))"

definition delete_SocketStream :: "'n os \<Rightarrow> socket_stream \<Rightarrow> 'n \<Rightarrow> 'n" where
  "delete_SocketStream os ss n =
     (if m_owner ss \<and> m_socket ss \<noteq> None then snd (stream_close os ss n) else n)"

text \<open>\<open>read(void*, size_t)\<close> and \<open>write(const void*, size_t)\<close> at an offset of the caller's buffer.\<close>

definition stream_read :: "'n os \<Rightarrow> socket_stream \<Rightarrow> (byte list \<times> 'n) stream_fun" where
  "stream_read os ss offset len st =
     (let (buf, n) = st in
      case m_socket ss of None \<Rightarrow> Inr (- 1, buf, n)
      | Some s \<Rightarrow>
          if \<not> m_isConnected s then Inr (- 1, buf, n)
          else let (rt, bs, n') = recv os len 0 s n in
            if offset + length bs > length buf then Inl Bad_access
            else Inr (rt, overwrite offset bs buf, n'))"

definition stream_write :: "'n os \<Rightarrow> socket_stream \<Rightarrow> (byte list \<times> 'n) stream_fun" where
  "stream_write os ss offset len st =
     (let (buf, n) = st in
      case m_socket ss of None \<Rightarrow> Inr (- 1, buf, n)
      | Some s \<Rightarrow>
          if \<not> m_isConnected s then Inr (- 1, buf, n)
          else if offset + len > length buf then Inl Bad_access
          else let (rt, n') = send os (slice_of offset len buf) 0 s n in Inr (rt, buf, n'))"

text \<open>\<open>read(ByteArray::ptr, size_t)\<close> and \<open>write(ByteArray::ptr, size_t)\<close>.\<close>

definition stream_read_ba :: "'n os \<Rightarrow> socket_stream \<Rightarrow> (bytearray \<times> 'n) stream_fun" where
  "stream_read_ba os ss _ len st =
     (let (ba, n) = st in
      case m_socket ss of None \<Rightarrow> Inr (- 1, ba, n)
      | Some s \<Rightarrow>
          if \<not> m_isConnected s then Inr (- 1, ba, n)
          else rbind (getWriteBuffers [] len ba) (\<lambda>(_, iovs, ba).
            let (rt, bs, n') = recv os (sum_list (map (\<lambda>(_, _, k). k) iovs)) 0 s n;
                ba = ba\<lparr>m_root := scatter (m_root ba) iovs bs\<rparr>
            in if rt > 0 then rbind (setPosition (m_position ba + nat rt) ba) (\<lambda>ba. Inr (rt, ba, n'))
               else Inr (rt, ba, n')))"

definition stream_write_ba :: "'n os \<Rightarrow> socket_stream \<Rightarrow> (bytearray \<times> 'n) stream_fun" where
  "stream_write_ba os ss _ len st =
     (let (ba, n) = st in
      case m_socket ss of None \<Rightarrow> Inr (- 1, ba, n)
      | Some s \<Rightarrow>
          if \<not> m_isConnected s then Inr (- 1, ba, n)
          else rbind (getReadBuffers [] len ba) (\<lambda>(_, iovs).
            let (rt, n') = send os (gather (m_root ba) iovs) 0 s n
            in if rt > 0 then rbind (setPosition (m_position ba + nat rt) ba) (\<lambda>ba. Inr (rt, ba, n'))
               else Inr (rt, ba, n')))"

definition readFixSize :: "'n os \<Rightarrow> socket_stream \<Rightarrow> nat \<Rightarrow> byte list \<times> 'n \<Rightarrow> (int \<times> byte list \<times> 'n) result" where
  "readFixSize os ss len st = fix_size (stream_read os ss) len st"
definition readFixSize_ba :: "'n os \<Rightarrow> socket_stream \<Rightarrow> nat \<Rightarrow> bytearray \<times> 'n \<Rightarrow> (int \<times> bytearray \<times> 'n) result" where
  "readFixSize_ba os ss len st = fix_size (stream_read_ba os ss) len st"
definition writeFixSize :: "'n os \<Rightarrow> socket_stream \<Rightarrow> nat \<Rightarrow> byte list \<times> 'n \<Rightarrow> (int \<times> byte list \<times> 'n) result" where
  "writeFixSize os ss len st = fix_size (stream_write os ss) len st"
definition writeFixSize_ba :: "'n os \<Rightarrow> socket_stream \<Rightarrow> nat \<Rightarrow> bytearray \<times> 'n \<Rightarrow> (int \<times> bytearray \<times> 'n) result" where
  "writeFixSize_ba os ss len st = fix_size (stream_write_ba os ss) len st"

definition stream_remote :: "'n os \<Rightarrow> nat \<Rightarrow> socket_stream \<Rightarrow> 'n \<Rightarrow> address option" where
  "stream_remote os bo ss n = (case m_socket ss of None \<Rightarrow> None | Some s \<Rightarrow> Some (fst (getRemoteAddress os bo s n)))"
definition stream_local :: "'n os \<Rightarrow> nat \<Rightarrow> socket_stream \<Rightarrow> 'n \<Rightarrow> address option" where
  "stream_local os bo ss n = (case m_socket ss of None \<Rightarrow> None | Some s \<Rightarrow> Some (fst (getLocalAddress os bo s n)))"
definition getRemoteAddressString :: "'n os \<Rightarrow> nat \<Rightarrow> socket_stream \<Rightarrow> 'n \<Rightarrow> string" where
  "getRemoteAddressString os bo ss n =
     (case stream_remote os bo ss n of None \<Rightarrow> [] | Some a \<Rightarrow> insert_address bo a)"
definition getLocalAddressString :: "'n os \<Rightarrow> nat \<Rightarrow> socket_stream \<Rightarrow> 'n \<Rightarrow> string" where
  "getLocalAddressString os bo ss n =
     (case stream_local os bo ss n of None \<Rightarrow> [] | Some a \<Rightarrow> insert_address bo a)"

subsection \<open>The contract of a stream operation\<close>

text \<open>
  One call either moves a non-empty prefix of what was asked for and says how long it is, or moves
  nothing and returns a value that is not positive. \<open>moved bs off s s'\<close> says that the call took \<open>s\<close> to \<open>s'\<close> by
  moving \<open>bs\<close> at offset \<open>off\<close>; \<open>ready off n s\<close> that a call for \<open>n\<close> bytes at \<open>off\<close> may be made. From it
  follows what the loop does, for every stream.
\<close>

locale stream_op =
  fixes op :: "'s stream_fun"
    and moved :: "byte list \<Rightarrow> nat \<Rightarrow> 's \<Rightarrow> 's \<Rightarrow> bool"
    and ready :: "nat \<Rightarrow> nat \<Rightarrow> 's \<Rightarrow> bool"
  assumes call: "ready off n s \<Longrightarrow> 0 < n \<Longrightarrow> n < 2 ^ 31 \<Longrightarrow>
      \<exists>r bs s'. op off n s = Inr (r, s') \<and> moved bs off s s' \<and> - 1 \<le> r \<and> r \<le> int n
        \<and> length bs = nat r \<and> ready (off + length bs) (n - length bs) s'"
    and moved_refl: "ready off n s \<Longrightarrow> moved [] off s s"
    and moved_trans: "moved as off s s1 \<Longrightarrow> moved bs (off + length as) s1 s2 \<Longrightarrow> moved (as @ bs) off s s2"
begin

lemma fix_loop_moves:
  "ready off n s \<Longrightarrow> n < 2 ^ 31 \<Longrightarrow>
    \<exists>r bs s'. fix_loop op off (int n) s = Inr (r, s') \<and> moved bs off s s'
      \<and> (case r of None \<Rightarrow> length bs = n | Some v \<Rightarrow> - 1 \<le> v \<and> v \<le> 0 \<and> length bs < n)"
proof (induction n arbitrary: off s rule: less_induct)
  case (less n)
  show ?case
  proof (cases "n = 0")
    case True
    then have "fix_loop op off (int n) s = Inr (None, s)" by (subst fix_loop.simps) simp
    then show ?thesis using moved_refl [OF less.prems(1)] True by fastforce
  next
    case False
    then obtain r bs s1 where c: "op off n s = Inr (r, s1)" "moved bs off s s1" "- 1 \<le> r" "r \<le> int n"
        "length bs = nat r" "ready (off + length bs) (n - length bs) s1"
      using call [OF less.prems(1)] less.prems(2) by blast
    show ?thesis
    proof (cases "r \<le> 0")
      case True
      then have "fix_loop op off (int n) s = Inr (Some r, s1)"
        using False c(1) by (subst fix_loop.simps) simp
      then show ?thesis using c(2,3,5) True False by fastforce
    next
      case pos: False
      have step: "fix_loop op off (int n) s = fix_loop op (off + length bs) (int (n - length bs)) s1"
        using False pos c(1,4,5) by (subst fix_loop.simps) (simp add: of_nat_diff nat_le_iff)
      have "n - length bs < n" "n - length bs < 2 ^ 31" using pos c(5) False less.prems(2) by auto
      from less.IH [OF this(1) c(6) this(2)] obtain r' bs' s' where
        i: "fix_loop op (off + length bs) (int (n - length bs)) s1 = Inr (r', s')" "moved bs' (off + length bs) s1 s'"
           "case r' of None \<Rightarrow> length bs' = n - length bs | Some v \<Rightarrow> - 1 \<le> v \<and> v \<le> 0 \<and> length bs' < n - length bs"
        by blast
      have "length bs \<le> n" using c(4,5) by (simp add: nat_le_iff)
      then have "case r' of None \<Rightarrow> length (bs @ bs') = n | Some v \<Rightarrow> - 1 \<le> v \<and> v \<le> 0 \<and> length (bs @ bs') < n"
        using i(3) by (cases r') auto
      then show ?thesis using step i(1) moved_trans [OF c(2) i(2)] by (intro exI [of _ r'] exI [of _ "bs @ bs'"]) auto
    qed
  qed
qed

lemma fix_size_moves:
  assumes "ready 0 n s" "n < 2 ^ 31"
  shows "\<exists>r bs s'. fix_size op n s = Inr (r, s') \<and> moved bs 0 s s'
      \<and> (r = int n \<and> length bs = n \<or> (r = 0 \<or> r = - 1) \<and> length bs < n)"
proof -
  obtain r bs s' where l: "fix_loop op 0 (int n) s = Inr (r, s')" "moved bs 0 s s'"
      "case r of None \<Rightarrow> length bs = n | Some v \<Rightarrow> - 1 \<le> v \<and> v \<le> 0 \<and> length bs < n"
    using fix_loop_moves [OF assms] by blast
  have n: "int64 (int n) = int n" "int32 (int n) = int n" using assms(2) by (simp_all add: int64_id int32_id)
  show ?thesis
  proof (cases r)
    case None
    then show ?thesis using l n by (auto simp: fix_size_def)
  next
    case (Some v)
    then have v: "int32 v = v" "v = 0 \<or> v = - 1" using l(3) by (auto simp: int32_id)
    then show ?thesis using l n Some by (auto simp: fix_size_def)
  qed
qed

end

subsection \<open>Socket streams meet the contract\<close>

text \<open>
  What \<open>recv\<close> and \<open>send\<close> promise: \<open>inc fd n\<close> are the bytes waiting at a descriptor, \<open>outg fd n\<close> those sent
  through it. A call returns -1, or the number of bytes it took from the front of the waiting
  ones, or appended to the sent ones, at most as many as it was given.
\<close>

definition data_law :: "'n os \<Rightarrow> (int \<Rightarrow> 'n \<Rightarrow> byte list) \<Rightarrow> (int \<Rightarrow> 'n \<Rightarrow> byte list) \<Rightarrow> bool" where
  "data_law os inc outg \<longleftrightarrow>
     (\<forall>fd len fl n r bs n'. os_recv os fd len fl n = (r, bs, n') \<longrightarrow>
        - 1 \<le> r \<and> r \<le> int len \<and> length bs = nat r \<and> inc fd n = bs @ inc fd n')
     \<and> (\<forall>fd bs fl n r n'. os_send os fd bs None fl n = (r, n') \<longrightarrow>
        - 1 \<le> r \<and> r \<le> int (length bs) \<and> outg fd n' = outg fd n @ take (nat r) bs)"

definition stream_fd :: "socket_stream \<Rightarrow> int" where
  "stream_fd ss = (case m_socket ss of None \<Rightarrow> - 1 | Some s \<Rightarrow> m_sock s)"

lemma recv_law:
  assumes "data_law os inc outg" "len < 2 ^ 31" "recv os len 0 s n = (r, bs, n')" "m_isConnected s"
  shows "- 1 \<le> r" "r \<le> int len" "length bs = nat r" "inc (m_sock s) n = bs @ inc (m_sock s) n'"
proof -
  obtain r0 bs0 n0 where o: "os_recv os (m_sock s) len 0 n = (r0, bs0, n0)" by (metis prod.exhaust)
  then have l: "- 1 \<le> r0" "r0 \<le> int len" "length bs0 = nat r0" "inc (m_sock s) n = bs0 @ inc (m_sock s) n0"
    using assms(1) unfolding data_law_def by blast+
  then have "int32 r0 = r0" using assms(2) by (intro int32_id) simp_all
  then show "- 1 \<le> r" "r \<le> int len" "length bs = nat r" "inc (m_sock s) n = bs @ inc (m_sock s) n'"
    using assms(3,4) o l by (auto simp: recv_def)
qed

lemma send_law:
  assumes "data_law os inc outg" "length bs < 2 ^ 31" "send os bs 0 s n = (r, n')" "m_isConnected s"
  shows "- 1 \<le> r" "r \<le> int (length bs)" "outg (m_sock s) n' = outg (m_sock s) n @ take (nat r) bs"
proof -
  obtain r0 n0 where o: "os_send os (m_sock s) bs None 0 n = (r0, n0)" by (rule prod.exhaust)
  then have l: "- 1 \<le> r0" "r0 \<le> int (length bs)" "outg (m_sock s) n0 = outg (m_sock s) n @ take (nat r0) bs"
    using assms(1) unfolding data_law_def by blast+
  then have "int32 r0 = r0" using assms(2) by (intro int32_id) simp_all
  then show "- 1 \<le> r" "r \<le> int (length bs)" "outg (m_sock s) n' = outg (m_sock s) n @ take (nat r) bs"
    using assms(3,4) o l by (auto simp: send_def)
qed

lemma stream_cases:
  obtains (off) "\<not> stream_isConnected ss"
    | (on) s where "m_socket ss = Some s" "m_isConnected s" "stream_fd ss = m_sock s"
  by (cases "m_socket ss") (auto simp: stream_isConnected_def stream_fd_def)

lemma stream_off:
  assumes "\<not> stream_isConnected ss"
  shows "stream_read os ss off len st = Inr (- 1, st)" "stream_write os ss off len st = Inr (- 1, st)"
    "stream_read_ba os ss off len st' = Inr (- 1, st')" "stream_write_ba os ss off len st' = Inr (- 1, st')"
  using assms
  by (auto simp: stream_isConnected_def stream_read_def stream_write_def stream_read_ba_def stream_write_ba_def
      split: option.splits prod.splits)

text \<open>The states between which each operation moves bytes.\<close>

definition read_moved where
  "read_moved os ss inc bs off st st' \<longleftrightarrow>
     inc (stream_fd ss) (snd st) = bs @ inc (stream_fd ss) (snd st')
     \<and> off + length bs \<le> length (fst st) \<and> fst st' = overwrite off bs (fst st)"

definition write_moved where
  "write_moved os ss outg bs off st st' \<longleftrightarrow>
     outg (stream_fd ss) (snd st') = outg (stream_fd ss) (snd st) @ bs
     \<and> off + length bs \<le> length (fst st) \<and> slice_of off (length bs) (fst st) = bs \<and> fst st' = fst st"

definition read_ba_moved where
  "read_ba_moved os ss inc bs (off :: nat) st st' \<longleftrightarrow>
     inc (stream_fd ss) (snd st) = bs @ inc (stream_fd ss) (snd st')
     \<and> ba_inv (fst st) \<and> ba_inv (fst st') \<and> m_position (fst st') = m_position (fst st) + length bs
     \<and> ba_data (fst st') = overwrite (m_position (fst st)) bs (ba_data (fst st))"

definition write_ba_moved where
  "write_ba_moved os ss outg bs (off :: nat) st st' \<longleftrightarrow>
     outg (stream_fd ss) (snd st') = outg (stream_fd ss) (snd st) @ bs
     \<and> ba_inv (fst st') \<and> m_position (fst st') = m_position (fst st) + length bs
     \<and> m_size (fst st') = m_size (fst st)
     \<and> ba_data (fst st') = ba_data (fst st) \<and> slice_of (m_position (fst st)) (length bs) (ba_data (fst st)) = bs"

interpretation buffer_read: stream_op "stream_read os ss" "read_moved os ss inc"
    "\<lambda>off n st. data_law os inc outg \<and> off + n \<le> length (fst st)" for os ss inc outg
proof (unfold_locales, goal_cases)
  case (1 off n st)
  obtain buf n0 where st: "st = (buf, n0)" by (rule prod.exhaust)
  show ?case
  proof (cases rule: stream_cases [of ss])
    case off
    then show ?thesis using 1 by (auto simp: stream_off read_moved_def)
  next
    case (on s)
    obtain r bs n1 where r: "recv os n 0 s n0 = (r, bs, n1)" by (metis prod.exhaust)
    note l = recv_law [OF conjunct1 [OF 1(1)] 1(3) r on(2)]
    have fit: "off + length bs \<le> length buf" using 1(1) l(2,3) st by auto
    then have "stream_read os ss off n st = Inr (r, overwrite off bs buf, n1)"
      using on r st by (simp add: stream_read_def)
    then show ?thesis
      using 1(1) l fit on(3) st by (auto simp: read_moved_def)
  qed
next
  case (3 as off s s1 bs s2)
  then show ?case by (auto simp: read_moved_def overwrite_append length_overwrite)
qed (simp add: read_moved_def)

interpretation buffer_write: stream_op "stream_write os ss" "write_moved os ss outg"
    "\<lambda>off n st. data_law os inc outg \<and> off + n \<le> length (fst st)" for os ss inc outg
proof (unfold_locales, goal_cases)
  case (1 off n st)
  obtain buf n0 where st: "st = (buf, n0)" by (rule prod.exhaust)
  show ?case
  proof (cases rule: stream_cases [of ss])
    case off
    then show ?thesis using 1 by (auto simp: stream_off write_moved_def)
  next
    case (on s)
    let ?b = "slice_of off n buf"
    obtain r n1 where r: "send os ?b 0 s n0 = (r, n1)" by (rule prod.exhaust)
    have len: "length ?b = n" using 1(1) st by auto
    note l = send_law [OF conjunct1 [OF 1(1)] _ r on(2), unfolded len, OF 1(3)]
    have "stream_write os ss off n st = Inr (r, buf, n1)"
      using on r st 1(1) by (simp add: stream_write_def)
    moreover have "nat r \<le> n" using l(2) by (simp add: nat_le_iff)
    then have "take (nat r) ?b = slice_of off (nat r) buf" "length (take (nat r) ?b) = nat r"
      using len by (simp_all add: slice_of_def)
    ultimately show ?thesis
      using 1(1) l on(3) st by (intro exI [of _ r] exI [of _ "take (nat r) ?b"]) (auto simp: write_moved_def)
  qed
next
  case (3 as off s s1 bs s2)
  then show ?case by (auto simp: write_moved_def slice_of_split)
qed (simp add: write_moved_def)

lemma scatter_Nil [simp]: "scatter nodes iovs [] = nodes"
  by (induction nodes iovs "[] :: byte list" rule: scatter.induct) simp_all

lemma iov_covers_total: "iov_covers k N a b iovs \<Longrightarrow> a + sum_list (map (\<lambda>(_, _, n). n) iovs) = b"
  by (induction k N a b iovs rule: iov_covers.induct) auto

interpretation array_read: stream_op "stream_read_ba os ss" "read_ba_moved os ss inc"
    "\<lambda>off n st. data_law os inc outg \<and> ba_inv (fst st)" for os ss inc outg
proof (unfold_locales, goal_cases)
  case (1 off n st)
  obtain ba n0 where st: "st = (ba, n0)" by (rule prod.exhaust)
  have inv: "ba_inv ba" using 1(1) st by simp
  then have pos: "m_position ba \<le> length (ba_data ba)"
    using ba_invD(5,6) [OF inv] length_ba_mem [OF inv] by (simp add: ba_data_def)
  show ?case
  proof (cases rule: stream_cases [of ss])
    case off
    then show ?thesis using 1 by (auto simp: stream_off read_ba_moved_def)
  next
    case (on s)
    obtain iovs ba1 where g: "getWriteBuffers [] n ba = Inr (n, iovs, ba1)" "ba_inv ba1"
        "ba_data ba1 = ba_data ba" "m_position ba1 = m_position ba" "m_position ba1 + n \<le> m_capacity ba1"
        "iov_covers (m_baseSize ba1) (length (m_root ba1)) (m_position ba1) (m_position ba1 + n) iovs"
      using getWriteBuffers_ok [OF inv, of "[]" n] by auto
    have tot: "sum_list (map (\<lambda>(_, _, k). k) iovs) = n" using iov_covers_total [OF g(6)] by simp
    obtain r bs n1 where r: "recv os n 0 s n0 = (r, bs, n1)" by (metis prod.exhaust)
    note l = recv_law [OF conjunct1 [OF 1(1)] 1(3) r on(2)]
    have fit: "length bs \<le> n" using l(2,3) by simp
    obtain ba2 where w: "setPosition (m_position ba1 + length bs) (ba1\<lparr>m_root := scatter (m_root ba1) iovs bs\<rparr>) = Inr ba2"
        "ba_inv ba2" "m_position ba2 = m_position ba1 + length bs"
        "ba_data ba2 = overwrite (m_position ba1) bs (ba_data ba1)"
      using recv_is_write [OF g(2) fit g(6,5)] by blast
    have run: "stream_read_ba os ss off n st = (if r > 0 then Inr (r, ba2, n1) else Inr (r, ba1, n1))"
    proof (cases "r > 0")
      case True
      then have "nat r = length bs" using l(3) by simp
      then show ?thesis using on g(1) tot r w(1) st True by (simp add: stream_read_ba_def)
    next
      case False
      then have "bs = []" using l(3) by simp
      then show ?thesis using on g(1) tot r st False by (simp add: stream_read_ba_def)
    qed
    show ?thesis
    proof (cases "r > 0")
      case True
      then show ?thesis
        using run l on(3) st 1(1) inv w g(3,4) by (intro exI [of _ r] exI [of _ bs]) (simp add: read_ba_moved_def)
    next
      case False
      then have "bs = []" using l(3) by simp
      then show ?thesis
        using False run l on(3) st 1(1) inv g(2-4)
        by (intro exI [of _ r] exI [of _ bs]) (simp add: read_ba_moved_def)
    qed
  qed
next
  case (3 as off s s1 bs s2)
  have "m_position (fst s) \<le> length (ba_data (fst s))"
    using 3(1) ba_invD(5,6) [of "fst s"] length_ba_mem [of "fst s"] by (simp add: read_ba_moved_def ba_data_def)
  then show ?case using 3 by (simp add: read_ba_moved_def overwrite_append)
qed (simp add: read_ba_moved_def)

interpretation array_write: stream_op "stream_write_ba os ss" "write_ba_moved os ss outg"
    "\<lambda>off n st. data_law os inc outg \<and> ba_inv (fst st)" for os ss inc outg
proof (unfold_locales, goal_cases)
  case (1 off n st)
  obtain ba n0 where st: "st = (ba, n0)" by (rule prod.exhaust)
  have inv: "ba_inv ba" using 1(1) st by simp
  show ?case
  proof (cases rule: stream_cases [of ss])
    case off
    then show ?thesis using 1 by (auto simp: stream_off write_ba_moved_def)
  next
    case (on s)
    obtain m iovs where g: "getReadBuffers [] n ba = Inr (m, iovs)"
        "gather (m_root ba) iovs = slice_of (m_position ba) n (ba_data ba)"
      using getReadBuffers_ok [OF inv, of "[]" n] by auto
    let ?b = "slice_of (m_position ba) n (ba_data ba)"
    obtain r n1 where r: "send os ?b 0 s n0 = (r, n1)" by (rule prod.exhaust)
    have b: "length ?b \<le> n" "length ?b \<le> m_size ba - m_position ba"
      using ba_invD(6) [OF inv] length_ba_mem [OF inv] by (auto simp: ba_data_def)
    note l = send_law [OF conjunct1 [OF 1(1)] _ r on(2)]
    have l: "- 1 \<le> r" "r \<le> int (length ?b)" "outg (m_sock s) n1 = outg (m_sock s) n0 @ take (nat r) ?b"
      using l b(1) 1(3) by simp_all
    have fit: "nat r \<le> length ?b" "m_position ba + nat r \<le> m_size ba" using l(2) b(2) ba_invD(5) [OF inv] by linarith+
    then have tk: "take (nat r) ?b = slice_of (m_position ba) (nat r) (ba_data ba)" "length (take (nat r) ?b) = nat r"
      by (simp_all add: slice_of_def)
    have cap: "m_position ba + nat r \<le> m_capacity ba" using fit ba_invD(6) [OF inv] by simp
    obtain ba2 where w: "setPosition (m_position ba + nat r) ba = Inr ba2" "ba_inv ba2"
        "m_position ba2 = m_position ba + nat r" "m_size ba2 = max (m_size ba) (m_position ba + nat r)"
        "m_root ba2 = m_root ba"
      using setPosition_any [OF inv cap] by auto
    have dat: "ba_data ba2 = ba_data ba" "m_size ba2 = m_size ba"
      using w(4,5) fit by (simp_all add: ba_data_def ba_mem_def max_def)
    have run: "stream_write_ba os ss off n st = (if r > 0 then Inr (r, ba2, n1) else Inr (r, ba, n1))"
      using on g r w(1) st by (auto simp: stream_write_ba_def Let_def)
    show ?thesis
    proof (cases "r > 0")
      case True
      then show ?thesis
        using run l on(3) st 1(1) w(2,3) dat tk b(1) by (intro exI [of _ r] exI [of _ "take (nat r) ?b"])
          (simp add: write_ba_moved_def)
    next
      case False
      then show ?thesis
        using run l on(3) st 1(1) inv by (intro exI [of _ r] exI [of _ "[]"]) (simp add: write_ba_moved_def)
    qed
  qed
next
  case (3 as off s s1 bs s2)
  then show ?case by (simp add: write_ba_moved_def slice_of_split)
qed (simp add: write_ba_moved_def)

subsection \<open>Properties\<close>

lemma array_read_fix:
  assumes "data_law os inc outg" "ba_inv ba" "len < 2 ^ 31"
  shows "\<exists>r bs ba' n'. readFixSize_ba os ss len (ba, n) = Inr (r, ba', n')
      \<and> inc (stream_fd ss) n = bs @ inc (stream_fd ss) n'
      \<and> ba_inv ba' \<and> m_position ba' = m_position ba + length bs
      \<and> ba_data ba' = overwrite (m_position ba) bs (ba_data ba)
      \<and> (r = int len \<and> length bs = len \<or> (r = 0 \<or> r = - 1) \<and> length bs < len)"
  using array_read.fix_size_moves [of os inc outg "(ba, n)" len ss] assms
  by (auto simp: readFixSize_ba_def read_ba_moved_def)

lemma array_write_fix:
  assumes "data_law os inc outg" "ba_inv ba" "len < 2 ^ 31"
  shows "\<exists>r bs ba' n'. writeFixSize_ba os ss len (ba, n) = Inr (r, ba', n')
      \<and> outg (stream_fd ss) n' = outg (stream_fd ss) n @ bs
      \<and> ba_inv ba' \<and> ba_data ba' = ba_data ba \<and> m_position ba' = m_position ba + length bs
      \<and> slice_of (m_position ba) (length bs) (ba_data ba) = bs
      \<and> (r = int len \<and> length bs = len \<or> (r = 0 \<or> r = - 1) \<and> length bs < len)"
  using array_write.fix_size_moves [of os inc outg "(ba, n)" len ss] assms
  by (auto simp: writeFixSize_ba_def write_ba_moved_def)

text \<open>
  C13: a fixed-size transfer moves all or says so. Over a socket that moves any non-empty part of
  what it is given at each call, \<open>readFixSize\<close> and \<open>writeFixSize\<close> end; for a \<open>ByteArray\<close> and for a plain
  buffer alike they return the length exactly when all bytes have been moved, in order and to
  their place, and 0 or -1 when the peer closed or an error came first, with the bytes moved until
  then accounted for.
\<close>

theorem fixed_transfer:
  assumes "data_law os inc outg" "ba_inv ba" "len < 2 ^ 31" "len \<le> length buf"
  shows "(\<exists>r bs ba' n'. readFixSize_ba os ss len (ba, n) = Inr (r, ba', n')
        \<and> inc (stream_fd ss) n = bs @ inc (stream_fd ss) n'
        \<and> ba_inv ba' \<and> m_position ba' = m_position ba + length bs
        \<and> ba_data ba' = overwrite (m_position ba) bs (ba_data ba)
        \<and> (r = int len \<and> length bs = len \<or> (r = 0 \<or> r = - 1) \<and> length bs < len))
      \<and> (\<exists>r bs ba' n'. writeFixSize_ba os ss len (ba, n) = Inr (r, ba', n')
        \<and> outg (stream_fd ss) n' = outg (stream_fd ss) n @ bs
        \<and> ba_inv ba' \<and> ba_data ba' = ba_data ba \<and> m_position ba' = m_position ba + length bs
        \<and> slice_of (m_position ba) (length bs) (ba_data ba) = bs
        \<and> (r = int len \<and> length bs = len \<or> (r = 0 \<or> r = - 1) \<and> length bs < len))
      \<and> (\<exists>r bs buf' n'. readFixSize os ss len (buf, n) = Inr (r, buf', n')
        \<and> inc (stream_fd ss) n = bs @ inc (stream_fd ss) n' \<and> buf' = overwrite 0 bs buf
        \<and> (r = int len \<and> length bs = len \<or> (r = 0 \<or> r = - 1) \<and> length bs < len))
      \<and> (\<exists>r bs n'. writeFixSize os ss len (buf, n) = Inr (r, buf, n')
        \<and> outg (stream_fd ss) n' = outg (stream_fd ss) n @ bs \<and> take (length bs) buf = bs
        \<and> (r = int len \<and> length bs = len \<or> (r = 0 \<or> r = - 1) \<and> length bs < len))"
proof (intro conjI array_read_fix [OF assms(1-3)] array_write_fix [OF assms(1-3)])
  show "\<exists>r bs buf' n'. readFixSize os ss len (buf, n) = Inr (r, buf', n')
      \<and> inc (stream_fd ss) n = bs @ inc (stream_fd ss) n' \<and> buf' = overwrite 0 bs buf
      \<and> (r = int len \<and> length bs = len \<or> (r = 0 \<or> r = - 1) \<and> length bs < len)"
    using buffer_read.fix_size_moves [of os inc outg len "(buf, n)" ss] assms
    by (auto simp: readFixSize_def read_moved_def)
  show "\<exists>r bs n'. writeFixSize os ss len (buf, n) = Inr (r, buf, n')
      \<and> outg (stream_fd ss) n' = outg (stream_fd ss) n @ bs \<and> take (length bs) buf = bs
      \<and> (r = int len \<and> length bs = len \<or> (r = 0 \<or> r = - 1) \<and> length bs < len)"
    using buffer_write.fix_size_moves [of os inc outg len "(buf, n)" ss] assms
    by (auto simp: writeFixSize_def write_moved_def slice_of_def)
qed

text \<open>A network that moves one byte per call: the bytes waiting and the bytes sent.\<close>

definition byte_net :: "(byte list \<times> byte list) os" where
  "byte_net =
     \<lparr> os_socket = (\<lambda>f t p n. (3, n)), os_close = (\<lambda>fd n. (0, n)), os_accept = (\<lambda>fd n. (- 1, n)),
       os_bind = (\<lambda>fd a n. (0, n)), os_listen = (\<lambda>fd b n. (0, n)), os_connect = (\<lambda>fd a t n. (0, n)),
       os_setsockopt = (\<lambda>fd l q v n. (0, n)), os_getsockopt = (\<lambda>fd l q n. (0, 0)), os_errno = (\<lambda>n. 0),
       os_send = (\<lambda>fd bs a fl (i, out). (int (length (take 1 bs)), i, out @ take 1 bs)),
       os_recv = (\<lambda>fd l fl (i, out). let k = min 1 l in (int (length (take k i)), take k i, drop k i, out)),
       os_recvfrom = (\<lambda>fd l a fl n. (- 1, [], a, n)),
       os_getpeername = (\<lambda>fd a n. None), os_getsockname = (\<lambda>fd a n. None), os_fdctx = (\<lambda>fd n. None),
       os_unlink = (\<lambda>p n. n), os_cancelEvent = (\<lambda>fd e n. Inr (False, n)), os_cancelAll = (\<lambda>fd n. Inr (False, n)) \<rparr>"

lemma byte_net_law: "data_law byte_net (\<lambda>fd n. fst n) (\<lambda>fd n. snd n)"
  by (auto simp: data_law_def byte_net_def Let_def min_def take_Suc split: list.splits)

definition byte_stream :: socket_stream where
  "byte_stream = \<lparr> m_socket = Some (CreateTCPSocket\<lparr>m_sock := 3, m_isConnected := True\<rparr>), m_owner = True \<rparr>"

theorem fixed_transfer_witness:
  "\<exists>r bs ba' n'. readFixSize_ba byte_net byte_stream 5 (new_ByteArray (\<lambda>_. 0) 2, [1, 2, 3, 4, 5, 6], []) = Inr (r, ba', n')
     \<and> [1, 2, 3, 4, 5, 6] = bs @ fst n' \<and> ba_data ba' = bs"
proof -
  let ?ba = "new_ByteArray (\<lambda>_. 0) 2"
  have inv: "ba_inv ?ba" by (rule new_ByteArray_inv) simp
  have d: "ba_data ?ba = []" "m_position ?ba = 0" by (simp_all add: ba_data_def)
  from fixed_transfer [OF byte_net_law inv, of 5 "replicate 5 0" byte_stream "([1, 2, 3, 4, 5, 6], [])"]
  obtain r bs ba' n' where "readFixSize_ba byte_net byte_stream 5 (?ba, [1, 2, 3, 4, 5, 6], []) = Inr (r, ba', n')"
      "[1, 2, 3, 4, 5, 6] = bs @ fst n'" "ba_data ba' = overwrite (m_position ?ba) bs (ba_data ?ba)"
    by auto
  then show ?thesis using d by (auto simp: overwrite_def)
qed

text \<open>
  C26: what one end writes is what the other end reads. When \<open>writeFixSize\<close> of \<open>len\<close> bytes of one
  \<open>ByteArray\<close> returned \<open>len\<close>, and the bytes it sent are the first to arrive at the other end, and
  \<open>readFixSize\<close> of \<open>len\<close> bytes there returned \<open>len\<close>, then the second array holds, from where it was
  positioned, the bytes of the first, and both positions have advanced by \<open>len\<close>.
\<close>

theorem stream_end_to_end:
  assumes law: "data_law os inc outg" and inv: "ba_inv ba" "ba_inv ba2" and len: "len < 2 ^ 31" "0 < len"
    and wr: "writeFixSize_ba os ss len (ba, n) = Inr (int len, ba', n')"
    and net: "inc (stream_fd ss2) k = drop (length (outg (stream_fd ss) n)) (outg (stream_fd ss) n') @ rest"
    and rd: "readFixSize_ba os ss2 len (ba2, k) = Inr (int len, ba2', k')"
  shows "slice_of (m_position ba2) len (ba_data ba2') = slice_of (m_position ba) len (ba_data ba)
      \<and> m_position ba' = m_position ba + len \<and> m_position ba2' = m_position ba2 + len
      \<and> inc (stream_fd ss2) k' = rest"
proof -
  obtain bs where w: "outg (stream_fd ss) n' = outg (stream_fd ss) n @ bs" "length bs = len"
      "m_position ba' = m_position ba + len" "slice_of (m_position ba) len (ba_data ba) = bs"
    using array_write_fix [OF law inv(1) len(1), of ss n] wr len(2) by auto
  obtain bs2 where r: "inc (stream_fd ss2) k = bs2 @ inc (stream_fd ss2) k'" "length bs2 = len"
      "m_position ba2' = m_position ba2 + len" "ba_data ba2' = overwrite (m_position ba2) bs2 (ba_data ba2)"
    using array_read_fix [OF law inv(2) len(1), of ss2 k] rd len(2) by auto
  have eq: "bs2 = bs" "inc (stream_fd ss2) k' = rest" using net w(1,2) r(1,2) by simp_all
  have "m_position ba2 \<le> length (ba_data ba2)"
    using ba_invD(5,6) [OF inv(2)] length_ba_mem [OF inv(2)] by (simp add: ba_data_def)
  then have "slice_of (m_position ba2) len (ba_data ba2') = bs"
    using slice_of_overwrite_same [of "m_position ba2" "ba_data ba2" bs] r(4) eq(1) w(2) by simp
  then show ?thesis using w r eq by simp
qed

definition two_bytes :: bytearray where
  "two_bytes = (new_ByteArray (\<lambda>_. 0) 4)\<lparr>m_root := [[7, 8, 0, 0]], m_size := 2\<rparr>"

lemma two_bytes_inv: "ba_inv two_bytes"
  by (simp add: two_bytes_def ba_inv_def new_ByteArray_def node_ptr_def valid_order_def)

lemma two_bytes_runs:
  "map_sum id fst (writeFixSize_ba byte_net byte_stream 2 (two_bytes, [], [])) = Inr 2"
  "map_sum id fst (readFixSize_ba byte_net byte_stream 2 (two_bytes, [7, 8, 9], [])) = Inr 2"
  by code_simp+

theorem stream_end_to_end_witness:
  "\<exists>ba' n' ba2' k'. writeFixSize_ba byte_net byte_stream 2 (two_bytes, [], []) = Inr (2, ba', n')
     \<and> readFixSize_ba byte_net byte_stream 2 (two_bytes, [7, 8, 9], []) = Inr (2, ba2', k')
     \<and> slice_of 0 2 (ba_data ba2') = slice_of 0 2 (ba_data two_bytes) \<and> fst k' = [9]"
proof -
  have p: "m_position two_bytes = 0" "ba_data two_bytes = [7, 8]"
    by (simp_all add: two_bytes_def new_ByteArray_def ba_data_def ba_mem_def)
  obtain ba' n' where w: "writeFixSize_ba byte_net byte_stream 2 (two_bytes, [], []) = Inr (2, ba', n')"
    and out: "snd n' = [7, 8]"
    using array_write_fix [OF byte_net_law two_bytes_inv, of 2 byte_stream "([], [])"] two_bytes_runs(1) p
    by (auto simp: slice_of_def)
  obtain ba2' k' where r: "readFixSize_ba byte_net byte_stream 2 (two_bytes, [7, 8, 9], []) = Inr (2, ba2', k')"
    using two_bytes_runs(2) by (cases "readFixSize_ba byte_net byte_stream 2 (two_bytes, [7, 8, 9], [])") auto
  have "slice_of (m_position two_bytes) 2 (ba_data ba2') = slice_of (m_position two_bytes) 2 (ba_data two_bytes)
      \<and> m_position ba' = m_position two_bytes + 2 \<and> m_position ba2' = m_position two_bytes + 2 \<and> fst k' = [9]"
    by (rule stream_end_to_end [OF byte_net_law two_bytes_inv two_bytes_inv, where len = 2 and n = "([], [])"
          and n' = n' and ss = byte_stream and k = "([7, 8, 9], [])"]) (use w r out in simp_all)
  then show ?thesis using w r p by auto
qed

end
