(* ===== verification/TcpServer.thy ===== *)
theory TcpServer
  imports Socket
begin

text \<open>
  TCP servers: \<open>src/net/tcp_server.cpp\<close>, \<open>include/fishjoy/net/tcp_server.hpp\<close>.

  The server is a record; what it schedules on its two workers is appended to their queues. A socket
  that goes out of scope closes itself (\<open>Socket::~Socket\<close>), so the failure paths of \<open>bind\<close> close what
  they opened. One round of the accept loop is a function, since the loop runs until another fiber
  stops the server. \<open>handleClient\<close> of the base class only writes to the log.
\<close>

datatype server_task =
    StartAccept sock
  | HandleClient sock
  | StopSockets

record tcp_server =
  m_socks :: "sock list"
  m_ioWorker :: "server_task list"
  m_acceptWorker :: "server_task list"
  m_recvTimeout :: u64
  ts_name :: string
  ts_type :: string
  m_isStop :: bool

definition new_TcpServer :: "u64 \<Rightarrow> tcp_server" where
  "new_TcpServer timeout =
     \<lparr> m_socks = [], m_ioWorker = [], m_acceptWorker = [], m_recvTimeout = timeout, ts_name = ''fishjoy/1.0.0'',
       ts_type = ''tcp'', m_isStop = True \<rparr>"

definition close_all :: "'n os \<Rightarrow> sock list \<Rightarrow> 'n \<Rightarrow> 'n" where
  "close_all os socks n = foldl (\<lambda>n s. snd (snd (close_sock os s n))) n socks"

definition delete_TcpServer :: "'n os \<Rightarrow> tcp_server \<Rightarrow> 'n \<Rightarrow> 'n" where
  "delete_TcpServer os srv n = close_all os (m_socks srv) n"

definition SOMAXCONN :: int where "SOMAXCONN = 4096"

fun bind_loop :: "'n os \<Rightarrow> nat \<Rightarrow> address list \<Rightarrow> sock list \<Rightarrow> address list \<Rightarrow> 'n \<Rightarrow> sock list \<times> address list \<times> 'n" where
  "bind_loop os bo [] socks fails n = (socks, fails, n)"
| "bind_loop os bo (addr # addrs) socks fails n =
     (let (ok, sock, n) = bind os bo addr (CreateTCP addr) n in
      if \<not> ok then bind_loop os bo addrs socks (fails @ [addr]) (snd (snd (close_sock os sock n)))
      else
        let (ok, n) = listen os SOMAXCONN sock n in
        if \<not> ok then bind_loop os bo addrs socks (fails @ [addr]) (snd (snd (close_sock os sock n)))
        else bind_loop os bo addrs (socks @ [sock]) fails n)"

text \<open>
  \<open>m_socks.clear()\<close> closes the sockets nobody else holds a pointer to; \<open>held\<close> are the descriptors of those that others hold, such as
  the accept loops of a server that runs.
\<close>

definition release_all :: "'n os \<Rightarrow> int list \<Rightarrow> sock list \<Rightarrow> 'n \<Rightarrow> 'n" where
  "release_all os held socks n = close_all os (filter (\<lambda>s. m_sock s \<notin> set held) socks) n"

definition bind_all ::
  "'n os \<Rightarrow> nat \<Rightarrow> int list \<Rightarrow> address list \<Rightarrow> address list \<Rightarrow> tcp_server \<Rightarrow> 'n \<Rightarrow> bool \<times> address list \<times> tcp_server \<times> 'n" where
  "bind_all os bo held addrs fails srv n =
     (let (socks, fails, n) = bind_loop os bo addrs (m_socks srv) fails n in
      if fails \<noteq> [] then (False, fails, srv\<lparr>m_socks := []\<rparr>, release_all os held socks n)
      else (True, fails, srv\<lparr>m_socks := socks\<rparr>, n))"

definition bind_one :: "'n os \<Rightarrow> nat \<Rightarrow> int list \<Rightarrow> address \<Rightarrow> tcp_server \<Rightarrow> 'n \<Rightarrow> bool \<times> tcp_server \<times> 'n" where
  "bind_one os bo held addr srv n = (let (ok, _, srv, n) = bind_all os bo held [addr] [] srv n in (ok, srv, n))"

text \<open>One round of \<open>startAccept\<close> for a listening socket: whether the loop goes on.\<close>

definition startAccept :: "'n os \<Rightarrow> ('n, 'k) hooked \<Rightarrow> nat \<Rightarrow> sock \<Rightarrow> tcp_server \<Rightarrow> 'n \<Rightarrow> (bool \<times> tcp_server \<times> 'n) result" where
  "startAccept os hk bo sock srv n =
     (if m_isStop srv then Inr (False, srv, n)
      else
        let (client, n) = accept os bo sock n in
        case client of
          None \<Rightarrow> Inr (True, srv, n)
        | Some c \<Rightarrow> rbind (setRecvTimeout_on hk (m_recvTimeout srv) c n) (\<lambda>n.
            Inr (True, srv\<lparr>m_ioWorker := m_ioWorker srv @ [HandleClient c]\<rparr>, n)))"

definition start :: "tcp_server \<Rightarrow> bool \<times> tcp_server" where
  "start srv =
     (if \<not> m_isStop srv then (True, srv)
      else (True, srv\<lparr>m_isStop := False, m_acceptWorker := m_acceptWorker srv @ map StartAccept (m_socks srv)\<rparr>))"

definition stop :: "tcp_server \<Rightarrow> tcp_server" where
  "stop srv = srv\<lparr>m_isStop := True, m_acceptWorker := m_acceptWorker srv @ [StopSockets]\<rparr>"

text \<open>The function \<open>stop\<close> schedules.\<close>

fun stop_socks :: "'n os \<Rightarrow> sock list \<Rightarrow> 'n \<Rightarrow> 'n result" where
  "stop_socks os [] n = Inr n"
| "stop_socks os (s # ss) n =
     rbind (cancelAll_sock os s n) (\<lambda>(_, n). stop_socks os ss (snd (snd (close_sock os s n))))"

definition stop_task :: "'n os \<Rightarrow> tcp_server \<Rightarrow> 'n \<Rightarrow> (tcp_server \<times> 'n) result" where
  "stop_task os srv n = rbind (stop_socks os (m_socks srv) n) (\<lambda>n. Inr (srv\<lparr>m_socks := []\<rparr>, n))"

definition server_toString :: "nat \<Rightarrow> string option \<Rightarrow> string option \<Rightarrow> string \<Rightarrow> tcp_server \<Rightarrow> string" where
  "server_toString bo io_name accept_name prefix srv =
     prefix @ ''[type='' @ ts_type srv @ '' name='' @ ts_name srv
     @ '' io_worker='' @ (case io_name of None \<Rightarrow> [] | Some s \<Rightarrow> s)
     @ '' accept='' @ (case accept_name of None \<Rightarrow> [] | Some s \<Rightarrow> s)
     @ '' recv_timeout='' @ dec (unat (m_recvTimeout srv)) @ '']'' @ [CHR 0x0A]
     @ (let pfx = (if prefix = [] then ''    '' else prefix) in
        concat (map (\<lambda>s. pfx @ pfx @ dump_sock bo s @ [CHR 0x0A]) (m_socks srv)))"

subsection \<open>The descriptors of a server\<close>

definition fds_of :: "sock list \<Rightarrow> int set" where
  "fds_of socks = (\<Union>s \<in> set socks. owned s)"

definition socks_ok :: "('n \<Rightarrow> int set) \<Rightarrow> sock list \<Rightarrow> 'n \<Rightarrow> bool" where
  "socks_ok opn socks n \<longleftrightarrow> distinct (map m_sock socks) \<and> - 1 \<notin> m_sock ` set socks \<and> m_sock ` set socks \<subseteq> opn n"

lemma fds_of_ok: "- 1 \<notin> m_sock ` set socks \<Longrightarrow> fds_of socks = m_sock ` set socks"
  by (force simp: fds_of_def owned_def)

lemma close_all_opn:
  assumes "sock_law os opn"
  shows "opn (close_all os socks n) = opn n - fds_of socks"
proof (induction socks arbitrary: n)
  case (Cons s socks)
  obtain b s' n' where c: "close_sock os s n = (b, s', n')" by (metis prod.exhaust)
  have "opn n' = opn n - owned s"
    using c sock_lawD(3) [OF assms] by (auto simp: close_sock_def owned_def Let_def split: if_splits prod.splits)
  moreover have "close_all os (s # socks) n = close_all os socks n'" by (simp add: close_all_def c)
  ultimately show ?case using Cons by (auto simp: fds_of_def)
qed (simp add: close_all_def fds_of_def)

text \<open>One address: a socket of its own that listens, or nothing new is open.\<close>

lemma bind_listen_opn:
  assumes L: "sock_law os opn" and b: "bind os bo addr (CreateTCP addr) n = (ok, s, n1)"
  shows "\<not> ok \<Longrightarrow> opn (snd (snd (close_sock os s n1))) = opn n"
    and "ok \<Longrightarrow> listen os bl s n1 = (False, n2) \<Longrightarrow> opn (snd (snd (close_sock os s n2))) = opn n"
    and "ok \<Longrightarrow> listen os bl s n1 = (True, n2) \<Longrightarrow> m_sock s \<noteq> - 1 \<and> m_sock s \<notin> opn n \<and> opn n2 = insert (m_sock s) (opn n)"
proof -
  have none: "owned (CreateTCP addr) = {}" by (simp add: CreateTCP_def new_Socket_def owned_def)
  have owns: "owned s \<subseteq> opn n1 \<and> opn n1 - owned s = opn n"
    using bind_owns [OF L b] none by (simp add: owns_step_def)
  have close: "opn (snd (snd (close_sock os s n'))) = opn n' - owned s" for n'
    using close_all_opn [OF L, of "[s]" n'] by (simp add: close_all_def fds_of_def)
  have lis: "opn n2 = opn n1" if "listen os bl s n1 = (r, n2)" for r
    using that L by (auto simp: listen_def sock_law_def Let_def split: if_splits prod.splits) (metis snd_conv)+
  show "\<not> ok \<Longrightarrow> opn (snd (snd (close_sock os s n1))) = opn n" using owns close by simp
  show "opn (snd (snd (close_sock os s n2))) = opn n" if "ok" "listen os bl s n1 = (False, n2)"
    using owns close lis [OF that(2)] by simp
  show "m_sock s \<noteq> - 1 \<and> m_sock s \<notin> opn n \<and> opn n2 = insert (m_sock s) (opn n)" if "ok" "listen os bl s n1 = (True, n2)"
  proof -
    have "m_sock s \<noteq> - 1" using that(2) by (auto simp: listen_def isValid_def split: if_splits)
    then have "owned s = {m_sock s}" by (simp add: owned_def)
    then show ?thesis using owns lis [OF that(2)] \<open>m_sock s \<noteq> - 1\<close> by auto
  qed
qed

text \<open>The loop: every listening socket is new, every failed one is closed again.\<close>

lemma bind_loop_opn:
  assumes L: "sock_law os opn"
  shows "bind_loop os bo addrs socks fails n = (socks', fails', n') \<Longrightarrow> socks_ok opn socks n \<Longrightarrow>
    \<exists>new bad. socks' = socks @ new \<and> fails' = fails @ bad \<and> length new + length bad = length addrs
      \<and> set bad \<subseteq> set addrs \<and> socks_ok opn socks' n' \<and> opn n' = opn n \<union> m_sock ` set new
      \<and> opn n \<inter> m_sock ` set new = {}"
proof (induction addrs arbitrary: socks fails n)
  case Nil
  then show ?case by simp
next
  case (Cons a addrs)
  obtain ok s n1 where b: "bind os bo a (CreateTCP a) n = (ok, s, n1)" by (metis prod.exhaust)
  obtain lk n2 where l: "listen os SOMAXCONN s n1 = (lk, n2)" by (metis prod.exhaust)
  show ?case
  proof (cases "ok \<and> lk")
    case True
    then have new: "m_sock s \<noteq> - 1" "m_sock s \<notin> opn n" "opn n2 = insert (m_sock s) (opn n)"
      using bind_listen_opn(3) [OF L b] l by auto
    then have ok2: "socks_ok opn (socks @ [s]) n2" using Cons.prems(2) by (auto simp: socks_ok_def)
    obtain new bad where *: "socks' = (socks @ [s]) @ new" "fails' = fails @ bad" "length new + length bad = length addrs"
      "set bad \<subseteq> set addrs" "socks_ok opn socks' n'" "opn n' = opn n2 \<union> m_sock ` set new" "opn n2 \<inter> m_sock ` set new = {}"
      using Cons.IH [OF _ ok2, of fails] Cons.prems(1) b l True by auto
    show ?thesis using * new by (intro exI [of _ "s # new"] exI [of _ bad]) auto
  next
    case False
    obtain n3 where step: "bind_loop os bo addrs socks (fails @ [a]) n3 = (socks', fails', n')" and same: "opn n3 = opn n"
      using Cons.prems(1) b l False bind_listen_opn(1,2) [OF L b] by (auto split: if_splits)
    have "socks_ok opn socks n3" using Cons.prems(2) same by (simp add: socks_ok_def)
    from Cons.IH [OF step this] obtain new bad where *: "socks' = socks @ new" "fails' = (fails @ [a]) @ bad"
      "length new + length bad = length addrs" "set bad \<subseteq> set addrs" "socks_ok opn socks' n'"
      "opn n' = opn n3 \<union> m_sock ` set new" "opn n3 \<inter> m_sock ` set new = {}"
      by blast
    show ?thesis using * same by (intro exI [of _ new] exI [of _ "a # bad"]) auto
  qed
qed

subsection \<open>Sockets that serve an address\<close>

text \<open>
  What is true of a descriptor: the address it is bound to, and that it listens. Only \<open>bind\<close> and \<open>listen\<close> that return 0 make
  it so, only closing the descriptor ends it.
\<close>

datatype server_fact = Bound address | Listening

definition serve_law :: "'n os \<Rightarrow> ('n \<Rightarrow> (int \<times> server_fact) set) \<Rightarrow> bool" where
  "serve_law os facts \<longleftrightarrow>
     (\<forall>f t p n. facts n \<subseteq> facts (snd (os_socket os f t p n)))
   \<and> (\<forall>fd n. {x \<in> facts n. fst x \<noteq> fd} \<subseteq> facts (snd (os_close os fd n)))
   \<and> (\<forall>fd a t n. facts n \<subseteq> facts (snd (os_connect os fd a t n)))
   \<and> (\<forall>fd l q v n. facts n \<subseteq> facts (snd (os_setsockopt os fd l q v n)))
   \<and> (\<forall>path n. facts n \<subseteq> facts (os_unlink os path n))
   \<and> (\<forall>fd a n. facts n \<subseteq> facts (snd (os_bind os fd a n))
        \<and> (fst (os_bind os fd a n) = 0 \<longrightarrow> (fd, Bound a) \<in> facts (snd (os_bind os fd a n))))
   \<and> (\<forall>fd b n. facts n \<subseteq> facts (snd (os_listen os fd b n))
        \<and> (fst (os_listen os fd b n) = 0 \<longrightarrow> (fd, Listening) \<in> facts (snd (os_listen os fd b n))))"

definition serves :: "('n \<Rightarrow> (int \<times> server_fact) set) \<Rightarrow> 'n \<Rightarrow> sock \<Rightarrow> address \<Rightarrow> bool" where
  "serves facts n s a \<longleftrightarrow> (m_sock s, Bound a) \<in> facts n \<and> (m_sock s, Listening) \<in> facts n"

text \<open>What is true of the descriptors of \<open>A\<close> stays true.\<close>

definition still :: "('n \<Rightarrow> (int \<times> server_fact) set) \<Rightarrow> int set \<Rightarrow> 'n \<Rightarrow> 'n \<Rightarrow> bool" where
  "still facts A n n' \<longleftrightarrow> (\<forall>x \<in> facts n. fst x \<in> A \<longrightarrow> x \<in> facts n')"

lemma still_mono: "facts n \<subseteq> facts n' \<Longrightarrow> still facts A n n'"
  by (auto simp: still_def)

lemma still_trans: "still facts A n n1 \<Longrightarrow> still facts B n1 n2 \<Longrightarrow> A \<subseteq> B \<Longrightarrow> still facts A n n2"
  by (auto simp: still_def)

lemma serve_lawD:
  assumes "serve_law os facts"
  shows "os_socket os f t p n = (fd, n') \<Longrightarrow> still facts A n n'"
    and "os_close os fd n = (r, n') \<Longrightarrow> fd \<notin> A \<Longrightarrow> still facts A n n'"
    and "os_connect os fd a tm n = (r, n') \<Longrightarrow> still facts A n n'"
    and "os_setsockopt os fd l q v n = (r, n') \<Longrightarrow> still facts A n n'"
    and "still facts A n (os_unlink os path n)"
    and "os_bind os fd a n = (r, n') \<Longrightarrow> still facts A n n' \<and> (r = 0 \<longrightarrow> (fd, Bound a) \<in> facts n')"
    and "os_listen os fd b n = (r, n') \<Longrightarrow> still facts A n n' \<and> (r = 0 \<longrightarrow> (fd, Listening) \<in> facts n')"
proof -
  note L = assms [unfolded serve_law_def]
  show "os_socket os f t p n = (fd, n') \<Longrightarrow> still facts A n n'" using L by (metis snd_conv still_mono)
  show "os_connect os fd a tm n = (r, n') \<Longrightarrow> still facts A n n'" using L by (metis snd_conv still_mono)
  show "os_setsockopt os fd l q v n = (r, n') \<Longrightarrow> still facts A n n'" using L by (metis snd_conv still_mono)
  show "still facts A n (os_unlink os path n)" using L by (metis still_mono)
  show "os_bind os fd a n = (r, n') \<Longrightarrow> still facts A n n' \<and> (r = 0 \<longrightarrow> (fd, Bound a) \<in> facts n')"
    using L by (metis fst_conv snd_conv still_mono)
  show "os_listen os fd b n = (r, n') \<Longrightarrow> still facts A n n' \<and> (r = 0 \<longrightarrow> (fd, Listening) \<in> facts n')"
    using L by (metis fst_conv snd_conv still_mono)
  show "still facts A n n'" if "os_close os fd n = (r, n')" "fd \<notin> A"
  proof -
    have "{x \<in> facts n. fst x \<noteq> fd} \<subseteq> facts n'" using L that(1) by (metis snd_conv)
    then show ?thesis using that(2) by (auto simp: still_def)
  qed
qed

lemma setOption_still: "serve_law os facts \<Longrightarrow> still facts A n (snd (setOption os l q v s n))"
  by (cases "os_setsockopt os (m_sock s) l q v n") (auto simp: setOption_def dest: serve_lawD(4))

lemma newSock_still:
  assumes "serve_law os facts" "sock_law os opn" "newSock os s n = (s', n')"
  shows "still facts A n n' \<and> opn n \<subseteq> opn n' \<and> (m_sock s' = - 1 \<or> m_sock s' \<notin> opn n)"
proof -
  obtain fd n1 where o: "os_socket os (m_family s) (m_type s) (m_protocol s) n = (fd, n1)" by (rule prod.exhaust)
  have f: "fresh_fd opn n fd n1" by (rule sock_lawD(1) [OF assms(2) o])
  have st: "still facts A n n1" by (rule serve_lawD(1) [OF assms(1) o])
  have i: "still facts A n1 (initSock os u n1)" for u
    using setOption_still [OF assms(1)] still_trans [of facts A] by (auto simp: initSock_def case_prod_beta) blast
  have "opn (initSock os u n1) = opn n1" for u by (rule sock_lawD(7) [OF assms(2)])
  then show ?thesis using assms(3) o f st still_trans [OF st i]
    by (auto simp: newSock_def fresh_fd_def Let_def split: if_splits)
qed

lemma connect_still:
  assumes "serve_law os facts" "sock_law os opn" "connect os bo addr tm s n = (ok, s', n')" "m_sock s = - 1" "A \<subseteq> opn n"
  shows "still facts A n n' \<and> (m_sock s' = - 1 \<or> m_sock s' \<notin> A)"
proof -
  let ?s = "s\<lparr>m_remoteAddress := Some addr\<rparr>"
  obtain s1 n1 where new: "newSock os ?s n = (s1, n1)" by (rule prod.exhaust)
  note N = newSock_still [OF assms(1,2) new, of A]
  have run: "connect os bo addr tm s n = (if \<not> isValid s1 then (False, s1, n1) else if getFamily addr \<noteq> m_family s1 then (False, s1, n1)
      else let (rt, n) = os_connect os (m_sock s1) addr (if tm = - 1 then None else Some tm) n1 in
           if rt \<noteq> 0 then (let (_, s, n) = close_sock os s1 n in (False, s, n))
           else let s = s1\<lparr>m_isConnected := True\<rparr>; s = snd (getRemoteAddress os bo s n); s = snd (getLocalAddress os bo s n) in (True, s, n))"
    using assms(4) new by (simp add: connect_def isValid_def)
  show ?thesis
  proof (cases "isValid s1 \<and> getFamily addr = m_family s1")
    case False
    then have "s' = s1" "n' = n1" using assms(3) run by (auto split: if_splits)
    then show ?thesis using N assms(5) by auto
  next
    case valid: True
    then have fd: "m_sock s1 \<noteq> - 1" "m_sock s1 \<notin> A" using N assms(5) by (auto simp: isValid_def)
    obtain rt n2 where c: "os_connect os (m_sock s1) addr (if tm = - 1 then None else Some tm) n1 = (rt, n2)" by (rule prod.exhaust)
    have st2: "still facts A n n2" by (rule still_trans [OF conjunct1 [OF N] serve_lawD(3) [OF assms(1) c] subset_refl])
    show ?thesis
    proof (cases "rt = 0")
      case True
      then have "n' = n2" "m_sock s' = m_sock s1"
        using assms(3) run c valid True by (auto simp: Let_def)
      then show ?thesis using st2 fd by simp
    next
      case False
      obtain r n3 where cl: "os_close os (m_sock s1) n2 = (r, n3)" by (rule prod.exhaust)
      have "n' = n3" "m_sock s' = - 1"
        using assms(3) run c valid False fd(1) cl by (auto simp: close_sock_def Let_def)
      then show ?thesis using still_trans [OF st2 serve_lawD(2) [OF assms(1) cl fd(2)] subset_refl] by simp
    qed
  qed
qed

lemma bind_still:
  assumes "serve_law os facts" "sock_law os opn" "bind os bo addr (CreateTCP addr) n = (ok, s, n')"
  shows "still facts (opn n) n n' \<and> (ok \<longrightarrow> (m_sock s, Bound addr) \<in> facts n')"
proof -
  let ?s = "(CreateTCP addr)\<lparr>m_localAddress := Some addr\<rparr>" and ?A = "opn n"
  obtain s1 n1 where new: "newSock os ?s n = (s1, n1)" by (rule prod.exhaust)
  note N = newSock_still [OF assms(1,2) new, of ?A]
  let ?probe = "case addr of
      UnixAddress x len \<Rightarrow>
        let (ok, t, n) = connect os bo addr (- 1) CreateUnixTCPSocket n1;
            n = (if ok then n else os_unlink os (Unix_getPath x len) n);
            (_, _, n) = close_sock os t n
        in (ok, n)
    | _ \<Rightarrow> (False, n1)"
  obtain used n2 where pr: "?probe = (used, n2)" by (rule prod.exhaust)
  have run: "bind os bo addr (CreateTCP addr) n = (if \<not> isValid s1 then (False, s1, n1) else if getFamily addr \<noteq> m_family s1 then (False, s1, n1)
      else if used then (False, s1, n2)
      else let (rt, n) = os_bind os (m_sock s1) addr n2 in
           if rt \<noteq> 0 then (False, s1, n) else (True, snd (getLocalAddress os bo s1 n), n))"
    using new pr by (simp add: bind_def isValid_def CreateTCP_def new_Socket_def)
  have st2: "still facts ?A n n2"
  proof (cases addr)
    case (UnixAddress x len)
    obtain cok t n3 where c: "connect os bo addr (- 1) CreateUnixTCPSocket n1 = (cok, t, n3)" by (rule prod_cases3)
    have t: "m_sock CreateUnixTCPSocket = - 1" by (simp add: CreateUnixTCPSocket_def new_Socket_def)
    have "?A \<subseteq> opn n1" using N by blast
    note C = connect_still [OF assms(1,2) c t this]
    let ?n4 = "if cok then n3 else os_unlink os (Unix_getPath x len) n3"
    have st4: "still facts ?A n ?n4"
    proof -
      have "still facts ?A n n3" by (rule still_trans [OF conjunct1 [OF N] conjunct1 [OF C] subset_refl])
      then show ?thesis using still_trans [OF _ serve_lawD(5) [OF assms(1)] subset_refl, of ?A n n3] by simp
    qed
    have n2: "n2 = snd (snd (close_sock os t ?n4))" using pr c UnixAddress by (auto simp: case_prod_beta Let_def)
    show ?thesis
    proof (cases "m_sock t = - 1")
      case True
      then show ?thesis using st4 n2 by (simp add: close_sock_def Let_def split: if_splits)
    next
      case False
      obtain r n5 where cl: "os_close os (m_sock t) ?n4 = (r, n5)" by (rule prod.exhaust)
      then have "n2 = n5" using n2 False by (simp add: close_sock_def Let_def)
      moreover have "m_sock t \<notin> ?A" using C False by blast
      ultimately show ?thesis using still_trans [OF st4 serve_lawD(2) [OF assms(1) cl] subset_refl] by simp
    qed
  qed (use pr N in auto)
  obtain rt n3 where b: "os_bind os (m_sock s1) addr n2 = (rt, n3)" by (rule prod.exhaust)
  have B: "still facts ?A n2 n3 \<and> (rt = 0 \<longrightarrow> (m_sock s1, Bound addr) \<in> facts n3)" by (rule serve_lawD(6) [OF assms(1) b])
  have sk: "m_sock (snd (getLocalAddress os bo s1 n3)) = m_sock s1" by simp
  show ?thesis
    using assms(3) run b B N st2 still_trans [OF st2 conjunct1 [OF B] subset_refl] sk by (auto split: if_splits)
qed

lemma bind_loop_serves:
  assumes L: "serve_law os facts" "sock_law os opn"
  shows "bind_loop os bo addrs socks fails n = (socks', fails', n') \<Longrightarrow> length fails' = length fails \<Longrightarrow>
    still facts (opn n) n n' \<and> (\<exists>new. socks' = socks @ new \<and> list_all2 (serves facts n') new addrs)"
proof (induction addrs arbitrary: socks fails n)
  case Nil
  then show ?case by (simp add: still_def)
next
  case (Cons a addrs)
  obtain ok s n1 where b: "bind os bo a (CreateTCP a) n = (ok, s, n1)" by (metis prod.exhaust)
  obtain lk n2 where l: "listen os SOMAXCONN s n1 = (lk, n2)" by (metis prod.exhaust)
  have grows: "length fs \<le> length fs'" if "bind_loop os bo as ss fs m = (ss', fs', m')" for as ss fs m ss' fs' m'
    using that by (induction as arbitrary: ss fs m) (fastforce split: prod.splits if_splits)+
  have okl: "ok \<and> lk"
  proof (rule ccontr)
    assume "\<not> (ok \<and> lk)"
    then obtain m where "bind_loop os bo addrs socks (fails @ [a]) m = (socks', fails', n')"
      using Cons.prems(1) b l by (auto split: if_splits)
    from grows [OF this] Cons.prems(2) show False by simp
  qed
  then have run: "bind_loop os bo addrs (socks @ [s]) fails n2 = (socks', fails', n')" using Cons.prems(1) b l by simp
  have new: "m_sock s \<noteq> - 1" "opn n2 = insert (m_sock s) (opn n)" using bind_listen_opn(3) [OF L(2) b] l okl by auto
  obtain rt where os: "os_listen os (m_sock s) SOMAXCONN n1 = (rt, n2)" "rt = 0"
    using l okl by (auto simp: listen_def split: if_splits prod.splits)
  have lis: "still facts A n1 n2 \<and> (m_sock s, Listening) \<in> facts n2" for A
    using serve_lawD(7) [OF L(1) os(1), of A] os(2) by simp
  note B = bind_still [OF L b]
  have "(m_sock s, Bound a) \<in> facts n2" using B okl lis [of UNIV] by (auto simp: still_def)
  then have sv: "serves facts n2 s a" using lis by (simp add: serves_def)
  from Cons.IH [OF run Cons.prems(2)] obtain rest where IH: "still facts (opn n2) n2 n'" "socks' = (socks @ [s]) @ rest"
      "list_all2 (serves facts n') rest addrs" by blast
  have "serves facts n' s a" using sv IH(1) new by (simp add: serves_def still_def)
  moreover have "still facts (opn n) n n2" by (rule still_trans [OF conjunct1 [OF B] conjunct1 [OF lis] subset_refl])
  ultimately show ?case using IH new still_trans [of facts "opn n" n n2 "opn n2" n']
    by (intro conjI exI [of _ "s # rest"]) auto
qed

subsection \<open>Properties\<close>

text \<open>
  C12: binding is all or nothing. When the server's sockets are open and distinct, \<open>bind\<close> of a list
  of addresses either returns true, with one more distinct open socket for every address, in their order, that is bound to the address and
  listens, and no other descriptor opened or closed, or it returns false, names failed addresses, and leaves the
  server without any socket and no descriptor open that it opened; the sockets of earlier successful calls
  are closed too unless somebody else holds a pointer to them.
\<close>

theorem bind_all_or_nothing:
  assumes "sock_law os opn" "serve_law os facts" "socks_ok opn (m_socks srv) n" "set held \<subseteq> opn n"
    and "bind_all os bo held addrs [] srv n = (ok, fails, srv', n')"
  shows "if ok then fails = [] \<and> socks_ok opn (m_socks srv') n'
             \<and> (\<exists>new. m_socks srv' = m_socks srv @ new \<and> list_all2 (serves facts n') new addrs)
             \<and> opn n' = opn n \<union> m_sock ` set (m_socks srv')
         else fails \<noteq> [] \<and> set fails \<subseteq> set addrs \<and> m_socks srv' = []
             \<and> opn n' = opn n - (m_sock ` set (m_socks srv) - set held)"
proof -
  obtain socks' fails' n1 where loop: "bind_loop os bo addrs (m_socks srv) [] n = (socks', fails', n1)" by (metis prod.exhaust)
  obtain new bad where *: "socks' = m_socks srv @ new" "fails' = bad" "length new + length bad = length addrs"
    "set bad \<subseteq> set addrs" "socks_ok opn socks' n1" "opn n1 = opn n \<union> m_sock ` set new" "opn n \<inter> m_sock ` set new = {}"
    using bind_loop_opn [OF assms(1) loop assms(3)] by auto
  have old: "m_sock ` set (m_socks srv) \<subseteq> opn n" using assms(3) by (simp add: socks_ok_def)
  show ?thesis
  proof (cases "bad = []")
    case True
    then have "ok" "fails = []" "srv' = srv\<lparr>m_socks := socks'\<rparr>" "n' = n1"
      using assms(5) loop *(2) by (auto simp: bind_all_def)
    moreover have "list_all2 (serves facts n1) new addrs"
      using bind_loop_serves [OF assms(2,1) loop] * True by auto
    ultimately show ?thesis using * True old by auto
  next
    case False
    let ?gone = "filter (\<lambda>s. m_sock s \<notin> set held) socks'"
    have r: "\<not> ok" "fails = bad" "srv' = srv\<lparr>m_socks := []\<rparr>" "n' = close_all os ?gone n1"
      using assms(5) loop *(2) False by (auto simp: bind_all_def release_all_def)
    have "- 1 \<notin> m_sock ` set ?gone" using *(5) by (auto simp: socks_ok_def)
    then have "opn n' = opn n1 - m_sock ` set ?gone" using r(4) close_all_opn [OF assms(1), of ?gone n1] fds_of_ok by simp
    moreover have "m_sock ` set ?gone = (m_sock ` set (m_socks srv) - set held) \<union> m_sock ` set new"
      using *(1,7) assms(4) by auto
    ultimately show ?thesis using * False r old by auto
  qed
qed

text \<open>
  A system for concrete runs: the open descriptors, the next one, and what is true of them. An address can be bound once.
\<close>

definition serve_os :: "(int list \<times> nat \<times> (int \<times> server_fact) list) os" where
  "serve_os =
     \<lparr> os_socket = (\<lambda>f t p (l, nx, fs). (int nx, int nx # l, nx + 1, fs)),
       os_close = (\<lambda>fd (l, nx, fs). (0, filter (\<lambda>x. x \<noteq> fd) l, nx, filter (\<lambda>x. fst x \<noteq> fd) fs)),
       os_accept = (\<lambda>fd n. (- 1, n)),
       os_bind = (\<lambda>fd a (l, nx, fs). if Bound a \<in> snd ` set fs then (- 1, l, nx, fs) else (0, l, nx, (fd, Bound a) # fs)),
       os_listen = (\<lambda>fd b (l, nx, fs). (0, l, nx, (fd, Listening) # fs)),
       os_connect = (\<lambda>fd a t n. (- 1, n)), os_setsockopt = (\<lambda>fd l q v n. (0, n)),
       os_getsockopt = (\<lambda>fd l q n. (0, 0)), os_errno = (\<lambda>n. 0), os_send = (\<lambda>fd bs a fl n. (- 1, n)),
       os_recv = (\<lambda>fd l fl n. (- 1, [], n)), os_recvfrom = (\<lambda>fd l a fl n. (- 1, [], a, n)),
       os_getpeername = (\<lambda>fd a n. None), os_getsockname = (\<lambda>fd a n. None), os_fdctx = (\<lambda>fd n. None),
       os_unlink = (\<lambda>p n. n), os_cancelEvent = (\<lambda>fd e n. Inr (False, n)), os_cancelAll = (\<lambda>fd n. Inr (False, n)) \<rparr>"

definition serve_open :: "int list \<times> nat \<times> (int \<times> server_fact) list \<Rightarrow> int set" where
  "serve_open n = {fd \<in> set (fst n). 0 \<le> fd \<and> fd < int (fst (snd n))}"

lemma serve_os_laws: "sock_law serve_os serve_open" "serve_law serve_os (\<lambda>n. set (snd (snd n)))"
  by (auto simp: sock_law_def serve_law_def serve_os_def serve_open_def fresh_fd_def split: prod.splits)

definition port_address :: "u16 \<Rightarrow> address" where
  "port_address p = IPv4Address (new_IPv4Address 1 0 p)"

lemma serve_bind_runs:
  "case bind_all serve_os 1 [] [port_address 80, port_address 81] [] (new_TcpServer 1000) ([], 3, []) of (ok, fails, srv, n) \<Rightarrow> ok"
  "case bind_all serve_os 1 [] [port_address 80, port_address 80] [] (new_TcpServer 1000) ([], 3, []) of (ok, fails, srv, n) \<Rightarrow> \<not> ok"
  by code_simp+

theorem bind_all_or_nothing_witness:
  "\<exists>srv n srv' n' bad. bind_all serve_os 1 [] [port_address 80, port_address 81] [] (new_TcpServer 1000) ([], 3, []) = (True, [], srv, n)
     \<and> length (m_socks srv) = 2 \<and> (m_sock (m_socks srv ! 1), Bound (port_address 81)) \<in> set (snd (snd n))
     \<and> bind_all serve_os 1 [] [port_address 80, port_address 80] [] (new_TcpServer 1000) ([], 3, []) = (False, bad, srv', n')
     \<and> serve_open n' = {}"
proof -
  have ok: "socks_ok serve_open (m_socks (new_TcpServer 1000)) ([], 3, [])" "set [] \<subseteq> serve_open ([], 3, [])" "serve_open ([], 3, []) = {}"
    by (simp_all add: socks_ok_def new_TcpServer_def serve_open_def)
  obtain fails srv n where b: "bind_all serve_os 1 [] [port_address 80, port_address 81] [] (new_TcpServer 1000) ([], 3, []) = (True, fails, srv, n)"
    using serve_bind_runs(1) by (auto split: prod.splits)
  obtain bad srv' n' where b': "bind_all serve_os 1 [] [port_address 80, port_address 80] [] (new_TcpServer 1000) ([], 3, []) = (False, bad, srv', n')"
    using serve_bind_runs(2) by (auto split: prod.splits)
  have empty: "m_socks (new_TcpServer 1000) = []" by (simp add: new_TcpServer_def)
  obtain new where "m_socks srv = new" "list_all2 (serves (\<lambda>n. set (snd (snd n))) n) new [port_address 80, port_address 81]" "fails = []"
    using bind_all_or_nothing [OF serve_os_laws ok(1,2) b] empty by auto
  then have "length (m_socks srv) = 2" "(m_sock (m_socks srv ! 1), Bound (port_address 81)) \<in> set (snd (snd n))" "fails = []"
    by (auto simp: list_all2_Cons2 serves_def)
  moreover have "serve_open n' = {}" using bind_all_or_nothing [OF serve_os_laws ok(1,2) b'] ok(3) by auto
  ultimately show ?thesis using b b' by blast
qed

end
