(* ===== verification/Http.thy ===== *)
theory Http
  imports StdContainers StringUtil
begin

text \<open>
  HTTP messages: \<open>src/http/http.cpp\<close>, \<open>include/fishjoy/http/http.hpp\<close>, with the method and status tables of
  \<open>include/fishjoy/http/http-parser/http_parser.hpp\<close>.

  A method or status is the number of its enumerator. Headers, parameters and cookies are
  \<open>std::map\<close>s ordered by \<open>CaseInsensitiveLess\<close>, as lists in iteration order. Only the part of a
  \<open>std::string\<close> before its first null character is seen through \<open>c_str()\<close>. A \<open>stringstream\<close> is the text
  written to it.
\<close>

definition cstr :: "string \<Rightarrow> string" where
  "cstr s = takeWhile (\<lambda>c. c \<noteq> CHR 0x00) s"

definition crlf :: string where "crlf = [CHR 0x0D, CHR 0x0A]"

subsection \<open>Methods and statuses\<close>

definition HTTP_METHOD_MAP :: "(nat \<times> string) list" where
  "HTTP_METHOD_MAP =
     [(0, ''DELETE''), (1, ''GET''), (2, ''HEAD''), (3, ''POST''), (4, ''PUT''), (5, ''CONNECT''),
      (6, ''OPTIONS''), (7, ''TRACE''), (8, ''COPY''), (9, ''LOCK''), (10, ''MKCOL''), (11, ''MOVE''),
      (12, ''PROPFIND''), (13, ''PROPPATCH''), (14, ''SEARCH''), (15, ''UNLOCK''), (16, ''BIND''),
      (17, ''REBIND''), (18, ''UNBIND''), (19, ''ACL''), (20, ''REPORT''), (21, ''MKACTIVITY''),
      (22, ''CHECKOUT''), (23, ''MERGE''), (24, ''M-SEARCH''), (25, ''NOTIFY''), (26, ''SUBSCRIBE''),
      (27, ''UNSUBSCRIBE''), (28, ''PATCH''), (29, ''PURGE''), (30, ''MKCALENDAR''), (31, ''LINK''),
      (32, ''UNLINK''), (33, ''SOURCE'')]"

definition INVALID_METHOD :: nat where "INVALID_METHOD = 34"
definition GET :: nat where "GET = 1"

definition HTTP_STATUS_MAP :: "(nat \<times> string) list" where
  "HTTP_STATUS_MAP =
     [(100, ''Continue''), (101, ''Switching Protocols''), (102, ''Processing''), (200, ''OK''),
      (201, ''Created''), (202, ''Accepted''), (203, ''Non-Authoritative Information''),
      (204, ''No Content''), (205, ''Reset Content''), (206, ''Partial Content''), (207, ''Multi-Status''),
      (208, ''Already Reported''), (226, ''IM Used''), (300, ''Multiple Choices''),
      (301, ''Moved Permanently''), (302, ''Found''), (303, ''See Other''), (304, ''Not Modified''),
      (305, ''Use Proxy''), (307, ''Temporary Redirect''), (308, ''Permanent Redirect''),
      (400, ''Bad Request''), (401, ''Unauthorized''), (402, ''Payment Required''), (403, ''Forbidden''),
      (404, ''Not Found''), (405, ''Method Not Allowed''), (406, ''Not Acceptable''),
      (407, ''Proxy Authentication Required''), (408, ''Request Timeout''), (409, ''Conflict''),
      (410, ''Gone''), (411, ''Length Required''), (412, ''Precondition Failed''),
      (413, ''Payload Too Large''), (414, ''URI Too Long''), (415, ''Unsupported Media Type''),
      (416, ''Range Not Satisfiable''), (417, ''Expectation Failed''), (421, ''Misdirected Request''),
      (422, ''Unprocessable Entity''), (423, ''Locked''), (424, ''Failed Dependency''),
      (426, ''Upgrade Required''), (428, ''Precondition Required''), (429, ''Too Many Requests''),
      (431, ''Request Header Fields Too Large''), (451, ''Unavailable For Legal Reasons''),
      (500, ''Internal Server Error''), (501, ''Not Implemented''), (502, ''Bad Gateway''),
      (503, ''Service Unavailable''), (504, ''Gateway Timeout''), (505, ''HTTP Version Not Supported''),
      (506, ''Variant Also Negotiates''), (507, ''Insufficient Storage''), (508, ''Loop Detected''),
      (510, ''Not Extended''), (511, ''Network Authentication Required'')]"

definition OK_status :: nat where "OK_status = 200"
definition FOUND_status :: nat where "FOUND_status = 302"

fun first_method :: "(string \<Rightarrow> bool) \<Rightarrow> (nat \<times> string) list \<Rightarrow> nat" where
  "first_method P [] = INVALID_METHOD"
| "first_method P ((num, name) # rest) = (if P name then num else first_method P rest)"

definition StringToHttpMethod :: "string \<Rightarrow> nat" where
  "StringToHttpMethod m = first_method (\<lambda>name. name = cstr m) HTTP_METHOD_MAP"

definition CharsToHttpMethod :: "string \<Rightarrow> nat" where
  "CharsToHttpMethod m = first_method (\<lambda>name. take (length name) (cstr m) = name) HTTP_METHOD_MAP"

definition HttpMethodToString :: "nat \<Rightarrow> string" where
  "HttpMethodToString m =
     (if m \<ge> length HTTP_METHOD_MAP then ''<unknown>'' else snd (HTTP_METHOD_MAP ! m))"

definition HttpStatusToString :: "nat \<Rightarrow> string" where
  "HttpStatusToString s = (case map_of HTTP_STATUS_MAP s of None \<Rightarrow> ''<unknown>'' | Some msg \<Rightarrow> msg)"

subsection \<open>Case-insensitive maps\<close>

fun strcasecmp_chars :: "string \<Rightarrow> string \<Rightarrow> int" where
  "strcasecmp_chars [] [] = 0"
| "strcasecmp_chars [] (y # ys) = - int (of_char (tolower y))"
| "strcasecmp_chars (x # xs) [] = int (of_char (tolower x))"
| "strcasecmp_chars (x # xs) (y # ys) =
     (if tolower x = tolower y then strcasecmp_chars xs ys
      else int (of_char (tolower x)) - int (of_char (tolower y)))"

definition strcasecmp :: "string \<Rightarrow> string \<Rightarrow> int" where
  "strcasecmp a b = strcasecmp_chars (cstr a) (cstr b)"

text \<open>\<open>strcasestr\<close>: whether the second text occurs in the first, ignoring case.\<close>

fun occurs_in :: "string \<Rightarrow> string \<Rightarrow> bool" where
  "occurs_in needle [] = (needle = [])"
| "occurs_in needle (c # cs) = (take (length needle) (c # cs) = needle \<or> occurs_in needle cs)"

definition strcasestr :: "string \<Rightarrow> string \<Rightarrow> bool" where
  "strcasestr hay needle = occurs_in (ToLower (cstr needle)) (ToLower (cstr hay))"

definition CaseInsensitiveLess :: "string \<Rightarrow> string \<Rightarrow> bool" where
  "CaseInsensitiveLess lhs rhs = (strcasecmp lhs rhs < 0)"

type_synonym map_type = "(string \<times> string) list"

definition map_get :: "string \<Rightarrow> string \<Rightarrow> map_type \<Rightarrow> string" where
  "map_get key def m = (case map_find CaseInsensitiveLess key m of None \<Rightarrow> def | Some v \<Rightarrow> v)"

text \<open>\<open>checkGetAs\<close> and \<open>getAs\<close>; \<open>lexical_cast\<close> gives nothing when it throws.\<close>

definition checkGetAs :: "(string \<Rightarrow> 't option) \<Rightarrow> map_type \<Rightarrow> string \<Rightarrow> 't \<Rightarrow> bool \<times> 't" where
  "checkGetAs lexical_cast m key def =
     (case map_find CaseInsensitiveLess key m of None \<Rightarrow> (False, def)
      | Some v \<Rightarrow> (case lexical_cast v of None \<Rightarrow> (False, def) | Some t \<Rightarrow> (True, t)))"

definition getAs :: "(string \<Rightarrow> 't option) \<Rightarrow> map_type \<Rightarrow> string \<Rightarrow> 't \<Rightarrow> 't" where
  "getAs lexical_cast m key def =
     (case map_find CaseInsensitiveLess key m of None \<Rightarrow> def
      | Some v \<Rightarrow> (case lexical_cast v of None \<Rightarrow> def | Some t \<Rightarrow> t))"

subsection \<open>Requests\<close>

record http_request =
  rq_method :: nat
  rq_version :: u8
  rq_close :: bool
  rq_websocket :: bool
  rq_parserParamFlag :: u8
  rq_path :: string
  rq_query :: string
  rq_fragment :: string
  rq_body :: string
  rq_headers :: map_type
  rq_params :: map_type
  rq_cookies :: map_type

record http_response =
  rs_status :: nat
  rs_version :: u8
  rs_close :: bool
  rs_websocket :: bool
  rs_body :: string
  rs_reason :: string
  rs_headers :: map_type
  rs_cookies :: "string list"

definition new_HttpRequest :: "u8 \<Rightarrow> bool \<Rightarrow> http_request" where
  "new_HttpRequest version close =
     \<lparr> rq_method = GET, rq_version = version, rq_close = close, rq_websocket = False, rq_parserParamFlag = 0,
       rq_path = ''/'', rq_query = [], rq_fragment = [], rq_body = [], rq_headers = [], rq_params = [],
       rq_cookies = [] \<rparr>"

definition new_HttpResponse :: "u8 \<Rightarrow> bool \<Rightarrow> http_response" where
  "new_HttpResponse version close =
     \<lparr> rs_status = OK_status, rs_version = version, rs_close = close, rs_websocket = False, rs_body = [],
       rs_reason = [], rs_headers = [], rs_cookies = [] \<rparr>"

definition createResponse :: "http_request \<Rightarrow> http_response" where
  "createResponse r = new_HttpResponse (rq_version r) (rq_close r)"

text \<open>
  \<open>PARSE_PARAM\<close> from position \<open>pos\<close> on, with \<open>rest\<close> the text from there: up to the next \<open>=\<close> is the key, up to
  the next separator behind it the value.
\<close>

function PARSE_PARAM :: "char \<Rightarrow> (string \<Rightarrow> string) \<Rightarrow> string \<Rightarrow> map_type \<Rightarrow> map_type" where
  "PARSE_PARAM flag trim rest m =
     (case find_char (CHR ''='') rest of
        None \<Rightarrow> m
      | Some key \<Rightarrow>
          (case find_char flag (drop key rest) of
             None \<Rightarrow>
               map_insert CaseInsensitiveLess (UrlDecode (trim (take key rest)) True)
                 (UrlDecode (drop (key + 1) rest) True) m
           | Some j \<Rightarrow>
               PARSE_PARAM flag trim (drop (key + j + 1) rest)
                 (map_insert CaseInsensitiveLess (UrlDecode (trim (take key rest)) True)
                   (UrlDecode (substr (key + 1) (j - 1) rest) True) m)))"
  by pat_completeness auto
termination
  by (relation "measure (\<lambda>(flag, trim, rest, m). length rest)")
    (auto simp: find_char_def find_from_eq split: if_splits intro!: diff_less dest: length_pos_if_in_set)

declare PARSE_PARAM.simps [simp del]

definition initQueryParam :: "http_request \<Rightarrow> http_request" where
  "initQueryParam r =
     (if rq_parserParamFlag r AND 1 \<noteq> 0 then r
      else r\<lparr>rq_params := PARSE_PARAM (CHR ''&'') id (rq_query r) (rq_params r),
             rq_parserParamFlag := rq_parserParamFlag r OR 1\<rparr>)"

definition initBodyParam :: "http_request \<Rightarrow> http_request" where
  "initBodyParam r =
     (if rq_parserParamFlag r AND 2 \<noteq> 0 then r
      else if \<not> strcasestr (map_get ''content-type'' [] (rq_headers r)) ''application/x-www-form-urlencoded'' then
        r\<lparr>rq_parserParamFlag := rq_parserParamFlag r OR 2\<rparr>
      else r\<lparr>rq_params := PARSE_PARAM (CHR ''&'') id (rq_body r) (rq_params r),
             rq_parserParamFlag := rq_parserParamFlag r OR 2\<rparr>)"

definition blanks :: string where "blanks = [CHR '' '', CHR 0x09, CHR 0x0D, CHR 0x0A]"

definition initCookies :: "http_request \<Rightarrow> http_request" where
  "initCookies r =
     (if rq_parserParamFlag r AND 4 \<noteq> 0 then r
      else
        let cookie = map_get ''cookie'' [] (rq_headers r) in
        if cookie = [] then r\<lparr>rq_parserParamFlag := rq_parserParamFlag r OR 4\<rparr>
        else r\<lparr>rq_cookies := PARSE_PARAM (CHR '';'') (\<lambda>s. Trim s blanks) cookie (rq_cookies r),
               rq_parserParamFlag := rq_parserParamFlag r OR 4\<rparr>)"

definition init_request :: "http_request \<Rightarrow> http_request" where
  "init_request r =
     (let conn = map_get ''connection'' [] (rq_headers r) in
      if conn \<noteq> [] then r\<lparr>rq_close := (strcasecmp conn ''keep-alive'' \<noteq> 0)\<rparr> else r)"

definition rq_getHeader :: "string \<Rightarrow> string \<Rightarrow> http_request \<Rightarrow> string" where
  "rq_getHeader key def r = map_get key def (rq_headers r)"
definition rq_getParam :: "string \<Rightarrow> string \<Rightarrow> http_request \<Rightarrow> string \<times> http_request" where
  "rq_getParam key def r = (let r = initBodyParam (initQueryParam r) in (map_get key def (rq_params r), r))"
definition rq_getCookie :: "string \<Rightarrow> string \<Rightarrow> http_request \<Rightarrow> string \<times> http_request" where
  "rq_getCookie key def r = (let r = initCookies r in (map_get key def (rq_cookies r), r))"
definition rq_setHeader :: "string \<Rightarrow> string \<Rightarrow> http_request \<Rightarrow> http_request" where
  "rq_setHeader key val r = r\<lparr>rq_headers := map_assign CaseInsensitiveLess key val (rq_headers r)\<rparr>"
definition rq_setParam :: "string \<Rightarrow> string \<Rightarrow> http_request \<Rightarrow> http_request" where
  "rq_setParam key val r = r\<lparr>rq_params := map_assign CaseInsensitiveLess key val (rq_params r)\<rparr>"
definition rq_setCookie :: "string \<Rightarrow> string \<Rightarrow> http_request \<Rightarrow> http_request" where
  "rq_setCookie key val r = r\<lparr>rq_cookies := map_assign CaseInsensitiveLess key val (rq_cookies r)\<rparr>"
definition rq_delHeader :: "string \<Rightarrow> http_request \<Rightarrow> http_request" where
  "rq_delHeader key r = r\<lparr>rq_headers := map_erase CaseInsensitiveLess key (rq_headers r)\<rparr>"
definition rq_delParam :: "string \<Rightarrow> http_request \<Rightarrow> http_request" where
  "rq_delParam key r = r\<lparr>rq_params := map_erase CaseInsensitiveLess key (rq_params r)\<rparr>"
definition rq_delCookie :: "string \<Rightarrow> http_request \<Rightarrow> http_request" where
  "rq_delCookie key r = r\<lparr>rq_cookies := map_erase CaseInsensitiveLess key (rq_cookies r)\<rparr>"

text \<open>The \<open>has\<close> functions give the value they store through their pointer argument.\<close>

definition rq_hasHeader :: "string \<Rightarrow> http_request \<Rightarrow> string option" where
  "rq_hasHeader key r = map_find CaseInsensitiveLess key (rq_headers r)"
definition rq_hasParam :: "string \<Rightarrow> http_request \<Rightarrow> string option \<times> http_request" where
  "rq_hasParam key r =
     (let r = initBodyParam (initQueryParam r) in (map_find CaseInsensitiveLess key (rq_params r), r))"
definition rq_hasCookie :: "string \<Rightarrow> http_request \<Rightarrow> string option \<times> http_request" where
  "rq_hasCookie key r = (let r = initCookies r in (map_find CaseInsensitiveLess key (rq_cookies r), r))"

subsection \<open>Printing\<close>

definition header_line :: "string \<times> string \<Rightarrow> string" where
  "header_line h = fst h @ '': '' @ snd h @ crlf"

definition version_text :: "u8 \<Rightarrow> string" where
  "version_text v = ''HTTP/'' @ dec (unat (drop_bit 4 v)) @ ''.'' @ dec (unat (v AND 15))"

definition connection_line :: "bool \<Rightarrow> string" where
  "connection_line close = ''connection: '' @ (if close then ''close'' else ''keep-alive'') @ crlf"

definition dump_body :: "string \<Rightarrow> string" where
  "dump_body body =
     (if body \<noteq> [] then ''content-length: '' @ dec (length body) @ crlf @ crlf @ body else crlf)"

definition rq_printed :: "http_request \<Rightarrow> string \<times> string \<Rightarrow> bool" where
  "rq_printed r h \<longleftrightarrow> \<not> (\<not> rq_websocket r \<and> strcasecmp (fst h) ''connection'' = 0)
     \<and> \<not> (rq_body r \<noteq> [] \<and> strcasecmp (fst h) ''content-length'' = 0)"

definition rq_dump :: "http_request \<Rightarrow> string" where
  "rq_dump r =
     HttpMethodToString (rq_method r) @ '' '' @ rq_path r @ (if rq_query r = [] then [] else ''?'') @ rq_query r
     @ (if rq_fragment r = [] then [] else ''#'') @ rq_fragment r @ '' '' @ version_text (rq_version r) @ crlf
     @ (if \<not> rq_websocket r then connection_line (rq_close r) else [])
     @ concat (map header_line (filter (rq_printed r) (rq_headers r)))
     @ dump_body (rq_body r)"

subsection \<open>Responses\<close>

definition rs_getHeader :: "string \<Rightarrow> string \<Rightarrow> http_response \<Rightarrow> string" where
  "rs_getHeader key def r = map_get key def (rs_headers r)"
definition rs_setHeader :: "string \<Rightarrow> string \<Rightarrow> http_response \<Rightarrow> http_response" where
  "rs_setHeader key val r = r\<lparr>rs_headers := map_assign CaseInsensitiveLess key val (rs_headers r)\<rparr>"
definition rs_delHeader :: "string \<Rightarrow> http_response \<Rightarrow> http_response" where
  "rs_delHeader key r = r\<lparr>rs_headers := map_erase CaseInsensitiveLess key (rs_headers r)\<rparr>"
definition setRedirect :: "string \<Rightarrow> http_response \<Rightarrow> http_response" where
  "setRedirect uri r = rs_setHeader ''Location'' uri (r\<lparr>rs_status := FOUND_status\<rparr>)"

text \<open>\<open>time2str\<close> is \<open>Time2Str\<close>, the C library's formatting of a time.\<close>

definition rs_setCookie ::
  "(int \<Rightarrow> string \<Rightarrow> string) \<Rightarrow> string \<Rightarrow> string \<Rightarrow> int \<Rightarrow> string \<Rightarrow> string \<Rightarrow> bool \<Rightarrow> http_response \<Rightarrow> http_response" where
  "rs_setCookie time2str key val expired path domain secure r =
     r\<lparr>rs_cookies := rs_cookies r
       @ [key @ ''='' @ val
          @ (if expired > 0 then '';expires='' @ time2str expired ''%a, %d %b %Y %H:%M:%S'' @ '' GMT'' else [])
          @ (if domain \<noteq> [] then '';domain='' @ domain else [])
          @ (if path \<noteq> [] then '';path='' @ path else [])
          @ (if secure then '';secure'' else [])]\<rparr>"

definition rs_dump :: "http_response \<Rightarrow> string" where
  "rs_dump r =
     version_text (rs_version r) @ '' '' @ dec (rs_status r) @ '' ''
     @ (if rs_reason r = [] then HttpStatusToString (rs_status r) else rs_reason r) @ crlf
     @ concat (map header_line (filter (\<lambda>h. \<not> (\<not> rs_websocket r \<and> strcasecmp (fst h) ''connection'' = 0)) (rs_headers r)))
     @ concat (map (\<lambda>c. ''Set-Cookie: '' @ c @ crlf) (rs_cookies r))
     @ (if \<not> rs_websocket r then connection_line (rs_close r) else [])
     @ dump_body (rs_body r)"

subsection \<open>The order of the maps\<close>

definition fold_key :: "string \<Rightarrow> nat list" where
  "fold_key s = map (\<lambda>c. of_char (tolower c)) (cstr s)"

lemma of_char_tolower_inj: "(of_char (tolower a) :: nat) = of_char (tolower b) \<longleftrightarrow> tolower a = tolower b"
  by (rule of_char_eq_iff)

lemma tolower_not_null: "c \<noteq> CHR 0x00 \<Longrightarrow> (of_char (tolower c) :: nat) > 0"
proof -
  assume c: "c \<noteq> CHR 0x00"
  have "(of_char c :: nat) \<noteq> 0"
    using c of_char_eq_iff [of c "CHR 0x00", where 'a = nat] by simp
  then show ?thesis
    using char_less_256 [of c] by (auto simp: tolower_def Let_def of_char_of)
qed

lemma strcasecmp_chars_lex:
  "CHR 0x00 \<notin> set a \<Longrightarrow> CHR 0x00 \<notin> set b \<Longrightarrow>
    (strcasecmp_chars a b < 0 \<longleftrightarrow> (map (\<lambda>c. of_char (tolower c)) a, map (\<lambda>c. of_char (tolower c)) b) \<in> lexord {(m, n :: nat). m < n})
    \<and> (strcasecmp_chars a b = 0 \<longleftrightarrow> map (\<lambda>c. of_char (tolower c) :: nat) a = map (\<lambda>c. of_char (tolower c)) b)"
  by (induction a b rule: strcasecmp_chars.induct)
    (auto simp: of_char_tolower_inj intro!: tolower_not_null)

lemma cstr_no_null: "CHR 0x00 \<notin> set (cstr s)"
  by (auto simp: cstr_def dest: set_takeWhileD)

lemma strcasecmp_fold:
  "strcasecmp a b < 0 \<longleftrightarrow> (fold_key a, fold_key b) \<in> lexord {(m, n). m < n}"
  "strcasecmp a b = 0 \<longleftrightarrow> fold_key a = fold_key b"
  using strcasecmp_chars_lex [OF cstr_no_null cstr_no_null, of a b]
  by (simp_all add: strcasecmp_def fold_key_def)

lemma CaseInsensitiveLess_iff: "CaseInsensitiveLess a b \<longleftrightarrow> (fold_key a, fold_key b) \<in> lexord {(m, n). m < n}"
  by (simp add: CaseInsensitiveLess_def strcasecmp_fold)

lemma same_key_fold: "same_key CaseInsensitiveLess a b \<longleftrightarrow> fold_key a = fold_key b"
proof -
  have "(fold_key a, fold_key b) \<in> lexord {(m, n :: nat). m < n} \<or> fold_key a = fold_key b
      \<or> (fold_key b, fold_key a) \<in> lexord {(m, n). m < n}"
    by (rule lexord_linear) auto
  moreover have "(fold_key b, fold_key b) \<notin> lexord {(m, n :: nat). m < n}"
    by (rule lexord_irreflexive) simp
  ultimately show ?thesis
    by (auto simp: same_key_def CaseInsensitiveLess_iff)
qed

interpretation ci: strict_weak CaseInsensitiveLess
proof unfold_locales
  show "\<not> CaseInsensitiveLess a a" for a
    unfolding CaseInsensitiveLess_iff by (rule lexord_irreflexive) simp
  show "CaseInsensitiveLess a b \<Longrightarrow> CaseInsensitiveLess b c \<Longrightarrow> CaseInsensitiveLess a c" for a b c
    unfolding CaseInsensitiveLess_iff by (rule lexord_trans) (auto simp: trans_def)
  show "same_key CaseInsensitiveLess a b \<Longrightarrow> same_key CaseInsensitiveLess b c \<Longrightarrow> same_key CaseInsensitiveLess a c" for a b c
    by (simp add: same_key_fold)
qed

lemma same_key_strcasecmp: "same_key CaseInsensitiveLess a b \<longleftrightarrow> strcasecmp a b = 0"
  by (simp add: same_key_fold strcasecmp_fold)

subsection \<open>Query strings\<close>

text \<open>The query a client sends for a list of parameters.\<close>

fun make_query :: "(string \<times> string) list \<Rightarrow> string" where
  "make_query [] = []"
| "make_query [(k, v)] = UrlEncode k True @ ''='' @ UrlEncode v True"
| "make_query ((k, v) # kvs) = UrlEncode k True @ ''='' @ UrlEncode v True @ ''&'' @ make_query kvs"

lemma find_char_first: "c \<notin> set xs \<Longrightarrow> find_char c (xs @ c # ys) = Some (length xs)"
  by (induction xs) (auto simp: find_char_def find_from_eq)

lemma find_char_none: "c \<notin> set xs \<Longrightarrow> find_char c xs = None"
  by (auto simp: find_char_def find_from_eq)

lemma UrlEncode_chars:
  assumes "c \<in> set (UrlEncode s sp)" shows "CHAR_IS_UNRESERVED c \<or> c = CHR ''+'' \<or> c = CHR ''%''"
proof -
  have "\<forall>n \<in> set [0..<16]. CHAR_IS_UNRESERVED (hexdigits ! n)" by code_simp
  then have hex: "n < 16 \<Longrightarrow> CHAR_IS_UNRESERVED (hexdigits ! n)" for n by simp
  have "c \<in> set (encode_char sp d) \<Longrightarrow> CHAR_IS_UNRESERVED c \<or> c = CHR ''+'' \<or> c = CHR ''%''" for d
    using hex [of "of_char d div 16"] hex [of "of_char d mod 16"] char_less_256 [of d]
    by (auto simp: encode_char_def less_mult_imp_div_less split: if_splits)
  then show ?thesis using assms by (auto simp: UrlEncode_eq)
qed

lemma UrlEncode_no_amp: "CHR ''&'' \<notin> set (UrlEncode s sp)"
proof -
  have u: "\<not> CHAR_IS_UNRESERVED (CHR ''&'')" by code_simp
  then show ?thesis using UrlEncode_chars [of "CHR ''&''" s sp] by auto
qed

text \<open>The table of unreserved characters has the equals sign, so it is kept as it is.\<close>

lemma UrlEncode_eq_sign: "CHR ''='' \<in> set (UrlEncode s sp) \<longleftrightarrow> CHR ''='' \<in> set s"
proof -
  have hx: "CHR ''='' \<notin> set (encode_char sp d)" if "d \<noteq> CHR ''=''" for d
  proof -
    have "\<forall>n \<in> set [0..<16]. hexdigits ! n \<noteq> CHR ''=''" by code_simp
    then have h: "hexdigits ! n \<noteq> CHR ''=''" if "n < 16" for n using that by simp
    have "of_char d div 16 < (16 :: nat)" "of_char d mod 16 < (16 :: nat)"
      using char_less_256 [of d] by (auto simp: less_mult_imp_div_less)
    then have "hexdigits ! (of_char d div 16) \<noteq> CHR ''=''" "hexdigits ! (of_char d mod 16) \<noteq> CHR ''=''"
      using h by blast+
    then show ?thesis using that unfolding encode_char_def by simp
  qed
  have "CHAR_IS_UNRESERVED (CHR ''='')" by code_simp
  then have "set (encode_char sp (CHR ''='')) = {CHR ''=''}" by (simp add: encode_char_def)
  then have "CHR ''='' \<in> set (encode_char sp d) \<longleftrightarrow> d = CHR ''=''" for d
    using hx [of d] by (cases "d = CHR ''=''") simp_all
  then show ?thesis by (simp add: UrlEncode_eq)
qed

lemma UrlDecode_UrlEncode: "UrlDecode (UrlEncode s sp) sp = s"
  by (simp add: UrlDecode_eq UrlEncode_eq decode_encode)

lemma PARSE_PARAM_last:
  assumes "CHR ''='' \<notin> set k" "flag \<notin> set v" "flag \<noteq> CHR ''=''"
  shows "PARSE_PARAM flag trim (k @ ''='' @ v) m
    = map_insert CaseInsensitiveLess (UrlDecode (trim k) True) (UrlDecode v True) m"
  using assms find_char_first [OF assms(1), of v] find_char_none [of flag "CHR ''='' # v"]
  by (subst PARSE_PARAM.simps) simp

lemma PARSE_PARAM_step:
  assumes "CHR ''='' \<notin> set k" "flag \<notin> set v" "flag \<noteq> CHR ''=''"
  shows "PARSE_PARAM flag trim (k @ ''='' @ v @ [flag] @ rest) m
    = PARSE_PARAM flag trim rest (map_insert CaseInsensitiveLess (UrlDecode (trim k) True) (UrlDecode v True) m)"
  using assms find_char_first [OF assms(1), of "v @ flag # rest"] find_char_first [of flag "CHR ''='' # v" rest]
  by (subst PARSE_PARAM.simps) (simp add: substr_def)

lemma PARSE_PARAM_make_query:
  "\<forall>(k, v) \<in> set kvs. CHR ''='' \<notin> set k \<Longrightarrow>
    PARSE_PARAM (CHR ''&'') id (make_query kvs) m
      = foldl (\<lambda>m (k, v). map_insert CaseInsensitiveLess k v m) m kvs"
proof (induction kvs arbitrary: m rule: make_query.induct)
  case 1
  then show ?case by (subst PARSE_PARAM.simps) (simp add: find_char_none)
next
  case (2 k v)
  then show ?case
    using PARSE_PARAM_last [of "UrlEncode k True" "CHR ''&''" "UrlEncode v True" id m]
    by (simp add: UrlEncode_no_amp UrlEncode_eq_sign UrlDecode_UrlEncode id_def)
next
  case (3 k v kv kvs)
  then show ?case
    using PARSE_PARAM_step [of "UrlEncode k True" "CHR ''&''" "UrlEncode v True" id "make_query (kv # kvs)" m]
    by (simp add: UrlEncode_no_amp UrlEncode_eq_sign UrlDecode_UrlEncode id_def)
qed

text \<open>Lookup after inserting a list of pairs: the first pair whose key matches, ignoring case.\<close>

lemma map_find_inserts:
  "map_find CaseInsensitiveLess key (foldl (\<lambda>m (k, v). map_insert CaseInsensitiveLess k v m) m kvs)
    = (case map_find CaseInsensitiveLess key m of Some v \<Rightarrow> Some v
       | None \<Rightarrow> map_option snd (find (\<lambda>(k, v). strcasecmp k key = 0) kvs))"
proof (induction kvs arbitrary: m)
  case Nil
  then show ?case by (simp split: option.splits)
next
  case (Cons kv kvs)
  obtain k v where kv: "kv = (k, v)" by (rule prod.exhaust)
  have "strcasecmp k key = 0 \<longleftrightarrow> same_key CaseInsensitiveLess key k"
    using same_key_strcasecmp ci.same_sym by blast
  then show ?case
    using Cons [of "map_insert CaseInsensitiveLess k v m"] kv ci.map_find_same [of key k m]
    by (auto simp: ci.map_find_insert split: option.splits)
qed

subsection \<open>Reading a message back\<close>

text \<open>
  The reading RFC 7230 prescribes: lines up to the first empty one, then the body. \<open>take_line\<close> splits at
  the first carriage return and line feed; a text without them is not a message.
\<close>

fun take_line :: "string \<Rightarrow> (string \<times> string) option" where
  "take_line [] = None"
| "take_line [c] = None"
| "take_line (c # d # s) =
     (if c = CHR 0x0D \<and> d = CHR 0x0A then Some ([], s)
      else map_option (\<lambda>(l, r). (c # l, r)) (take_line (d # s)))"

lemma take_line_length: "take_line s = Some (l, r) \<Longrightarrow> length r < length s"
  by (induction s arbitrary: l rule: take_line.induct) (auto split: if_splits)

function parse_message :: "string \<Rightarrow> (string list \<times> string) option" where
  "parse_message s =
     (case take_line s of None \<Rightarrow> None
      | Some (l, r) \<Rightarrow>
          if l = [] then Some ([], r)
          else map_option (\<lambda>(ls, body). (l # ls, body)) (parse_message r))"
  by pat_completeness auto
termination by (relation "measure length") (auto dest: take_line_length)

declare parse_message.simps [simp del]

definition plain :: "string \<Rightarrow> bool" where
  "plain s \<longleftrightarrow> CHR 0x0D \<notin> set s"

lemma plain_append [simp]: "plain (a @ b) \<longleftrightarrow> plain a \<and> plain b"
  by (auto simp: plain_def)

lemma plain_Cons [simp]: "plain (c # s) \<longleftrightarrow> c \<noteq> CHR 0x0D \<and> plain s"
  by (auto simp: plain_def)

lemma plain_Nil [simp]: "plain []" by (simp add: plain_def)

lemma take_line_crlf: "plain l \<Longrightarrow> take_line (l @ crlf @ r) = Some (l, r)"
proof (induction l)
  case (Cons c l)
  then have "take_line (c # l @ crlf @ r) = map_option (\<lambda>(l, r). (c # l, r)) (take_line (l @ crlf @ r))"
    by (cases l) (simp_all add: crlf_def)
  then show ?case using Cons by simp
qed (simp add: crlf_def)

lemma parse_lines:
  assumes "\<forall>l \<in> set ls. plain l \<and> l \<noteq> []"
  shows "parse_message (concat (map (\<lambda>l. l @ crlf) ls) @ crlf @ body) = Some (ls, body)"
  using assms
proof (induction ls)
  case Nil
  have "take_line (crlf @ body) = Some ([], body)" using take_line_crlf [of "[]" body] by simp
  then show ?case by (subst parse_message.simps) simp
next
  case (Cons l ls)
  then show ?case by (subst parse_message.simps) (simp add: take_line_crlf)
qed

lemma dec_plain: "plain (dec n)"
proof -
  have "\<not> is_digit (CHR 0x0D)" by (simp add: is_digit_def)
  then show ?thesis using digits_value_dec [of n] by (auto simp: plain_def)
qed

lemma method_plain: "plain (HttpMethodToString m)"
proof -
  have "\<forall>e \<in> set HTTP_METHOD_MAP. plain (snd e)" by code_simp
  then show ?thesis by (simp add: HttpMethodToString_def)
qed

lemma status_plain: "plain (HttpStatusToString m)"
proof -
  have "\<forall>e \<in> set HTTP_STATUS_MAP. plain (snd e)" by code_simp
  then show ?thesis by (auto simp: HttpStatusToString_def split: option.splits dest!: map_of_SomeD)
qed

lemma header_lines: "concat (map header_line hs) = concat (map (\<lambda>l. l @ crlf) (map (\<lambda>(k, v). k @ '': '' @ v) hs))"
  by (induction hs) (auto simp: header_line_def)

definition body_lines :: "string \<Rightarrow> string list" where
  "body_lines body = (if body \<noteq> [] then [''content-length: '' @ dec (length body)] else [])"

lemma dump_body_eq: "dump_body body = concat (map (\<lambda>l. l @ crlf) (body_lines body)) @ crlf @ body"
  by (simp add: dump_body_def body_lines_def)

definition connection_text :: "bool \<Rightarrow> string" where
  "connection_text close = ''connection: '' @ (if close then ''close'' else ''keep-alive'')"

definition rq_start_line :: "http_request \<Rightarrow> string" where
  "rq_start_line r = HttpMethodToString (rq_method r) @ '' '' @ rq_path r @ (if rq_query r = [] then [] else ''?'')
     @ rq_query r @ (if rq_fragment r = [] then [] else ''#'') @ rq_fragment r @ '' '' @ version_text (rq_version r)"

definition rq_lines :: "http_request \<Rightarrow> string list" where
  "rq_lines r = rq_start_line r # (if \<not> rq_websocket r then [connection_text (rq_close r)] else [])
     @ map (\<lambda>(k, v). k @ '': '' @ v)
         (filter (\<lambda>(k, v). (rq_websocket r \<or> strcasecmp k ''connection'' \<noteq> 0) \<and> (rq_body r = [] \<or> strcasecmp k ''content-length'' \<noteq> 0))
           (rq_headers r))
     @ body_lines (rq_body r)"

definition rs_lines :: "http_response \<Rightarrow> string list" where
  "rs_lines r = (version_text (rs_version r) @ '' '' @ dec (rs_status r) @ '' ''
       @ (if rs_reason r = [] then HttpStatusToString (rs_status r) else rs_reason r))
     # map (\<lambda>(k, v). k @ '': '' @ v) (filter (\<lambda>h. rs_websocket r \<or> strcasecmp (fst h) ''connection'' \<noteq> 0) (rs_headers r))
     @ map (\<lambda>c. ''Set-Cookie: '' @ c) (rs_cookies r)
     @ (if \<not> rs_websocket r then [connection_text (rs_close r)] else []) @ body_lines (rs_body r)"

lemma rq_printed_eq:
  "rq_printed r = (\<lambda>(k, v). (rq_websocket r \<or> strcasecmp k ''connection'' \<noteq> 0) \<and> (rq_body r = [] \<or> strcasecmp k ''content-length'' \<noteq> 0))"
  by (auto simp: rq_printed_def fun_eq_iff)

lemma rq_dump_lines: "rq_dump r = concat (map (\<lambda>l. l @ crlf) (rq_lines r)) @ crlf @ rq_body r"
  by (simp add: rq_dump_def rq_lines_def rq_start_line_def header_lines dump_body_eq connection_line_def connection_text_def rq_printed_eq)

lemma rs_dump_lines: "rs_dump r = concat (map (\<lambda>l. l @ crlf) (rs_lines r)) @ crlf @ rs_body r"
  by (simp add: rs_dump_def rs_lines_def header_lines dump_body_eq connection_line_def connection_text_def comp_def)

lemmas plain_facts = dec_plain method_plain status_plain

lemma version_plain: "plain (version_text v)"
  by (simp add: version_text_def dec_plain)

lemma first_method_cong:
  "\<forall>e \<in> set t. P (snd e) = Q (snd e) \<Longrightarrow> first_method P t = first_method Q t"
  by (induction t) auto

text \<open>A name without a space is a prefix of a longer text exactly when it is one of its first word.\<close>

lemma take_space:
  assumes "CHR '' '' \<notin> set name"
  shows "take (length name) (w @ CHR '' '' # r) = name \<longleftrightarrow> take (length name) w = name"
proof (cases "length name \<le> length w")
  case False
  then have "CHR '' '' \<in> set (take (length name) (w @ CHR '' '' # r))" by (auto simp: take_Cons')
  then have "take (length name) (w @ CHR '' '' # r) \<noteq> name" using assms by metis
  moreover have "length (take (length name) w) \<noteq> length name" using False by simp
  ultimately show ?thesis by fastforce
qed simp

text \<open>The requests a program reaches by setting and deleting headers.\<close>

inductive headers_reachable :: "http_request \<Rightarrow> bool" where
  new: "rq_headers r = [] \<Longrightarrow> headers_reachable r"
| set: "headers_reachable r \<Longrightarrow> headers_reachable (rq_setHeader k v r)"
| del: "headers_reachable r \<Longrightarrow> headers_reachable (rq_delHeader k r)"

lemma headers_sorted: "headers_reachable r \<Longrightarrow> sorted_wrt CaseInsensitiveLess (map fst (rq_headers r))"
  by (induction rule: headers_reachable.induct)
    (simp_all add: rq_setHeader_def rq_delHeader_def ci.sorted_map_assign ci.sorted_map_erase)

lemma same_key_iff: "same_key CaseInsensitiveLess j k \<longleftrightarrow> strcasecmp j k = 0"
  by (rule same_key_strcasecmp)

subsection \<open>Properties\<close>

text \<open>
  C27: a printed message is read back. When no field holds a carriage return, the text \<open>dump\<close> produces for
  a request or a response is split by the reading of RFC 7230 into exactly the start line, the
  header lines in map order, with one \<open>connection\<close> line for the close flag unless the message is a websocket upgrade,
  a \<open>content-length\<close> line with the length of a non-empty body, and the body, whatever bytes it has. A header of the
  caller called \<open>connection\<close>, in any spelling, is printed only for a websocket upgrade, and one called \<open>content-length\<close>
  in a request only when there is no body.
\<close>

theorem dump_parses:
  assumes "plain (rq_path q)" "plain (rq_query q)" "plain (rq_fragment q)"
    and "\<forall>(k, v) \<in> set (rq_headers q). plain k \<and> plain v"
    and "plain (rs_reason p)" "\<forall>(k, v) \<in> set (rs_headers p). plain k \<and> plain v" "\<forall>c \<in> set (rs_cookies p). plain c"
  shows "parse_message (rq_dump q) = Some (rq_lines q, rq_body q)
      \<and> parse_message (rs_dump p) = Some (rs_lines p, rs_body p)"
proof
  have "plain l \<and> l \<noteq> []" if "l \<in> set (rq_lines q)" for l
    using that assms(1-4) version_plain
    by (auto simp: rq_lines_def rq_start_line_def body_lines_def connection_text_def plain_facts split: if_splits)
  then show "parse_message (rq_dump q) = Some (rq_lines q, rq_body q)"
    unfolding rq_dump_lines by (intro parse_lines) blast
  have "plain l \<and> l \<noteq> []" if "l \<in> set (rs_lines p)" for l
    using that assms(5-7) version_plain
    by (auto simp: rs_lines_def body_lines_def connection_text_def plain_facts split: if_splits)
  then show "parse_message (rs_dump p) = Some (rs_lines p, rs_body p)"
    unfolding rs_dump_lines by (intro parse_lines) blast
qed

theorem dump_parses_witness:
  "parse_message (rq_dump (rq_setHeader ''Connection'' ''upgrade'' (rq_setHeader ''Content-Length'' ''7'' (rq_setHeader ''Host'' ''a.b''
       ((new_HttpRequest 17 False)\<lparr>rq_body := ''hi''\<rparr>)))))
     = Some ([''GET / HTTP/1.1'', ''connection: keep-alive'', ''Host: a.b'', ''content-length: 2''], ''hi'')"
proof -
  let ?q = "rq_setHeader ''Connection'' ''upgrade'' (rq_setHeader ''Content-Length'' ''7'' (rq_setHeader ''Host'' ''a.b''
       ((new_HttpRequest 17 False)\<lparr>rq_body := ''hi''\<rparr>)))"
  have h: "rq_headers ?q = [(''Connection'', ''upgrade''), (''Content-Length'', ''7''), (''Host'', ''a.b'')]" by code_simp
  have f: "rq_path ?q = ''/''" "rq_query ?q = []" "rq_fragment ?q = []" by code_simp+
  have "parse_message (rq_dump ?q) = Some (rq_lines ?q, rq_body ?q) \<and>
      parse_message (rs_dump (new_HttpResponse 17 True)) = Some (rs_lines (new_HttpResponse 17 True), rs_body (new_HttpResponse 17 True))"
    by (rule dump_parses) (simp_all add: h f new_HttpResponse_def)
  moreover have "rq_lines ?q = [''GET / HTTP/1.1'', ''connection: keep-alive'', ''Host: a.b'', ''content-length: 2'']" "rq_body ?q = ''hi''"
    by code_simp+
  ultimately show ?thesis by simp
qed

text \<open>
  Parameters survive the trip through a query string. For parameters whose keys hold no equals
  sign, with any other bytes in keys and values, \<open>getParam\<close> of a request that carries the
  encoded parameters gives the value of the first one whose key matches ignoring case, and the
  default when none does; asking again gives the same.
\<close>

theorem query_roundtrip:
  assumes "\<forall>(k, v) \<in> set kvs. CHR ''='' \<notin> set k" "rq_query r = make_query kvs" "rq_params r = []"
    and "rq_parserParamFlag r = 0" "rq_headers r = []"
  shows "fst (rq_getParam key def r)
       = (case find (\<lambda>(k, v). strcasecmp k key = 0) kvs of None \<Rightarrow> def | Some (k, v) \<Rightarrow> v)
     \<and> rq_getParam key def (snd (rq_getParam key def r)) = rq_getParam key def r"
proof -
  let ?m = "foldl (\<lambda>m (k, v). map_insert CaseInsensitiveLess k v m) [] kvs"
  let ?r = "r\<lparr>rq_params := ?m, rq_parserParamFlag := 3\<rparr>"
  have "map_find CaseInsensitiveLess ''content-type'' [] = (None :: string option)" by simp
  moreover have "\<not> strcasestr [] ''application/x-www-form-urlencoded''" by code_simp
  ultimately have 1: "initBodyParam (initQueryParam r) = ?r"
    using assms PARSE_PARAM_make_query [OF assms(1)]
    by (simp add: initBodyParam_def initQueryParam_def map_get_def)
  have 2: "initBodyParam (initQueryParam ?r) = ?r" by (simp add: initBodyParam_def initQueryParam_def)
  show ?thesis
    using map_find_inserts [of key "[]" kvs]
    by (simp add: rq_getParam_def Let_def 1 2 map_get_def split: option.splits)
qed

theorem query_roundtrip_witness:
  "fst (rq_getParam ''B'' ''none'' ((new_HttpRequest 17 True)\<lparr>rq_query := make_query [(''a'', ''1''), (''b'', ''x=y&z'')]\<rparr>))
     = ''x=y&z''"
proof -
  let ?kvs = "[(''a'', ''1''), (''b'', ''x=y&z'')]"
  let ?r = "(new_HttpRequest 17 True)\<lparr>rq_query := make_query ?kvs\<rparr>"
  have "fst (rq_getParam ''B'' ''none'' ?r)
      = (case find (\<lambda>(k, v). strcasecmp k ''B'' = 0) ?kvs of None \<Rightarrow> ''none'' | Some (k, v) \<Rightarrow> v)
      \<and> rq_getParam ''B'' ''none'' (snd (rq_getParam ''B'' ''none'' ?r)) = rq_getParam ''B'' ''none'' ?r"
    by (rule query_roundtrip) (simp_all add: new_HttpRequest_def)
  moreover have "strcasecmp ''a'' ''B'' \<noteq> 0" "strcasecmp ''b'' ''B'' = 0" by code_simp+
  ultimately show ?thesis by simp
qed

text \<open>
  Headers are a map whose keys ignore case. From a message without headers, after any sequence
  of \<open>setHeader\<close> and \<open>delHeader\<close> calls, the header list is strictly ordered; after setting a header its
  value is found under every spelling of its name, after deleting it under none, and the other
  headers keep their values.
\<close>

theorem header_map:
  assumes "headers_reachable r"
  shows "sorted_wrt CaseInsensitiveLess (map fst (rq_headers r))
      \<and> rq_getHeader j def (rq_setHeader k v r) = (if strcasecmp j k = 0 then v else rq_getHeader j def r)
      \<and> rq_hasHeader j (rq_delHeader k r) = (if strcasecmp j k = 0 then None else rq_hasHeader j r)"
  using headers_sorted [OF assms] ci.map_find_erase [of "rq_headers r" j k]
  by (simp add: rq_getHeader_def rq_setHeader_def rq_delHeader_def rq_hasHeader_def map_get_def
      ci.map_find_assign same_key_iff)

theorem header_map_witness:
  "rq_getHeader ''content-TYPE'' [] (rq_setHeader ''Content-Type'' ''text/html'' (new_HttpRequest 17 True)) = ''text/html''"
proof -
  have "headers_reachable (new_HttpRequest 17 True)"
    by (rule headers_reachable.new) (simp add: new_HttpRequest_def)
  moreover have "strcasecmp ''content-TYPE'' ''Content-Type'' = 0" by code_simp
  ultimately show ?thesis using header_map by simp
qed

text \<open>
  Method names are read back: for every method the name \<open>HttpMethodToString\<close> gives is turned into the
  method again by \<open>StringToHttpMethod\<close>, and by \<open>CharsToHttpMethod\<close> also when a request line follows it, so
  no name is a prefix of an earlier one; a number outside the table has no method.
\<close>

theorem method_roundtrip:
  assumes "m < 34"
  shows "StringToHttpMethod (HttpMethodToString m) = m
      \<and> CharsToHttpMethod (HttpMethodToString m @ '' '' @ rest) = m
      \<and> StringToHttpMethod (HttpMethodToString (m + 34)) = INVALID_METHOD"
proof -
  let ?n = "HttpMethodToString m"
  have "\<forall>m \<in> set [0..<34]. StringToHttpMethod (HttpMethodToString m) = m" by code_simp
  then have 1: "StringToHttpMethod ?n = m" using assms by simp
  have "\<forall>m \<in> set [0..<34]. first_method (\<lambda>name. take (length name) (HttpMethodToString m) = name) HTTP_METHOD_MAP = m"
    by code_simp
  then have 2: "first_method (\<lambda>name. take (length name) ?n = name) HTTP_METHOD_MAP = m" using assms by simp
  have "\<forall>m \<in> set [0..<34]. CHR 0x00 \<notin> set (HttpMethodToString m)" by code_simp
  then have nul: "cstr (?n @ '' '' @ rest) = ?n @ '' '' @ cstr rest" using assms by (simp add: cstr_def takeWhile_append)
  have "\<forall>e \<in> set HTTP_METHOD_MAP. CHR '' '' \<notin> set (snd e)" by code_simp
  then have "first_method (\<lambda>name. take (length name) (?n @ '' '' @ cstr rest) = name) HTTP_METHOD_MAP
      = first_method (\<lambda>name. take (length name) ?n = name) HTTP_METHOD_MAP"
    using take_space [of _ ?n "cstr rest"] by (intro first_method_cong) simp
  moreover have "StringToHttpMethod (HttpMethodToString (m + 34)) = INVALID_METHOD"
  proof -
    have "length HTTP_METHOD_MAP = 34" by code_simp
    then have "HttpMethodToString (m + 34) = ''<unknown>''" by (simp add: HttpMethodToString_def)
    moreover have "StringToHttpMethod ''<unknown>'' = INVALID_METHOD" by code_simp
    ultimately show ?thesis by simp
  qed
  ultimately show ?thesis using 1 2 nul by (simp add: CharsToHttpMethod_def)
qed

theorem method_roundtrip_witness: "CharsToHttpMethod (HttpMethodToString 24 @ '' '' @ ''* HTTP/1.1'') = 24"
  using method_roundtrip [of 24 "''* HTTP/1.1''"] by simp

end
