(* ===== verification/HttpParser.thy ===== *)
theory HttpParser
  imports Http
begin

text \<open>
  The parsers of HTTP messages: \<open>src/http/http_parser.cpp\<close>, \<open>include/fishjoy/http/http_parse.hpp\<close>.

  The sources drive the nodejs \<open>http_parser\<close> library, of which the repository has the declarations
  only. The library is a parameter: \<open>http_parser_execute\<close> takes the callbacks, the bytes and the parser
  and may call the callbacks in any way; its effect on the object behind \<open>p->data\<close> is what the
  callbacks do. The callbacks and the classes that own them are modelled as they are written.
\<close>

subsection \<open>The interface of the library\<close>

record 'p http_parser =
  http_major :: u16
  http_minor :: u16
  status_code :: u16
  hp_method :: u8
  http_errno :: nat
  upgrade :: bool
  hp_private :: 'p

record http_parser_url =
  field_set :: u16
  url_port :: u16
  field_data :: "(nat \<times> nat) list"

definition UF_SCHEMA :: nat where "UF_SCHEMA = 0"
definition UF_HOST :: nat where "UF_HOST = 1"
definition UF_PORT :: nat where "UF_PORT = 2"
definition UF_PATH :: nat where "UF_PATH = 3"
definition UF_QUERY :: nat where "UF_QUERY = 4"
definition UF_FRAGMENT :: nat where "UF_FRAGMENT = 5"
definition UF_USERINFO :: nat where "UF_USERINFO = 6"

text \<open>\<open>field_set & (1 << f)\<close> and \<open>std::string(buf + field_data[f].off, field_data[f].len)\<close>.\<close>

definition has_field :: "nat \<Rightarrow> http_parser_url \<Rightarrow> bool" where
  "has_field f u = (field_set u AND push_bit f 1 \<noteq> 0)"

definition url_field :: "string \<Rightarrow> nat \<Rightarrow> http_parser_url \<Rightarrow> string" where
  "url_field buf f u = (let (off, len) = field_data u ! f in take len (drop off buf))"

text \<open>\<open>http_parser_parse_url\<close> gives nothing when it returns a nonzero value.\<close>

type_synonym parse_url_fun = "string \<Rightarrow> http_parser_url option"

datatype cb_event =
    On_message_begin
  | On_url string
  | On_status string
  | On_header_field string
  | On_header_value string
  | On_headers_complete
  | On_body string
  | On_message_complete
  | On_chunk_header
  | On_chunk_complete

text \<open>\<open>HttpRequestParser\<close> and \<open>HttpResponseParser\<close> without the \<open>http_parser\<close>, which is kept beside them.\<close>

record 'm msg_parser =
  mp_data :: 'm
  mp_error :: int
  mp_finished :: bool
  mp_field :: string

type_synonym ('p, 'm) settings = "'p http_parser \<Rightarrow> cb_event \<Rightarrow> 'm msg_parser \<Rightarrow> int \<times> 'm msg_parser"

record ('p, 'm) http_lib =
  http_parser_init :: "'p http_parser"
  http_parser_execute :: "('p, 'm) settings \<Rightarrow> string \<Rightarrow> 'p http_parser \<Rightarrow> 'm msg_parser \<Rightarrow> nat \<times> 'p http_parser \<times> 'm msg_parser"

definition HPE_UNKNOWN :: int where "HPE_UNKNOWN = 32"

subsection \<open>Requests\<close>

text \<open>\<open>((p->http_major) << 0x4) | (p->http_minor)\<close>, stored in a byte.\<close>

definition version_byte :: "'p http_parser \<Rightarrow> u8" where
  "version_byte p = ucast (push_bit 4 (ucast (http_major p) :: u32) OR ucast (http_minor p))"

definition on_request_headers_complete_cb :: "'p http_parser \<Rightarrow> http_request msg_parser \<Rightarrow> int \<times> http_request msg_parser" where
  "on_request_headers_complete_cb p m =
     (0, m\<lparr>mp_data := (mp_data m)\<lparr>rq_version := version_byte p, rq_method := unat (hp_method p)\<rparr>\<rparr>)"

definition on_request_message_complete_cb :: "http_request msg_parser \<Rightarrow> int \<times> http_request msg_parser" where
  "on_request_message_complete_cb m = (0, m\<lparr>mp_finished := True\<rparr>)"

definition on_request_url_cb :: "parse_url_fun \<Rightarrow> string \<Rightarrow> http_request msg_parser \<Rightarrow> int \<times> http_request msg_parser" where
  "on_request_url_cb parse_url buf m =
     (case parse_url buf of
        None \<Rightarrow> (1, m)
      | Some u \<Rightarrow>
          let r = mp_data m;
              r = (if has_field UF_PATH u then r\<lparr>rq_path := url_field buf UF_PATH u\<rparr> else r);
              r = (if has_field UF_QUERY u then r\<lparr>rq_query := url_field buf UF_QUERY u\<rparr> else r);
              r = (if has_field UF_FRAGMENT u then r\<lparr>rq_fragment := url_field buf UF_FRAGMENT u\<rparr> else r)
          in (0, m\<lparr>mp_data := r\<rparr>))"

definition on_request_header_field_cb :: "string \<Rightarrow> http_request msg_parser \<Rightarrow> int \<times> http_request msg_parser" where
  "on_request_header_field_cb buf m = (0, m\<lparr>mp_field := buf\<rparr>)"

definition on_request_header_value_cb :: "string \<Rightarrow> http_request msg_parser \<Rightarrow> int \<times> http_request msg_parser" where
  "on_request_header_value_cb buf m = (0, m\<lparr>mp_data := rq_setHeader (mp_field m) buf (mp_data m)\<rparr>)"

definition on_request_body_cb :: "string \<Rightarrow> http_request msg_parser \<Rightarrow> int \<times> http_request msg_parser" where
  "on_request_body_cb buf m = (0, m\<lparr>mp_data := (mp_data m)\<lparr>rq_body := rq_body (mp_data m) @ buf\<rparr>\<rparr>)"

text \<open>The table of callbacks; the ones that only write to the log return 0.\<close>

definition s_request_settings :: "parse_url_fun \<Rightarrow> ('p, http_request) settings" where
  "s_request_settings parse_url p ev m =
     (case ev of
        On_message_begin \<Rightarrow> (0, m)
      | On_url buf \<Rightarrow> on_request_url_cb parse_url buf m
      | On_status buf \<Rightarrow> (0, m)
      | On_header_field buf \<Rightarrow> on_request_header_field_cb buf m
      | On_header_value buf \<Rightarrow> on_request_header_value_cb buf m
      | On_headers_complete \<Rightarrow> on_request_headers_complete_cb p m
      | On_body buf \<Rightarrow> on_request_body_cb buf m
      | On_message_complete \<Rightarrow> on_request_message_complete_cb m
      | On_chunk_header \<Rightarrow> (0, m)
      | On_chunk_complete \<Rightarrow> (0, m))"

definition new_HttpRequestParser :: "('p, http_request) http_lib \<Rightarrow> 'p http_parser \<times> http_request msg_parser" where
  "new_HttpRequestParser lib =
     (http_parser_init lib,
      \<lparr> mp_data = new_HttpRequest 0x11 True, mp_error = 0, mp_finished = False, mp_field = [] \<rparr>)"

text \<open>
  \<open>execute\<close> gives the number of bytes parsed, the buffer, moved to the front behind what was parsed
  unless an error stopped the parser, and the parser.
\<close>

definition request_execute ::
  "('p, http_request) http_lib \<Rightarrow> parse_url_fun \<Rightarrow> string \<Rightarrow> 'p http_parser \<times> http_request msg_parser
    \<Rightarrow> nat \<times> string \<times> 'p http_parser \<times> http_request msg_parser" where
  "request_execute lib parse_url data pm =
     (let (p, m) = pm; (nparsed, p, m) = http_parser_execute lib (s_request_settings parse_url) data p m in
      if upgrade p then (nparsed, data, p, m\<lparr>mp_error := HPE_UNKNOWN\<rparr>)
      else if http_errno p \<noteq> 0 then (nparsed, data, p, m\<lparr>mp_error := int (http_errno p)\<rparr>)
      else (nparsed, if nparsed < length data then overwrite 0 (drop nparsed data) data else data, p, m))"

subsection \<open>Responses\<close>

definition on_response_headers_complete_cb :: "'p http_parser \<Rightarrow> http_response msg_parser \<Rightarrow> int \<times> http_response msg_parser" where
  "on_response_headers_complete_cb p m =
     (0, m\<lparr>mp_data := (mp_data m)\<lparr>rs_version := version_byte p, rs_status := unat (status_code p)\<rparr>\<rparr>)"

definition on_response_message_complete_cb :: "http_response msg_parser \<Rightarrow> int \<times> http_response msg_parser" where
  "on_response_message_complete_cb m = (0, m\<lparr>mp_finished := True\<rparr>)"

definition on_response_header_field_cb :: "string \<Rightarrow> http_response msg_parser \<Rightarrow> int \<times> http_response msg_parser" where
  "on_response_header_field_cb buf m = (0, m\<lparr>mp_field := buf\<rparr>)"

definition on_response_header_value_cb :: "string \<Rightarrow> http_response msg_parser \<Rightarrow> int \<times> http_response msg_parser" where
  "on_response_header_value_cb buf m = (0, m\<lparr>mp_data := rs_setHeader (mp_field m) buf (mp_data m)\<rparr>)"

definition on_response_status_cb :: "'p http_parser \<Rightarrow> http_response msg_parser \<Rightarrow> int \<times> http_response msg_parser" where
  "on_response_status_cb p m = (0, m\<lparr>mp_data := (mp_data m)\<lparr>rs_status := unat (status_code p)\<rparr>\<rparr>)"

definition on_response_body_cb :: "string \<Rightarrow> http_response msg_parser \<Rightarrow> int \<times> http_response msg_parser" where
  "on_response_body_cb buf m = (0, m\<lparr>mp_data := (mp_data m)\<lparr>rs_body := rs_body (mp_data m) @ buf\<rparr>\<rparr>)"

definition s_response_settings :: "('p, http_response) settings" where
  "s_response_settings p ev m =
     (case ev of
        On_message_begin \<Rightarrow> (0, m)
      | On_url buf \<Rightarrow> (0, m)
      | On_status buf \<Rightarrow> on_response_status_cb p m
      | On_header_field buf \<Rightarrow> on_response_header_field_cb buf m
      | On_header_value buf \<Rightarrow> on_response_header_value_cb buf m
      | On_headers_complete \<Rightarrow> on_response_headers_complete_cb p m
      | On_body buf \<Rightarrow> on_response_body_cb buf m
      | On_message_complete \<Rightarrow> on_response_message_complete_cb m
      | On_chunk_header \<Rightarrow> (0, m)
      | On_chunk_complete \<Rightarrow> (0, m))"

definition new_HttpResponseParser :: "('p, http_response) http_lib \<Rightarrow> 'p http_parser \<times> http_response msg_parser" where
  "new_HttpResponseParser lib =
     (http_parser_init lib,
      \<lparr> mp_data = new_HttpResponse 0x11 True, mp_error = 0, mp_finished = False, mp_field = [] \<rparr>)"

definition response_execute ::
  "('p, http_response) http_lib \<Rightarrow> string \<Rightarrow> 'p http_parser \<times> http_response msg_parser
    \<Rightarrow> nat \<times> string \<times> 'p http_parser \<times> http_response msg_parser" where
  "response_execute lib data pm =
     (let (p, m) = pm; (nparsed, p, m) = http_parser_execute lib s_response_settings data p m in
      if http_errno p \<noteq> 0 then (nparsed, data, p, m\<lparr>mp_error := int (http_errno p)\<rparr>)
      else (nparsed, if nparsed < length data then overwrite 0 (drop nparsed data) data else data, p, m))"

subsection \<open>What the callbacks build\<close>

text \<open>
  The library calls the callbacks in the order of the message and stops at the first that returns a
  nonzero value. It may report every string, URL, name, value or body, in any number of pieces; \<open>header_events\<close>, \<open>request_events\<close> and
  \<open>response_events\<close> are the calls for given lists of pieces, a header being the pieces of its name and those of its value.
\<close>

fun run_events :: "('p, 'm) settings \<Rightarrow> ('p http_parser \<times> cb_event) list \<Rightarrow> 'm msg_parser \<Rightarrow> int \<times> 'm msg_parser" where
  "run_events cb [] m = (0, m)"
| "run_events cb ((p, e) # es) m =
     (let (rc, m) = cb p e m in if rc \<noteq> 0 then (rc, m) else run_events cb es m)"

fun header_events :: "'p http_parser \<Rightarrow> (string list \<times> string list) list \<Rightarrow> ('p http_parser \<times> cb_event) list" where
  "header_events p [] = []"
| "header_events p ((ks, vs) # hs) =
     map (\<lambda>k. (p, On_header_field k)) ks @ map (\<lambda>v. (p, On_header_value v)) vs @ header_events p hs"

definition body_events :: "'p http_parser \<Rightarrow> string list \<Rightarrow> ('p http_parser \<times> cb_event) list" where
  "body_events p bs = map (\<lambda>b. (p, On_body b)) bs"

definition request_events ::
  "'p http_parser \<Rightarrow> string list \<Rightarrow> (string list \<times> string list) list \<Rightarrow> string list \<Rightarrow> ('p http_parser \<times> cb_event) list" where
  "request_events p urls hs bs =
     [(p, On_message_begin)] @ map (\<lambda>u. (p, On_url u)) urls @ header_events p hs @ [(p, On_headers_complete)]
     @ body_events p bs @ [(p, On_message_complete)]"

definition response_events ::
  "'p http_parser \<Rightarrow> string list \<Rightarrow> (string list \<times> string list) list \<Rightarrow> string list \<Rightarrow> ('p http_parser \<times> cb_event) list" where
  "response_events p reasons hs bs =
     [(p, On_message_begin)] @ map (\<lambda>t. (p, On_status t)) reasons @ header_events p hs @ [(p, On_headers_complete)]
     @ body_events p bs @ [(p, On_message_complete)]"

text \<open>The pieces that are left of the headers: the last ones.\<close>

definition has_pieces :: "(string list \<times> string list) list \<Rightarrow> bool" where
  "has_pieces hs = list_all (\<lambda>(ks, vs). ks \<noteq> [] \<and> vs \<noteq> []) hs"

definition last_pieces :: "(string list \<times> string list) list \<Rightarrow> (string \<times> string) list" where
  "last_pieces hs = map (\<lambda>(ks, vs). (last ks, last vs)) hs"

lemma run_events_append:
  "run_events cb es m = (0, m') \<Longrightarrow> run_events cb (es @ fs) m = run_events cb fs m'"
  by (induction cb es m rule: run_events.induct) (auto simp: Let_def split: prod.splits if_splits)

text \<open>What the two tables of callbacks share.\<close>

locale message_callbacks =
  fixes cb :: "('p, 'm) settings"
    and set_header :: "string \<Rightarrow> string \<Rightarrow> 'm \<Rightarrow> 'm"
    and add_body :: "string \<Rightarrow> 'm \<Rightarrow> 'm"
  assumes started: "cb p On_message_begin m = (0, m)"
    and field: "cb p (On_header_field s) m = (0, m\<lparr>mp_field := s\<rparr>)"
    and header: "cb p (On_header_value s) m = (0, m\<lparr>mp_data := set_header (mp_field m) s (mp_data m)\<rparr>)"
    and body: "cb p (On_body s) m = (0, m\<lparr>mp_data := add_body s (mp_data m)\<rparr>)"
    and complete: "cb p On_message_complete m = (0, m\<lparr>mp_finished := True\<rparr>)"
    and add_nothing: "add_body [] d = d"
    and add_twice: "add_body t (add_body s d) = add_body (s @ t) d"
    and set_twice: "set_header k w (set_header k v d) = set_header k w d"
begin

lemma run_field: "ks \<noteq> [] \<Longrightarrow> run_events cb (map (\<lambda>k. (p, On_header_field k)) ks) m = (0, m\<lparr>mp_field := last ks\<rparr>)"
proof (induction ks arbitrary: m)
  case (Cons k ks)
  then show ?case by (cases "ks = []") (simp_all add: field)
qed simp

lemma run_value:
  "vs \<noteq> [] \<Longrightarrow> run_events cb (map (\<lambda>v. (p, On_header_value v)) vs) m
     = (0, m\<lparr>mp_data := set_header (mp_field m) (last vs) (mp_data m)\<rparr>)"
proof (induction vs arbitrary: m)
  case (Cons v vs)
  then show ?case by (cases "vs = []") (simp_all add: header set_twice)
qed simp

lemma run_headers:
  "has_pieces hs \<Longrightarrow> \<exists>f. run_events cb (header_events p hs) m
     = (0, m\<lparr>mp_data := foldl (\<lambda>d (k, v). set_header k v d) (mp_data m) (last_pieces hs), mp_field := f\<rparr>)"
proof (induction hs arbitrary: m)
  case Nil
  have "m = m\<lparr>mp_data := mp_data m, mp_field := mp_field m\<rparr>" by simp
  then show ?case by (metis foldl_Nil header_events.simps(1) last_pieces_def list.map_disc_iff run_events.simps(1))
next
  case (Cons h hs)
  obtain ks vs where h: "h = (ks, vs)" by (rule prod.exhaust)
  have ne: "ks \<noteq> []" "vs \<noteq> []" "has_pieces hs" using Cons.prems by (simp_all add: has_pieces_def h)
  show ?case
    using Cons.IH [OF ne(3), of "m\<lparr>mp_field := last ks, mp_data := set_header (last ks) (last vs) (mp_data m)\<rparr>"]
    by (simp add: h run_events_append [OF run_field [OF ne(1)]] run_events_append [OF run_value [OF ne(2)]] last_pieces_def)
qed

lemma run_body: "run_events cb (body_events p bs) m = (0, m\<lparr>mp_data := add_body (concat bs) (mp_data m)\<rparr>)"
  by (induction bs arbitrary: m) (simp_all add: body_events_def body add_nothing add_twice)

text \<open>A whole message, given what the start line and the end of the headers do.\<close>

lemma run_message:
  assumes start: "run_events cb starts m = (0, m\<lparr>mp_data := d\<rparr>)" and pieces: "has_pieces hs"
    and headers: "\<And>m. cb p On_headers_complete m = (0, m\<lparr>mp_data := done_headers (mp_data m)\<rparr>)"
  shows "\<exists>f. run_events cb ([(p, On_message_begin)] @ starts @ header_events p hs @ [(p, On_headers_complete)]
            @ body_events p bs @ [(p, On_message_complete)]) m
     = (0, m\<lparr>mp_data := add_body (concat bs) (done_headers (foldl (\<lambda>d (k, v). set_header k v d) d (last_pieces hs))),
            mp_finished := True, mp_field := f\<rparr>)"
proof -
  obtain f where "run_events cb (header_events p hs) (m\<lparr>mp_data := d\<rparr>)
      = (0, m\<lparr>mp_data := foldl (\<lambda>d (k, v). set_header k v d) d (last_pieces hs), mp_field := f\<rparr>)"
    using run_headers [OF pieces, of p "m\<lparr>mp_data := d\<rparr>"] by auto
  note hd = run_events_append [OF this]
  show ?thesis
    by (rule exI [of _ f])
      (simp add: started run_events_append [OF start] hd headers run_events_append [OF run_body] complete)
qed

end

lemma map_assign_twice:
  "map_assign CaseInsensitiveLess k w (map_assign CaseInsensitiveLess k v m) = map_assign CaseInsensitiveLess k w m"
proof -
  have "\<not> CaseInsensitiveLess k k" by (rule ci.irrefl)
  then show ?thesis by (induction m) auto
qed

interpretation rqcb: message_callbacks "s_request_settings parse_url" rq_setHeader "\<lambda>s r. r\<lparr>rq_body := rq_body r @ s\<rparr>" for parse_url
  by unfold_locales
    (simp_all add: s_request_settings_def on_request_header_field_cb_def on_request_header_value_cb_def
      on_request_body_cb_def on_request_message_complete_cb_def rq_setHeader_def map_assign_twice)

interpretation rscb: message_callbacks s_response_settings rs_setHeader "\<lambda>s r. r\<lparr>rs_body := rs_body r @ s\<rparr>"
  by unfold_locales
    (simp_all add: s_response_settings_def on_response_header_field_cb_def on_response_header_value_cb_def
      on_response_body_cb_def on_response_message_complete_cb_def rs_setHeader_def map_assign_twice)

subsection \<open>The request and the response that are built\<close>

definition set_headers :: "(string \<times> string) list \<Rightarrow> map_type \<Rightarrow> map_type" where
  "set_headers hs m = foldl (\<lambda>m (k, v). map_assign CaseInsensitiveLess k v m) m hs"

definition last_header :: "string \<Rightarrow> (string \<times> string) list \<Rightarrow> string option" where
  "last_header k hs = map_option snd (find (\<lambda>(j, v). strcasecmp k j = 0) (rev hs))"

lemma set_headers_request: "foldl (\<lambda>d (k, v). rq_setHeader k v d) r hs = r\<lparr>rq_headers := set_headers hs (rq_headers r)\<rparr>"
  by (induction hs arbitrary: r) (auto simp: set_headers_def rq_setHeader_def)

lemma set_headers_response: "foldl (\<lambda>d (k, v). rs_setHeader k v d) r hs = r\<lparr>rs_headers := set_headers hs (rs_headers r)\<rparr>"
  by (induction hs arbitrary: r) (auto simp: set_headers_def rs_setHeader_def)

lemma map_find_set_headers:
  "map_find CaseInsensitiveLess k (set_headers hs m)
     = (case last_header k hs of None \<Rightarrow> map_find CaseInsensitiveLess k m | Some v \<Rightarrow> Some v)"
proof (induction hs arbitrary: m)
  case (Cons h hs)
  obtain j v where h: "h = (j, v)" by (rule prod.exhaust)
  have "set_headers (h # hs) m = set_headers hs (map_assign CaseInsensitiveLess j v m)"
    by (simp add: set_headers_def h)
  then show ?case
    by (auto simp: Cons.IH last_header_def find_append h ci.map_find_assign same_key_iff split: option.splits)
qed (simp add: set_headers_def last_header_def)

text \<open>The start line of a request: what \<open>on_url\<close> stores.\<close>

definition with_url :: "string \<Rightarrow> http_parser_url \<Rightarrow> http_request \<Rightarrow> http_request" where
  "with_url buf u r =
     r\<lparr>rq_path := if has_field UF_PATH u then url_field buf UF_PATH u else rq_path r,
       rq_query := if has_field UF_QUERY u then url_field buf UF_QUERY u else rq_query r,
       rq_fragment := if has_field UF_FRAGMENT u then url_field buf UF_FRAGMENT u else rq_fragment r\<rparr>"

lemma on_url: "parse_url buf = Some u \<Longrightarrow>
    s_request_settings parse_url p (On_url buf) m = (0, m\<lparr>mp_data := with_url buf u (mp_data m)\<rparr>)"
  by (simp add: s_request_settings_def on_request_url_cb_def with_url_def Let_def)

definition with_urls :: "parse_url_fun \<Rightarrow> string list \<Rightarrow> http_request \<Rightarrow> http_request" where
  "with_urls parse_url urls r = foldl (\<lambda>r buf. with_url buf (the (parse_url buf)) r) r urls"

lemma run_urls:
  "list_all (\<lambda>u. parse_url u \<noteq> None) urls \<Longrightarrow>
     run_events (s_request_settings parse_url) (map (\<lambda>u. (p, On_url u)) urls) m = (0, m\<lparr>mp_data := with_urls parse_url urls (mp_data m)\<rparr>)"
proof (induction urls arbitrary: m)
  case (Cons u us)
  then show ?case by (auto simp: on_url with_urls_def)
qed (simp add: with_urls_def)

lemma run_request:
  assumes "list_all (\<lambda>u. parse_url u \<noteq> None) urls" "has_pieces hs"
  shows "\<exists>f. run_events (s_request_settings parse_url) (request_events p urls hs bs) m
    = (0, m\<lparr>mp_data := (with_urls parse_url urls (mp_data m))
               \<lparr>rq_headers := set_headers (last_pieces hs) (rq_headers (mp_data m)), rq_version := version_byte p,
                rq_method := unat (hp_method p), rq_body := rq_body (mp_data m) @ concat bs\<rparr>,
            mp_finished := True, mp_field := f\<rparr>)"
proof -
  have hc: "s_request_settings parse_url p On_headers_complete m
      = (0, m\<lparr>mp_data := (mp_data m)\<lparr>rq_version := version_byte p, rq_method := unat (hp_method p)\<rparr>\<rparr>)" for m
    by (simp add: s_request_settings_def on_request_headers_complete_cb_def)
  have keep: "rq_headers (with_urls parse_url urls q) = rq_headers q" "rq_body (with_urls parse_url urls q) = rq_body q" for q
    unfolding with_urls_def by (induction urls arbitrary: q) (simp_all add: with_url_def)
  show ?thesis
    using rqcb.run_message [where parse_url = parse_url and p = p and bs = bs and done_headers = "\<lambda>r. r\<lparr>rq_version := version_byte p, rq_method := unat (hp_method p)\<rparr>",
      OF run_urls [OF assms(1)] assms(2) hc]
    by (simp add: request_events_def set_headers_request keep)
qed

lemma run_response:
  assumes "has_pieces hs"
  shows "\<exists>f. run_events s_response_settings (response_events p reasons hs bs) m
    = (0, m\<lparr>mp_data := (mp_data m)
               \<lparr>rs_headers := set_headers (last_pieces hs) (rs_headers (mp_data m)), rs_version := version_byte p,
                rs_status := unat (status_code p), rs_body := rs_body (mp_data m) @ concat bs\<rparr>,
            mp_finished := True, mp_field := f\<rparr>)"
proof -
  have 1: "s_response_settings p On_headers_complete m
      = (0, m\<lparr>mp_data := (mp_data m)\<lparr>rs_version := version_byte p, rs_status := unat (status_code p)\<rparr>\<rparr>)" for m :: "http_response msg_parser"
    by (simp add: s_response_settings_def on_response_headers_complete_cb_def)
  have 2: "run_events s_response_settings (map (\<lambda>t. (p, On_status t)) reasons) m
      = (0, m\<lparr>mp_data := (if reasons = [] then mp_data m else (mp_data m)\<lparr>rs_status := unat (status_code p)\<rparr>)\<rparr>)" for m
    by (induction reasons arbitrary: m) (simp_all add: s_response_settings_def on_response_status_cb_def)
  show ?thesis
    using rscb.run_message [where p = p and bs = bs and done_headers = "\<lambda>r. r\<lparr>rs_version := version_byte p, rs_status := unat (status_code p)\<rparr>",
      OF 2 assms 1]
    by (cases "reasons = []") (simp_all add: response_events_def set_headers_response)
qed

text \<open>
  A second request in the same read goes into the same object, which keeps the headers of the first
  and joins the bodies.
\<close>

lemma pipelined_requests_merge:
  assumes "list_all (\<lambda>u. parse_url u \<noteq> None) (urls1 @ urls2)" "has_pieces (hs1 @ hs2)"
  shows "\<exists>m'. run_events (s_request_settings parse_url) (request_events p1 urls1 hs1 bs1 @ request_events p2 urls2 hs2 bs2) m = (0, m')
    \<and> rq_method (mp_data m') = unat (hp_method p2)
    \<and> rq_body (mp_data m') = rq_body (mp_data m) @ concat bs1 @ concat bs2
    \<and> rq_headers (mp_data m') = set_headers (last_pieces hs2) (set_headers (last_pieces hs1) (rq_headers (mp_data m)))"
proof -
  have u: "list_all (\<lambda>u. parse_url u \<noteq> None) urls1" "list_all (\<lambda>u. parse_url u \<noteq> None) urls2" "has_pieces hs1" "has_pieces hs2"
    using assms by (simp_all add: has_pieces_def)
  obtain m1 where 1: "run_events (s_request_settings parse_url) (request_events p1 urls1 hs1 bs1) m = (0, m1)"
    and m1: "rq_body (mp_data m1) = rq_body (mp_data m) @ concat bs1"
      "rq_headers (mp_data m1) = set_headers (last_pieces hs1) (rq_headers (mp_data m))"
    using run_request [of parse_url, OF u(1,3), of p1 bs1 m] by auto
  show ?thesis
    using run_request [of parse_url, OF u(2,4), of p2 bs2 m1] by (auto simp: run_events_append [OF 1] m1)
qed

lemma with_urls_parts:
  "rq_path (with_urls parse_url urls r)
     = foldl (\<lambda>x u. if has_field UF_PATH (the (parse_url u)) then url_field u UF_PATH (the (parse_url u)) else x) (rq_path r) urls"
  "rq_query (with_urls parse_url urls r)
     = foldl (\<lambda>x u. if has_field UF_QUERY (the (parse_url u)) then url_field u UF_QUERY (the (parse_url u)) else x) (rq_query r) urls"
  "rq_fragment (with_urls parse_url urls r)
     = foldl (\<lambda>x u. if has_field UF_FRAGMENT (the (parse_url u)) then url_field u UF_FRAGMENT (the (parse_url u)) else x) (rq_fragment r) urls"
  unfolding with_urls_def by (induction urls arbitrary: r) (simp_all add: with_url_def)

lemma find_map_pieces: "find P (map f xs) = map_option f (find (\<lambda>x. P (f x)) xs)"
  by (induction xs) simp_all

subsection \<open>Properties\<close>

text \<open>
  C22: what the callbacks build, for every way in which the library may report a message: URL, names, values and body each in any number of
  pieces, every string in one piece being a special case. When the pieces of the URL parse, every callback returns 0 and a new request
  parser ends finished, with the method and the version; the path, the query and the fragment of the last piece of the
  URL that has one; for every spelling of a name the last piece of its last value, names being their last pieces; and the joined body. The
  same holds of a response with its status. A piece of the URL that does not parse stops the library with an unfinished parser.
\<close>

theorem message_built:
  assumes "list_all (\<lambda>u. parse_url u \<noteq> None) urls" "has_pieces hs" "parse_url bad = None"
  shows "(\<exists>m. run_events (s_request_settings parse_url) (request_events p urls hs bs) (snd (new_HttpRequestParser lib)) = (0, m)
      \<and> mp_finished m \<and> mp_error m = 0
      \<and> rq_method (mp_data m) = unat (hp_method p) \<and> rq_version (mp_data m) = version_byte p
      \<and> rq_path (mp_data m) = foldl (\<lambda>x u. if has_field UF_PATH (the (parse_url u)) then url_field u UF_PATH (the (parse_url u)) else x) ''/'' urls
      \<and> rq_query (mp_data m) = foldl (\<lambda>x u. if has_field UF_QUERY (the (parse_url u)) then url_field u UF_QUERY (the (parse_url u)) else x) [] urls
      \<and> rq_fragment (mp_data m) = foldl (\<lambda>x u. if has_field UF_FRAGMENT (the (parse_url u)) then url_field u UF_FRAGMENT (the (parse_url u)) else x) [] urls
      \<and> rq_body (mp_data m) = concat bs
      \<and> (\<forall>k def. rq_getHeader k def (mp_data m)
           = (case find (\<lambda>(ks, vs). strcasecmp k (last ks) = 0) (rev hs) of None \<Rightarrow> def | Some (ks, vs) \<Rightarrow> last vs)))
    \<and> (\<exists>m. run_events s_response_settings (response_events q reasons hs bs) (snd (new_HttpResponseParser lib')) = (0, m)
      \<and> mp_finished m \<and> mp_error m = 0
      \<and> rs_status (mp_data m) = unat (status_code q) \<and> rs_version (mp_data m) = version_byte q
      \<and> rs_body (mp_data m) = concat bs
      \<and> (\<forall>k def. rs_getHeader k def (mp_data m)
           = (case find (\<lambda>(ks, vs). strcasecmp k (last ks) = 0) (rev hs) of None \<Rightarrow> def | Some (ks, vs) \<Rightarrow> last vs)))
    \<and> (\<exists>m. run_events (s_request_settings parse_url) (request_events p (urls @ bad # later) hs bs) (snd (new_HttpRequestParser lib)) = (1, m)
      \<and> \<not> mp_finished m)"
proof (intro conjI)
  have hdr: "last_header k (last_pieces hs) = map_option (\<lambda>(ks, vs). last vs) (find (\<lambda>(ks, vs). strcasecmp k (last ks) = 0) (rev hs))" for k
    by (simp add: last_header_def last_pieces_def rev_map find_map_pieces split_def option.map_comp comp_def)
  let ?m = "snd (new_HttpRequestParser lib)"
  have new: "mp_error ?m = 0" "mp_data ?m = new_HttpRequest 0x11 True" "\<not> mp_finished ?m" by (simp_all add: new_HttpRequestParser_def)
  note parts = with_urls_parts [of parse_url urls "new_HttpRequest 0x11 True"]
  show "\<exists>m. run_events (s_request_settings parse_url) (request_events p urls hs bs) ?m = (0, m)
      \<and> mp_finished m \<and> mp_error m = 0
      \<and> rq_method (mp_data m) = unat (hp_method p) \<and> rq_version (mp_data m) = version_byte p
      \<and> rq_path (mp_data m) = foldl (\<lambda>x u. if has_field UF_PATH (the (parse_url u)) then url_field u UF_PATH (the (parse_url u)) else x) ''/'' urls
      \<and> rq_query (mp_data m) = foldl (\<lambda>x u. if has_field UF_QUERY (the (parse_url u)) then url_field u UF_QUERY (the (parse_url u)) else x) [] urls
      \<and> rq_fragment (mp_data m) = foldl (\<lambda>x u. if has_field UF_FRAGMENT (the (parse_url u)) then url_field u UF_FRAGMENT (the (parse_url u)) else x) [] urls
      \<and> rq_body (mp_data m) = concat bs
      \<and> (\<forall>k def. rq_getHeader k def (mp_data m)
           = (case find (\<lambda>(ks, vs). strcasecmp k (last ks) = 0) (rev hs) of None \<Rightarrow> def | Some (ks, vs) \<Rightarrow> last vs))"
    using run_request [of parse_url, OF assms(1,2), of p bs ?m] new parts
    by (auto simp: new_HttpRequest_def rq_getHeader_def map_get_def map_find_set_headers hdr split: option.splits)
  let ?n = "snd (new_HttpResponseParser lib')"
  have new': "mp_error ?n = 0" "mp_data ?n = new_HttpResponse 0x11 True" by (simp_all add: new_HttpResponseParser_def)
  show "\<exists>m. run_events s_response_settings (response_events q reasons hs bs) ?n = (0, m)
      \<and> mp_finished m \<and> mp_error m = 0
      \<and> rs_status (mp_data m) = unat (status_code q) \<and> rs_version (mp_data m) = version_byte q
      \<and> rs_body (mp_data m) = concat bs
      \<and> (\<forall>k def. rs_getHeader k def (mp_data m)
           = (case find (\<lambda>(ks, vs). strcasecmp k (last ks) = 0) (rev hs) of None \<Rightarrow> def | Some (ks, vs) \<Rightarrow> last vs))"
    using run_response [OF assms(2), of q reasons bs ?n] new'
    by (auto simp: new_HttpResponse_def rs_getHeader_def map_get_def map_find_set_headers hdr split: option.splits)
  have "run_events (s_request_settings parse_url) (request_events p (urls @ bad # later) hs bs) ?m
      = (1, ?m\<lparr>mp_data := with_urls parse_url urls (mp_data ?m)\<rparr>)"
    by (simp add: request_events_def rqcb.started run_events_append [OF run_urls [OF assms(1)]])
      (simp add: s_request_settings_def on_request_url_cb_def assms(3))
  then show "\<exists>m. run_events (s_request_settings parse_url) (request_events p (urls @ bad # later) hs bs) ?m = (1, m) \<and> \<not> mp_finished m"
    using new(3) by auto
qed

text \<open>A library that reads the one URL \<open>/a?b\<close>.\<close>

definition one_url :: parse_url_fun where
  "one_url buf = (if buf = ''/a?b'' then
     Some \<lparr> field_set = 24, url_port = 0, field_data = [(0, 0), (0, 0), (0, 0), (0, 2), (3, 1), (0, 0), (0, 0)] \<rparr>
   else None)"

definition no_lib :: "(unit, 'm) http_lib" where
  "no_lib = \<lparr> http_parser_init = \<lparr> http_major = 1, http_minor = 1, status_code = 200, hp_method = 3, http_errno = 0,
       upgrade = False, hp_private = () \<rparr>, http_parser_execute = (\<lambda>cb data p m. (0, p, m)) \<rparr>"

theorem message_built_witness:
  "\<exists>m. run_events (s_request_settings one_url) (request_events (http_parser_init no_lib) [''/a?b''] [([''Ho'', ''st''], [''x'', ''y''])] [''q='', ''1''])
      (snd (new_HttpRequestParser no_lib)) = (0, m)
    \<and> rq_path (mp_data m) = ''/a'' \<and> rq_query (mp_data m) = ''b'' \<and> rq_method (mp_data m) = 3
    \<and> rq_body (mp_data m) = ''q=1'' \<and> rq_getHeader ''ST'' [] (mp_data m) = ''y''"
proof -
  have 1: "one_url ''/a?b'' \<noteq> None" "one_url [] = None" by code_simp+
  obtain u where u: "one_url ''/a?b'' = Some u" using 1 by auto
  have f: "has_field UF_PATH u" "url_field ''/a?b'' UF_PATH u = ''/a''" "has_field UF_QUERY u" "url_field ''/a?b'' UF_QUERY u = ''b''"
    using u by (auto simp: one_url_def has_field_def url_field_def UF_PATH_def UF_QUERY_def)
  have h: "strcasecmp ''ST'' ''st'' = 0" by code_simp
  have p: "unat (hp_method (http_parser_init no_lib)) = 3" by (simp add: no_lib_def)
  have urls: "list_all (\<lambda>u. one_url u \<noteq> None) [''/a?b'']" using 1 by simp
  have hs: "has_pieces [([''Ho'', ''st''], [''x'', ''y''])]" by (simp add: has_pieces_def)
  show ?thesis
    using conjunct1 [OF message_built [OF urls hs 1(2), of "http_parser_init no_lib" "[''q='', ''1'']" no_lib]]
    by (auto simp: f h p u)
qed

end
