(* ===== verification/Uri.thy ===== *)
theory Uri
  imports HttpParser Address
begin

text \<open>
  URIs: \<open>src/net/uri.cpp\<close>, \<open>include/fishjoy/net/uri.hpp\<close>. The library function that locates the parts of a
  URI and the name service are parameters. A \<open>Uri\<close> is a record; its plain getters and setters are the
  fields.
\<close>

record uri =
  m_scheme :: string
  m_userinfo :: string
  m_host :: string
  m_path :: string
  m_query :: string
  m_fragment :: string
  m_port :: int

definition new_Uri :: uri where
  "new_Uri = \<lparr> m_scheme = [], m_userinfo = [], m_host = [], m_path = [], m_query = [], m_fragment = [], m_port = 0 \<rparr>"

text \<open>\<open>std::stoi\<close>: leading space, a sign, digits; no digits and a value that does not fit are exceptions.\<close>

definition stoi :: "string \<Rightarrow> int result" where
  "stoi s =
     (let s1 = dropWhile isspace s;
          neg = (s1 \<noteq> [] \<and> hd s1 = CHR ''-'');
          s2 = (if s1 \<noteq> [] \<and> (hd s1 = CHR ''-'' \<or> hd s1 = CHR ''+'') then tl s1 else s1);
          ds = takeWhile is_digit s2;
          v = (if neg then - int (digits_value ds) else int (digits_value ds))
      in if ds = [] then Inl (Invalid_argument ''stoi'')
         else if - (2 ^ 31) \<le> v \<and> v < 2 ^ 31 then Inr v else Inl (Out_of_range ''stoi''))"

text \<open>The setters of \<open>Create\<close> that store a part when the library found one.\<close>

definition set_part :: "nat \<Rightarrow> string \<Rightarrow> http_parser_url \<Rightarrow> (string \<Rightarrow> uri \<Rightarrow> uri) \<Rightarrow> uri \<Rightarrow> uri" where
  "set_part f urlstr u upd uri = (if has_field f u then upd (url_field urlstr f u) uri else uri)"

definition Create :: "parse_url_fun \<Rightarrow> string \<Rightarrow> uri option result" where
  "Create parse_url urlstr =
     (case parse_url urlstr of
        None \<Rightarrow> Inr None
      | Some u \<Rightarrow>
          let uri = set_part UF_SCHEMA urlstr u (\<lambda>v. m_scheme_update (\<lambda>_. v)) new_Uri;
              uri = set_part UF_USERINFO urlstr u (\<lambda>v. m_userinfo_update (\<lambda>_. v)) uri;
              uri = set_part UF_HOST urlstr u (\<lambda>v. m_host_update (\<lambda>_. v)) uri
          in rbind (if has_field UF_PORT u then stoi (url_field urlstr UF_PORT u)
                    else if m_scheme uri = ''http'' \<or> m_scheme uri = ''ws'' then Inr 80
                    else if m_scheme uri = ''https'' then Inr 443
                    else Inr (m_port uri)) (\<lambda>prt.
             let uri = uri\<lparr>m_port := prt\<rparr>;
                 uri = set_part UF_PATH urlstr u (\<lambda>v. m_path_update (\<lambda>_. v)) uri;
                 uri = set_part UF_QUERY urlstr u (\<lambda>v. m_query_update (\<lambda>_. v)) uri;
                 uri = set_part UF_FRAGMENT urlstr u (\<lambda>v. m_fragment_update (\<lambda>_. v)) uri
             in Inr (Some uri)))"

definition getPort :: "uri \<Rightarrow> int" where
  "getPort u =
     (if m_port u \<noteq> 0 then m_port u
      else if m_scheme u = ''http'' \<or> m_scheme u = ''ws'' then 80
      else if m_scheme u = ''https'' \<or> m_scheme u = ''wss'' then 443
      else m_port u)"

definition getPath :: "uri \<Rightarrow> string" where
  "getPath u = (if m_path u = [] then ''/'' else m_path u)"

definition isDefaultPort :: "uri \<Rightarrow> bool" where
  "isDefaultPort u =
     (if m_scheme u = ''http'' \<or> m_scheme u = ''ws'' then m_port u = 80
      else if m_scheme u = ''https'' then m_port u = 443
      else False)"

text \<open>\<open>std::to_string\<close> of an \<open>int32_t\<close>.\<close>

definition to_string :: "int \<Rightarrow> string" where
  "to_string v = (if v < 0 then CHR ''-'' # dec (nat (- v)) else dec (nat v))"

definition uri_toString :: "uri \<Rightarrow> string" where
  "uri_toString u =
     m_scheme u @ ''://'' @ m_userinfo u @ (if m_userinfo u = [] then [] else ''@'')
     @ m_host u @ (if isDefaultPort u then [] else CHR '':'' # to_string (m_port u))
     @ getPath u @ (if m_query u = [] then [] else ''?'') @ m_query u
     @ (if m_fragment u = [] then [] else ''#'') @ m_fragment u"

text \<open>\<open>setPort\<close> takes a \<open>uint16_t\<close>.\<close>

definition address_setPort :: "nat \<Rightarrow> int \<Rightarrow> address \<Rightarrow> address" where
  "address_setPort bo v a =
     (case a of
        IPv4Address x \<Rightarrow> IPv4Address (IPv4_setPort bo (of_int v) x)
      | IPv6Address x \<Rightarrow> IPv6Address (IPv6_setPort bo (of_int v) x)
      | _ \<Rightarrow> a)"

definition createAddress :: "gai \<Rightarrow> nat \<Rightarrow> uri \<Rightarrow> address option" where
  "createAddress getaddrinfo bo u =
     map_option (address_setPort bo (getPort u)) (LookupAnyIPAddress getaddrinfo (m_host u) AF_INET 0 0)"

subsection \<open>Locating the parts\<close>

text \<open>
  What the library documents: a text that is put together from delimiters and parts is given back
  with the offset and the length of each part that is not empty. A text is a list of segments, those
  that carry a part tagged with its number.
\<close>

type_synonym segments = "(nat option \<times> string) list"

definition seg_text :: "segments \<Rightarrow> string" where
  "seg_text segs = concat (map snd segs)"

definition seg_part :: "nat \<Rightarrow> segments \<Rightarrow> string" where
  "seg_part f segs = (case find (\<lambda>s. fst s = Some f) segs of None \<Rightarrow> [] | Some s \<Rightarrow> snd s)"

fun seg_range :: "nat \<Rightarrow> segments \<Rightarrow> nat \<Rightarrow> nat \<times> nat" where
  "seg_range f [] off = (0, 0)"
| "seg_range f ((g, s) # segs) off =
     (if g = Some f then (off, length s) else seg_range f segs (off + length s))"

definition seg_url :: "segments \<Rightarrow> http_parser_url" where
  "seg_url segs =
     \<lparr> field_set = foldr (\<lambda>f w. if seg_part f segs \<noteq> [] then Bit_Operations.set_bit f w else w) [0..<7] 0,
       url_port = 0, field_data = map (\<lambda>f. seg_range f segs 0) [0..<7] \<rparr>"

definition locates :: "parse_url_fun \<Rightarrow> segments \<Rightarrow> bool" where
  "locates parse_url segs = (parse_url (seg_text segs) = Some (seg_url segs))"

lemma seg_range_text:
  "(case seg_range f segs (length pre) of (off, len) \<Rightarrow> take len (drop off (pre @ seg_text segs))) = seg_part f segs"
proof (induction segs arbitrary: pre)
  case (Cons s segs)
  then show ?case
    using Cons.IH [of "pre @ snd s"] by (cases s) (auto simp: seg_text_def seg_part_def split: prod.splits)
qed (simp add: seg_part_def)

lemma url_field_seg: "f < 7 \<Longrightarrow> url_field (seg_text segs) f (seg_url segs) = seg_part f segs"
  using seg_range_text [where f = f and segs = segs and pre = "[]"] by (simp add: url_field_def seg_url_def nth_append)

lemma bit_foldr_set:
  fixes w :: u16
  assumes "\<forall>g \<in> set fs. g < 16"
  shows "bit (foldr (\<lambda>g w. if P g then Bit_Operations.set_bit g w else w) fs w) f \<longleftrightarrow> f \<in> set fs \<and> P f \<or> bit w f"
  using assms by (induction fs) (auto simp: bit_set_bit_iff)

lemma has_field_seg: "f < 7 \<Longrightarrow> has_field f (seg_url segs) \<longleftrightarrow> seg_part f segs \<noteq> []"
proof -
  assume f: "f < 7"
  have "has_field f (seg_url segs) = bit (field_set (seg_url segs)) f"
    by (simp add: has_field_def bit_iff_and_push_bit_not_eq_0)
  also have "\<dots> \<longleftrightarrow> seg_part f segs \<noteq> []"
    unfolding seg_url_def http_parser_url.simps using f by (subst bit_foldr_set) auto
  finally show ?thesis .
qed

text \<open>The segments \<open>toString\<close> writes.\<close>

definition uri_segments :: "uri \<Rightarrow> segments" where
  "uri_segments u =
     [(Some UF_SCHEMA, m_scheme u), (None, ''://''), (Some UF_USERINFO, m_userinfo u),
      (None, if m_userinfo u = [] then [] else ''@''), (Some UF_HOST, m_host u),
      (None, if isDefaultPort u then [] else '':''), (Some UF_PORT, if isDefaultPort u then [] else to_string (m_port u)),
      (Some UF_PATH, getPath u), (None, if m_query u = [] then [] else ''?''), (Some UF_QUERY, m_query u),
      (None, if m_fragment u = [] then [] else ''#''), (Some UF_FRAGMENT, m_fragment u)]"

lemma uri_toString_text: "uri_toString u = seg_text (uri_segments u)"
  by (simp add: uri_toString_def seg_text_def uri_segments_def)

lemmas UF_defs = UF_SCHEMA_def UF_HOST_def UF_PORT_def UF_PATH_def UF_QUERY_def UF_FRAGMENT_def UF_USERINFO_def

lemma uri_parts:
  "seg_part UF_SCHEMA (uri_segments u) = m_scheme u" "seg_part UF_USERINFO (uri_segments u) = m_userinfo u"
  "seg_part UF_HOST (uri_segments u) = m_host u"
  "seg_part UF_PORT (uri_segments u) = (if isDefaultPort u then [] else to_string (m_port u))"
  "seg_part UF_PATH (uri_segments u) = getPath u" "seg_part UF_QUERY (uri_segments u) = m_query u"
  "seg_part UF_FRAGMENT (uri_segments u) = m_fragment u"
  by (simp_all add: seg_part_def uri_segments_def UF_defs)

lemma set_part_seg:
  assumes "f < 7"
  shows "set_part f (seg_text segs) (seg_url segs) upd uri = (if seg_part f segs \<noteq> [] then upd (seg_part f segs) uri else uri)"
  using assms by (simp add: set_part_def url_field_seg has_field_seg)

lemma stoi_to_string:
  assumes "0 \<le> v" "v < 2 ^ 31"
  shows "stoi (to_string v) = Inr v"
proof -
  let ?d = "dec (nat v)"
  have d: "digits_value ?d = nat v" "\<forall>c \<in> set ?d. is_digit c" "?d \<noteq> []" using digits_value_dec by blast+
  have "is_digit (hd ?d)" using d(2,3) by auto
  then have h: "\<not> isspace (hd ?d)" "hd ?d \<noteq> CHR ''-''" "hd ?d \<noteq> CHR ''+''"
    by (auto simp: is_digit_def isspace_def)
  have dw: "dropWhile isspace ?d = ?d" using h(1) d(3) by (cases ?d) auto
  have tw: "takeWhile is_digit ?d = ?d" using d(2) by simp
  show ?thesis
    using assms h d(1,3) by (simp add: stoi_def to_string_def Let_def dw tw)
qed

lemma to_string_nonempty: "to_string v \<noteq> []"
  using digits_value_dec by (simp add: to_string_def)

subsection \<open>Properties\<close>

text \<open>
  A URI is read back from its text. When the library locates the parts of the text \<open>toString\<close>
  writes, \<open>Create\<close> gives a URI with the same scheme, user, host, query, fragment and port, an empty path
  having become \<open>/\<close>; it prints as the same text, and the port that \<open>createAddress\<close> uses is the same.
\<close>

theorem uri_roundtrip:
  assumes "locates parse_url (uri_segments u)" "0 \<le> m_port u" "m_port u < 2 ^ 31"
  shows "\<exists>v. Create parse_url (uri_toString u) = Inr (Some v) \<and> v = u\<lparr>m_path := getPath u\<rparr>
    \<and> uri_toString v = uri_toString u \<and> getPort v = getPort u"
proof -
  have parse: "parse_url (seg_text (uri_segments u)) = Some (seg_url (uri_segments u))"
    using assms(1) by (simp add: locates_def)
  have default: "m_scheme u \<in> {''http'', ''ws''} \<and> m_port u = 80 \<or> m_scheme u = ''https'' \<and> m_port u = 443" if "isDefaultPort u"
    using that by (auto simp: isDefaultPort_def split: if_splits)
  have lt: "UF_SCHEMA < 7" "UF_HOST < 7" "UF_PORT < 7" "UF_PATH < 7" "UF_QUERY < 7" "UF_FRAGMENT < 7" "UF_USERINFO < 7"
    by (simp_all add: UF_defs)
  have path: "getPath u \<noteq> []" by (simp add: getPath_def)
  have "Create parse_url (uri_toString u) = Inr (Some (u\<lparr>m_path := getPath u\<rparr>))"
    unfolding Create_def uri_toString_text parse option.case Let_def set_part_seg [OF lt(1)] set_part_seg [OF lt(2)]
      set_part_seg [OF lt(4)] set_part_seg [OF lt(5)] set_part_seg [OF lt(6)] set_part_seg [OF lt(7)]
      has_field_seg [OF lt(3)] url_field_seg [OF lt(3)] uri_parts
    using default path stoi_to_string [OF assms(2,3)]
    by (auto simp: rbind_def new_Uri_def to_string_nonempty)
  moreover have "uri_toString (u\<lparr>m_path := getPath u\<rparr>) = uri_toString u"
    by (simp add: uri_toString_def getPath_def isDefaultPort_def)
  moreover have "getPort (u\<lparr>m_path := getPath u\<rparr>) = getPort u" by (simp add: getPort_def)
  ultimately show ?thesis by blast
qed

theorem uri_roundtrip_witness:
  "\<exists>parse_url v. Create parse_url ''http://u@h:81/p?q#f'' = Inr (Some v) \<and> m_host v = ''h'' \<and> m_port v = 81"
proof -
  let ?u = "\<lparr> m_scheme = ''http'', m_userinfo = ''u'', m_host = ''h'', m_path = ''/p'', m_query = ''q'', m_fragment = ''f'', m_port = 81 \<rparr>"
  let ?parse = "\<lambda>s. if s = seg_text (uri_segments ?u) then Some (seg_url (uri_segments ?u)) else None"
  have "locates ?parse (uri_segments ?u)" by (simp add: locates_def)
  moreover have "uri_toString ?u = ''http://u@h:81/p?q#f''" by code_simp
  ultimately have "\<exists>v. Create ?parse ''http://u@h:81/p?q#f'' = Inr (Some v) \<and> m_host v = ''h'' \<and> m_port v = 81"
    using uri_roundtrip [of ?parse ?u] by auto
  then show ?thesis by blast
qed

text \<open>
  \<open>wss\<close> is known to \<open>getPort\<close> and not to \<open>isDefaultPort\<close> and \<open>Create\<close>: without a port it prints as port 0.
\<close>

lemma wss_prints_port_zero:
  assumes "m_scheme u = ''wss''" "m_port u = 0" "m_userinfo u = []" "m_query u = []" "m_fragment u = []"
  shows "getPort u = 443 \<and> uri_toString u = ''wss://'' @ m_host u @ '':0'' @ getPath u"
proof -
  have "to_string 0 = ''0''" by code_simp
  then show ?thesis using assms by (simp add: getPort_def uri_toString_def isDefaultPort_def)
qed

end
