(* ===== verification/Servlet.thy ===== *)
theory Servlet
  imports Http
begin

text \<open>
  Servlets and their dispatch: \<open>src/http/servlet.cpp\<close>, \<open>include/fishjoy/http/servlet.hpp\<close>.

  A servlet is its name and its \<open>handle\<close>, which may change the request, the response and the session;
  the session is a type parameter. The table of exact paths, an \<open>unordered_map\<close>, is a map; the list of
  patterns is in the order of the vector. \<open>fnmatch\<close> of the C library is a parameter, true on a match.
  Every operation holds the dispatcher's lock, so each is one step.
\<close>

type_synonym 's handler = "http_request \<Rightarrow> http_response \<Rightarrow> 's \<Rightarrow> int \<times> http_request \<times> http_response \<times> 's"

record 's servlet =
  slt_name :: string
  slt_handle :: "'s handler"

definition FunctionServlet :: "'s handler \<Rightarrow> 's servlet" where
  "FunctionServlet cb = \<lparr> slt_name = ''FunctionServlet'', slt_handle = cb \<rparr>"

definition NOT_FOUND_status :: nat where "NOT_FOUND_status = 404"

definition not_found_content :: "string \<Rightarrow> string" where
  "not_found_content name = ''<html><head><title>404 Not Found'' @ ''</title></head><body><center><h1>404 Not Found</h1></center>''
     @ ''<hr><center>'' @ name @ ''</center></body></html>''"

definition NotFound_handle :: "string \<Rightarrow> 's handler" where
  "NotFound_handle content rq rs s =
     (let rs = rs\<lparr>rs_status := NOT_FOUND_status\<rparr>;
          rs = rs_setHeader ''Server'' ''fishjoy/1.0.0'' rs;
          rs = rs_setHeader ''Content-Type'' ''text/html'' rs
      in (0, rq, rs\<lparr>rs_body := content\<rparr>, s))"

definition NotFoundServlet :: "string \<Rightarrow> 's servlet" where
  "NotFoundServlet name = \<lparr> slt_name = ''NotFoundServlet'', slt_handle = NotFound_handle (not_found_content name) \<rparr>"

text \<open>\<open>HoldServletCreator\<close> keeps one servlet; \<open>ServletCreator<T>\<close> makes a new one, given by its constructor, at every \<open>get\<close>.\<close>

datatype 's creator =
    HoldServletCreator "'s servlet"
  | ServletCreator string "unit \<Rightarrow> 's servlet"

definition creator_get :: "'s creator \<Rightarrow> 's servlet" where
  "creator_get c = (case c of HoldServletCreator slt \<Rightarrow> slt | ServletCreator _ mk \<Rightarrow> mk ())"

definition creator_getName :: "'s creator \<Rightarrow> string" where
  "creator_getName c = (case c of HoldServletCreator slt \<Rightarrow> slt_name slt | ServletCreator name _ \<Rightarrow> name)"

record 's dispatch =
  m_datas :: "string \<rightharpoonup> 's creator"
  m_globs :: "(string \<times> 's creator) list"
  m_default :: "'s servlet option"

definition new_ServletDispatch :: "'s dispatch" where
  "new_ServletDispatch = \<lparr> m_datas = Map.empty, m_globs = [], m_default = Some (NotFoundServlet ''fishjoy/1.0'') \<rparr>"

subsection \<open>Registration\<close>

definition addServletCreator :: "string \<Rightarrow> 's creator \<Rightarrow> 's dispatch \<Rightarrow> 's dispatch" where
  "addServletCreator uri c d = d\<lparr>m_datas := (m_datas d)(uri \<mapsto> c)\<rparr>"

definition addServlet :: "string \<Rightarrow> 's servlet \<Rightarrow> 's dispatch \<Rightarrow> 's dispatch" where
  "addServlet uri slt d = d\<lparr>m_datas := (m_datas d)(uri \<mapsto> HoldServletCreator slt)\<rparr>"

definition addServlet_cb :: "string \<Rightarrow> 's handler \<Rightarrow> 's dispatch \<Rightarrow> 's dispatch" where
  "addServlet_cb uri cb d = d\<lparr>m_datas := (m_datas d)(uri \<mapsto> HoldServletCreator (FunctionServlet cb))\<rparr>"

text \<open>The loop that erases the first pair of a pattern.\<close>

fun erase_first :: "string \<Rightarrow> (string \<times> 'c) list \<Rightarrow> (string \<times> 'c) list" where
  "erase_first uri [] = []"
| "erase_first uri ((p, c) # gs) = (if p = uri then gs else (p, c) # erase_first uri gs)"

definition addGlobServletCreator :: "string \<Rightarrow> 's creator \<Rightarrow> 's dispatch \<Rightarrow> 's dispatch" where
  "addGlobServletCreator uri c d = d\<lparr>m_globs := erase_first uri (m_globs d) @ [(uri, c)]\<rparr>"

definition addGlobServlet :: "string \<Rightarrow> 's servlet \<Rightarrow> 's dispatch \<Rightarrow> 's dispatch" where
  "addGlobServlet uri slt d = d\<lparr>m_globs := erase_first uri (m_globs d) @ [(uri, HoldServletCreator slt)]\<rparr>"

definition addGlobServlet_cb :: "string \<Rightarrow> 's handler \<Rightarrow> 's dispatch \<Rightarrow> 's dispatch" where
  "addGlobServlet_cb uri cb d = addGlobServlet uri (FunctionServlet cb) d"

definition delServlet :: "string \<Rightarrow> 's dispatch \<Rightarrow> 's dispatch" where
  "delServlet uri d = d\<lparr>m_datas := (m_datas d)(uri := None)\<rparr>"

definition delGlobServlet :: "string \<Rightarrow> 's dispatch \<Rightarrow> 's dispatch" where
  "delGlobServlet uri d = d\<lparr>m_globs := erase_first uri (m_globs d)\<rparr>"

definition setDefault :: "'s servlet option \<Rightarrow> 's dispatch \<Rightarrow> 's dispatch" where
  "setDefault v d = d\<lparr>m_default := v\<rparr>"

subsection \<open>Look-up\<close>

definition getServlet :: "string \<Rightarrow> 's dispatch \<Rightarrow> 's servlet option" where
  "getServlet uri d = map_option creator_get (m_datas d uri)"

fun find_glob :: "(string \<Rightarrow> bool) \<Rightarrow> (string \<times> 's creator) list \<Rightarrow> 's servlet option" where
  "find_glob P [] = None"
| "find_glob P ((p, c) # gs) = (if P p then Some (creator_get c) else find_glob P gs)"

definition getGlobServlet :: "string \<Rightarrow> 's dispatch \<Rightarrow> 's servlet option" where
  "getGlobServlet uri d = find_glob (\<lambda>p. p = uri) (m_globs d)"

definition getMatchedServlet :: "(string \<Rightarrow> string \<Rightarrow> bool) \<Rightarrow> string \<Rightarrow> 's dispatch \<Rightarrow> 's servlet option" where
  "getMatchedServlet fnmatch uri d =
     (case m_datas d uri of
        Some c \<Rightarrow> Some (creator_get c)
      | None \<Rightarrow>
          (case find_glob (\<lambda>p. fnmatch (cstr p) (cstr uri)) (m_globs d) of
             Some slt \<Rightarrow> Some slt
           | None \<Rightarrow> m_default d))"

definition Dispatch_handle :: "(string \<Rightarrow> string \<Rightarrow> bool) \<Rightarrow> 's dispatch \<Rightarrow> 's handler" where
  "Dispatch_handle fnmatch d rq rs s =
     (case getMatchedServlet fnmatch (rq_path rq) d of
        None \<Rightarrow> (0, rq, rs, s)
      | Some slt \<Rightarrow> (let (_, rq, rs, s) = slt_handle slt rq rs s in (0, rq, rs, s)))"

definition listAllServletCreator :: "'s dispatch \<Rightarrow> (string \<rightharpoonup> 's creator) \<Rightarrow> (string \<rightharpoonup> 's creator)" where
  "listAllServletCreator d infos = infos ++ m_datas d"

definition listAllGlobServletCreator :: "'s dispatch \<Rightarrow> (string \<rightharpoonup> 's creator) \<Rightarrow> (string \<rightharpoonup> 's creator)" where
  "listAllGlobServletCreator d infos = foldl (\<lambda>m (p, c). m(p \<mapsto> c)) infos (m_globs d)"

subsection \<open>The specification: the last operation on a name decides\<close>

text \<open>
  A history is the sequence of operations on a dispatcher. For each path, and for each pattern, only the
  last operation on it counts; patterns are tried in the order of these last operations.
\<close>

datatype 's dispatch_op =
    Add string "'s creator"
  | AddGlob string "'s creator"
  | Del string
  | DelGlob string
  | SetDefault "'s servlet option"

fun run_op :: "'s dispatch_op \<Rightarrow> 's dispatch \<Rightarrow> 's dispatch" where
  "run_op (Add uri c) d = addServletCreator uri c d"
| "run_op (AddGlob uri c) d = addGlobServletCreator uri c d"
| "run_op (Del uri) d = delServlet uri d"
| "run_op (DelGlob uri) d = delGlobServlet uri d"
| "run_op (SetDefault v) d = setDefault v d"

fun exact_op :: "'s dispatch_op \<Rightarrow> (string \<times> 's creator option) list" where
  "exact_op (Add uri c) = [(uri, Some c)]"
| "exact_op (Del uri) = [(uri, None)]"
| "exact_op _ = []"

fun glob_op :: "'s dispatch_op \<Rightarrow> (string \<times> 's creator option) list" where
  "glob_op (AddGlob uri c) = [(uri, Some c)]"
| "glob_op (DelGlob uri) = [(uri, None)]"
| "glob_op _ = []"

fun last_ops :: "(string \<times> 'c) list \<Rightarrow> (string \<times> 'c) list" where
  "last_ops [] = []"
| "last_ops (x # xs) = (if fst x \<in> fst ` set xs then last_ops xs else x # last_ops xs)"

definition live :: "(string \<times> 'c option) list \<Rightarrow> (string \<times> 'c) list" where
  "live ops = map (\<lambda>(p, c). (p, the c)) (filter (\<lambda>(p, c). c \<noteq> None) (last_ops ops))"

definition run_ops :: "'s dispatch_op list \<Rightarrow> 's dispatch" where
  "run_ops ops = foldl (\<lambda>d op. run_op op d) new_ServletDispatch ops"

lemma last_ops_snoc: "last_ops (xs @ [x]) = filter (\<lambda>y. fst y \<noteq> fst x) (last_ops xs) @ [x]"
  by (induction xs) auto

lemma last_ops_distinct: "distinct (map fst (last_ops xs))"
proof (induction xs)
  case (Cons x xs)
  have "fst ` set (last_ops xs) \<subseteq> fst ` set xs" by (induction xs) auto
  then show ?case using Cons by auto
qed simp

lemma live_Nil: "live [] = []"
  by (simp add: live_def)

lemma live_snoc:
  "live (xs @ [(p, c)]) = filter (\<lambda>y. fst y \<noteq> p) (live xs) @ (case c of None \<Rightarrow> [] | Some c \<Rightarrow> [(p, c)])"
  by (simp add: live_def last_ops_snoc filter_map comp_def case_prod_unfold conj_commute split: option.splits)

lemma live_distinct: "distinct (map fst (live xs))"
proof -
  have "map fst (live xs) = map fst (filter (\<lambda>(p, c). c \<noteq> None) (last_ops xs))"
    by (simp add: live_def comp_def case_prod_unfold)
  then show ?thesis by (simp add: distinct_map_filter last_ops_distinct)
qed

lemma erase_first_filter: "distinct (map fst gs) \<Longrightarrow> erase_first p gs = filter (\<lambda>y. fst y \<noteq> p) gs"
proof (induction gs)
  case (Cons g gs)
  then have "fst g \<notin> fst ` set gs" by simp
  then have "filter (\<lambda>y. fst y \<noteq> fst g) gs = gs" by (auto simp: filter_id_conv image_iff)
  then show ?case using Cons by (cases g) auto
qed simp

lemma map_of_filter_keys: "map_of (filter (\<lambda>y. fst y \<noteq> p) gs) q = (if q = p then None else map_of gs q)"
  by (induction gs) auto

text \<open>The dispatcher implements the specification.\<close>

lemma run_ops_snoc: "run_ops (ops @ [op]) = run_op op (run_ops ops)"
  by (simp add: run_ops_def)

lemmas op_defs = addServletCreator_def addGlobServletCreator_def delServlet_def delGlobServlet_def setDefault_def

lemma globs_live: "m_globs (run_ops ops) = live (concat (map glob_op ops))"
proof (induction ops rule: rev_induct)
  case (snoc op ops)
  have "erase_first p (live xs) = filter (\<lambda>y. fst y \<noteq> p) (live xs)" for p and xs :: "(string \<times> 's creator option) list"
    by (rule erase_first_filter [OF live_distinct])
  then show ?case using snoc by (cases op) (simp_all add: run_ops_snoc op_defs live_snoc)
qed (simp add: run_ops_def new_ServletDispatch_def live_Nil)

lemma datas_live: "m_datas (run_ops ops) = map_of (live (concat (map exact_op ops)))"
proof (induction ops rule: rev_induct)
  case (snoc op ops)
  then show ?case
    by (cases op) (simp_all add: run_ops_snoc op_defs live_snoc map_of_filter_keys map_add_def fun_eq_iff split: option.split)
qed (simp add: run_ops_def new_ServletDispatch_def live_Nil)

lemma find_glob_find: "find_glob P gs = map_option (\<lambda>g. creator_get (snd g)) (find (\<lambda>g. P (fst g)) gs)"
  by (induction gs) auto

lemma overloads:
  "addServlet uri slt d = run_op (Add uri (HoldServletCreator slt)) d"
  "addServlet_cb uri cb d = run_op (Add uri (HoldServletCreator (FunctionServlet cb))) d"
  "addGlobServlet uri slt d = run_op (AddGlob uri (HoldServletCreator slt)) d"
  "addGlobServlet_cb uri cb d = run_op (AddGlob uri (HoldServletCreator (FunctionServlet cb))) d"
  by (simp_all add: addServlet_def addServlet_cb_def addGlobServlet_def addGlobServlet_cb_def op_defs)

subsection \<open>The answer without a match\<close>

text \<open>
  A new dispatcher turns every request into a 404 response with two headers of its own, leaves the
  request and the session as they are, and returns 0.
\<close>

lemma not_found_by_default:
  "\<exists>rs'. Dispatch_handle fnmatch new_ServletDispatch rq rs s = (0, rq, rs', s)
     \<and> rs_status rs' = 404 \<and> rs_body rs' = not_found_content ''fishjoy/1.0''
     \<and> rs_version rs' = rs_version rs \<and> rs_close rs' = rs_close rs
     \<and> (\<forall>k def. rs_getHeader k def rs' = (if strcasecmp k ''Content-Type'' = 0 then ''text/html''
          else if strcasecmp k ''Server'' = 0 then ''fishjoy/1.0.0'' else rs_getHeader k def rs))"
  by (simp add: Dispatch_handle_def getMatchedServlet_def new_ServletDispatch_def NotFoundServlet_def
      NotFound_handle_def Let_def rs_setHeader_def rs_getHeader_def map_get_def ci.map_find_assign same_key_iff
      NOT_FOUND_status_def)

subsection \<open>Properties\<close>

text \<open>
  C9: dispatch follows the last registrations. After any sequence of additions, removals and changes
  of the default, a path goes to the servlet of the last operation on exactly that path if that was an
  addition; otherwise to the first pattern that matches, among the patterns whose last operation was an
  addition in the order of these operations; otherwise to the default. No pattern is in the list twice,
  so removing one removes it for good.
\<close>

theorem dispatch_last_wins:
  "getMatchedServlet fnmatch uri (run_ops ops)
     = (case map_of (live (concat (map exact_op ops))) uri of
          Some c \<Rightarrow> Some (creator_get c)
        | None \<Rightarrow>
            (case find (\<lambda>(p, c). fnmatch (cstr p) (cstr uri)) (live (concat (map glob_op ops))) of
               Some (p, c) \<Rightarrow> Some (creator_get c)
             | None \<Rightarrow> m_default (run_ops ops)))
   \<and> distinct (map fst (m_globs (run_ops ops)))
   \<and> getGlobServlet p (run_op (DelGlob p) (run_ops ops)) = None
   \<and> getGlobServlet p (run_op (AddGlob p c) (run_ops ops)) = Some (creator_get c)"
proof (intro conjI)
  have none: "find (\<lambda>g. fst g = p) (filter (\<lambda>y. fst y \<noteq> p) gs) = None" for gs :: "(string \<times> 's creator) list"
    by (auto simp: find_None_iff)
  show "distinct (map fst (m_globs (run_ops ops)))" by (simp add: globs_live live_distinct)
  show "getGlobServlet p (run_op (DelGlob p) (run_ops ops)) = None"
    "getGlobServlet p (run_op (AddGlob p c) (run_ops ops)) = Some (creator_get c)"
    by (simp_all add: getGlobServlet_def find_glob_find globs_live erase_first_filter [OF live_distinct] op_defs
        find_append none)
qed (auto simp: getMatchedServlet_def globs_live datas_live find_glob_find case_prod_unfold split: option.split)

end
