(* ===== verification/HttpServer.thy ===== *)
theory HttpServer
  imports Streams Uri Servlet
begin

text \<open>
  The server side of HTTP: \<open>src/http/http_session.cpp\<close>, \<open>src/http/http_server.cpp\<close> and their headers,
  with the receiving loop that \<open>src/http/http_connection.cpp\<close> repeats.

  A loop that waits for a peer need not end, so the loops are partial functions whose value \<open>None\<close> is
  not returning; the theorems say when they return. The parser library, the URL parser, \<open>fnmatch\<close> and the
  system calls are parameters.
\<close>

definition bytes_of :: "string \<Rightarrow> byte list" where
  "bytes_of s = map (\<lambda>c. of_nat (of_char c)) s"

definition chars_of :: "byte list \<Rightarrow> string" where
  "chars_of bs = map (\<lambda>b. char_of (unat b)) bs"

lemma chars_of_bytes_of [simp]: "chars_of (bytes_of s) = s"
proof -
  have "(of_char c :: nat) < 256" for c :: char by (rule char_less_256)
  then have "unat (of_nat (of_char c) :: u8) = of_char c" for c :: char
    by (simp add: unat_of_nat take_bit_eq_mod)
  then show ?thesis by (induction s) (simp_all add: chars_of_def bytes_of_def)
qed

lemma length_bytes_of [simp]: "length (bytes_of s) = length s"
  by (simp add: bytes_of_def)

lemma length_chars_of [simp]: "length (chars_of bs) = length bs"
  by (simp add: chars_of_def)

subsection \<open>Receiving a message\<close>

text \<open>
  One round reads behind what is left in the buffer and runs the parser on all of it. The round of a
  response also ends the text with a null byte, for which its buffer has one byte more.
\<close>

partial_function (option) recv_loop ::
  "'n os \<Rightarrow> (string \<Rightarrow> 'q \<Rightarrow> nat \<times> string \<times> 'q) \<Rightarrow> ('q \<Rightarrow> bool) \<Rightarrow> ('q \<Rightarrow> bool) \<Rightarrow> bool \<Rightarrow> nat
    \<Rightarrow> socket_stream \<Rightarrow> int \<Rightarrow> byte list \<Rightarrow> 'q \<Rightarrow> 'n \<Rightarrow> ('q option \<times> socket_stream \<times> 'n) result option" where
  "recv_loop os execute hasError isFinished ends buff_size ss offset buffer parser n =
     (if offset < 0 then Some (Inl Bad_access)
      else
        (case stream_read os ss (nat offset) (sub64 buff_size (nat offset)) (buffer, n) of
           Inl e \<Rightarrow> Some (Inl e)
         | Inr (len, buffer, n) \<Rightarrow>
             if len \<le> 0 then (let (ss, n) = stream_close os ss n in Some (Inr (None, ss, n)))
             else
               let len = int32 (len + offset);
                   buffer = (if ends then buffer[nat len := 0] else buffer);
                   (nparse, text, parser) = execute (chars_of (take (nat len) buffer)) parser;
                   buffer = overwrite 0 (bytes_of text) buffer
               in if hasError parser then (let (ss, n) = stream_close os ss n in Some (Inr (None, ss, n)))
                  else
                    let offset = int32 (len - int nparse)
                    in if offset = int32 (int buff_size) then
                         (let (ss, n) = stream_close os ss n in Some (Inr (None, ss, n)))
                       else if isFinished parser then Some (Inr (Some parser, ss, n))
                       else recv_loop os execute hasError isFinished ends buff_size ss offset buffer parser n))"

definition hasError :: "'p http_parser \<times> 'm msg_parser \<Rightarrow> bool" where
  "hasError pm = (mp_error (snd pm) \<noteq> 0)"

definition isFinished :: "'p http_parser \<times> 'm msg_parser \<Rightarrow> bool" where
  "isFinished pm = mp_finished (snd pm)"

definition recvRequest ::
  "'n os \<Rightarrow> ('p, http_request) http_lib \<Rightarrow> parse_url_fun \<Rightarrow> nat \<Rightarrow> socket_stream \<Rightarrow> 'n
    \<Rightarrow> (http_request option \<times> socket_stream \<times> 'n) result option" where
  "recvRequest os lib parse_url buff_size ss n =
     map_option (\<lambda>r. rbind r (\<lambda>(q, ss, n). Inr (map_option (\<lambda>pm. init_request (mp_data (snd pm))) q, ss, n)))
       (recv_loop os (request_execute lib parse_url) hasError isFinished False buff_size ss 0 (replicate buff_size 0)
         (new_HttpRequestParser lib) n)"

definition sendResponse :: "'n os \<Rightarrow> http_response \<Rightarrow> socket_stream \<Rightarrow> 'n \<Rightarrow> (int \<times> 'n) result" where
  "sendResponse os rsp ss n =
     (let data = bytes_of (rs_dump rsp) in
      rbind (writeFixSize os ss (length data) (data, n)) (\<lambda>(r, _, n). Inr (r, n)))"

subsection \<open>The server\<close>

record 's http_server =
  m_isKeepalive :: bool
  m_dispatch :: "'s dispatch"
  hs_name :: string

definition new_HttpServer :: "bool \<Rightarrow> 's http_server" where
  "new_HttpServer keepalive = \<lparr> m_isKeepalive = keepalive, m_dispatch = new_ServletDispatch, hs_name = ''fishjoy/1.0.0'' \<rparr>"

definition http_setName :: "string \<Rightarrow> 's http_server \<Rightarrow> 's http_server" where
  "http_setName v srv = srv\<lparr>hs_name := v, m_dispatch := setDefault (Some (NotFoundServlet v)) (m_dispatch srv)\<rparr>"

text \<open>One round of \<open>handleClient\<close> after a request: the answer and whether the loop goes on.\<close>

definition answer ::
  "'n os \<Rightarrow> (string \<Rightarrow> string \<Rightarrow> bool) \<Rightarrow> (socket_stream \<times> 'n) http_server \<Rightarrow> http_request \<Rightarrow> socket_stream \<Rightarrow> 'n
    \<Rightarrow> (bool \<times> socket_stream \<times> 'n) result" where
  "answer os fnmatch srv req ss n =
     (let rsp = new_HttpResponse (rq_version req) (rq_close req \<or> \<not> m_isKeepalive srv);
          rsp = rs_setHeader ''Server'' (hs_name srv) rsp;
          (_, req, rsp, ss, n) = Dispatch_handle fnmatch (m_dispatch srv) req rsp (ss, n)
      in rbind (sendResponse os rsp ss n) (\<lambda>(_, n). Inr (\<not> (\<not> m_isKeepalive srv \<or> rq_close req), ss, n)))"

partial_function (option) client_loop ::
  "(socket_stream \<Rightarrow> 'n \<Rightarrow> (http_request option \<times> socket_stream \<times> 'n) result option)
    \<Rightarrow> (http_request \<Rightarrow> socket_stream \<Rightarrow> 'n \<Rightarrow> (bool \<times> socket_stream \<times> 'n) result)
    \<Rightarrow> socket_stream \<Rightarrow> 'n \<Rightarrow> (socket_stream \<times> 'n) result option" where
  "client_loop receive respond ss n =
     (case receive ss n of
        None \<Rightarrow> None
      | Some (Inl e) \<Rightarrow> Some (Inl e)
      | Some (Inr (None, ss, n)) \<Rightarrow> Some (Inr (ss, n))
      | Some (Inr (Some req, ss, n)) \<Rightarrow>
          (case respond req ss n of
             Inl e \<Rightarrow> Some (Inl e)
           | Inr (again, ss, n) \<Rightarrow>
               if again then client_loop receive respond ss n else Some (Inr (ss, n))))"

text \<open>\<open>handleClient\<close>; the session owns its socket, so its destructor closes it once more.\<close>

definition handleClient ::
  "'n os \<Rightarrow> ('p, http_request) http_lib \<Rightarrow> parse_url_fun \<Rightarrow> nat \<Rightarrow> (string \<Rightarrow> string \<Rightarrow> bool)
    \<Rightarrow> (socket_stream \<times> 'n) http_server \<Rightarrow> sock \<Rightarrow> 'n \<Rightarrow> (socket_stream \<times> 'n) result option" where
  "handleClient os lib parse_url buff_size fnmatch srv client n =
     (let session = \<lparr> m_socket = Some client, m_owner = True \<rparr> in
      map_option (\<lambda>r. rbind r (\<lambda>(ss, n).
          let (ss, n) = stream_close os ss n in Inr (ss, delete_SocketStream os ss n)))
        (client_loop (recvRequest os lib parse_url buff_size) (answer os fnmatch srv) session n))"

subsection \<open>The loops return\<close>

text \<open>
  The documented behaviour the loops rely on: a call of \<open>recv\<close> that returns data takes it from what the
  peer has sent, so it uses up a part of the input \<open>left n\<close> that is still to come, and sending uses up none.
\<close>

definition input_law :: "'n os \<Rightarrow> ('n \<Rightarrow> nat) \<Rightarrow> bool" where
  "input_law os left \<longleftrightarrow>
     (\<forall>fd len fl n r bs n'. os_recv os fd len fl n = (r, bs, n') \<longrightarrow> - 1 \<le> r \<and> (0 < r \<longrightarrow> left n' < left n))
     \<and> (\<forall>fd bs to fl n r n'. os_send os fd bs to fl n = (r, n') \<longrightarrow> left n' \<le> left n)"

lemma input_lawD:
  assumes "input_law os left"
  shows "os_recv os fd len fl n = (r, bs, n') \<Longrightarrow> - 1 \<le> r \<and> (0 < r \<longrightarrow> left n' < left n)"
    "os_send os fd bs to fl n = (r, n') \<Longrightarrow> left n' \<le> left n"
  using assms unfolding input_law_def by blast+

lemma stream_read_uses:
  assumes "input_law os left" "stream_read os ss off len (buf, n) = Inr (r, buf', n')" "0 < r"
  shows "left n' < left n"
proof -
  obtain fd x bs where s: "os_recv os fd len 0 n = (x, bs, n')" "r = int32 x"
    using assms(2,3) by (auto simp: stream_read_def recv_def Let_def split: option.splits if_splits prod.splits)
  have "- 1 \<le> x \<and> (0 < x \<longrightarrow> left n' < left n)" by (rule input_lawD(1) [OF assms(1) s(1)])
  moreover have "x \<noteq> - 1" "x \<noteq> 0" using assms(3) s(2) by (auto simp: int32_def)
  ultimately show ?thesis by auto
qed

lemma recv_loop_returns:
  assumes law: "input_law os left"
  shows "\<exists>r. recv_loop os execute hasError isFinished ends buff_size ss offset buffer parser n = Some r
     \<and> (\<forall>q ss' n'. r = Inr (Some q, ss', n') \<longrightarrow> left n' < left n \<and> ss' = ss)"
proof (induction "left n" arbitrary: n offset buffer parser rule: less_induct)
  case less
  show ?case
  proof (cases "offset < 0")
    case True
    then show ?thesis by (subst recv_loop.simps) simp
  next
    case False
    let ?read = "stream_read os ss (nat offset) (sub64 buff_size (nat offset)) (buffer, n)"
    show ?thesis
    proof (cases ?read)
      case (Inl e)
      then show ?thesis using False by (subst recv_loop.simps) simp
    next
      case (Inr a)
      obtain len buffer1 n1 where a: "a = (len, buffer1, n1)" by (metis prod.exhaust)
      show ?thesis
      proof (cases "len \<le> 0")
        case True
        then show ?thesis using False Inr a
          by (subst recv_loop.simps) (simp split: prod.splits)
      next
        case pos: False
        then have used: "left n1 < left n" using stream_read_uses [OF law] Inr a by auto
        let ?len = "int32 (len + offset)"
        let ?buffer = "if ends then buffer1[nat ?len := 0] else buffer1"
        obtain nparse msg parser1 where ex: "execute (chars_of (take (nat ?len) ?buffer)) parser = (nparse, msg, parser1)"
          by (metis prod.exhaust)
        note IH = less [OF used, of "int32 (?len - int nparse)" "overwrite 0 (bytes_of msg) ?buffer" parser1]
        have "recv_loop os execute hasError isFinished ends buff_size ss offset buffer parser n =
            (if hasError parser1 \<or> int32 (?len - int nparse) = int32 (int buff_size)
             then (let (ss, n) = stream_close os ss n1 in Some (Inr (None, ss, n)))
             else if isFinished parser1 then Some (Inr (Some parser1, ss, n1))
             else recv_loop os execute hasError isFinished ends buff_size ss (int32 (?len - int nparse))
               (overwrite 0 (bytes_of msg) ?buffer) parser1 n1)"
          using False pos Inr a ex by (subst recv_loop.simps) (simp add: Let_def)
        then show ?thesis using IH used by (auto split: prod.splits)
      qed
    qed
  qed
qed

text \<open>The fixed-size transfer keeps what every call of its operation keeps.\<close>

lemma fix_loop_keeps:
  assumes "\<And>off k s r s'. op off k s = Inr (r, s') \<Longrightarrow> Q s \<Longrightarrow> Q s'"
    and "fix_loop op offset len s = Inr (r, s')" "Q s"
  shows "Q s'"
  using assms
proof (induction op offset len s rule: fix_loop.induct)
  case (1 op offset len s)
  show ?case
  proof (cases "0 < len")
    case True
    obtain k s1 where op: "op offset (nat len) s = Inr (k, s1)"
      using "1.prems"(2) True by (subst (asm) fix_loop.simps) (auto split: sum.splits)
    then have "Q s1" using "1.prems"(1,3) by blast
    then show ?thesis
      using "1.prems"(2) "1.IH" [OF True op refl] "1.prems"(1) True op
      by (subst (asm) fix_loop.simps) (auto split: if_splits)
  next
    case False
    then show ?thesis using "1.prems"(2,3) by (subst (asm) fix_loop.simps) simp
  qed
qed

lemma sendResponse_uses_none:
  assumes "input_law os left" "sendResponse os rsp ss n = Inr (r, n')"
  shows "left n' \<le> left n"
proof -
  let ?Q = "\<lambda>(b :: byte list, n'). left n' \<le> left n"
  have keep: "?Q s'" if "stream_write os ss off k s = Inr (r, s')" "?Q s" for off k s r s'
    using that
    by (auto simp: stream_write_def send_def Let_def split: option.splits if_splits prod.splits
        dest!: input_lawD(2) [OF assms(1)])
  obtain b v where "fix_loop (stream_write os ss) 0 (int64 (int (length (rs_dump rsp)))) (bytes_of (rs_dump rsp), n) = Inr (v, b, n')"
    using assms(2) by (auto simp: sendResponse_def writeFixSize_def fix_size_def rbind_def Let_def split: sum.splits)
  from fix_loop_keeps [where Q = ?Q, OF keep this] show ?thesis by simp
qed

text \<open>A handler that does not read from the connection.\<close>

definition reads_none :: "('n \<Rightarrow> nat) \<Rightarrow> (socket_stream \<times> 'n) handler \<Rightarrow> bool" where
  "reads_none left h \<longleftrightarrow> (\<forall>rq rs ss n c rq' rs' ss' n'. h rq rs (ss, n) = (c, rq', rs', ss', n') \<longrightarrow> left n' \<le> left n)"

lemma answer_uses_none:
  assumes "input_law os left" "reads_none left (Dispatch_handle fnmatch (m_dispatch srv))"
    and "answer os fnmatch srv req ss n = Inr (b, ss', n')"
  shows "left n' \<le> left n"
proof -
  let ?rsp = "rs_setHeader ''Server'' (hs_name srv) (new_HttpResponse (rq_version req) (rq_close req \<or> \<not> m_isKeepalive srv))"
  obtain c rq' rs' ss1 n1 where h: "Dispatch_handle fnmatch (m_dispatch srv) req ?rsp (ss, n) = (c, rq', rs', ss1, n1)"
    by (metis prod.exhaust)
  then have 1: "left n1 \<le> left n" using assms(2) by (auto simp: reads_none_def)
  obtain r where "sendResponse os rs' ss1 n1 = Inr (r, n')"
    using assms(3) h by (auto simp: answer_def rbind_def split: sum.splits)
  then show ?thesis using sendResponse_uses_none [OF assms(1)] 1 by force
qed

lemma recvRequest_returns:
  assumes "input_law os left"
  shows "\<exists>r. recvRequest os lib parse_url buff_size ss n = Some r
     \<and> (\<forall>q ss' n'. r = Inr (Some q, ss', n') \<longrightarrow> left n' < left n)"
proof -
  obtain r where "recv_loop os (request_execute lib parse_url) hasError isFinished False buff_size ss 0 (replicate buff_size 0)
         (new_HttpRequestParser lib) n = Some r"
    and "\<forall>q ss' n'. r = Inr (Some q, ss', n') \<longrightarrow> left n' < left n \<and> ss' = ss"
    using recv_loop_returns [OF assms] by metis
  then show ?thesis by (auto simp: recvRequest_def rbind_def split: sum.splits)
qed

lemma client_loop_returns:
  assumes recv: "\<And>ss n. \<exists>r. receive ss n = Some r \<and> (\<forall>q ss' n'. r = Inr (Some q, ss', n') \<longrightarrow> left n' < left n)"
    and ans: "\<And>rq ss n b ss' n'. respond rq ss n = Inr (b, ss', n') \<Longrightarrow> left n' \<le> (left n :: nat)"
  shows "\<exists>r. client_loop receive respond ss n = Some r"
proof (induction "left n" arbitrary: ss n rule: less_induct)
  case less
  obtain r where r: "receive ss n = Some r" "\<forall>q ss' n'. r = Inr (Some q, ss', n') \<longrightarrow> left n' < left n"
    using recv by metis
  show ?case
  proof (cases "\<exists>q ss1 n1 ss2 n2. r = Inr (Some q, ss1, n1) \<and> respond q ss1 n1 = Inr (True, ss2, n2)")
    case True
    then obtain q ss1 n1 ss2 n2 where *: "r = Inr (Some q, ss1, n1)" "respond q ss1 n1 = Inr (True, ss2, n2)" by blast
    then have "left n2 < left n" using r(2) ans by fastforce
    from less [OF this] show ?thesis using r(1) * by (subst client_loop.simps) simp
  next
    case False
    then show ?thesis using r(1)
      by (subst client_loop.simps) (auto split: sum.splits option.splits prod.splits if_splits)
  qed
qed

lemma stream_close_closed: "stream_close os ss n = (ss', n') \<Longrightarrow> m_socket ss' = Some s \<Longrightarrow> \<not> isValid s \<and> \<not> m_isConnected s"
  by (auto simp: stream_close_def close_sock_def isValid_def Let_def split: option.splits prod.splits if_splits)

subsection \<open>Properties\<close>

text \<open>
  C11: the server finishes with every client. When the peer's input is finite and the servlets do not
  read from the connection, \<open>handleClient\<close> returns, whatever the parser library does with the bytes; on
  a normal return the session's socket is closed and invalid. A single \<open>recvRequest\<close> returns as well.
\<close>

theorem handle_client_returns:
  assumes "input_law os left" "reads_none left (Dispatch_handle fnmatch (m_dispatch srv))"
  shows "(\<exists>r. recvRequest os lib parse_url buff_size ss n = Some r)
    \<and> (\<exists>r. handleClient os lib parse_url buff_size fnmatch srv client n = Some r
         \<and> (\<forall>ss' n' s. r = Inr (ss', n') \<longrightarrow> m_socket ss' = Some s \<longrightarrow> \<not> isValid s \<and> \<not> m_isConnected s))"
proof
  show "\<exists>r. recvRequest os lib parse_url buff_size ss n = Some r"
    using recvRequest_returns [OF assms(1)] by metis
  obtain r where r: "client_loop (recvRequest os lib parse_url buff_size) (answer os fnmatch srv)
      \<lparr>m_socket = Some client, m_owner = True\<rparr> n = Some r"
  proof -
    have "\<exists>r. client_loop (recvRequest os lib parse_url buff_size) (answer os fnmatch srv)
        \<lparr>m_socket = Some client, m_owner = True\<rparr> n = Some r"
      by (rule client_loop_returns [of _ left]) (rule recvRequest_returns [OF assms(1)], erule answer_uses_none [OF assms])
    then show ?thesis using that by blast
  qed
  show "\<exists>r. handleClient os lib parse_url buff_size fnmatch srv client n = Some r
         \<and> (\<forall>ss' n' s. r = Inr (ss', n') \<longrightarrow> m_socket ss' = Some s \<longrightarrow> \<not> isValid s \<and> \<not> m_isConnected s)"
  proof (cases r)
    case (Inl e)
    then show ?thesis by (simp add: handleClient_def rbind_def r)
  next
    case (Inr a)
    then show ?thesis
      using stream_close_closed [of os "fst a" "snd a"]
      by (cases a) (auto simp: handleClient_def rbind_def Let_def r split: prod.splits)
  qed
qed

lemma byte_net_input: "input_law byte_net (\<lambda>n. length (fst n))"
  by (auto simp: input_law_def byte_net_def Let_def min_def split: if_splits)

lemma default_reads_none: "reads_none (left :: 'a \<Rightarrow> nat) (Dispatch_handle fnmatch new_ServletDispatch)"
  unfolding reads_none_def
proof (intro allI impI)
  fix rq rs c rq' rs' ss' ss and n n' :: 'a
  assume *: "Dispatch_handle fnmatch new_ServletDispatch rq rs (ss, n) = (c, rq', rs', ss', n')"
  show "left n' \<le> left n"
    using not_found_by_default [of fnmatch rq rs "(ss, n)"] * by auto
qed

theorem handle_client_returns_witness:
  "\<exists>r. handleClient byte_net no_lib one_url 64 (=) (new_HttpServer True) CreateTCPSocket ([71, 69, 84], []) = Some r"
proof -
  have "reads_none (\<lambda>n. length (fst n)) (Dispatch_handle (=) (m_dispatch (new_HttpServer True :: (socket_stream \<times> byte list \<times> byte list) http_server)))"
    by (simp add: new_HttpServer_def default_reads_none)
  from handle_client_returns [OF byte_net_input this, of no_lib one_url 64 byte_stream "([71, 69, 84], [])" CreateTCPSocket]
  show ?thesis by blast
qed

end
