(* ===== verification/HttpConnection.thy ===== *)
theory HttpConnection
  imports HttpServer
begin

text \<open>
  HTTP clients and their pool: \<open>src/http/http_connection.cpp\<close>, \<open>include/fishjoy/http/http_connection.hpp\<close>.

  A connection is a record with its stream. Pointers to connections are the records themselves, since
  each connection is in the pool or with one user. The parameters are those of the parts below, the name
  service, the clock and \<open>strerror\<close>. \<open>Socket::CreateTCP\<close> never gives a null pointer, so the branches for one
  cannot be taken and are left out.
\<close>

datatype http_error =
    OK | INVALID_URL | INVALID_HOST | CONNECT_FAIL | SEND_CLOSE_BY_PEER | SEND_SOCKET_ERROR | TIMEOUT
  | CREATE_SOCKET_ERROR | POOL_GET_CONNECTION | POOL_INVALID_CONNECTION

fun error_code :: "http_error \<Rightarrow> int" where
  "error_code OK = 0" | "error_code INVALID_URL = 1" | "error_code INVALID_HOST = 2" | "error_code CONNECT_FAIL = 3"
| "error_code SEND_CLOSE_BY_PEER = 4" | "error_code SEND_SOCKET_ERROR = 5" | "error_code TIMEOUT = 6"
| "error_code CREATE_SOCKET_ERROR = 7" | "error_code POOL_GET_CONNECTION = 8" | "error_code POOL_INVALID_CONNECTION = 9"

record http_result =
  res_result :: int
  res_response :: "http_response option"
  res_error :: string

definition result_toString :: "http_result \<Rightarrow> string" where
  "result_toString r = ''[HttpResult result='' @ to_string (res_result r) @ '' error='' @ res_error r
     @ '' response='' @ (case res_response r of None \<Rightarrow> ''nullptr'' | Some rs \<Rightarrow> rs_dump rs) @ '']''"

definition failed :: "http_error \<Rightarrow> string \<Rightarrow> http_result" where
  "failed e msg = \<lparr> res_result = error_code e, res_response = None, res_error = msg \<rparr>"

definition succeeded :: "http_response \<Rightarrow> http_result" where
  "succeeded rs = \<lparr> res_result = error_code OK, res_response = Some rs, res_error = ''ok'' \<rparr>"

subsection \<open>One connection\<close>

definition recvResponse ::
  "'n os \<Rightarrow> ('p, http_response) http_lib \<Rightarrow> nat \<Rightarrow> socket_stream \<Rightarrow> 'n
    \<Rightarrow> (http_response option \<times> socket_stream \<times> 'n) result option" where
  "recvResponse os lib buff_size ss n =
     map_option (\<lambda>r. rbind r (\<lambda>(q, ss, n). Inr (map_option (\<lambda>pm. mp_data (snd pm)) q, ss, n)))
       (recv_loop os (response_execute lib) hasError isFinished True buff_size ss 0 (replicate (buff_size + 1) 0)
         (new_HttpResponseParser lib) n)"

definition sendRequest :: "'n os \<Rightarrow> http_request \<Rightarrow> socket_stream \<Rightarrow> 'n \<Rightarrow> (int \<times> 'n) result" where
  "sendRequest os req ss n =
     (let data = bytes_of (rq_dump req) in
      rbind (writeFixSize os ss (length data) (data, n)) (\<lambda>(r, _, n). Inr (r, n)))"

text \<open>The loop over the headers: whether a host was given, and the request.\<close>

fun add_headers :: "(string \<times> string) list \<Rightarrow> bool \<times> http_request \<Rightarrow> bool \<times> http_request" where
  "add_headers [] st = st"
| "add_headers ((k, v) # hs) (has_host, req) =
     (if strcasecmp k ''connection'' = 0 then
        add_headers hs (has_host, if strcasecmp v ''keep-alive'' = 0 then req\<lparr>rq_close := False\<rparr> else req)
      else
        add_headers hs
          (if \<not> has_host \<and> strcasecmp k ''host'' = 0 then v \<noteq> [] else has_host, rq_setHeader k v req))"

definition build_request :: "nat \<Rightarrow> uri \<Rightarrow> (string \<times> string) list \<Rightarrow> string \<Rightarrow> http_request" where
  "build_request method u headers body =
     (let req = (new_HttpRequest 0x11 True)\<lparr>rq_path := getPath u, rq_query := m_query u, rq_fragment := m_fragment u, rq_method := method\<rparr>;
          (has_host, req) = add_headers headers (False, req);
          req = (if has_host then req else rq_setHeader ''Host'' (m_host u) req)
      in req\<lparr>rq_body := body\<rparr>)"

text \<open>Sending a request and waiting for the answer, shared by the two \<open>DoRequest\<close>; the peer's name is given by the caller.\<close>

definition exchange ::
  "'n os \<Rightarrow> (int \<Rightarrow> string) \<Rightarrow> ('p, http_response) http_lib \<Rightarrow> nat \<Rightarrow> string \<Rightarrow> u64 \<Rightarrow> http_request \<Rightarrow> socket_stream \<Rightarrow> 'n
    \<Rightarrow> (http_result \<times> socket_stream \<times> 'n) result option" where
  "exchange os strerror lib buff_size peer timeout_ms req ss n =
     (case sendRequest os req ss n of
        Inl e \<Rightarrow> Some (Inl e)
      | Inr (rt, n) \<Rightarrow>
          if rt = 0 then Some (Inr (failed SEND_CLOSE_BY_PEER (''send request closed by peer: '' @ peer), ss, n))
          else if rt < 0 then
            Some (Inr (failed SEND_SOCKET_ERROR (''send request socket error errno='' @ to_string (os_errno os n)
              @ '' errstr='' @ strerror (os_errno os n)), ss, n))
          else map_option (\<lambda>r. rbind r (\<lambda>(rsp, ss, n). Inr
            (case rsp of
               None \<Rightarrow> (failed TIMEOUT (''recv response timeout: '' @ peer @ '' timeout_ms:'' @ dec (unat timeout_ms)), ss, n)
             | Some rs \<Rightarrow> (succeeded rs, ss, n)))) (recvResponse os lib buff_size ss n))"

text \<open>\<open>DoRequest\<close> on a new connection; the connection object closes its socket when it goes.\<close>

definition DoRequest ::
  "'n os \<Rightarrow> ('n, 'k) hooked \<Rightarrow> gai \<Rightarrow> nat \<Rightarrow> (int \<Rightarrow> string) \<Rightarrow> ('p, http_response) http_lib \<Rightarrow> nat
    \<Rightarrow> http_request \<Rightarrow> uri \<Rightarrow> u64 \<Rightarrow> 'n \<Rightarrow> (http_result \<times> 'n) result option" where
  "DoRequest os hk getaddrinfo bo strerror lib buff_size req u timeout_ms n =
     (case createAddress getaddrinfo bo u of
        None \<Rightarrow> Some (Inr (failed INVALID_HOST (''invalid host: '' @ m_host u), n))
      | Some addr \<Rightarrow>
          let (ok, sock, n) = connect os bo addr (- 1) (CreateTCP addr) n in
          if \<not> ok then
            Some (Inr (failed CONNECT_FAIL (''connect fail: '' @ insert_address bo addr), snd (snd (close_sock os sock n))))
          else
            (case setRecvTimeout_on hk timeout_ms sock n of
               Inl e \<Rightarrow> Some (Inl e)
             | Inr n \<Rightarrow>
                 map_option (\<lambda>r. rbind r (\<lambda>(res, ss, n). Inr (res, delete_SocketStream os ss n)))
                   (exchange os strerror lib buff_size (insert_address bo addr) timeout_ms req
                     \<lparr> m_socket = Some sock, m_owner = True \<rparr> n)))"

definition DoRequest_uri where
  "DoRequest_uri os hk getaddrinfo bo strerror lib buff_size method u timeout_ms headers body n =
     DoRequest os hk getaddrinfo bo strerror lib buff_size (build_request method u headers body) u timeout_ms n"

definition DoRequest_url where
  "DoRequest_url os hk getaddrinfo bo strerror lib parse_url buff_size method url timeout_ms headers body n =
     (case Create parse_url url of
        Inl e \<Rightarrow> Some (Inl e)
      | Inr None \<Rightarrow> Some (Inr (failed INVALID_URL (''invalid url: '' @ url), n))
      | Inr (Some u) \<Rightarrow> DoRequest_uri os hk getaddrinfo bo strerror lib buff_size method u timeout_ms headers body n)"

definition POST :: nat where "POST = 3"

definition DoGet_uri where
  "DoGet_uri os hk getaddrinfo bo strerror lib buff_size u timeout_ms headers body n =
     DoRequest_uri os hk getaddrinfo bo strerror lib buff_size GET u timeout_ms headers body n"

definition DoPost_uri where
  "DoPost_uri os hk getaddrinfo bo strerror lib buff_size u timeout_ms headers body n =
     DoRequest_uri os hk getaddrinfo bo strerror lib buff_size POST u timeout_ms headers body n"

definition DoGet where
  "DoGet os hk getaddrinfo bo strerror lib parse_url buff_size url timeout_ms headers body n =
     DoRequest_url os hk getaddrinfo bo strerror lib parse_url buff_size GET url timeout_ms headers body n"

definition DoPost where
  "DoPost os hk getaddrinfo bo strerror lib parse_url buff_size url timeout_ms headers body n =
     DoRequest_url os hk getaddrinfo bo strerror lib parse_url buff_size POST url timeout_ms headers body n"

subsection \<open>The pool\<close>

record http_conn =
  hc_stream :: socket_stream
  m_createTime :: u64
  m_request :: u64

record conn_pool =
  cp_host :: string
  cp_vhost :: string
  cp_port :: u32
  m_maxSize :: u32
  m_maxAliveTime :: u32
  m_maxRequest :: u32
  m_conns :: "http_conn list"
  m_total :: int

definition new_HttpConnection :: "sock \<Rightarrow> http_conn" where
  "new_HttpConnection s = \<lparr> hc_stream = \<lparr> m_socket = Some s, m_owner = True \<rparr>, m_createTime = 0, m_request = 0 \<rparr>"

definition new_HttpConnectionPool :: "string \<Rightarrow> string \<Rightarrow> u32 \<Rightarrow> u32 \<Rightarrow> u32 \<Rightarrow> u32 \<Rightarrow> conn_pool" where
  "new_HttpConnectionPool host vhost prt max_size max_alive_time max_request =
     \<lparr> cp_host = host, cp_vhost = vhost, cp_port = prt, m_maxSize = max_size, m_maxAliveTime = max_alive_time,
       m_maxRequest = max_request, m_conns = [], m_total = 0 \<rparr>"

text \<open>The loop that takes connections from the front: the one found, those found invalid, the rest.\<close>

fun pop_conns :: "u64 \<Rightarrow> u32 \<Rightarrow> http_conn list \<Rightarrow> http_conn option \<times> http_conn list \<times> http_conn list" where
  "pop_conns now_ms max_alive [] = (None, [], [])"
| "pop_conns now_ms max_alive (conn # conns) =
     (if \<not> stream_isConnected (hc_stream conn) \<or> m_createTime conn + ucast max_alive > now_ms
      then (let (p, invalid, rest) = pop_conns now_ms max_alive conns in (p, conn # invalid, rest))
      else (Some conn, [], conns))"

definition delete_conns :: "'n os \<Rightarrow> http_conn list \<Rightarrow> 'n \<Rightarrow> 'n" where
  "delete_conns os conns n = foldl (\<lambda>n c. delete_SocketStream os (hc_stream c) n) n conns"

definition getConnection ::
  "'n os \<Rightarrow> gai \<Rightarrow> nat \<Rightarrow> u64 \<Rightarrow> conn_pool \<Rightarrow> 'n \<Rightarrow> http_conn option \<times> conn_pool \<times> 'n" where
  "getConnection os getaddrinfo bo now_ms pool n =
     (let (p, invalid, rest) = pop_conns now_ms (m_maxAliveTime pool) (m_conns pool);
          n = delete_conns os invalid n;
          pool = pool\<lparr>m_conns := rest, m_total := int32 (m_total pool - int (length invalid))\<rparr>
      in case p of
           Some conn \<Rightarrow> (Some conn, pool, n)
         | None \<Rightarrow>
             (case LookupAnyIPAddress getaddrinfo (cp_host pool) AF_INET 0 0 of
                None \<Rightarrow> (None, pool, n)
              | Some a \<Rightarrow>
                  let addr = address_setPort bo (uint (cp_port pool)) a;
                      (ok, sock, n) = connect os bo addr (- 1) (CreateTCP addr) n
                  in if \<not> ok then (None, pool, snd (snd (close_sock os sock n)))
                     else (Some (new_HttpConnection sock), pool\<lparr>m_total := int32 (m_total pool + 1)\<rparr>, n)))"

definition ReleasePtr :: "'n os \<Rightarrow> u64 \<Rightarrow> http_conn \<Rightarrow> conn_pool \<Rightarrow> 'n \<Rightarrow> conn_pool \<times> 'n" where
  "ReleasePtr os now_ms conn pool n =
     (let conn = conn\<lparr>m_request := m_request conn + 1\<rparr> in
      if \<not> stream_isConnected (hc_stream conn) \<or> m_createTime conn + ucast (m_maxAliveTime pool) \<ge> now_ms
         \<or> m_request conn \<ge> ucast (m_maxRequest pool)
      then (pool\<lparr>m_total := int32 (m_total pool - 1)\<rparr>, delete_SocketStream os (hc_stream conn) n)
      else (pool\<lparr>m_conns := m_conns pool @ [conn]\<rparr>, n))"

text \<open>The request of the pool's \<open>doRequest\<close>, whose path is the whole target.\<close>

definition pool_request :: "conn_pool \<Rightarrow> nat \<Rightarrow> string \<Rightarrow> (string \<times> string) list \<Rightarrow> string \<Rightarrow> http_request" where
  "pool_request pool method url headers body =
     (let req = (new_HttpRequest 0x11 True)\<lparr>rq_path := url, rq_method := method\<rparr>;
          (has_host, req) = add_headers headers (False, req);
          req = (if has_host then req
                 else rq_setHeader ''Host'' (if cp_vhost pool = [] then cp_host pool else cp_vhost pool) req)
      in req\<lparr>rq_body := body\<rparr>)"

definition uri_target :: "uri \<Rightarrow> string" where
  "uri_target u = getPath u @ (if m_query u = [] then [] else ''?'') @ m_query u
     @ (if m_fragment u = [] then [] else ''#'') @ m_fragment u"

definition pool_name :: "conn_pool \<Rightarrow> string" where
  "pool_name pool = ''pool host:'' @ cp_host pool @ '' port:'' @ dec (unat (cp_port pool))"

text \<open>
  \<open>doRequest\<close> of the pool: \<open>now_ms\<close> is read when the connection is taken and \<open>later_ms\<close> when it is given
  back, which the deleter of the pointer does on every way out.
\<close>

definition pool_doRequest ::
  "'n os \<Rightarrow> ('n, 'k) hooked \<Rightarrow> gai \<Rightarrow> nat \<Rightarrow> (int \<Rightarrow> string) \<Rightarrow> ('p, http_response) http_lib \<Rightarrow> nat \<Rightarrow> u64 \<Rightarrow> u64
    \<Rightarrow> http_request \<Rightarrow> u64 \<Rightarrow> conn_pool \<Rightarrow> 'n \<Rightarrow> (http_result \<times> conn_pool \<times> 'n) result option" where
  "pool_doRequest os hk getaddrinfo bo strerror lib buff_size now_ms later_ms req timeout_ms pool n =
     (let (c, pool, n) = getConnection os getaddrinfo bo now_ms pool n in
      case c of
        None \<Rightarrow> Some (Inr (failed POOL_GET_CONNECTION (pool_name pool), pool, n))
      | Some conn \<Rightarrow>
          (case m_socket (hc_stream conn) of
             None \<Rightarrow> Some (Inr (failed POOL_INVALID_CONNECTION (pool_name pool), ReleasePtr os later_ms conn pool n))
           | Some sock \<Rightarrow>
               (case setRecvTimeout_on hk timeout_ms sock n of
                  Inl e \<Rightarrow> Some (Inl e)
                | Inr n \<Rightarrow>
                    map_option (\<lambda>r. rbind r (\<lambda>(res, ss, n).
                        Inr (res, ReleasePtr os later_ms (conn\<lparr>hc_stream := ss\<rparr>) pool n)))
                      (exchange os strerror lib buff_size (insert_address bo (fst (getRemoteAddress os bo sock n)))
                        timeout_ms req (hc_stream conn) n))))"

definition pool_doRequest_url where
  "pool_doRequest_url os hk getaddrinfo bo strerror lib buff_size now_ms later_ms method url timeout_ms headers body pool n =
     pool_doRequest os hk getaddrinfo bo strerror lib buff_size now_ms later_ms
       (pool_request pool method url headers body) timeout_ms pool n"

definition pool_doRequest_uri where
  "pool_doRequest_uri os hk getaddrinfo bo strerror lib buff_size now_ms later_ms method u timeout_ms headers body pool n =
     pool_doRequest_url os hk getaddrinfo bo strerror lib buff_size now_ms later_ms method (uri_target u) timeout_ms headers body pool n"

definition pool_doGet where
  "pool_doGet os hk getaddrinfo bo strerror lib buff_size now_ms later_ms url timeout_ms headers body pool n =
     pool_doRequest_url os hk getaddrinfo bo strerror lib buff_size now_ms later_ms GET url timeout_ms headers body pool n"

definition pool_doPost where
  "pool_doPost os hk getaddrinfo bo strerror lib buff_size now_ms later_ms url timeout_ms headers body pool n =
     pool_doRequest_url os hk getaddrinfo bo strerror lib buff_size now_ms later_ms POST url timeout_ms headers body pool n"

definition pool_doGet_uri where
  "pool_doGet_uri os hk getaddrinfo bo strerror lib buff_size now_ms later_ms u timeout_ms headers body pool n =
     pool_doGet os hk getaddrinfo bo strerror lib buff_size now_ms later_ms (uri_target u) timeout_ms headers body pool n"

definition pool_doPost_uri where
  "pool_doPost_uri os hk getaddrinfo bo strerror lib buff_size now_ms later_ms u timeout_ms headers body pool n =
     pool_doPost os hk getaddrinfo bo strerror lib buff_size now_ms later_ms (uri_target u) timeout_ms headers body pool n"

subsection \<open>The accounts of the pool\<close>

text \<open>
  The states of a pool and of the connections its users hold, each with the number of times it has been handed out: \<open>uses\<close> of the
  pooled connections, and with every held connection its own. A user may do anything to the stream of
  a connection before it gives it back.
\<close>

inductive pool_reachable :: "'n os \<Rightarrow> u32 \<Rightarrow> u32 \<Rightarrow> conn_pool \<Rightarrow> nat list \<Rightarrow> (http_conn \<times> nat) list \<Rightarrow> bool" for os alive limit where
  start: "m_maxAliveTime pool = alive \<Longrightarrow> m_maxRequest pool = limit \<Longrightarrow> m_conns pool = [] \<Longrightarrow> m_total pool = 0
    \<Longrightarrow> pool_reachable os alive limit pool [] []"
| got: "pool_reachable os alive limit pool uses out \<Longrightarrow> getConnection os gai bo now pool n = (Some c, pool', n')
    \<Longrightarrow> pop_conns now (m_maxAliveTime pool) (m_conns pool) = (p, invalid, rest)
    \<Longrightarrow> pool_reachable os alive limit pool' (drop (Suc (length invalid)) uses)
          ((c, if p = None then 1 else uses ! length invalid + 1) # out)"
| none: "pool_reachable os alive limit pool uses out \<Longrightarrow> getConnection os gai bo now pool n = (None, pool', n')
    \<Longrightarrow> pool_reachable os alive limit pool' [] out"
| release: "pool_reachable os alive limit pool uses (xs @ (c, k) # ys) \<Longrightarrow> ReleasePtr os now (c\<lparr>hc_stream := ss\<rparr>) pool n = (pool', n')
    \<Longrightarrow> pool_reachable os alive limit pool' (if length (m_conns pool') = length (m_conns pool) then uses else uses @ [k]) (xs @ ys)"

definition pool_inv :: "u32 \<Rightarrow> u32 \<Rightarrow> conn_pool \<Rightarrow> nat list \<Rightarrow> (http_conn \<times> nat) list \<Rightarrow> bool" where
  "pool_inv alive limit pool uses out \<longleftrightarrow>
     m_maxAliveTime pool = alive \<and> m_maxRequest pool = limit
     \<and> m_total pool = int32 (int (length (m_conns pool) + length out))
     \<and> (\<forall>(c, k) \<in> set out. m_createTime c = 0 \<and> (m_request c = 0 \<or> m_request c < ucast limit) \<and> k = unat (m_request c) + 1)
     \<and> (\<forall>c \<in> set (m_conns pool). m_createTime c = 0 \<and> m_request c < ucast limit)
     \<and> uses = map (\<lambda>c. unat (m_request c)) (m_conns pool)"

lemma pop_conns_split:
  "pop_conns now alive conns = (p, invalid, rest) \<Longrightarrow>
     conns = invalid @ (case p of None \<Rightarrow> [] | Some c \<Rightarrow> [c]) @ rest \<and> (p = None \<longrightarrow> rest = [])"
  by (induction conns arbitrary: invalid) (auto simp: Let_def split: prod.splits if_splits)

lemma getConnection_inv:
  assumes inv: "pool_inv alive limit pool uses out" and get: "getConnection os gai bo now pool n = (c, pool', n')"
    and pop: "pop_conns now (m_maxAliveTime pool) (m_conns pool) = (p, invalid, rest)"
  shows "case c of None \<Rightarrow> pool_inv alive limit pool' [] out
    | Some c \<Rightarrow> pool_inv alive limit pool' (drop (Suc (length invalid)) uses) ((c, if p = None then 1 else uses ! length invalid + 1) # out)"
proof -
  note split = pop_conns_split [OF pop]
  show ?thesis
  proof (cases p)
    case (Some conn)
    then have c: "c = Some conn" "m_conns pool' = rest" "m_total pool' = int32 (m_total pool - int (length invalid))"
        "m_maxAliveTime pool' = m_maxAliveTime pool" "m_maxRequest pool' = m_maxRequest pool"
      using get pop by (auto simp: getConnection_def Let_def)
    have m: "m_conns pool = invalid @ conn # rest" using split Some by simp
    then have "uses ! length invalid = unat (m_request conn)" "drop (Suc (length invalid)) uses = map (\<lambda>c. unat (m_request c)) rest"
      using inv by (simp_all add: pool_inv_def nth_append)
    then show ?thesis using inv c m Some by (auto simp: pool_inv_def int32_int32 add_ac)
  next
    case None
    then have r: "rest = []" "m_conns pool = invalid" using split by auto
    show ?thesis using inv get pop None r
      by (auto simp: pool_inv_def getConnection_def Let_def int32_int32 add_ac new_HttpConnection_def
          split: option.splits prod.splits if_splits)
  qed
qed

lemma request_count: "m = 0 \<or> m < (ucast (limit :: u32) :: u64) \<Longrightarrow> unat (m + 1) = unat m + 1"
proof -
  assume "m = 0 \<or> m < (ucast limit :: u64)"
  moreover have "unat (ucast limit :: u64) < 2 ^ 32"
    using unsigned_less [of limit, where ?'a = nat] by (simp add: unsigned_ucast_eq take_bit_nat_eq_self)
  ultimately have "unat m + 1 < 2 ^ 64" by (auto simp: word_less_nat_alt)
  then show ?thesis by (simp add: unat_word_ariths)
qed

lemma ReleasePtr_inv:
  assumes inv: "pool_inv alive limit pool uses (xs @ (c, k) # ys)" and rel: "ReleasePtr os now (c\<lparr>hc_stream := ss\<rparr>) pool n = (pool', n')"
  shows "pool_inv alive limit pool' (if length (m_conns pool') = length (m_conns pool) then uses else uses @ [k]) (xs @ ys)"
proof -
  have "unat (m_request c + 1) = k" using inv request_count [of "m_request c" limit] by (auto simp: pool_inv_def)
  then show ?thesis using assms
    by (auto simp: pool_inv_def ReleasePtr_def Let_def int32_int32 add_ac split: if_splits)
qed

lemma pool_reachable_inv: "pool_reachable os alive limit pool uses out \<Longrightarrow> pool_inv alive limit pool uses out"
proof (induction rule: pool_reachable.induct)
  case (start pool)
  then show ?case by (simp add: pool_inv_def int32_def)
next
  case (got pool uses out gai bo now n c pool' n' p invalid rest)
  then show ?case using getConnection_inv [OF got.IH got.hyps(2,3)] by simp
next
  case (none pool uses out gai bo now n pool' n')
  obtain p invalid rest where "pop_conns now (m_maxAliveTime pool) (m_conns pool) = (p, invalid, rest)" by (rule prod_cases3)
  from getConnection_inv [OF none.IH none.hyps(2) this] show ?case by simp
next
  case (release pool uses xs c k ys now ss n pool' n')
  from ReleasePtr_inv [OF release.IH release.hyps(2)] show ?case .
qed

text \<open>With the age check out of the way, the first connected connection is taken.\<close>

lemma pop_conns_first:
  assumes "\<forall>c \<in> set conns. m_createTime c = 0" "ucast alive \<le> now"
  shows "pop_conns now alive conns
    = (find (\<lambda>c. stream_isConnected (hc_stream c)) conns,
       takeWhile (\<lambda>c. \<not> stream_isConnected (hc_stream c)) conns,
       tl (dropWhile (\<lambda>c. \<not> stream_isConnected (hc_stream c)) conns))"
  using assms by (induction conns) (auto simp: not_less)

subsection \<open>Properties\<close>

text \<open>
  C23: the pool keeps its accounts. In every state a pool reaches through any sequence of \<open>getConnection\<close>
  and \<open>ReleasePtr\<close> calls, \<open>m_total\<close> is the number of connections that exist, pooled or held by a user,
  as a 32-bit integer; a connection is handed out at most \<open>m_maxRequest\<close> times, or once when that is 0, and one that is in the pool
  has been handed out fewer times than that. From the year
  1970 plus the longest alive time on, \<open>getConnection\<close> takes the first connected connection of the list
  and deletes only disconnected ones: since \<open>m_createTime\<close> is never set, no age is ever too high.
\<close>

theorem pool_accounts:
  assumes "pool_reachable os alive limit pool uses out"
  shows "m_total pool = int32 (int (length (m_conns pool) + length out))
    \<and> length uses = length (m_conns pool) \<and> (\<forall>k \<in> set uses. 0 < k \<longrightarrow> k < unat limit) \<and> (\<forall>(c, k) \<in> set out. k \<le> max 1 (unat limit))
    \<and> (ucast alive \<le> now \<longrightarrow> pop_conns now alive (m_conns pool)
        = (find (\<lambda>c. stream_isConnected (hc_stream c)) (m_conns pool),
           takeWhile (\<lambda>c. \<not> stream_isConnected (hc_stream c)) (m_conns pool),
           tl (dropWhile (\<lambda>c. \<not> stream_isConnected (hc_stream c)) (m_conns pool))))"
proof -
  have inv: "pool_inv alive limit pool uses out" by (rule pool_reachable_inv [OF assms])
  have "unat (ucast limit :: u64) = unat limit"
    using unsigned_less [of limit, where ?'a = nat] by (simp add: unsigned_ucast_eq take_bit_nat_eq_self)
  then have lt: "m < (ucast limit :: u64) \<longleftrightarrow> unat m < unat limit" for m by (simp add: word_less_nat_alt)
  have "\<forall>k \<in> set uses. 0 < k \<longrightarrow> k < unat limit" "\<forall>(c, k) \<in> set out. k \<le> max 1 (unat limit)"
    using inv by (auto simp: pool_inv_def lt)
  then show ?thesis using inv pop_conns_first [of "m_conns pool" alive now] by (auto simp: pool_inv_def)
qed

definition local_gai :: gai where
  "local_gai node service family type protocol = Inr [Sockaddr_in (new_IPv4Address 1 0 0)]"

definition one_pool :: conn_pool where
  "one_pool = new_HttpConnectionPool ''h'' [] 80 10 1000 5"

lemma one_pool_runs:
  "case getConnection byte_net local_gai 1 5000 one_pool ([], []) of (c, pool, n) \<Rightarrow>
     c \<noteq> None \<and> length (m_conns (fst (ReleasePtr byte_net 6000 (the c) pool n))) = 1"
  by code_simp

theorem pool_accounts_witness:
  "\<exists>pool uses. pool_reachable byte_net 1000 5 pool uses [] \<and> length uses = 1 \<and> m_total pool = 1"
proof -
  obtain c pool n where 1: "getConnection byte_net local_gai 1 5000 one_pool ([], []) = (Some c, pool, n)"
    and 2: "length (m_conns (fst (ReleasePtr byte_net 6000 c pool n))) = 1"
    using one_pool_runs by (auto split: prod.splits)
  obtain pool' n' where 3: "ReleasePtr byte_net 6000 (c\<lparr>hc_stream := hc_stream c\<rparr>) pool n = (pool', n')" by (metis prod.exhaust)
  obtain p invalid rest where 4: "pop_conns 5000 (m_maxAliveTime one_pool) (m_conns one_pool) = (p, invalid, rest)" by (rule prod_cases3)
  have "pool_reachable byte_net 1000 5 one_pool [] []"
    by (rule pool_reachable.start) (simp_all add: one_pool_def new_HttpConnectionPool_def)
  from pool_reachable.got [OF this 1 4] obtain us k where "pool_reachable byte_net 1000 5 pool us ([] @ (c, k) # [])" by auto
  from pool_reachable.release [OF this 3] obtain us' where r: "pool_reachable byte_net 1000 5 pool' us' []" by auto
  moreover have "length (m_conns pool') = 1" using 2 3 by simp
  ultimately show ?thesis using pool_accounts [OF r] by (auto simp: int32_def)
qed

end
