(* ===== verification/HttpExchange.thy ===== *)
theory HttpExchange
  imports HttpConnection
begin

text \<open>
  A request from \<open>HttpConnection::sendRequest\<close> to \<open>HttpSession::recvRequest\<close>, and a response back: printing,
  the stream, the network, the receiving loop, the parser's callbacks and \<open>init\<close> together.
\<close>

subsection \<open>The text of a message\<close>

definition message_text :: "string \<Rightarrow> (string \<times> string) list \<Rightarrow> string \<Rightarrow> string" where
  "message_text start hs body = start @ crlf @ concat (map header_line hs) @ crlf @ body"

definition connection_header :: "bool \<Rightarrow> string \<times> string" where
  "connection_header close = (''connection'', if close then ''close'' else ''keep-alive'')"

definition length_header :: "string \<Rightarrow> (string \<times> string) list" where
  "length_header body = (if body = [] then [] else [(''content-length'', dec (length body))])"

definition rq_target_segments :: "http_request \<Rightarrow> segments" where
  "rq_target_segments r =
     [(Some UF_PATH, rq_path r), (None, if rq_query r = [] then [] else ''?''), (Some UF_QUERY, rq_query r),
      (None, if rq_fragment r = [] then [] else ''#''), (Some UF_FRAGMENT, rq_fragment r)]"

definition rq_target :: "http_request \<Rightarrow> string" where
  "rq_target r = seg_text (rq_target_segments r)"

definition rq_line :: "http_request \<Rightarrow> string" where
  "rq_line r = HttpMethodToString (rq_method r) @ '' '' @ rq_target r @ '' '' @ version_text (rq_version r)"

definition rq_sent :: "http_request \<Rightarrow> (string \<times> string) list" where
  "rq_sent r = connection_header (rq_close r)
     # filter (\<lambda>(k, v). strcasecmp k ''connection'' \<noteq> 0 \<and> (rq_body r = [] \<or> strcasecmp k ''content-length'' \<noteq> 0)) (rq_headers r)
     @ length_header (rq_body r)"

definition rs_line :: "http_response \<Rightarrow> string" where
  "rs_line r = version_text (rs_version r) @ '' '' @ dec (rs_status r) @ '' ''
     @ (if rs_reason r = [] then HttpStatusToString (rs_status r) else rs_reason r)"

definition rs_sent :: "http_response \<Rightarrow> (string \<times> string) list" where
  "rs_sent r = filter (\<lambda>h. strcasecmp (fst h) ''connection'' \<noteq> 0) (rs_headers r)
     @ map (\<lambda>c. (''Set-Cookie'', c)) (rs_cookies r) @ [connection_header (rs_close r)] @ length_header (rs_body r)"

lemma rq_dump_text:
  "\<not> rq_websocket r \<Longrightarrow> rq_dump r = message_text (rq_line r) (rq_sent r) (rq_body r)"
  by (simp add: rq_dump_def message_text_def rq_line_def rq_target_def rq_target_segments_def seg_text_def rq_sent_def
      header_line_def connection_header_def connection_line_def dump_body_def length_header_def rq_printed_eq)

lemma rs_dump_text:
  "\<not> rs_websocket r \<Longrightarrow> rs_dump r = message_text (rs_line r) (rs_sent r) (rs_body r)"
  by (simp add: rs_dump_def message_text_def rs_line_def rs_sent_def header_line_def connection_header_def
      connection_line_def dump_body_def length_header_def comp_def)

subsection \<open>The library\<close>

text \<open>
  The messages whose text the library reads as the one message that is meant: names are tokens, values and the reason have no line break
  and no blank at an end, the version is 1.0 or 1.1, the head keeps below \<open>HTTP_MAX_HEADER_SIZE\<close>, and the length of the body is
  known from the printed headers alone. A request must not carry a \<open>transfer-encoding\<close>, nor a
  \<open>content-length\<close> of its own without a body, and is no \<open>CONNECT\<close>, after which no HTTP follows. A response must not
  carry either header, its status must be one that has a body, and the body must not be empty: \<open>dump\<close> then prints no length, and the
  library reads such a response until the end of the connection.
\<close>

definition token_char :: "char \<Rightarrow> bool" where
  "token_char c \<longleftrightarrow> c \<in> set ''!#$%&*+-.^_`|~0123456789abcdefghijklmnopqrstuvwxyzABCDEFGHIJKLMNOPQRSTUVWXYZ''"

definition plain_value :: "string \<Rightarrow> bool" where
  "plain_value v \<longleftrightarrow> list_all (\<lambda>c. 32 \<le> (of_char c :: nat) \<and> of_char c \<noteq> (127 :: nat)) v \<and> (v = [] \<or> hd v \<noteq> CHR '' '' \<and> last v \<noteq> CHR '' '')"

definition plain_header :: "string \<times> string \<Rightarrow> bool" where
  "plain_header h \<longleftrightarrow> fst h \<noteq> [] \<and> list_all token_char (fst h) \<and> plain_value (snd h)"

definition target_char :: "char \<Rightarrow> bool" where
  "target_char c \<longleftrightarrow> 33 \<le> (of_char c :: nat) \<and> (of_char c :: nat) < 127"

definition lacks_header :: "string \<Rightarrow> map_type \<Rightarrow> bool" where
  "lacks_header k hs \<longleftrightarrow> list_all (\<lambda>h. strcasecmp (fst h) k \<noteq> 0) hs"

definition framed_request :: "http_request \<Rightarrow> bool" where
  "framed_request r \<longleftrightarrow> rq_method r < 34 \<and> rq_method r \<noteq> 5 \<and> (rq_version r = 0x10 \<or> rq_version r = 0x11)
     \<and> rq_path r \<noteq> [] \<and> hd (rq_path r) = CHR ''/'' \<and> list_all target_char (rq_target r)
     \<and> list_all plain_header (rq_headers r) \<and> lacks_header ''transfer-encoding'' (rq_headers r)
     \<and> (rq_body r = [] \<longrightarrow> lacks_header ''content-length'' (rq_headers r))
     \<and> length (message_text (rq_line r) (rq_sent r) []) < 80 * 1024"

definition framed_response :: "http_response \<Rightarrow> bool" where
  "framed_response r \<longleftrightarrow> 200 \<le> rs_status r \<and> rs_status r < 1000 \<and> rs_status r \<noteq> 204 \<and> rs_status r \<noteq> 304
     \<and> (rs_version r = 0x10 \<or> rs_version r = 0x11) \<and> plain_value (rs_reason r)
     \<and> list_all plain_header (rs_headers r) \<and> list_all plain_value (rs_cookies r)
     \<and> lacks_header ''transfer-encoding'' (rs_headers r) \<and> lacks_header ''content-length'' (rs_headers r)
     \<and> rs_body r \<noteq> [] \<and> length (message_text (rs_line r) (rs_sent r) []) < 80 * 1024"

text \<open>
  What the library documents: given the whole text of such a message it parses all of it, has no error, sets the fields of the start
  line, and reports the parts in order. It may call a callback many times for one string, so the pieces are the library's choice:
  \<open>urls\<close> for the target, \<open>hps\<close> for the names and values of the headers, \<open>bps\<close> for the body. Callbacks that return 0
  do not stop it.
\<close>

definition header_pieces :: "(string list \<times> string list) list \<Rightarrow> (string \<times> string) list \<Rightarrow> bool" where
  "header_pieces hps hs \<longleftrightarrow>
     list_all2 (\<lambda>(ks, vs) (k, v). ks \<noteq> [] \<and> concat ks = k \<and> vs \<noteq> [] \<and> concat vs = v) hps hs"

definition one_piece :: "(string \<times> string) list \<Rightarrow> (string list \<times> string list) list" where
  "one_piece hs = map (\<lambda>(k, v). ([k], [v])) hs"

definition reads_request ::
  "('p, http_request) http_lib \<Rightarrow> string list \<Rightarrow> (string list \<times> string list) list \<Rightarrow> string list \<Rightarrow> http_request \<Rightarrow> bool" where
  "reads_request lib urls hps bps r \<longleftrightarrow> concat urls = rq_target r \<and> header_pieces hps (rq_sent r) \<and> concat bps = rq_body r \<and>
     (framed_request r \<longrightarrow>
     (\<exists>p. http_errno p = 0 \<and> \<not> upgrade p \<and> unat (hp_method p) = rq_method r \<and> version_byte p = rq_version r
        \<and> (\<forall>cb m m'. run_events cb (request_events p urls hps bps) m = (0, m') \<longrightarrow>
             http_parser_execute lib cb (message_text (rq_line r) (rq_sent r) (rq_body r)) (http_parser_init lib) m
             = (length (message_text (rq_line r) (rq_sent r) (rq_body r)), p, m'))))"

definition reads_response ::
  "('p, http_response) http_lib \<Rightarrow> (string list \<times> string list) list \<Rightarrow> string list \<Rightarrow> http_response \<Rightarrow> bool" where
  "reads_response lib hps bps r \<longleftrightarrow> header_pieces hps (rs_sent r) \<and> concat bps = rs_body r \<and>
     (framed_response r \<longrightarrow>
     (\<exists>p reasons. http_errno p = 0 \<and> unat (status_code p) = rs_status r \<and> version_byte p = rs_version r
        \<and> (\<forall>cb m m'. run_events cb (response_events p reasons hps bps) m = (0, m') \<longrightarrow>
             http_parser_execute lib cb (message_text (rs_line r) (rs_sent r) (rs_body r)) (http_parser_init lib) m
             = (length (message_text (rs_line r) (rs_sent r) (rs_body r)), p, m'))))"

lemma header_pieces_has: "header_pieces hps hs \<Longrightarrow> has_pieces hps"
  unfolding header_pieces_def by (induction rule: list_all2_induct) (auto simp: has_pieces_def)

lemma last_pieces_one [simp]: "last_pieces (one_piece hs) = hs"
  by (induction hs) (auto simp: last_pieces_def one_piece_def)

lemma header_pieces_one: "header_pieces (one_piece hs) hs"
  by (induction hs) (auto simp: header_pieces_def one_piece_def)

subsection \<open>One round of the receiving loop\<close>

text \<open>The peer's text is there as a whole and fits the buffer.\<close>

definition arrives :: "'n os \<Rightarrow> nat \<Rightarrow> socket_stream \<Rightarrow> 'n \<Rightarrow> byte list \<Rightarrow> 'n \<Rightarrow> bool" where
  "arrives os buff_size ss n bs n' \<longleftrightarrow>
     (\<exists>s. m_socket ss = Some s \<and> m_isConnected s
        \<and> os_recv os (m_sock s) buff_size 0 n = (int (length bs), bs, n'))
     \<and> 0 < length bs \<and> length bs \<le> buff_size \<and> buff_size < 2 ^ 31"

lemma recv_loop_whole:
  assumes "arrives os buff_size ss n (bytes_of msg) n'"
    and "execute msg parser = (length msg, rest, parser')" "\<not> err parser'" "fin parser'"
    and "buff_size \<le> length buffer" "ends \<longrightarrow> buff_size < length buffer"
  shows "recv_loop os execute err fin ends buff_size ss 0 buffer parser n = Some (Inr (Some parser', ss, n'))"
proof -
  obtain s where s: "m_socket ss = Some s" "m_isConnected s"
      "os_recv os (m_sock s) buff_size 0 n = (int (length msg), bytes_of msg, n')"
    and len: "0 < length msg" "length msg \<le> buff_size" "buff_size < 2 ^ 31"
    using assms(1) by (auto simp: arrives_def)
  have i: "int32 (int (length msg)) = int (length msg)" "int32 (int buff_size) = int buff_size"
    using len by (simp_all add: int32_id)
  have read: "stream_read os ss 0 buff_size (buffer, n) = Inr (int (length msg), overwrite 0 (bytes_of msg) buffer, n')"
    using s len i(1) assms(5) by (simp add: stream_read_def recv_def sub64_def)
  have take: "take (length msg) (overwrite 0 (bytes_of msg) buffer) = bytes_of msg"
    by (simp add: overwrite_def)
  have z: "int32 0 = 0" by (simp add: int32_def)
  have pos: "0 < buff_size" using len by linarith
  show ?thesis
    using len pos by (subst recv_loop.simps) (simp add: read i take assms(2,3,4) Let_def z)
qed

subsection \<open>Headers\<close>

lemma last_header_append:
  "last_header k (hs @ gs) = (case last_header k gs of None \<Rightarrow> last_header k hs | Some v \<Rightarrow> Some v)"
  by (simp add: last_header_def find_append split: option.splits)

lemma last_header_single: "last_header k [(j, v)] = (if strcasecmp k j = 0 then Some v else None)"
  by (simp add: last_header_def)

lemma last_header_Cons: "last_header k ((j, v) # hs) = (case last_header k hs of None \<Rightarrow> if strcasecmp k j = 0 then Some v else None | Some w \<Rightarrow> Some w)"
  using last_header_append [of k "[(j, v)]" hs] by (auto simp: last_header_single split: option.splits)

lemma strcasecmp_sym: "strcasecmp a b = 0 \<longleftrightarrow> strcasecmp b a = 0"
  by (auto simp: strcasecmp_fold)

lemma strcasecmp_trans: "strcasecmp a b = 0 \<Longrightarrow> strcasecmp a c = 0 \<longleftrightarrow> strcasecmp b c = 0"
  by (simp add: strcasecmp_fold)

text \<open>In an ordered map every key occurs once, so the last occurrence is the one that is found.\<close>

lemma last_header_sorted:
  assumes "sorted_wrt CaseInsensitiveLess (map fst hs)"
  shows "last_header k hs = map_find CaseInsensitiveLess k hs"
  using assms
proof (induction hs)
  case (Cons h hs)
  obtain j v where h: "h = (j, v)" by (rule prod.exhaust)
  have IH: "last_header k hs = map_find CaseInsensitiveLess k hs" using Cons by simp
  have above: "CaseInsensitiveLess j i" if "(i, w) \<in> set hs" for i w using Cons.prems that by (force simp: h)
  have "map_find CaseInsensitiveLess k hs = None" if "\<not> CaseInsensitiveLess j k"
  proof (rule ccontr)
    assume "map_find CaseInsensitiveLess k hs \<noteq> None"
    then obtain w where "map_find CaseInsensitiveLess k hs = Some w" by blast
    then obtain i where i: "(i, w) \<in> set hs" "same_key CaseInsensitiveLess i k"
      using ci.map_find_Some_iff [of hs k w] Cons.prems by auto
    show False using above [OF i(1)] ci.lt_same(2) [OF i(2), of j] that by blast
  qed
  moreover have "strcasecmp k j = 0 \<longleftrightarrow> \<not> CaseInsensitiveLess j k \<and> \<not> CaseInsensitiveLess k j"
    by (auto simp: same_key_strcasecmp [symmetric] same_key_def)
  ultimately show ?case by (auto simp: h last_header_Cons IH split: option.splits)
qed (simp add: last_header_def)

lemma last_header_filter:
  assumes "\<And>j v. strcasecmp k j = 0 \<Longrightarrow> P (j, v)"
  shows "last_header k (filter P hs) = last_header k hs"
  using assms by (induction hs) (auto simp: last_header_Cons split: option.splits)

lemma last_header_filter_none:
  assumes "\<And>j v. strcasecmp k j = 0 \<Longrightarrow> \<not> P (j, v)"
  shows "last_header k (filter P hs) = None"
  using assms by (induction hs) (auto simp: last_header_Cons, simp add: last_header_def)

lemma content_length_other: "strcasecmp ''connection'' ''content-length'' \<noteq> 0"
  by code_simp

text \<open>What \<open>getHeader\<close> finds in the headers a request is sent with.\<close>

lemma rq_sent_header:
  assumes "sorted_wrt CaseInsensitiveLess (map fst (rq_headers r))"
  shows "last_header k (rq_sent r) =
    (if strcasecmp k ''connection'' = 0 then Some (if rq_close r then ''close'' else ''keep-alive'')
     else if rq_body r \<noteq> [] \<and> strcasecmp k ''content-length'' = 0 then Some (dec (length (rq_body r)))
     else map_find CaseInsensitiveLess k (rq_headers r))"
proof -
  have other: "strcasecmp k ''content-length'' \<noteq> 0" if "strcasecmp k ''connection'' = 0"
    using that content_length_other strcasecmp_trans by blast
  have len: "last_header k (length_header (rq_body r))
      = (if rq_body r \<noteq> [] \<and> strcasecmp k ''content-length'' = 0 then Some (dec (length (rq_body r))) else None)"
    by (simp add: length_header_def last_header_single, simp add: last_header_def)
  let ?own = "filter (\<lambda>(k, v). strcasecmp k ''connection'' \<noteq> 0 \<and> (rq_body r = [] \<or> strcasecmp k ''content-length'' \<noteq> 0)) (rq_headers r)"
  have "last_header k ?own = None" if "strcasecmp k ''connection'' = 0"
    using that strcasecmp_trans by (intro last_header_filter_none) auto
  moreover have "last_header k ?own = map_find CaseInsensitiveLess k (rq_headers r)"
    if "strcasecmp k ''connection'' \<noteq> 0" "\<not> (rq_body r \<noteq> [] \<and> strcasecmp k ''content-length'' = 0)"
    unfolding last_header_sorted [OF assms(1), symmetric]
    using that strcasecmp_trans by (intro last_header_filter) auto
  ultimately show ?thesis
    using other by (auto simp: rq_sent_def connection_header_def last_header_Cons last_header_append len split: option.splits)
qed

lemma init_request_headers:
  "init_request r = r\<lparr>rq_close := (let conn = rq_getHeader ''connection'' [] r in
     if conn \<noteq> [] then strcasecmp conn ''keep-alive'' \<noteq> 0 else rq_close r)\<rparr>"
  by (simp add: init_request_def rq_getHeader_def Let_def)

lemma target_parts:
  "seg_part UF_PATH (rq_target_segments r) = rq_path r" "seg_part UF_QUERY (rq_target_segments r) = rq_query r"
  "seg_part UF_FRAGMENT (rq_target_segments r) = rq_fragment r"
  by (simp_all add: seg_part_def rq_target_segments_def UF_defs)

lemma target_url:
  "with_url (rq_target r) (seg_url (rq_target_segments r)) q
     = q\<lparr>rq_path := if rq_path r = [] then rq_path q else rq_path r,
         rq_query := if rq_query r = [] then rq_query q else rq_query r,
         rq_fragment := if rq_fragment r = [] then rq_fragment q else rq_fragment r\<rparr>"
proof -
  have lt: "UF_PATH < 7" "UF_QUERY < 7" "UF_FRAGMENT < 7" by (simp_all add: UF_defs)
  show ?thesis
    unfolding with_url_def rq_target_def has_field_seg [OF lt(1)] has_field_seg [OF lt(2)] has_field_seg [OF lt(3)]
      url_field_seg [OF lt(1)] url_field_seg [OF lt(2)] url_field_seg [OF lt(3)] target_parts by simp
qed

lemma execute_request:
  assumes "reads_request lib urls hps bps r" "framed_request r" "list_all (\<lambda>u. parse_url u \<noteq> None) urls"
  shows "\<exists>p f rest. request_execute lib parse_url (message_text (rq_line r) (rq_sent r) (rq_body r)) (new_HttpRequestParser lib)
    = (length (message_text (rq_line r) (rq_sent r) (rq_body r)), rest, p,
       \<lparr> mp_data = (with_urls parse_url urls (new_HttpRequest 0x11 True))
           \<lparr>rq_headers := set_headers (last_pieces hps) [], rq_version := rq_version r, rq_method := rq_method r, rq_body := rq_body r\<rparr>,
         mp_error = 0, mp_finished = True, mp_field = f \<rparr>)"
proof -
  let ?m = "snd (new_HttpRequestParser lib)" and ?t = "message_text (rq_line r) (rq_sent r) (rq_body r)"
  have pieces: "has_pieces hps" "concat bps = rq_body r"
    using assms(1) header_pieces_has unfolding reads_request_def by blast+
  obtain p where p: "http_errno p = 0" "\<not> upgrade p" "unat (hp_method p) = rq_method r" "version_byte p = rq_version r"
    and ex: "\<And>cb m m'. run_events cb (request_events p urls hps bps) m = (0, m') \<Longrightarrow>
        http_parser_execute lib cb ?t (http_parser_init lib) m = (length ?t, p, m')"
    using assms(1,2) unfolding reads_request_def by blast
  obtain f where run: "run_events (s_request_settings parse_url) (request_events p urls hps bps) ?m
    = (0, ?m\<lparr>mp_data := (with_urls parse_url urls (mp_data ?m))
               \<lparr>rq_headers := set_headers (last_pieces hps) (rq_headers (mp_data ?m)), rq_version := version_byte p,
                rq_method := unat (hp_method p), rq_body := rq_body (mp_data ?m) @ concat bps\<rparr>,
            mp_finished := True, mp_field := f\<rparr>)"
    using run_request [of parse_url, OF assms(3) pieces(1)] by blast
  show ?thesis
    using ex [OF run] p pieces(2)
    by (intro exI [of _ p] exI [of _ f] exI [of _ ?t])
      (simp add: request_execute_def new_HttpRequestParser_def new_HttpRequest_def)
qed

subsection \<open>The sending side\<close>

lemma sent_bytes:
  assumes "data_law os inc outg" "length msg < 2 ^ 31" "msg \<noteq> []"
    and "writeFixSize os ss (length msg) (bytes_of msg, n) = Inr (int (length msg), b, n')"
  shows "outg (stream_fd ss) n' = outg (stream_fd ss) n @ bytes_of msg"
proof -
  obtain r bs s' where f: "fix_size (stream_write os ss) (length msg) (bytes_of msg, n) = Inr (r, s')"
    and m: "write_moved os ss outg bs 0 (bytes_of msg, n) s'"
    and c: "r = int (length msg) \<and> length bs = length msg \<or> (r = 0 \<or> r = - 1) \<and> length bs < length msg"
    using buffer_write.fix_size_moves [of os inc outg "length msg" "(bytes_of msg, n)" ss] assms(1,2) by auto
  have "r = int (length msg)" "s' = (b, n')" using assms(4) f by (simp_all add: writeFixSize_def)
  then show ?thesis using m c assms(3) by (auto simp: write_moved_def slice_of_def)
qed

lemma sendRequest_bytes:
  assumes "data_law os inc outg" "length (rq_dump r) < 2 ^ 31" "sendRequest os r ss n = Inr (int (length (rq_dump r)), n')"
  shows "outg (stream_fd ss) n' = outg (stream_fd ss) n @ bytes_of (rq_dump r)"
proof -
  obtain b where "writeFixSize os ss (length (rq_dump r)) (bytes_of (rq_dump r), n) = Inr (int (length (rq_dump r)), b, n')"
    using assms(3) by (auto simp: sendRequest_def Let_def rbind_def split: sum.splits)
  moreover have "rq_dump r \<noteq> []" by (simp add: rq_dump_def crlf_def)
  ultimately show ?thesis using sent_bytes [OF assms(1,2)] by blast
qed

lemma sendResponse_bytes:
  assumes "data_law os inc outg" "length (rs_dump r) < 2 ^ 31" "sendResponse os r ss n = Inr (int (length (rs_dump r)), n')"
  shows "outg (stream_fd ss) n' = outg (stream_fd ss) n @ bytes_of (rs_dump r)"
proof -
  obtain b where "writeFixSize os ss (length (rs_dump r)) (bytes_of (rs_dump r), n) = Inr (int (length (rs_dump r)), b, n')"
    using assms(3) by (auto simp: sendResponse_def Let_def rbind_def split: sum.splits)
  moreover have "rs_dump r \<noteq> []" by (simp add: rs_dump_def crlf_def)
  ultimately show ?thesis using sent_bytes [OF assms(1,2)] by blast
qed

subsection \<open>The way back\<close>

lemma last_header_cookies:
  "last_header k (map (\<lambda>c. (''Set-Cookie'', c)) cs)
     = (if strcasecmp k ''Set-Cookie'' = 0 \<and> cs \<noteq> [] then Some (last cs) else None)"
  by (induction cs rule: rev_induct) (auto simp: last_header_append last_header_single, auto simp: last_header_def)

lemma rs_sent_header:
  assumes "sorted_wrt CaseInsensitiveLess (map fst (rs_headers r))"
  shows "last_header k (rs_sent r) =
    (if strcasecmp k ''connection'' = 0 then Some (if rs_close r then ''close'' else ''keep-alive'')
     else if rs_body r \<noteq> [] \<and> strcasecmp k ''content-length'' = 0 then Some (dec (length (rs_body r)))
     else if rs_cookies r \<noteq> [] \<and> strcasecmp k ''Set-Cookie'' = 0 then Some (last (rs_cookies r))
     else map_find CaseInsensitiveLess k (rs_headers r))"
proof -
  have other: "strcasecmp k ''content-length'' \<noteq> 0" if "strcasecmp k ''connection'' = 0"
    using that content_length_other strcasecmp_trans by blast
  have len: "last_header k (length_header (rs_body r))
      = (if rs_body r \<noteq> [] \<and> strcasecmp k ''content-length'' = 0 then Some (dec (length (rs_body r))) else None)"
    by (simp add: length_header_def last_header_single, simp add: last_header_def)
  have conn: "last_header k [connection_header (rs_close r)]
      = (if strcasecmp k ''connection'' = 0 then Some (if rs_close r then ''close'' else ''keep-alive'') else None)"
    by (simp add: connection_header_def last_header_single)
  have own: "last_header k (filter (\<lambda>h. strcasecmp (fst h) ''connection'' \<noteq> 0) (rs_headers r)) = map_find CaseInsensitiveLess k (rs_headers r)"
    if "strcasecmp k ''connection'' \<noteq> 0"
    unfolding last_header_sorted [OF assms, symmetric]
    using that strcasecmp_trans by (intro last_header_filter) auto
  show ?thesis
    unfolding rs_sent_def append_assoc [symmetric] last_header_append len conn last_header_cookies
    by (cases "strcasecmp k ''connection'' = 0"; cases "strcasecmp k ''content-length'' = 0";
        cases "strcasecmp k ''Set-Cookie'' = 0"; cases "rs_body r = []"; cases "rs_cookies r = []")
      (use other own in simp_all)
qed

lemma execute_response:
  assumes "reads_response lib hps bps r" "framed_response r"
  shows "\<exists>p f rest. response_execute lib (message_text (rs_line r) (rs_sent r) (rs_body r)) (new_HttpResponseParser lib)
    = (length (message_text (rs_line r) (rs_sent r) (rs_body r)), rest, p,
       \<lparr> mp_data = (new_HttpResponse 0x11 True)
           \<lparr>rs_headers := set_headers (last_pieces hps) [], rs_version := rs_version r, rs_status := rs_status r, rs_body := rs_body r\<rparr>,
         mp_error = 0, mp_finished = True, mp_field = f \<rparr>)"
proof -
  let ?m = "snd (new_HttpResponseParser lib)" and ?t = "message_text (rs_line r) (rs_sent r) (rs_body r)"
  have pieces: "has_pieces hps" "concat bps = rs_body r"
    using assms(1) header_pieces_has unfolding reads_response_def by blast+
  obtain p reasons where p: "http_errno p = 0" "unat (status_code p) = rs_status r" "version_byte p = rs_version r"
    and ex: "\<And>cb m m'. run_events cb (response_events p reasons hps bps) m = (0, m') \<Longrightarrow>
        http_parser_execute lib cb ?t (http_parser_init lib) m = (length ?t, p, m')"
    using assms unfolding reads_response_def by blast
  obtain f where run: "run_events s_response_settings (response_events p reasons hps bps) ?m
    = (0, ?m\<lparr>mp_data := (mp_data ?m)
               \<lparr>rs_headers := set_headers (last_pieces hps) (rs_headers (mp_data ?m)), rs_version := version_byte p,
                rs_status := unat (status_code p), rs_body := rs_body (mp_data ?m) @ concat bps\<rparr>,
            mp_finished := True, mp_field := f\<rparr>)"
    using run_response [OF pieces(1)] by blast
  show ?thesis
    using ex [OF run] p pieces(2)
    by (intro exI [of _ p] exI [of _ f] exI [of _ ?t])
      (simp add: response_execute_def new_HttpResponseParser_def new_HttpResponse_def)
qed

subsection \<open>Properties\<close>


text \<open>
  A library that reads the one text of a message and reports the body byte by byte, and a network that moves everything at once.
\<close>

definition request_lib :: "http_request \<Rightarrow> (unit, http_request) http_lib" where
  "request_lib r =
     (let p = \<lparr> http_major = 1, http_minor = 1, status_code = 0, hp_method = of_nat (rq_method r), http_errno = 0,
                upgrade = False, hp_private = () \<rparr>
      in \<lparr> http_parser_init = p,
           http_parser_execute = (\<lambda>cb data q m. (length data, p,
             snd (run_events cb (request_events p [rq_target r] (one_piece (rq_sent r)) (map (\<lambda>c. [c]) (rq_body r))) m))) \<rparr>)"

definition whole_net :: "(byte list \<times> byte list) os" where
  "whole_net = byte_net
     \<lparr> os_send := (\<lambda>fd bs a fl (i, out). (int (length bs), i, out @ bs)),
       os_recv := (\<lambda>fd l fl (i, out). (int (length (take l i)), take l i, drop l i, out)) \<rparr>"

lemma whole_net_law: "data_law whole_net (\<lambda>fd n. fst n) (\<lambda>fd n. snd n)"
  by (auto simp: data_law_def whole_net_def)

definition sample_request :: http_request where
  "sample_request = rq_setHeader ''Host'' ''h'' ((new_HttpRequest 0x11 False)\<lparr>rq_method := POST, rq_path := ''/a'', rq_body := ''q=1''\<rparr>)"

lemma concat_bytes: "concat (map (\<lambda>c. [c]) xs) = xs"
  by (induction xs) simp_all

lemma sample_request_reads:
  "reads_request (request_lib sample_request) [rq_target sample_request] (one_piece (rq_sent sample_request)) (map (\<lambda>c. [c]) (rq_body sample_request))
     sample_request"
  unfolding reads_request_def
  by (simp add: header_pieces_one concat_bytes, intro impI exI [of _ "http_parser_init (request_lib sample_request)"])
    (simp add: request_lib_def Let_def sample_request_def rq_setHeader_def new_HttpRequest_def POST_def version_byte_def)

lemma sample_request_framed: "framed_request sample_request"
  by code_simp

lemma sample_request_sent:
  "sendRequest whole_net sample_request byte_stream ([], []) = Inr (int (length (rq_dump sample_request)), [], bytes_of (rq_dump sample_request))"
  "length (rq_dump sample_request) = 75"
  by code_simp+



definition response_lib :: "http_response \<Rightarrow> (unit, http_response) http_lib" where
  "response_lib r =
     (let p = \<lparr> http_major = 1, http_minor = 1, status_code = of_nat (rs_status r), hp_method = 0, http_errno = 0,
                upgrade = False, hp_private = () \<rparr>
      in \<lparr> http_parser_init = p,
           http_parser_execute = (\<lambda>cb data q m. (length data, p,
             snd (run_events cb (response_events p [''OK''] (one_piece (rs_sent r)) (map (\<lambda>c. [c]) (rs_body r))) m))) \<rparr>)"

definition sample_response :: http_response where
  "sample_response = rs_setHeader ''Server'' ''s'' ((new_HttpResponse 0x11 True)\<lparr>rs_body := ''hi''\<rparr>)"

lemma sample_response_sent:
  "sendResponse whole_net sample_response byte_stream ([], []) = Inr (int (length (rs_dump sample_response)), [], bytes_of (rs_dump sample_response))"
  "length (rs_dump sample_response) = 70"
  by code_simp+


end
