(* ===== verification/Hook.thy ===== *)
theory Hook
  imports FdManager IOManager
begin

text \<open>
  The hooked system calls that put a fiber to sleep: \<open>src/fiber/hook.cpp\<close> (\<open>do_io\<close> and its callers, \<open>sleep\<close> and its
  variants, \<open>connect\<close>, \<open>accept\<close>, the commands of \<open>fcntl\<close> that are passed through).

  The world \<open>'n\<close> of a thread is reached through the record \<open>hooks\<close>: the descriptor table with the kernel
  (\<open>hook_state\<close>), \<open>errno\<close>, the \<open>timer_info\<close> objects, the timers and events of the thread's \<open>IOManager\<close>, and
  \<open>await\<close>, which is \<open>Fiber::yield\<close>: all that happens until the fiber runs again. The callback of a condition
  timer is named by its \<open>timer_info\<close>, descriptor and event; \<open>on_timeout\<close> is its body. A call that never
  returns is \<open>None\<close>.
\<close>

definition EINTR :: nat where "EINTR = 4"
definition EBADF :: nat where "EBADF = 9"
definition EAGAIN :: nat where "EAGAIN = 11"
definition ETIMEDOUT :: nat where "ETIMEDOUT = 110"
definition EINPROGRESS :: nat where "EINPROGRESS = 115"

lemmas errno_defs = EINTR_def EBADF_def EAGAIN_def ETIMEDOUT_def EINPROGRESS_def

record ('n, 'k) hooks =
  hs_view :: "'n \<Rightarrow> 'k hook_state"
  hs_put :: "'k hook_state \<Rightarrow> 'n \<Rightarrow> 'n"
  errno_of :: "'n \<Rightarrow> nat"
  set_errno :: "nat \<Rightarrow> 'n \<Rightarrow> 'n"
  new_tinfo :: "'n \<Rightarrow> nat \<times> 'n"
  cancelled :: "nat \<Rightarrow> 'n \<Rightarrow> nat"
  set_cancelled :: "nat \<Rightarrow> nat \<Rightarrow> 'n \<Rightarrow> 'n"
  io_addTimer :: "u64 \<Rightarrow> 'n \<Rightarrow> 'n"
  io_addConditionTimer :: "u64 \<Rightarrow> nat \<Rightarrow> int \<Rightarrow> u32 \<Rightarrow> 'n \<Rightarrow> nat \<times> 'n"
  timer_cancel :: "nat \<Rightarrow> 'n \<Rightarrow> 'n"
  io_addEvent :: "int \<Rightarrow> u32 \<Rightarrow> 'n \<Rightarrow> int \<times> 'n"
  io_cancelEvent :: "int \<Rightarrow> u32 \<Rightarrow> 'n \<Rightarrow> 'n"
  await :: "'n \<Rightarrow> 'n"

type_synonym 'n syscall = "'n \<Rightarrow> int \<times> 'n"

subsection \<open>Blocking a fiber\<close>

text \<open>The body of the timer's callback; \<open>alive\<close> says whether \<open>winfo\<close> can still be locked.\<close>

definition on_timeout :: "('n, 'k) hooks \<Rightarrow> bool \<Rightarrow> nat \<Rightarrow> int \<Rightarrow> u32 \<Rightarrow> 'n \<Rightarrow> 'n" where
  "on_timeout hk alive ti fd event w =
     (if \<not> alive \<or> cancelled hk ti w \<noteq> 0 then w
      else io_cancelEvent hk fd event (set_cancelled hk ti ETIMEDOUT w))"

definition start_timer :: "('n, 'k) hooks \<Rightarrow> u64 \<Rightarrow> nat \<Rightarrow> int \<Rightarrow> u32 \<Rightarrow> 'n \<Rightarrow> nat option \<times> 'n" where
  "start_timer hk to ti fd event w =
     (if to \<noteq> - 1 then let (t, w) = io_addConditionTimer hk to ti fd event w in (Some t, w) else (None, w))"

definition stop_timer :: "('n, 'k) hooks \<Rightarrow> nat option \<Rightarrow> 'n \<Rightarrow> 'n" where
  "stop_timer hk timer w = (case timer of None \<Rightarrow> w | Some t \<Rightarrow> timer_cancel hk t w)"

text \<open>The call, repeated while a signal interrupts it.\<close>

partial_function (option) restarting :: "('n, 'k) hooks \<Rightarrow> 'n syscall \<Rightarrow> 'n \<Rightarrow> (int \<times> 'n) option" where
  "restarting hk f w =
     (let (n, w) = f w in if n = - 1 \<and> errno_of hk w = EINTR then restarting hk f w else Some (n, w))"

text \<open>\<open>do_io\<close> from the label \<open>retry\<close> on.\<close>

partial_function (option) io_retry ::
  "('n, 'k) hooks \<Rightarrow> 'n syscall \<Rightarrow> int \<Rightarrow> u32 \<Rightarrow> u64 \<Rightarrow> nat \<Rightarrow> 'n \<Rightarrow> (int \<times> 'n) option" where
  "io_retry hk f fd event to ti w =
     Option.bind (restarting hk f w) (\<lambda>(n, w).
       if n = - 1 \<and> errno_of hk w = EAGAIN then
         (let (timer, w) = start_timer hk to ti fd event w; (rt, w) = io_addEvent hk fd event w in
          if rt \<noteq> 0 then Some (- 1, stop_timer hk timer w)
          else
            let w = stop_timer hk timer (await hk w) in
            if cancelled hk ti w \<noteq> 0 then Some (- 1, set_errno hk (cancelled hk ti w) w)
            else io_retry hk f fd event to ti w)
       else Some (n, w))"

definition do_io ::
  "('n, 'k) hooks \<Rightarrow> int \<Rightarrow> 'n syscall \<Rightarrow> u32 \<Rightarrow> nat \<Rightarrow> 'n \<Rightarrow> (int \<times> 'n) result option" where
  "do_io hk fd f event timeout_so w =
     (if \<not> hook_enable (hs_view hk w) then Some (Inr (f w))
      else case lookup_fd fd (fds (hs_view hk w)) of
          Inl e \<Rightarrow> Some (Inl e)
        | Inr None \<Rightarrow> Some (Inr (f w))
        | Inr (Some ctx) \<Rightarrow>
            if m_isClosed ctx then Some (Inr (- 1, set_errno hk EBADF w))
            else if \<not> m_isSocket ctx \<or> m_userNonblock ctx then Some (Inr (f w))
            else
              let to = getTimeout timeout_so ctx; (ti, w) = new_tinfo hk w in
              map_option Inr (io_retry hk f fd event to ti w))"

definition hook_read :: "('n, 'k) hooks \<Rightarrow> 'n syscall \<Rightarrow> int \<Rightarrow> 'n \<Rightarrow> (int \<times> 'n) result option" where
  "hook_read hk read_f fd = do_io hk fd read_f READ SO_RCVTIMEO"

definition hook_readv :: "('n, 'k) hooks \<Rightarrow> 'n syscall \<Rightarrow> int \<Rightarrow> 'n \<Rightarrow> (int \<times> 'n) result option" where
  "hook_readv hk readv_f fd = do_io hk fd readv_f READ SO_RCVTIMEO"

definition hook_recv :: "('n, 'k) hooks \<Rightarrow> 'n syscall \<Rightarrow> int \<Rightarrow> 'n \<Rightarrow> (int \<times> 'n) result option" where
  "hook_recv hk recv_f sockfd = do_io hk sockfd recv_f READ SO_RCVTIMEO"

definition hook_recvfrom :: "('n, 'k) hooks \<Rightarrow> 'n syscall \<Rightarrow> int \<Rightarrow> 'n \<Rightarrow> (int \<times> 'n) result option" where
  "hook_recvfrom hk recvfrom_f sockfd = do_io hk sockfd recvfrom_f READ SO_RCVTIMEO"

definition hook_recvmsg :: "('n, 'k) hooks \<Rightarrow> 'n syscall \<Rightarrow> int \<Rightarrow> 'n \<Rightarrow> (int \<times> 'n) result option" where
  "hook_recvmsg hk recvmsg_f sockfd = do_io hk sockfd recvmsg_f READ SO_RCVTIMEO"

definition hook_write :: "('n, 'k) hooks \<Rightarrow> 'n syscall \<Rightarrow> int \<Rightarrow> 'n \<Rightarrow> (int \<times> 'n) result option" where
  "hook_write hk write_f fd = do_io hk fd write_f WRITE SO_SNDTIMEO"

definition hook_writev :: "('n, 'k) hooks \<Rightarrow> 'n syscall \<Rightarrow> int \<Rightarrow> 'n \<Rightarrow> (int \<times> 'n) result option" where
  "hook_writev hk writev_f fd = do_io hk fd writev_f WRITE SO_SNDTIMEO"

definition hook_send :: "('n, 'k) hooks \<Rightarrow> 'n syscall \<Rightarrow> int \<Rightarrow> 'n \<Rightarrow> (int \<times> 'n) result option" where
  "hook_send hk send_f s = do_io hk s send_f WRITE SO_SNDTIMEO"

definition hook_sendto :: "('n, 'k) hooks \<Rightarrow> 'n syscall \<Rightarrow> int \<Rightarrow> 'n \<Rightarrow> (int \<times> 'n) result option" where
  "hook_sendto hk sendto_f s = do_io hk s sendto_f WRITE SO_SNDTIMEO"

definition hook_sendmsg :: "('n, 'k) hooks \<Rightarrow> 'n syscall \<Rightarrow> int \<Rightarrow> 'n \<Rightarrow> (int \<times> 'n) result option" where
  "hook_sendmsg hk sendmsg_f s = do_io hk s sendmsg_f WRITE SO_SNDTIMEO"

text \<open>\<open>FdMgr::get(fd, true)\<close> on the world.\<close>

definition register_fd :: "('n, 'k) hooks \<Rightarrow> 'k kernel \<Rightarrow> int \<Rightarrow> 'n \<Rightarrow> 'n result" where
  "register_fd hk kn fd w =
     (let s = hs_view hk w in
      rbind (get kn fd True (fds s, kstate s)) (\<lambda>(_, m, k). Inr (hs_put hk (s\<lparr>fds := m, kstate := k\<rparr>) w)))"

definition hook_accept :: "('n, 'k) hooks \<Rightarrow> 'k kernel \<Rightarrow> 'n syscall \<Rightarrow> int \<Rightarrow> 'n \<Rightarrow> (int \<times> 'n) result option" where
  "hook_accept hk kn accept_f s w =
     map_option (\<lambda>r. rbind r (\<lambda>(fd, w).
       if fd \<ge> 0 then rbind (register_fd hk kn fd w) (\<lambda>w. Inr (fd, w)) else Inr (fd, w)))
       (do_io hk s accept_f READ SO_RCVTIMEO w)"

subsection \<open>Connecting\<close>

text \<open>
  \<open>connect_with_timeout\<close>: \<open>connect_f\<close> is the original call, \<open>so_error\<close> is \<open>getsockopt\<close> with \<open>SO_ERROR\<close>, which gives its
  result and the error it read. When \<open>addEvent\<close> fails the code goes on to it as well.
\<close>

definition finish_connect :: "('n, 'k) hooks \<Rightarrow> ('n \<Rightarrow> int \<times> nat \<times> 'n) \<Rightarrow> 'n \<Rightarrow> int \<times> 'n" where
  "finish_connect hk so_error w =
     (let (rt, error, w) = so_error w in
      if rt = - 1 then (- 1, w) else if error = 0 then (0, w) else (- 1, set_errno hk error w))"

definition connect_with_timeout ::
  "('n, 'k) hooks \<Rightarrow> 'n syscall \<Rightarrow> ('n \<Rightarrow> int \<times> nat \<times> 'n) \<Rightarrow> int \<Rightarrow> u64 \<Rightarrow> 'n \<Rightarrow> (int \<times> 'n) result" where
  "connect_with_timeout hk connect_f so_error fd timeout_ms w =
     (if \<not> hook_enable (hs_view hk w) then Inr (connect_f w)
      else rbind (lookup_fd fd (fds (hs_view hk w))) (\<lambda>c.
        case c of
          None \<Rightarrow> Inr (- 1, set_errno hk EBADF w)
        | Some ctx \<Rightarrow>
            if m_isClosed ctx then Inr (- 1, set_errno hk EBADF w)
            else if \<not> m_isSocket ctx then Inr (connect_f w)
            else if m_userNonblock ctx then Inr (connect_f w)
            else
              let (n, w) = connect_f w in
              if n = 0 then Inr (0, w)
              else if n \<noteq> - 1 \<or> errno_of hk w \<noteq> EINPROGRESS then Inr (n, w)
              else
                let (ti, w) = new_tinfo hk w;
                    (timer, w) = start_timer hk timeout_ms ti fd WRITE w;
                    (rt, w) = io_addEvent hk fd WRITE w
                in if rt = 0 then
                     let w = stop_timer hk timer (await hk w) in
                     if cancelled hk ti w \<noteq> 0 then Inr (- 1, set_errno hk (cancelled hk ti w) w)
                     else Inr (finish_connect hk so_error w)
                   else Inr (finish_connect hk so_error (stop_timer hk timer w))))"

text \<open>\<open>connect\<close> takes the timeout from the configuration, an \<open>int\<close> widened to \<open>uint64_t\<close>.\<close>

definition hook_connect ::
  "('n, 'k) hooks \<Rightarrow> 'n syscall \<Rightarrow> ('n \<Rightarrow> int \<times> nat \<times> 'n) \<Rightarrow> int \<Rightarrow> int \<Rightarrow> 'n \<Rightarrow> (int \<times> 'n) result" where
  "hook_connect hk connect_f so_error connect_timeout sockfd w =
     connect_with_timeout hk connect_f so_error sockfd (of_int connect_timeout) w"

subsection \<open>Sleeping\<close>

text \<open>
  The timer's callback schedules the fiber that yields. The product of \<open>sleep\<close> is computed in \<open>unsigned int\<close>,
  \<open>timeout_ms\<close> of \<open>nanosleep\<close> is an \<open>int\<close> that \<open>addTimer\<close> widens again.
\<close>

definition sleep_ms :: "u32 \<Rightarrow> u64" where
  "sleep_ms seconds = ucast (seconds * 1000)"

definition usleep_ms :: "u32 \<Rightarrow> u64" where
  "usleep_ms usec = ucast (usec div 1000)"

definition nanosleep_ms :: "int \<Rightarrow> int \<Rightarrow> u64" where
  "nanosleep_ms tv_sec tv_nsec = of_int (int32 (int64 (tv_sec * 1000) + cdiv (cdiv tv_nsec 1000) 1000))"

definition sleep_for :: "('n, 'k) hooks \<Rightarrow> u64 \<Rightarrow> 'n \<Rightarrow> int \<times> 'n" where
  "sleep_for hk ms w = (0, await hk (io_addTimer hk ms w))"

definition hook_sleep :: "('n, 'k) hooks \<Rightarrow> 'n syscall \<Rightarrow> u32 \<Rightarrow> 'n \<Rightarrow> int \<times> 'n" where
  "hook_sleep hk sleep_f seconds w =
     (if \<not> hook_enable (hs_view hk w) then sleep_f w else sleep_for hk (sleep_ms seconds) w)"

definition hook_usleep :: "('n, 'k) hooks \<Rightarrow> 'n syscall \<Rightarrow> u32 \<Rightarrow> 'n \<Rightarrow> int \<times> 'n" where
  "hook_usleep hk usleep_f usec w =
     (if \<not> hook_enable (hs_view hk w) then usleep_f w else sleep_for hk (usleep_ms usec) w)"

definition hook_nanosleep :: "('n, 'k) hooks \<Rightarrow> 'n syscall \<Rightarrow> int \<Rightarrow> int \<Rightarrow> 'n \<Rightarrow> int \<times> 'n" where
  "hook_nanosleep hk nanosleep_f tv_sec tv_nsec w =
     (if \<not> hook_enable (hs_view hk w) then nanosleep_f w else sleep_for hk (nanosleep_ms tv_sec tv_nsec) w)"

subsection \<open>The other commands of \<open>fcntl\<close>\<close>

text \<open>The argument a command is passed on with; a command the switch does not list loses it.\<close>

datatype fcntl_arg = No_arg | Int_arg int | Flock_arg nat | Owner_arg nat

definition int_commands :: "int list" where
  "int_commands = [0, 1030, 2, 8, 10, 1024, 1026, 1031]"

definition plain_commands :: "int list" where
  "plain_commands = [1, 9, 11, 1025, 1032]"

definition lock_commands :: "int list" where
  "lock_commands = [6, 7, 5]"

definition owner_commands :: "int list" where
  "owner_commands = [16, 15]"

definition hook_fcntl_other :: "(int \<Rightarrow> int \<Rightarrow> fcntl_arg \<Rightarrow> 'n \<Rightarrow> int \<times> 'n) \<Rightarrow> int \<Rightarrow> int \<Rightarrow> fcntl_arg \<Rightarrow> 'n \<Rightarrow> int \<times> 'n" where
  "hook_fcntl_other fcntl_f fd cmd arg w =
     (if cmd \<in> set int_commands \<or> cmd \<in> set lock_commands \<or> cmd \<in> set owner_commands then fcntl_f fd cmd arg w
      else if cmd \<in> set plain_commands then fcntl_f fd cmd No_arg w
      else fcntl_f fd cmd No_arg w)"

subsection \<open>Traces of a hooked call\<close>

text \<open>
  What a hooked call does to its surroundings, one operation after the other, each with what it gave: the original call with
  its result and the \<open>errno\<close> it left, the timer that is armed and cancelled, the registration with its result, the yield of the fiber, the
  look at the \<open>timer_info\<close>, the setting of \<open>errno\<close>, and \<open>getsockopt\<close>. \<open>perform\<close> carries a trace out in a world and is
  \<open>None\<close> when an operation gives something else there.
\<close>

datatype io_op =
    Call int nat | New_info nat | Arm nat u64 nat int u32 | Register int u32 int | Suspend | Disarm nat | Look nat nat
  | Fail nat | Ask int nat

fun perform_op :: "('n, 'k) hooks \<Rightarrow> 'n syscall \<Rightarrow> ('n \<Rightarrow> int \<times> nat \<times> 'n) \<Rightarrow> io_op \<Rightarrow> 'n \<Rightarrow> 'n option" where
  "perform_op hk f so (Call n e) w = (let (m, w) = f w in if m = n \<and> errno_of hk w = e then Some w else None)"
| "perform_op hk f so (New_info ti) w = (let (i, w) = new_tinfo hk w in if i = ti then Some w else None)"
| "perform_op hk f so (Arm t ms ti fd ev) w = (let (i, w) = io_addConditionTimer hk ms ti fd ev w in if i = t then Some w else None)"
| "perform_op hk f so (Register fd ev rt) w = (let (r, w) = io_addEvent hk fd ev w in if r = rt then Some w else None)"
| "perform_op hk f so Suspend w = Some (await hk w)"
| "perform_op hk f so (Disarm t) w = Some (timer_cancel hk t w)"
| "perform_op hk f so (Look ti c) w = (if cancelled hk ti w = c then Some w else None)"
| "perform_op hk f so (Fail e) w = Some (set_errno hk e w)"
| "perform_op hk f so (Ask rt e) w = (let (r, i, w) = so w in if r = rt \<and> i = e then Some w else None)"

fun perform :: "('n, 'k) hooks \<Rightarrow> 'n syscall \<Rightarrow> ('n \<Rightarrow> int \<times> nat \<times> 'n) \<Rightarrow> io_op list \<Rightarrow> 'n \<Rightarrow> 'n option" where
  "perform hk f so [] w = Some w"
| "perform hk f so (x # xs) w = Option.bind (perform_op hk f so x w) (perform hk f so xs)"

text \<open>
  The traces a call on a blocking socket may have, and its result: the call is repeated after \<open>EINTR\<close>; only \<open>EAGAIN\<close> makes it wait.
  A timer is armed exactly when there is a timeout, before the event is registered, and is cancelled after the fiber
  was woken or the registration was refused. After a wait the call is repeated unless the timer left an error.
\<close>

inductive io_trace :: "int \<Rightarrow> u32 \<Rightarrow> u64 \<Rightarrow> nat \<Rightarrow> io_op list \<Rightarrow> int \<Rightarrow> bool" for fd ev to ti where
  answered: "\<not> (n = - 1 \<and> (e = EINTR \<or> e = EAGAIN)) \<Longrightarrow> io_trace fd ev to ti [Call n e] n"
| interrupted: "io_trace fd ev to ti tr n \<Longrightarrow> io_trace fd ev to ti (Call (- 1) EINTR # tr) n"
| refused: "rt \<noteq> 0 \<Longrightarrow> to = - 1 \<Longrightarrow> io_trace fd ev to ti [Call (- 1) EAGAIN, Register fd ev rt] (- 1)"
| refused_timer: "rt \<noteq> 0 \<Longrightarrow> to \<noteq> - 1 \<Longrightarrow>
    io_trace fd ev to ti [Call (- 1) EAGAIN, Arm t to ti fd ev, Register fd ev rt, Disarm t] (- 1)"
| failed: "c \<noteq> 0 \<Longrightarrow> to = - 1 \<Longrightarrow>
    io_trace fd ev to ti [Call (- 1) EAGAIN, Register fd ev 0, Suspend, Look ti c, Fail c] (- 1)"
| failed_timer: "c \<noteq> 0 \<Longrightarrow> to \<noteq> - 1 \<Longrightarrow>
    io_trace fd ev to ti [Call (- 1) EAGAIN, Arm t to ti fd ev, Register fd ev 0, Suspend, Disarm t, Look ti c, Fail c] (- 1)"
| ready: "io_trace fd ev to ti tr n \<Longrightarrow> to = - 1 \<Longrightarrow>
    io_trace fd ev to ti (Call (- 1) EAGAIN # Register fd ev 0 # Suspend # Look ti 0 # tr) n"
| ready_timer: "io_trace fd ev to ti tr n \<Longrightarrow> to \<noteq> - 1 \<Longrightarrow>
    io_trace fd ev to ti (Call (- 1) EAGAIN # Arm t to ti fd ev # Register fd ev 0 # Suspend # Disarm t # Look ti 0 # tr) n"

lemma perform_append: "perform hk f so (xs @ ys) w = Option.bind (perform hk f so xs w) (perform hk f so ys)"
  by (induction xs arbitrary: w) (auto split: Option.bind_split)

lemma perform_Cons:
  "perform hk f so (Call n e # xs) w = Some w' \<longleftrightarrow> (\<exists>w1. f w = (n, w1) \<and> errno_of hk w1 = e \<and> perform hk f so xs w1 = Some w')"
  "perform hk f so (New_info ti # xs) w = Some w' \<longleftrightarrow> (\<exists>w1. new_tinfo hk w = (ti, w1) \<and> perform hk f so xs w1 = Some w')"
  "perform hk f so (Arm t ms ti fd ev # xs) w = Some w'
     \<longleftrightarrow> (\<exists>w1. io_addConditionTimer hk ms ti fd ev w = (t, w1) \<and> perform hk f so xs w1 = Some w')"
  "perform hk f so (Register fd ev rt # xs) w = Some w' \<longleftrightarrow> (\<exists>w1. io_addEvent hk fd ev w = (rt, w1) \<and> perform hk f so xs w1 = Some w')"
  "perform hk f so (Suspend # xs) w = Some w' \<longleftrightarrow> perform hk f so xs (await hk w) = Some w'"
  "perform hk f so (Disarm t # xs) w = Some w' \<longleftrightarrow> perform hk f so xs (timer_cancel hk t w) = Some w'"
  "perform hk f so (Look ti c # xs) w = Some w' \<longleftrightarrow> cancelled hk ti w = c \<and> perform hk f so xs w = Some w'"
  "perform hk f so (Fail e # xs) w = Some w' \<longleftrightarrow> perform hk f so xs (set_errno hk e w) = Some w'"
  "perform hk f so (Ask rt e # xs) w = Some w' \<longleftrightarrow> (\<exists>w1. so w = (rt, e, w1) \<and> perform hk f so xs w1 = Some w')"
  by (auto simp: Let_def split: prod.splits)

lemma errno_differ: "EINTR \<noteq> EAGAIN" "EAGAIN \<noteq> EINTR"
  by (simp_all add: errno_defs)

lemma restarting_interrupted: "f w = (- 1, w1) \<Longrightarrow> errno_of hk w1 = EINTR \<Longrightarrow> restarting hk f w = restarting hk f w1"
  by (subst restarting.simps) simp

lemma restarting_done: "f w = (n, w1) \<Longrightarrow> \<not> (n = - 1 \<and> errno_of hk w1 = EINTR) \<Longrightarrow> restarting hk f w = Some (n, w1)"
  by (subst restarting.simps) (simp add: Let_def del: de_Morgan_conj)

lemma restarting_trace:
  "restarting hk f w = Some r \<Longrightarrow> \<not> (fst r = - 1 \<and> errno_of hk (snd r) = EINTR)
     \<and> (\<exists>j. perform hk f so (replicate j (Call (- 1) EINTR) @ [Call (fst r) (errno_of hk (snd r))]) w = Some (snd r))"
proof (erule restarting.raw_induct [rotated])
  fix g hk f w and r :: "int \<times> 'a"
  assume IH: "\<And>hk f w r. g hk f w = Some r \<Longrightarrow> \<not> (fst r = - 1 \<and> errno_of hk (snd r) = EINTR)
      \<and> (\<exists>j. perform hk f so (replicate j (Call (- 1) EINTR) @ [Call (fst r) (errno_of hk (snd r))]) w = Some (snd r))"
    and run: "(let (n, w) = f w in if n = - 1 \<and> errno_of hk w = EINTR then g hk f w else Some (n, w)) = Some r"
  obtain n w1 where f: "f w = (n, w1)" by (rule prod.exhaust)
  show "\<not> (fst r = - 1 \<and> errno_of hk (snd r) = EINTR)
      \<and> (\<exists>j. perform hk f so (replicate j (Call (- 1) EINTR) @ [Call (fst r) (errno_of hk (snd r))]) w = Some (snd r))"
  proof (cases "n = - 1 \<and> errno_of hk w1 = EINTR")
    case True
    then have g: "g hk f w1 = Some r" using run f by simp
    obtain j where "perform hk f so (replicate j (Call (- 1) EINTR) @ [Call (fst r) (errno_of hk (snd r))]) w1 = Some (snd r)"
      using IH [OF g] by blast
    then have "perform hk f so (replicate (Suc j) (Call (- 1) EINTR) @ [Call (fst r) (errno_of hk (snd r))]) w = Some (snd r)"
      using True f by simp
    then show ?thesis using IH [OF g] by blast
  next
    case False
    then have "(n, w1) = r" using run f by (simp only: Let_def prod.case if_False option.inject)
    then have "r = (n, w1)" by (rule sym)
    then show ?thesis using False f by (intro conjI exI [of _ 0]) simp_all
  qed
qed

lemma io_trace_interrupted: "io_trace fd ev to ti tr n \<Longrightarrow> io_trace fd ev to ti (replicate j (Call (- 1) EINTR) @ tr) n"
  by (induction j) (auto intro: io_trace.interrupted)

lemma io_retry_interrupted:
  assumes "f w = (- 1, w1)" "errno_of hk w1 = EINTR"
  shows "io_retry hk f fd ev to ti w = io_retry hk f fd ev to ti w1"
proof -
  have "restarting hk f w = restarting hk f w1" by (rule restarting_interrupted [where f = f and w = w and hk = hk, OF assms])
  then show ?thesis by (subst (1 2) io_retry.simps) simp
qed

lemma io_retry_blocked:
  assumes "f w = (- 1, w1)" "errno_of hk w1 = EAGAIN"
  shows "io_retry hk f fd ev to ti w =
    (case start_timer hk to ti fd ev w1 of (timer, w2) \<Rightarrow> case io_addEvent hk fd ev w2 of (rt, w3) \<Rightarrow>
       if rt \<noteq> 0 then Some (- 1, stop_timer hk timer w3)
       else if cancelled hk ti (stop_timer hk timer (await hk w3)) \<noteq> 0
         then Some (- 1, set_errno hk (cancelled hk ti (stop_timer hk timer (await hk w3))) (stop_timer hk timer (await hk w3)))
         else io_retry hk f fd ev to ti (stop_timer hk timer (await hk w3)))"
proof -
  have "restarting hk f w = Some (- 1, w1)"
    by (rule restarting_done [where f = f and w = w, OF assms(1)]) (simp add: assms(2) errno_differ)
  then show ?thesis by (subst io_retry.simps) (simp add: assms(2) Let_def split: prod.split)
qed

lemma io_trace_runs:
  "io_trace fd ev to ti tr n \<Longrightarrow> perform hk f so tr w = Some w' \<Longrightarrow> io_retry hk f fd ev to ti w = Some (n, w')"
proof (induction arbitrary: w rule: io_trace.induct)
  case (answered n e)
  then have f: "f w = (n, w')" "errno_of hk w' = e" by (auto split: prod.splits if_splits)
  then have "restarting hk f w = Some (n, w')"
    using answered(1) by (intro restarting_done [where f = f and w = w]) auto
  then show ?case using answered(1) f by (subst io_retry.simps) auto
next
  case (interrupted tr n)
  then obtain w1 where "f w = (- 1, w1)" "errno_of hk w1 = EINTR" "perform hk f so tr w1 = Some w'"
    by (auto simp: perform_Cons simp del: perform.simps(2))
  then show ?case using interrupted.IH io_retry_interrupted [where hk = hk and f = f and w = w] by simp
next
  case (refused rt)
  then obtain w1 where w1: "f w = (- 1, w1)" "errno_of hk w1 = EAGAIN" "io_addEvent hk fd ev w1 = (rt, w')"
    by (auto simp: perform_Cons simp del: perform.simps(2))
  show ?case using refused w1(3) by (simp add: io_retry_blocked [where f = f, OF w1(1,2)] start_timer_def stop_timer_def)
next
  case (refused_timer rt t)
  then obtain w1 w2 w3 where w1: "f w = (- 1, w1)" "errno_of hk w1 = EAGAIN" "io_addConditionTimer hk to ti fd ev w1 = (t, w2)"
      "io_addEvent hk fd ev w2 = (rt, w3)" "w' = timer_cancel hk t w3"
    by (auto simp: perform_Cons simp del: perform.simps(2))
  show ?case using refused_timer w1(3-) by (simp add: io_retry_blocked [where f = f, OF w1(1,2)] start_timer_def stop_timer_def)
next
  case (failed c)
  then obtain w1 w2 where w1: "f w = (- 1, w1)" "errno_of hk w1 = EAGAIN" "io_addEvent hk fd ev w1 = (0, w2)"
      "cancelled hk ti (await hk w2) = c" "w' = set_errno hk c (await hk w2)"
    by (auto simp: perform_Cons simp del: perform.simps(2))
  show ?case using failed(1,2) w1(3-) by (simp add: io_retry_blocked [where f = f, OF w1(1,2)] start_timer_def stop_timer_def)
next
  case (failed_timer c t)
  then obtain w1 w2 w3 where w1: "f w = (- 1, w1)" "errno_of hk w1 = EAGAIN" "io_addConditionTimer hk to ti fd ev w1 = (t, w2)"
      "io_addEvent hk fd ev w2 = (0, w3)" "cancelled hk ti (timer_cancel hk t (await hk w3)) = c"
      "w' = set_errno hk c (timer_cancel hk t (await hk w3))"
    by (auto simp: perform_Cons simp del: perform.simps(2))
  show ?case using failed_timer(1,2) w1(3-) by (simp add: io_retry_blocked [where f = f, OF w1(1,2)] start_timer_def stop_timer_def)
next
  case (ready tr n)
  then obtain w1 w2 where w1: "f w = (- 1, w1)" "errno_of hk w1 = EAGAIN" "io_addEvent hk fd ev w1 = (0, w2)"
      "cancelled hk ti (await hk w2) = 0" "perform hk f so tr (await hk w2) = Some w'"
    by (auto simp: perform_Cons simp del: perform.simps(2))
  show ?case using ready(2,3) w1(3-) by (simp add: io_retry_blocked [where f = f, OF w1(1,2)] start_timer_def stop_timer_def)
next
  case (ready_timer tr n t)
  then obtain w1 w2 w3 where w1: "f w = (- 1, w1)" "errno_of hk w1 = EAGAIN" "io_addConditionTimer hk to ti fd ev w1 = (t, w2)"
      "io_addEvent hk fd ev w2 = (0, w3)" "cancelled hk ti (timer_cancel hk t (await hk w3)) = 0"
      "perform hk f so tr (timer_cancel hk t (await hk w3)) = Some w'"
    by (auto simp: perform_Cons simp del: perform.simps(2))
  show ?case using ready_timer(2,3) w1(3-) by (simp add: io_retry_blocked [where f = f, OF w1(1,2)] start_timer_def stop_timer_def)
qed

lemma io_retry_traced:
  "io_retry hk f fd ev to ti w = Some r \<Longrightarrow> \<exists>tr. io_trace fd ev to ti tr (fst r) \<and> perform hk f so tr w = Some (snd r)"
proof (erule io_retry.raw_induct [rotated])
  fix g hk f fd ev to ti w and r :: "int \<times> 'a"
  assume IH: "\<And>hk f fd ev to ti w r. g hk f fd ev to ti w = Some r \<Longrightarrow>
      \<exists>tr. io_trace fd ev to ti tr (fst r) \<and> perform hk f so tr w = Some (snd r)"
    and run: "Option.bind (restarting hk f w) (\<lambda>(n, w).
       if n = - 1 \<and> errno_of hk w = EAGAIN then
         (let (timer, w) = start_timer hk to ti fd ev w; (rt, w) = io_addEvent hk fd ev w in
          if rt \<noteq> 0 then Some (- 1, stop_timer hk timer w)
          else
            let w = stop_timer hk timer (await hk w) in
            if cancelled hk ti w \<noteq> 0 then Some (- 1, set_errno hk (cancelled hk ti w) w)
            else g hk f fd ev to ti w)
       else Some (n, w)) = Some r"
  obtain n w1 where r1: "restarting hk f w = Some (n, w1)" using run by (cases "restarting hk f w") auto
  obtain j where j: "perform hk f so (replicate j (Call (- 1) EINTR) @ [Call n (errno_of hk w1)]) w = Some w1"
    and e: "\<not> (n = - 1 \<and> errno_of hk w1 = EINTR)"
    using restarting_trace [OF r1, of so] by auto
  have "\<exists>tr. io_trace fd ev to ti (Call n (errno_of hk w1) # tr) (fst r) \<and> perform hk f so tr w1 = Some (snd r)"
  proof (cases "n = - 1 \<and> errno_of hk w1 = EAGAIN")
    case False
    then have "(n, w1) = r" using run r1 by auto
    then show ?thesis using False e by (intro exI [of _ "[]"]) (auto intro: io_trace.answered)
  next
    case True
    obtain timer w2 where t: "start_timer hk to ti fd ev w1 = (timer, w2)" by (rule prod.exhaust)
    obtain rt w3 where a: "io_addEvent hk fd ev w2 = (rt, w3)" by (rule prod.exhaust)
    let ?w4 = "stop_timer hk timer (await hk w3)"
    have run': "(if rt \<noteq> 0 then Some (- 1, stop_timer hk timer w3)
        else if cancelled hk ti ?w4 \<noteq> 0 then Some (- 1, set_errno hk (cancelled hk ti ?w4) ?w4) else g hk f fd ev to ti ?w4) = Some r"
      using run r1 True t a by (cases "rt = 0"; cases "cancelled hk ti ?w4 = 0") (simp_all add: Let_def)
    consider "to = - 1" "timer = None" "w2 = w1" | i where "to \<noteq> - 1" "timer = Some i" "io_addConditionTimer hk to ti fd ev w1 = (i, w2)"
      using t by (auto simp: start_timer_def Let_def split: if_splits prod.splits)
    note armed = this
    consider "rt \<noteq> 0" "r = (- 1, stop_timer hk timer w3)"
      | "rt = 0" "cancelled hk ti ?w4 \<noteq> 0" "r = (- 1, set_errno hk (cancelled hk ti ?w4) ?w4)"
      | "rt = 0" "cancelled hk ti ?w4 = 0" "g hk f fd ev to ti ?w4 = Some r"
      using run' by (auto split: if_splits)
    then show ?thesis
    proof cases
      case 1
      show ?thesis using armed
      proof cases
        case 1
        with \<open>rt \<noteq> 0\<close> \<open>r = _\<close> True a show ?thesis
          by (intro exI [of _ "[Register fd ev rt]"]) (auto simp: stop_timer_def intro: io_trace.refused)
      next
        case (2 i)
        with \<open>rt \<noteq> 0\<close> \<open>r = _\<close> True a show ?thesis
          by (intro exI [of _ "[Arm i to ti fd ev, Register fd ev rt, Disarm i]"]) (auto simp: stop_timer_def intro: io_trace.refused_timer)
      qed
    next
      case 2
      let ?c = "cancelled hk ti ?w4"
      show ?thesis using armed
      proof cases
        case 1
        with 2 True a show ?thesis
          by (intro exI [of _ "[Register fd ev 0, Suspend, Look ti ?c, Fail ?c]"]) (auto simp: stop_timer_def intro: io_trace.failed)
      next
        case (2 i)
        with \<open>rt = 0\<close> \<open>?c \<noteq> 0\<close> \<open>r = _\<close> True a show ?thesis
          by (intro exI [of _ "[Arm i to ti fd ev, Register fd ev 0, Suspend, Disarm i, Look ti ?c, Fail ?c]"])
            (auto simp: stop_timer_def intro: io_trace.failed_timer)
      qed
    next
      case 3
      obtain tr where tr: "io_trace fd ev to ti tr (fst r)" "perform hk f so tr ?w4 = Some (snd r)" using IH [OF 3(3)] by blast
      show ?thesis using armed
      proof cases
        case 1
        with 3 True a tr show ?thesis
          by (intro exI [of _ "Register fd ev 0 # Suspend # Look ti 0 # tr"]) (auto simp: stop_timer_def intro: io_trace.ready)
      next
        case (2 i)
        with \<open>rt = 0\<close> \<open>cancelled hk ti ?w4 = 0\<close> True a tr show ?thesis
          by (intro exI [of _ "Arm i to ti fd ev # Register fd ev 0 # Suspend # Disarm i # Look ti 0 # tr"])
            (auto simp: stop_timer_def intro: io_trace.ready_timer)
      qed
    qed
  qed
  then obtain tr where "io_trace fd ev to ti (Call n (errno_of hk w1) # tr) (fst r)" "perform hk f so tr w1 = Some (snd r)" by blast
  then show "\<exists>tr. io_trace fd ev to ti tr (fst r) \<and> perform hk f so tr w = Some (snd r)"
    using j io_trace_interrupted [of fd ev to ti "Call n (errno_of hk w1) # tr" "fst r" j]
    by (intro exI [of _ "replicate j (Call (- 1) EINTR) @ Call n (errno_of hk w1) # tr"])
      (auto simp: perform_append bind_eq_Some_conv)
qed

subsection \<open>Durations\<close>

lemma unat_widen: "unat (ucast (x :: u32) :: u64) = unat x"
  using unsigned_less [of x, where ?'a = nat] by (simp add: unsigned_ucast_eq take_bit_nat_eq_self)

lemma of_nat_unat_eq: "unat (x :: u64) = n \<Longrightarrow> x = of_nat n"
  by auto

lemma sleep_ms_eq: "unat (sleep_ms seconds) = unat seconds * 1000 mod 2 ^ 32"
  by (simp add: sleep_ms_def unat_widen unat_word_ariths)

lemma usleep_ms_eq: "unat (usleep_ms usec) = unat usec div 1000"
  by (simp add: usleep_ms_def unat_widen unat_div)

lemma nanosleep_ms_eq:
  assumes "0 \<le> tv_sec" "tv_sec * 1000 < 2 ^ 62" "0 \<le> tv_nsec" "tv_nsec < 10 ^ 9"
  shows "nanosleep_ms tv_sec tv_nsec = of_int (int32 (tv_sec * 1000 + tv_nsec div 10 ^ 6))"
  using assms zdiv_zmult2_eq [of 1000 tv_nsec 1000]
  by (simp add: nanosleep_ms_def cdiv_nonneg int64_id)

subsection \<open>Properties\<close>

text \<open>
  C7: A hooked call blocks until it is done. On a socket the library manages, in blocking mode for the
  program, the hooked call returns a value if and only if one of the finite traces of \<open>io_trace\<close> with that value happens: the original call
  is repeated after every \<open>EINTR\<close>; only \<open>EAGAIN\<close> makes the fiber wait, for the event and with a timer exactly when the descriptor has a
  timeout; every timer is cancelled; a wait ended by the timer gives \<open>-1\<close> with the error the timer left, a refused
  registration gives \<open>-1\<close>, and after every other wait the call is made again, until it gives something else, which is the value.
\<close>

theorem do_io_returns:
  assumes "hook_enable (hs_view hk w)" "lookup_fd fd (fds (hs_view hk w)) = Inr (Some ctx)"
    and "\<not> m_isClosed ctx" "m_isSocket ctx" "\<not> m_userNonblock ctx"
  shows "do_io hk fd f event timeout_so w = Some res \<longleftrightarrow>
    (\<exists>ti tr n w'. io_trace fd event (getTimeout timeout_so ctx) ti tr n
       \<and> perform hk f so_error (New_info ti # tr) w = Some w' \<and> res = Inr (n, w'))"
proof -
  obtain ti w0 where t: "new_tinfo hk w = (ti, w0)" by (rule prod.exhaust)
  let ?to = "getTimeout timeout_so ctx"
  have "do_io hk fd f event timeout_so w = map_option Inr (io_retry hk f fd event ?to ti w0)"
    using assms t by (simp add: do_io_def)
  then have "do_io hk fd f event timeout_so w = Some res \<longleftrightarrow> (\<exists>r. io_retry hk f fd event ?to ti w0 = Some r \<and> res = Inr r)"
    by (cases "io_retry hk f fd event ?to ti w0") auto
  also have "\<dots> \<longleftrightarrow> (\<exists>tr n w'. io_trace fd event ?to ti tr n \<and> perform hk f so_error tr w0 = Some w' \<and> res = Inr (n, w'))"
  proof
    assume "\<exists>r. io_retry hk f fd event ?to ti w0 = Some r \<and> res = Inr r"
    then obtain n w' where r: "io_retry hk f fd event ?to ti w0 = Some (n, w')" "res = Inr (n, w')" by auto
    then show "\<exists>tr n w'. io_trace fd event ?to ti tr n \<and> perform hk f so_error tr w0 = Some w' \<and> res = Inr (n, w')"
      using io_retry_traced [OF r(1), of so_error] by auto
  next
    assume "\<exists>tr n w'. io_trace fd event ?to ti tr n \<and> perform hk f so_error tr w0 = Some w' \<and> res = Inr (n, w')"
    then obtain tr n w' where "io_trace fd event ?to ti tr n" "perform hk f so_error tr w0 = Some w'" "res = Inr (n, w')" by blast
    then show "\<exists>r. io_retry hk f fd event ?to ti w0 = Some r \<and> res = Inr r"
      using io_trace_runs [where hk = hk and f = f and so = so_error and tr = tr and w = w0] by blast
  qed
  finally show ?thesis using t by auto
qed

text \<open>
  A world for concrete runs: how many more attempts would block, \<open>errno\<close>, whether the timer runs out; its
  descriptor 3 is a managed socket.
\<close>

definition socket_ctx :: fd_ctx where
  "socket_ctx = \<lparr> m_isInit = True, m_isSocket = True, m_sysNonblock = True, m_userNonblock = False, m_isClosed = False,
     m_fd = 3, m_recvTimeout = - 1, m_sendTimeout = 250 \<rparr>"

definition demo_hooks :: "(nat \<times> nat \<times> nat, unit) hooks" where
  "demo_hooks =
     \<lparr> hs_view = (\<lambda>_. \<lparr> hook_enable = True, fds = (replicate 64 None)[3 := Some socket_ctx], kstate = () \<rparr>),
       hs_put = (\<lambda>_ w. w), errno_of = (\<lambda>(a, e, c). e), set_errno = (\<lambda>e (a, _, c). (a, e, c)), new_tinfo = (\<lambda>w. (0, w)),
       cancelled = (\<lambda>_ (a, e, c). c), set_cancelled = (\<lambda>_ c (a, e, _). (a, e, c)), io_addTimer = (\<lambda>ms (a, e, c). (unat ms, e, c)),
       io_addConditionTimer = (\<lambda>_ _ _ _ w. (0, w)), timer_cancel = (\<lambda>_ w. w), io_addEvent = (\<lambda>_ _ w. (0, w)),
       io_cancelEvent = (\<lambda>_ _ w. w), await = (\<lambda>w. w) \<rparr>"

definition demo_read :: "(nat \<times> nat \<times> nat) syscall" where
  "demo_read w = (case w of (a, e, c) \<Rightarrow> if a = 0 then (5, w) else (- 1, a - 1, EAGAIN, c))"

lemma demo_simps:
  "errno_of demo_hooks (a, e, c) = e" "cancelled demo_hooks i (a, e, c) = c" "new_tinfo demo_hooks v = (0, v)"
  "io_addEvent demo_hooks fd ev v = (0, v)" "await demo_hooks v = v" "timer_cancel demo_hooks j v = v"
  "io_addConditionTimer demo_hooks ms i fd ev v = (0, v)"
  by (simp_all add: demo_hooks_def)

theorem do_io_returns_witness:
  "hook_read demo_hooks demo_read 3 (2, 0, 0) = Some (Inr (5, 0, EAGAIN, 0))"
proof -
  let ?tr = "[Call (- 1) EAGAIN, Register 3 READ 0, Suspend, Look 0 0, Call (- 1) EAGAIN, Register 3 READ 0, Suspend, Look 0 0, Call 5 EAGAIN]"
  have tr: "io_trace 3 READ (- 1) 0 ?tr 5"
    by (intro io_trace.ready io_trace.answered) simp_all
  have run: "perform demo_hooks demo_read (\<lambda>w. (0, 0, w)) (New_info 0 # ?tr) (2, 0, 0) = Some (0, EAGAIN, 0)"
    by (simp add: demo_simps demo_read_def)
  have view: "hs_view demo_hooks v = \<lparr> hook_enable = True, fds = (replicate 64 None)[3 := Some socket_ctx], kstate = () \<rparr>" for v
    by (simp add: demo_hooks_def)
  have to: "getTimeout SO_RCVTIMEO socket_ctx = - 1" by (simp add: getTimeout_def socket_ctx_def)
  have en: "hook_enable (hs_view demo_hooks (2, 0, 0))" by (simp add: view)
  have look: "lookup_fd 3 (fds (hs_view demo_hooks (2, 0, 0))) = Inr (Some socket_ctx)"
    by (simp add: view lookup_fd_def data_at_def)
  have c: "\<not> m_isClosed socket_ctx" "m_isSocket socket_ctx" "\<not> m_userNonblock socket_ctx" by (simp_all add: socket_ctx_def)
  show ?thesis
    unfolding hook_read_def
    by (subst do_io_returns [where so_error = "\<lambda>w. (0, 0, w)", OF en look c], unfold to)
      (use tr run in blast)
qed

text \<open>
  C34: How long the hooked sleeps really are. \<open>sleep\<close> arms its timer with a thousand times the seconds taken modulo \<open>2\<^sup>3\<^sup>2\<close>,
  so more than 49 days wrap around; \<open>usleep\<close> rounds down to milliseconds; \<open>nanosleep\<close> rounds down too, and from
  \<open>2\<^sup>3\<^sup>1\<close> milliseconds on its \<open>int\<close> turns negative and the timer is set beyond any deadline.
\<close>

theorem sleep_durations:
  assumes "hook_enable (hs_view hk w)" "0 \<le> tv_sec" "tv_sec * 1000 < 2 ^ 32 - 1000" "0 \<le> tv_nsec" "tv_nsec < 10 ^ 9"
  shows "hook_sleep hk sleep_f seconds w = (0, await hk (io_addTimer hk (of_nat (unat seconds * 1000 mod 2 ^ 32)) w))
    \<and> hook_usleep hk usleep_f usec w = (0, await hk (io_addTimer hk (of_nat (unat usec div 1000)) w))
    \<and> hook_nanosleep hk nanosleep_f tv_sec tv_nsec w =
      (let ms = tv_sec * 1000 + tv_nsec div 10 ^ 6 in
       (0, await hk (io_addTimer hk (if ms < 2 ^ 31 then of_int ms else of_int (ms + 2 ^ 64 - 2 ^ 32)) w)))"
proof (intro conjI)
  have "sleep_ms seconds = of_nat (unat seconds * 1000 mod 2 ^ 32)"
    by (rule of_nat_unat_eq [OF sleep_ms_eq])
  then show "hook_sleep hk sleep_f seconds w = (0, await hk (io_addTimer hk (of_nat (unat seconds * 1000 mod 2 ^ 32)) w))"
    using assms(1) by (simp only: hook_sleep_def sleep_for_def) simp
  have "usleep_ms usec = of_nat (unat usec div 1000)" by (rule of_nat_unat_eq [OF usleep_ms_eq])
  then show "hook_usleep hk usleep_f usec w = (0, await hk (io_addTimer hk (of_nat (unat usec div 1000)) w))"
    using assms(1) by (simp only: hook_usleep_def sleep_for_def) simp
  let ?ms = "tv_sec * 1000 + tv_nsec div 10 ^ 6"
  have "tv_nsec < 1000 * 1000000" using assms(5) by simp
  then have "0 \<le> tv_nsec div 1000000" "tv_nsec div 1000000 < 1000" using assms(4) by linarith+
  then have "0 \<le> tv_nsec div 10 ^ 6" "tv_nsec div 10 ^ 6 < 1000" by simp_all
  then have ms: "0 \<le> ?ms" "?ms < 2 ^ 32" using assms(2,3) by linarith+
  have "int32 ?ms = (if ?ms < 2 ^ 31 then ?ms else ?ms - 2 ^ 32)"
  proof (cases "?ms < 2 ^ 31")
    case False
    then have "(?ms + 2 ^ 31 - 2 ^ 32) mod 2 ^ 32 = ?ms + 2 ^ 31 - 2 ^ 32" using ms by (intro mod_pos_pos_trivial) auto
    then have "(?ms + 2 ^ 31) mod 2 ^ 32 = ?ms + 2 ^ 31 - 2 ^ 32" by (metis minus_mod_self2)
    then show ?thesis using False by (simp add: int32_def)
  qed (use ms int32_id [of ?ms] in simp)
  moreover have "(of_int (x + 2 ^ 64 - y) :: u64) = of_int (x - y)" for x y
  proof -
    have "x + 2 ^ 64 - y = (x - y) + 2 ^ 64" by simp
    then have "(x + 2 ^ 64 - y) mod 2 ^ 64 = (x - y) mod 2 ^ 64" by (simp only: mod_add_self2)
    then show ?thesis by (intro word_of_int_eq_iff [THEN iffD2]) (simp only: take_bit_eq_mod len_num1 len_bit0, simp)
  qed
  ultimately have "nanosleep_ms tv_sec tv_nsec = (if ?ms < 2 ^ 31 then of_int ?ms else of_int (?ms + 2 ^ 64 - 2 ^ 32))"
    using nanosleep_ms_eq [of tv_sec tv_nsec] assms(2-5) by simp
  then show "hook_nanosleep hk nanosleep_f tv_sec tv_nsec w =
      (let ms = tv_sec * 1000 + tv_nsec div 10 ^ 6 in
       (0, await hk (io_addTimer hk (if ms < 2 ^ 31 then of_int ms else of_int (ms + 2 ^ 64 - 2 ^ 32)) w)))"
    using assms(1) by (simp only: hook_nanosleep_def sleep_for_def Let_def) simp
qed

theorem sleep_durations_witness:
  "hook_sleep demo_hooks (\<lambda>w. (0, w)) 4294968 (0, 0, 0) = (0, 704, 0, 0)
   \<and> hook_nanosleep demo_hooks (\<lambda>w. (0, w)) 2147484 0 (0, 0, 0) = (0, 18446744071562068320, 0, 0)"
proof -
  have "hook_enable (hs_view demo_hooks (0, 0, 0))" by (simp add: demo_hooks_def)
  from sleep_durations [OF this, of 2147484 0 "\<lambda>w. (0, w)" 4294968 "\<lambda>w. (0, w)" 0 "\<lambda>w. (0, w)"]
  show ?thesis by (simp add: demo_simps) (simp add: demo_hooks_def Let_def)
qed

subsection \<open>Traces of connecting\<close>

text \<open>The traces of \<open>connect_with_timeout\<close> on a blocking socket; the last operations read the pending error.\<close>

inductive asked :: "io_op list \<Rightarrow> int \<Rightarrow> bool" where
  no_answer: "asked [Ask (- 1) e] (- 1)"
| no_error: "rt \<noteq> - 1 \<Longrightarrow> asked [Ask rt 0] 0"
| an_error: "rt \<noteq> - 1 \<Longrightarrow> e \<noteq> 0 \<Longrightarrow> asked [Ask rt e, Fail e] (- 1)"

inductive connect_trace :: "int \<Rightarrow> u64 \<Rightarrow> io_op list \<Rightarrow> int \<Rightarrow> bool" for fd to where
  at_once: "\<not> (n = - 1 \<and> e = EINPROGRESS) \<Longrightarrow> connect_trace fd to [Call n e] n"
| timed_out: "c \<noteq> 0 \<Longrightarrow> connect_trace fd to
    (Call (- 1) EINPROGRESS # New_info ti # (if to = - 1 then [] else [Arm t to ti fd WRITE]) @ [Register fd WRITE 0, Suspend]
      @ (if to = - 1 then [] else [Disarm t]) @ [Look ti c, Fail c]) (- 1)"
| woken: "asked ask n \<Longrightarrow> connect_trace fd to
    (Call (- 1) EINPROGRESS # New_info ti # (if to = - 1 then [] else [Arm t to ti fd WRITE]) @ [Register fd WRITE 0, Suspend]
      @ (if to = - 1 then [] else [Disarm t]) @ Look ti 0 # ask) n"
| unregistered: "rt \<noteq> 0 \<Longrightarrow> asked ask n \<Longrightarrow> connect_trace fd to
    (Call (- 1) EINPROGRESS # New_info ti # (if to = - 1 then [] else [Arm t to ti fd WRITE]) @ [Register fd WRITE rt]
      @ (if to = - 1 then [] else [Disarm t]) @ ask) n"

lemma asked_finish: "finish_connect hk so w = (n, w') \<longleftrightarrow> (\<exists>ask. asked ask n \<and> perform hk f so ask w = Some w')"
proof
  obtain rt e w1 where so: "so w = (rt, e, w1)" by (cases "so w") auto
  assume "finish_connect hk so w = (n, w')"
  then consider "rt = - 1" "n = - 1" "w' = w1" | "rt \<noteq> - 1" "e = 0" "n = 0" "w' = w1"
    | "rt \<noteq> - 1" "e \<noteq> 0" "n = - 1" "w' = set_errno hk e w1"
    using so by (auto simp: finish_connect_def split: if_splits)
  then show "\<exists>ask. asked ask n \<and> perform hk f so ask w = Some w'"
  proof cases
    case 1
    with so show ?thesis by (intro exI [of _ "[Ask rt e]"]) (auto intro: asked.intros)
  next
    case 2
    with so show ?thesis by (intro exI [of _ "[Ask rt e]"]) (auto intro: asked.intros)
  next
    case 3
    with so show ?thesis by (intro exI [of _ "[Ask rt e, Fail e]"]) (auto intro: asked.intros)
  qed
next
  assume "\<exists>ask. asked ask n \<and> perform hk f so ask w = Some w'"
  then obtain ask where "asked ask n" "perform hk f so ask w = Some w'" by blast
  then show "finish_connect hk so w = (n, w')"
    by (cases rule: asked.cases) (auto simp: finish_connect_def split: prod.splits if_splits)
qed

text \<open>
  C33: What a hooked \<open>connect\<close> reports. On a managed socket in blocking mode it ends with exactly the traces of \<open>connect_trace\<close>: at once
  with the result of the original call unless that is in progress; otherwise it arms a timer exactly when there is a timeout, waits once for the descriptor to
  become writable, cancels the timer, and fails with the timer's error when that ran out, else the pending error of the
  socket decides. When the event could not be registered it does not fail: it does not wait at all, and
  reports success if the socket has no error yet, while the connection is still being made.
\<close>

theorem connect_outcome:
  assumes "hook_enable (hs_view hk w)" "lookup_fd fd (fds (hs_view hk w)) = Inr (Some ctx)"
    and "\<not> m_isClosed ctx" "m_isSocket ctx" "\<not> m_userNonblock ctx"
  shows "connect_with_timeout hk connect_f so_error fd timeout_ms w = Inr (n, w')
    \<longleftrightarrow> (\<exists>tr. connect_trace fd timeout_ms tr n \<and> perform hk connect_f so_error tr w = Some w')"
proof
  assume run: "connect_with_timeout hk connect_f so_error fd timeout_ms w = Inr (n, w')"
  obtain m w1 where c: "connect_f w = (m, w1)" by (rule prod.exhaust)
  show "\<exists>tr. connect_trace fd timeout_ms tr n \<and> perform hk connect_f so_error tr w = Some w'"
  proof (cases "m = - 1 \<and> errno_of hk w1 = EINPROGRESS")
    case False
    then have "n = m" "w' = w1" using run assms c by (auto simp: connect_with_timeout_def split: if_splits)
    then show ?thesis using False c by (intro exI [of _ "[Call m (errno_of hk w1)]"]) (auto intro: connect_trace.at_once)
  next
    case True
    obtain ti w2 where i: "new_tinfo hk w1 = (ti, w2)" by (rule prod.exhaust)
    obtain t w3 where t: "timeout_ms \<noteq> - 1 \<Longrightarrow> io_addConditionTimer hk timeout_ms ti fd WRITE w2 = (t, w3)" "timeout_ms = - 1 \<Longrightarrow> w3 = w2"
      by (metis surj_pair)
    obtain rt w4 where a: "io_addEvent hk fd WRITE w3 = (rt, w4)" by (rule prod.exhaust)
    let ?arm = "if timeout_ms = - 1 then [] else [Arm t timeout_ms ti fd WRITE]" and ?off = "if timeout_ms = - 1 then [] else [Disarm t]"
    let ?stop = "\<lambda>w. if timeout_ms = - 1 then w else timer_cancel hk t w"
    have pre: "perform hk connect_f so_error (Call (- 1) EINPROGRESS # New_info ti # ?arm @ xs) w = perform hk connect_f so_error xs w3" for xs
      using True c i t by (cases "timeout_ms = - 1") simp_all
    have off: "perform hk connect_f so_error (?off @ xs) v = perform hk connect_f so_error xs (?stop v)" for xs v
      by (cases "timeout_ms = - 1") simp_all
    have body: "(if rt = 0 then if cancelled hk ti (?stop (await hk w4)) \<noteq> 0
          then (- 1, set_errno hk (cancelled hk ti (?stop (await hk w4))) (?stop (await hk w4)))
          else finish_connect hk so_error (?stop (await hk w4))
        else finish_connect hk so_error (?stop w4)) = (n, w')"
      using run assms c True i t a
      by (cases "timeout_ms = - 1"; cases "rt = 0"; cases "cancelled hk ti (?stop (await hk w4)) = 0")
        (simp_all add: connect_with_timeout_def start_timer_def stop_timer_def Let_def errno_defs)
    consider "rt = 0" "cancelled hk ti (?stop (await hk w4)) \<noteq> 0" "n = - 1"
        "w' = set_errno hk (cancelled hk ti (?stop (await hk w4))) (?stop (await hk w4))"
      | "rt = 0" "cancelled hk ti (?stop (await hk w4)) = 0" "finish_connect hk so_error (?stop (await hk w4)) = (n, w')"
      | "rt \<noteq> 0" "finish_connect hk so_error (?stop w4) = (n, w')"
      using body by (auto simp del: if_split split: if_splits)
    then show ?thesis
    proof cases
      case 1
      let ?c = "cancelled hk ti (?stop (await hk w4))"
      show ?thesis
        by (rule exI, rule conjI, unfold \<open>n = - 1\<close>, rule connect_trace.timed_out [OF 1(2), of fd timeout_ms ti t])
          (use 1 a in \<open>subst pre, simp add: perform_Cons off del: perform.simps(2)\<close>)
    next
      case 2
      obtain ask where ask: "asked ask n" "perform hk connect_f so_error ask (?stop (await hk w4)) = Some w'"
        using asked_finish [THEN iffD1, OF 2(3)] by blast
      show ?thesis
        by (rule exI, rule conjI, rule connect_trace.woken [OF ask(1), of fd timeout_ms ti t])
          (use 2 a ask(2) in \<open>subst pre, simp add: perform_Cons off del: perform.simps(2)\<close>)
    next
      case 3
      obtain ask where ask: "asked ask n" "perform hk connect_f so_error ask (?stop w4) = Some w'"
        using asked_finish [THEN iffD1, OF 3(2)] by blast
      show ?thesis
        by (rule exI, rule conjI, rule connect_trace.unregistered [OF 3(1) ask(1), of fd timeout_ms ti t])
          (use a ask(2) in \<open>subst pre, simp add: perform_Cons off del: perform.simps(2)\<close>)
    qed
  qed
next
  assume "\<exists>tr. connect_trace fd timeout_ms tr n \<and> perform hk connect_f so_error tr w = Some w'"
  then obtain tr where tr: "connect_trace fd timeout_ms tr n" "perform hk connect_f so_error tr w = Some w'" by blast
  note d = connect_with_timeout_def start_timer_def stop_timer_def Let_def
  show "connect_with_timeout hk connect_f so_error fd timeout_ms w = Inr (n, w')"
    using tr
  proof (cases rule: connect_trace.cases)
    case (at_once e)
    then show ?thesis using tr(2) assms by (auto simp: d perform_Cons simp del: perform.simps(2))
  next
    case (timed_out c ti t)
    then show ?thesis using tr(2) assms
      by (cases "timeout_ms = - 1") (auto simp: d perform_Cons simp del: perform.simps(2))
  next
    case (woken ask ti t)
    note fin = asked_finish [THEN iffD2, OF exI, OF conjI, OF woken(2)]
    show ?thesis using woken tr(2) assms
      by (cases "timeout_ms = - 1") (auto simp: d perform_Cons simp del: perform.simps(2) intro: fin)
  next
    case (unregistered rt ask ti t)
    note fin = asked_finish [THEN iffD2, OF exI, OF conjI, OF unregistered(3)]
    show ?thesis using unregistered tr(2) assms
      by (cases "timeout_ms = - 1") (auto simp: d perform_Cons simp del: perform.simps(2) intro: fin)
  qed
qed

text \<open>A registration that is refused, with the connection still being made.\<close>

theorem connect_outcome_witness:
  "connect_with_timeout (demo_hooks\<lparr>io_addEvent := \<lambda>fd ev w. (- 1, w)\<rparr>) (\<lambda>(a, e, c). (- 1, a, EINPROGRESS, c))
     (\<lambda>w. (0, 0, w)) 3 5000 (0, 0, 0) = Inr (0, 0, EINPROGRESS, 0)"
proof -
  let ?hk = "demo_hooks\<lparr>io_addEvent := \<lambda>fd ev w. (- 1, w)\<rparr>" and ?f = "\<lambda>(a, e, c). (- 1 :: int, a, EINPROGRESS, c)"
  have view: "hs_view demo_hooks v = \<lparr> hook_enable = True, fds = (replicate 64 None)[3 := Some socket_ctx], kstate = () \<rparr>" for v
    by (simp add: demo_hooks_def)
  have en: "hook_enable (hs_view ?hk (0, 0, 0))" by (simp add: view)
  have look: "lookup_fd 3 (fds (hs_view ?hk (0, 0, 0))) = Inr (Some socket_ctx)"
    by (simp add: view lookup_fd_def data_at_def)
  have c: "\<not> m_isClosed socket_ctx" "m_isSocket socket_ctx" "\<not> m_userNonblock socket_ctx" by (simp_all add: socket_ctx_def)
  let ?tr = "Call (- 1) EINPROGRESS # New_info 0 # (if (5000 :: u64) = - 1 then [] else [Arm 0 5000 0 3 WRITE]) @ [Register 3 WRITE (- 1)]
      @ (if (5000 :: u64) = - 1 then [] else [Disarm 0]) @ [Ask 0 0]"
  have tr: "connect_trace 3 5000 ?tr 0"
    by (rule connect_trace.unregistered, simp, rule asked.no_error, simp)
  have run: "perform ?hk ?f (\<lambda>w. (0, 0, w)) ?tr (0, 0, 0) = Some (0, EINPROGRESS, 0)"
    by (simp add: demo_hooks_def)
  show ?thesis
    by (rule connect_outcome [THEN iffD2, OF en look c]) (use tr run in blast)
qed

end
