(* ===== verification/LogFormat.thy ===== *)
theory LogFormat
  imports StringUtil
begin

text \<open>
  Levels, events and formatters of the log: the first half of \<open>src/log/log.cpp\<close>,
  \<open>include/fishjoy/log/log.hpp\<close>.

  The parser of patterns, \<open>LogFormatter::init\<close>, is written with the indices of the source; the
  section after it gives the grammar it accepts, as a function on the rest of the pattern. The logger
  an event belongs to is a pointer of type \<open>'l\<close>, its name a parameter; \<open>strftime\<close> with \<open>localtime_r\<close> is a
  parameter that says when the text does not fit the buffer.
\<close>

subsection \<open>Levels\<close>

datatype level = UNKNOWN | DEBUG | INFO | WARN | ERROR | FATAL

fun level_number :: "level \<Rightarrow> nat" where
  "level_number UNKNOWN = 0"
| "level_number DEBUG = 1"
| "level_number INFO = 2"
| "level_number WARN = 3"
| "level_number ERROR = 4"
| "level_number FATAL = 5"

lemma level_number_inj: "level_number a = level_number b \<Longrightarrow> a = b"
  by (cases a; cases b) simp_all

instantiation level :: linorder
begin

definition less_eq_level :: "level \<Rightarrow> level \<Rightarrow> bool" where
  "less_eq_level a b = (level_number a \<le> level_number b)"

definition less_level :: "level \<Rightarrow> level \<Rightarrow> bool" where
  "less_level a b = (level_number a < level_number b)"

instance
  by standard (auto simp: less_eq_level_def less_level_def level_number_inj)

end

definition level_ToString :: "level \<Rightarrow> string" where
  "level_ToString l =
     (case l of DEBUG \<Rightarrow> ''DEBUG'' | INFO \<Rightarrow> ''INFO'' | WARN \<Rightarrow> ''WARN'' | ERROR \<Rightarrow> ''ERROR'' | FATAL \<Rightarrow> ''FATAL''
      | _ \<Rightarrow> ''UNKNOWN'')"

definition level_FromString :: "string \<Rightarrow> level" where
  "level_FromString str =
     (if str = ''debug'' then DEBUG else if str = ''info'' then INFO else if str = ''warn'' then WARN
      else if str = ''error'' then ERROR else if str = ''fatal'' then FATAL
      else if str = ''DEBUG'' then DEBUG else if str = ''INFO'' then INFO else if str = ''WARN'' then WARN
      else if str = ''ERROR'' then ERROR else if str = ''FATAL'' then FATAL else UNKNOWN)"

lemma level_roundtrip: "level_FromString (level_ToString l) = l"
  by (cases l) (simp_all add: level_FromString_def level_ToString_def)

subsection \<open>Events\<close>

record 'l log_event =
  le_file :: string
  le_line :: int
  le_elapse :: nat
  le_threadId :: int
  le_fiberId :: nat
  le_time :: int
  le_threadName :: string
  le_ss :: string
  le_logger :: 'l
  le_level :: level

definition new_LogEvent ::
  "'l \<Rightarrow> level \<Rightarrow> string \<Rightarrow> int \<Rightarrow> nat \<Rightarrow> int \<Rightarrow> nat \<Rightarrow> int \<Rightarrow> string \<Rightarrow> 'l log_event" where
  "new_LogEvent logger lvl file line elapse thread_id fiber_id time thread_name =
     \<lparr> le_file = file, le_line = line, le_elapse = elapse, le_threadId = thread_id, le_fiberId = fiber_id,
       le_time = time, le_threadName = thread_name, le_ss = [], le_logger = logger, le_level = lvl \<rparr>"

text \<open>\<open>LogEvent::format\<close>: \<open>out\<close> is what \<open>vasprintf\<close> printed, \<open>None\<close> when it returned -1.\<close>

definition event_format :: "string option \<Rightarrow> 'l log_event \<Rightarrow> 'l log_event" where
  "event_format out ev = (case out of None \<Rightarrow> ev | Some s \<Rightarrow> ev\<lparr>le_ss := le_ss ev @ s\<rparr>)"

subsection \<open>Format items\<close>

datatype format_item =
    Message_item | Level_item | Elapse_item | Name_item | ThreadId_item | NewLine_item
  | DateTime_item string | Filename_item | Line_item | Tab_item | FiberId_item | String_item string

definition default_time_format :: string where
  "default_time_format = ''%Y-%m-%d %H:%M:%S''"

definition new_DateTime_item :: "string \<Rightarrow> format_item" where
  "new_DateTime_item fmt = DateTime_item (if fmt = [] then default_time_format else fmt)"

text \<open>\<open>s_format_items\<close>: the item a letter stands for.\<close>

definition format_items :: "string \<Rightarrow> (string \<Rightarrow> format_item) option" where
  "format_items str =
     (if str = ''m'' then Some (\<lambda>_. Message_item) else if str = ''p'' then Some (\<lambda>_. Level_item)
      else if str = ''r'' then Some (\<lambda>_. Elapse_item) else if str = ''c'' then Some (\<lambda>_. Name_item)
      else if str = ''t'' then Some (\<lambda>_. ThreadId_item) else if str = ''n'' then Some (\<lambda>_. NewLine_item)
      else if str = ''d'' then Some new_DateTime_item else if str = ''f'' then Some (\<lambda>_. Filename_item)
      else if str = ''l'' then Some (\<lambda>_. Line_item) else if str = ''T'' then Some (\<lambda>_. Tab_item)
      else if str = ''F'' then Some (\<lambda>_. FiberId_item) else None)"

definition dec_int :: "int \<Rightarrow> string" where
  "dec_int n = (if n < 0 then CHR ''-'' # dec (nat (- n)) else dec (nat n))"

text \<open>
  The outside of the formatters: the name of a logger, and \<open>strftime\<close> into a buffer of the given size.
  When the text does not fit, the contents of the buffer are undefined and \<open>os << buf\<close> reads them.
\<close>

record 'l log_env =
  logger_name :: "'l \<Rightarrow> string"
  strftime_local :: "nat \<Rightarrow> string \<Rightarrow> int \<Rightarrow> string option"

fun item_format :: "'l log_env \<Rightarrow> level \<Rightarrow> 'l log_event \<Rightarrow> format_item \<Rightarrow> string result" where
  "item_format env lvl ev Message_item = Inr (le_ss ev)"
| "item_format env lvl ev Level_item = Inr (level_ToString lvl)"
| "item_format env lvl ev Elapse_item = Inr (dec (le_elapse ev))"
| "item_format env lvl ev Name_item = Inr (logger_name env (le_logger ev))"
| "item_format env lvl ev ThreadId_item = Inr (dec_int (le_threadId ev))"
| "item_format env lvl ev FiberId_item = Inr (dec (le_fiberId ev))"
| "item_format env lvl ev (DateTime_item fmt) =
     (case strftime_local env 64 fmt (le_time ev) of None \<Rightarrow> Inl (Undefined ''strftime'') | Some s \<Rightarrow> Inr s)"
| "item_format env lvl ev Filename_item = Inr (le_file ev)"
| "item_format env lvl ev Line_item = Inr (dec_int (le_line ev))"
| "item_format env lvl ev NewLine_item = Inr [CHR 0x0A]"
| "item_format env lvl ev (String_item s) = Inr s"
| "item_format env lvl ev Tab_item = Inr [CHR 0x09]"

subsection \<open>The parser of patterns\<close>

definition is_alpha :: "char \<Rightarrow> bool" where
  "is_alpha c \<longleftrightarrow> (let n = of_char c :: nat in 65 \<le> n \<and> n \<le> 90 \<or> 97 \<le> n \<and> n \<le> 122)"

text \<open>
  The inner loop, from position \<open>n\<close> of the directive that starts at \<open>i\<close>: it returns \<open>fmt_status\<close>, \<open>str\<close>,
  \<open>fmt\<close> and \<open>n\<close>.
\<close>

function scan_directive :: "string \<Rightarrow> nat \<Rightarrow> nat \<Rightarrow> nat \<Rightarrow> nat \<Rightarrow> string \<Rightarrow> nat \<times> string \<times> string \<times> nat" where
  "scan_directive pat i n fmt_status fmt_begin str =
     (if n < length pat then
        if fmt_status = 0 \<and> (\<not> is_alpha (pat ! n) \<and> pat ! n \<noteq> CHR ''{'' \<and> pat ! n \<noteq> CHR ''}'')
        then (0, substr (i + 1) (n - i - 1) pat, [], n)
        else if fmt_status = 0 \<and> pat ! n = CHR ''{''
        then scan_directive pat i (n + 1) 1 n (substr (i + 1) (n - i - 1) pat)
        else if fmt_status = 1 \<and> pat ! n = CHR ''}''
        then (0, str, substr (fmt_begin + 1) (n - fmt_begin - 1) pat, n + 1)
        else scan_directive pat i (n + 1) fmt_status fmt_begin
               (if n + 1 = length pat \<and> str = [] then drop (i + 1) pat else str)
      else (fmt_status, str, [], n))"
  by pat_completeness auto
termination by (relation "measure (\<lambda>(pat, i, n, st, fb, str). length pat - n)") auto

declare scan_directive.simps [simp del]

lemma scan_directive_ge: "n \<le> snd (snd (snd (scan_directive pat i n st fb str)))"
proof (induction pat i n st fb str rule: scan_directive.induct)
  case (1 pat i n st fb str)
  note IH = "1.IH"
  show ?case
    apply (subst scan_directive.simps)
    using IH by (auto split: if_splits)
qed

lemma scan_directive_gt:
  "(st, str, fmt, n) = scan_directive pat i (Suc i) 0 0 [] \<Longrightarrow> i < n"
  using scan_directive_ge [of "Suc i" pat i 0 0 "[]"] by (metis less_eq_Suc_le snd_conv)

type_synonym segment = "string \<times> string \<times> nat"

definition flush_text :: "string \<Rightarrow> segment list" where
  "flush_text nstr = (if nstr = [] then [] else [(nstr, [], 0)])"

text \<open>The outer loop; the result is \<open>vec\<close> and \<open>m_error\<close>.\<close>

function parse_loop :: "string \<Rightarrow> nat \<Rightarrow> string \<Rightarrow> segment list \<Rightarrow> bool \<Rightarrow> segment list \<times> bool" where
  "parse_loop pat i nstr vec err =
     (if i < length pat then
        if pat ! i \<noteq> CHR ''%'' then parse_loop pat (i + 1) (nstr @ [pat ! i]) vec err
        else if i + 1 < length pat \<and> pat ! (i + 1) = CHR ''%'' then parse_loop pat (i + 1) (nstr @ ''%'') vec err
        else case scan_directive pat i (i + 1) 0 0 [] of (fmt_status, str, fmt, n) \<Rightarrow>
          if fmt_status = 0 then parse_loop pat n [] (vec @ flush_text nstr @ [(str, fmt, 1)]) err
          else parse_loop pat (i + 1) nstr (vec @ [(''<<pattern_error>>'', fmt, 0)]) True
      else (vec @ flush_text nstr, err))"
  by pat_completeness auto
termination
  by (relation "measure (\<lambda>(pat, i, _). length pat - i)") (auto dest!: scan_directive_gt intro: diff_less_mono2)

declare parse_loop.simps [simp del]

record log_formatter =
  f_pattern :: string
  f_items :: "format_item list"
  f_error :: bool

text \<open>The second loop of \<open>init\<close>: the items and whether one of them is unknown.\<close>

definition make_item :: "segment \<Rightarrow> format_item" where
  "make_item sg = (case sg of (str, fmt, type) \<Rightarrow>
     if type = 0 then String_item str
     else (case format_items str of None \<Rightarrow> String_item (''<<error_format %'' @ str @ ''>>'') | Some mk \<Rightarrow> mk fmt))"

definition unknown_item :: "segment \<Rightarrow> bool" where
  "unknown_item sg = (case sg of (str, fmt, type) \<Rightarrow> type \<noteq> 0 \<and> format_items str = None)"

definition init_formatter :: "log_formatter \<Rightarrow> log_formatter" where
  "init_formatter f =
     (let (vec, err) = parse_loop (f_pattern f) 0 [] [] (f_error f)
      in f\<lparr>f_items := f_items f @ map make_item vec, f_error := err \<or> (\<exists>sg \<in> set vec. unknown_item sg)\<rparr>)"

definition new_LogFormatter :: "string \<Rightarrow> log_formatter" where
  "new_LogFormatter pattern = init_formatter \<lparr> f_pattern = pattern, f_items = [], f_error = False \<rparr>"

fun items_format :: "'l log_env \<Rightarrow> level \<Rightarrow> 'l log_event \<Rightarrow> format_item list \<Rightarrow> string result" where
  "items_format env lvl ev [] = Inr []"
| "items_format env lvl ev (it # its) =
     rbind (item_format env lvl ev it) (\<lambda>s. rbind (items_format env lvl ev its) (\<lambda>r. Inr (s @ r)))"

definition formatter_format :: "'l log_env \<Rightarrow> log_formatter \<Rightarrow> level \<Rightarrow> 'l log_event \<Rightarrow> string result" where
  "formatter_format env f lvl ev = items_format env lvl ev (f_items f)"

subsection \<open>The grammar of patterns\<close>

text \<open>
  The same, by recursion on what is left of the pattern. A directive is a name of letters (and of \<open>}\<close>,
  which the code does not exclude) and an optional format in braces.
\<close>

definition name_char :: "char \<Rightarrow> bool" where
  "name_char c \<longleftrightarrow> is_alpha c \<or> c = CHR ''}''"

definition split_directive :: "string \<Rightarrow> (string \<times> string \<times> string) option" where
  "split_directive s =
     (let name = takeWhile name_char s; r = dropWhile name_char s in
      if r \<noteq> [] \<and> hd r = CHR ''{'' then
        (if CHR ''}'' \<in> set (tl r)
         then Some (name, takeWhile (\<lambda>c. c \<noteq> CHR ''}'') (tl r), tl (dropWhile (\<lambda>c. c \<noteq> CHR ''}'') (tl r)))
         else None)
      else Some (name, [], r))"

lemma length_tl_dropWhile: "length (tl (dropWhile P xs)) \<le> length xs"
  using length_dropWhile_le [of P xs] by simp

lemma split_directive_length: "split_directive s = Some (name, fmt, rest) \<Longrightarrow> length rest \<le> length s"
  using length_dropWhile_le [of name_char s] length_tl_dropWhile [of "\<lambda>c. c \<noteq> CHR ''}''" "tl (dropWhile name_char s)"]
  by (auto simp: split_directive_def Let_def split: if_splits)

function grammar :: "string \<Rightarrow> string \<Rightarrow> segment list \<times> bool" where
  "grammar [] nstr = (flush_text nstr, False)"
| "grammar (c # s) nstr =
     (if c \<noteq> CHR ''%'' then grammar s (nstr @ [c])
      else if s \<noteq> [] \<and> hd s = CHR ''%'' then grammar s (nstr @ ''%'')
      else case split_directive s of
          Some (name, fmt, rest) \<Rightarrow> (let (vec, err) = grammar rest [] in (flush_text nstr @ (name, fmt, 1) # vec, err))
        | None \<Rightarrow> (let (vec, err) = grammar s nstr in ((''<<pattern_error>>'', [], 0) # vec, True)))"
  by pat_completeness auto
termination
  by (relation "measure (length \<circ> fst)") (auto dest: split_directive_length)

declare grammar.simps(2) [simp del]

lemma brace_not_name: "\<not> name_char (CHR ''{'')" "\<not> name_char (CHR ''%'')" "name_char (CHR ''}'')"
  by (simp_all add: name_char_def is_alpha_def)

lemma drop_Cons_nth: "drop n xs = y # ys \<Longrightarrow> n < length xs \<and> xs ! n = y \<and> drop (Suc n) xs = ys"
  by (metis Cons_nth_drop_Suc drop_all linorder_not_le list.distinct(1) list.inject)

lemma scan_format_closed:
  assumes "drop n pat = xs @ CHR ''}'' # ys" "CHR ''}'' \<notin> set xs"
  shows "scan_directive pat i n 1 fb str = (0, str, substr (fb + 1) (n + length xs - fb - 1) pat, n + length xs + 1)"
  using assms
proof (induction xs arbitrary: n)
  case Nil
  then show ?case using drop_Cons_nth [of n pat "CHR ''}''" ys] by (subst scan_directive.simps) simp
next
  case (Cons x xs)
  then have n: "n < length pat" "pat ! n = x" "drop (Suc n) pat = xs @ CHR ''}'' # ys"
    using drop_Cons_nth [of n pat x "xs @ CHR ''}'' # ys"] by simp_all
  then have "n + 1 \<noteq> length pat" by (metis Suc_eq_plus1 append_is_Nil_conv drop_all le_refl list.distinct(1))
  with Cons n show ?case by (subst scan_directive.simps) auto
qed

lemma scan_format_open:
  "CHR ''}'' \<notin> set (drop n pat) \<Longrightarrow> \<exists>str' m. scan_directive pat i n 1 fb str = (1, str', [], m)"
proof (induction "length pat - n" arbitrary: n str)
  case 0
  then show ?case by (subst scan_directive.simps) simp
next
  case (Suc k)
  then have "drop n pat = pat ! n # drop (Suc n) pat" by (simp add: Cons_nth_drop_Suc)
  then have "pat ! n \<noteq> CHR ''}''" "CHR ''}'' \<notin> set (drop (Suc n) pat)" using Suc.prems by auto
  with Suc show ?case by (subst scan_directive.simps) simp
qed

lemma scan_name_end:
  assumes "drop n pat = xs" "\<forall>x \<in> set xs. name_char x"
  shows "scan_directive pat i n 0 fb str
    = (0, if xs \<noteq> [] \<and> str = [] then drop (i + 1) pat else str, [], max n (length pat))"
  using assms
proof (induction xs arbitrary: n str)
  case Nil
  then show ?case by (subst scan_directive.simps) simp
next
  case (Cons x xs)
  then have n: "n < length pat" "pat ! n = x" "drop (Suc n) pat = xs"
    using drop_Cons_nth [of n pat x xs] by simp_all
  then have "n + 1 = length pat \<longleftrightarrow> xs = []" by (metis Suc_eq_plus1 Suc_leI drop_eq_Nil2 le_antisym)
  moreover have "is_alpha x \<or> x = CHR ''}''" "x \<noteq> CHR ''{''" using Cons.prems(2) brace_not_name by (auto simp: name_char_def)
  ultimately show ?case using Cons n
    by (subst scan_directive.simps) (auto simp: max_def)
qed

lemma scan_name_stop:
  assumes "drop n pat = xs @ y # ys" "\<forall>x \<in> set xs. name_char x" "\<not> name_char y" "str = []"
  shows "scan_directive pat i n 0 fb str =
    (if y = CHR ''{''
     then scan_directive pat i (n + length xs + 1) 1 (n + length xs) (substr (i + 1) (n + length xs - i - 1) pat)
     else (0, substr (i + 1) (n + length xs - i - 1) pat, [], n + length xs))"
  using assms
proof (induction xs arbitrary: n)
  case Nil
  then show ?case using drop_Cons_nth [of n pat y ys]
    by (subst scan_directive.simps) (auto simp: name_char_def)
next
  case (Cons x xs)
  then have n: "n < length pat" "pat ! n = x" "drop (Suc n) pat = xs @ y # ys"
    using drop_Cons_nth [of n pat x "xs @ y # ys"] by simp_all
  then have "n + 1 \<noteq> length pat" by (metis Suc_eq_plus1 append_is_Nil_conv drop_all le_refl list.distinct(1))
  moreover have "is_alpha x \<or> x = CHR ''}''" "x \<noteq> CHR ''{''" using Cons.prems(2) brace_not_name by (auto simp: name_char_def)
  ultimately show ?case using Cons n by (subst scan_directive.simps) auto
qed

text \<open>The inner loop finds the directive the grammar finds.\<close>

lemma scan_split:
  assumes "i < length pat" "s = drop (i + 1) pat"
  shows "case split_directive s of
      Some (name, fmt, rest) \<Rightarrow> \<exists>n \<le> length pat. scan_directive pat i (i + 1) 0 0 [] = (0, name, fmt, n) \<and> drop n pat = rest
    | None \<Rightarrow> \<exists>str n. scan_directive pat i (i + 1) 0 0 [] = (1, str, [], n)"
proof -
  note s_def = assms(2)
  define name where "name = takeWhile name_char s"
  define r where "r = dropWhile name_char s"
  have s: "s = name @ r" by (simp add: name_def r_def)
  have name: "\<forall>x \<in> set name. name_char x" by (auto simp: name_def dest: set_takeWhileD)
  have sub: "substr (i + 1) (i + 1 + length name - i - 1) pat = name"
    using s by (simp add: substr_def s_def)
  have split: "split_directive s =
    (if r \<noteq> [] \<and> hd r = CHR ''{'' then
       (if CHR ''}'' \<in> set (tl r)
        then Some (name, takeWhile (\<lambda>c. c \<noteq> CHR ''}'') (tl r), tl (dropWhile (\<lambda>c. c \<noteq> CHR ''}'') (tl r)))
        else None)
     else Some (name, [], r))"
    unfolding split_directive_def Let_def name_def r_def ..
  show ?thesis
  proof (cases r)
    case Nil
    have "scan_directive pat i (i + 1) 0 0 [] = (0, name, [], length pat)"
      using scan_name_end [of "i + 1" pat name i 0 "[]"] name s Nil assms by (simp add: s_def max_def)
    then show ?thesis using Nil split by simp
  next
    case (Cons y ys)
    have y: "\<not> name_char y" using Cons by (metis hd_dropWhile list.sel(1) list.distinct(1) r_def)
    have stop: "scan_directive pat i (i + 1) 0 0 [] =
      (if y = CHR ''{'' then scan_directive pat i (i + 1 + length name + 1) 1 (i + 1 + length name) name
       else (0, name, [], i + 1 + length name))"
      using scan_name_stop [of "i + 1" pat name y ys "[]" i 0] s Cons name y sub by (simp add: s_def)
    have "drop (i + 1 + length name) pat = drop (length name) s" by (simp add: s_def add.commute)
    then have r: "drop (i + 1 + length name) pat = y # ys" using s Cons by simp
    note nth = drop_Cons_nth [OF r]
    show ?thesis
    proof (cases "y = CHR ''{'' \<and> CHR ''}'' \<in> set ys")
      case True
      define fmt where "fmt = takeWhile (\<lambda>c. c \<noteq> CHR ''}'') ys"
      have d: "dropWhile (\<lambda>c. c \<noteq> CHR ''}'') ys \<noteq> []" "hd (dropWhile (\<lambda>c. c \<noteq> CHR ''}'') ys) = CHR ''}''"
        using True hd_dropWhile [of "\<lambda>c. c \<noteq> CHR ''}''" ys] by (auto simp: dropWhile_eq_Nil_conv)
      define rest where "rest = tl (dropWhile (\<lambda>c. c \<noteq> CHR ''}'') ys)"
      have ys: "ys = fmt @ CHR ''}'' # rest" using d
        by (metis fmt_def rest_def list.collapse takeWhile_dropWhile_id)
      have "CHR ''}'' \<notin> set fmt" by (auto simp: fmt_def dest: set_takeWhileD)
      then have "scan_directive pat i (i + 1) 0 0 [] = (0, name, fmt, i + 1 + length name + 1 + length fmt + 1)"
        using scan_format_closed [of "i + 1 + length name + 1" pat fmt rest] stop True nth ys
        by (simp add: substr_def)
      moreover have "drop (i + 1 + length name + 1 + length fmt + 1) pat = rest"
        "i + 1 + length name + 1 + length fmt + 1 \<le> length pat"
      proof -
        have "drop (length fmt + 1) (drop (i + 1 + length name + 1) pat) = rest" using nth ys by simp
        then show "drop (i + 1 + length name + 1 + length fmt + 1) pat = rest"
          unfolding drop_drop by (simp add: ac_simps)
        have "length (drop (i + 1 + length name + 1) pat) = length fmt + 1 + length rest" using nth ys by simp
        then show "i + 1 + length name + 1 + length fmt + 1 \<le> length pat" using nth by simp
      qed
      moreover have "split_directive s = Some (name, fmt, rest)"
        using True Cons split by (simp add: fmt_def rest_def)
      ultimately show ?thesis by simp
    next
      case False
      show ?thesis
      proof (cases "y = CHR ''{''")
        case True
        with False nth have "\<exists>str n. scan_directive pat i (i + 1) 0 0 [] = (1, str, [], n)"
          using scan_format_open [of "i + 1 + length name + 1" pat] stop by simp
        then show ?thesis using True False Cons split by simp
      next
        case False
        then show ?thesis using stop nth r Cons split by auto
      qed
    qed
  qed
qed

lemma parse_loop_grammar:
  "i \<le> length pat \<Longrightarrow> parse_loop pat i nstr vec err
     = (let (v, e) = grammar (drop i pat) nstr in (vec @ v, err \<or> e))"
proof (induction "length pat - i" arbitrary: i nstr vec err rule: less_induct)
  case less
  show ?case
  proof (cases "i < length pat")
    case False
    then show ?thesis using less.prems by (subst parse_loop.simps) simp
  next
    case True
    then have d: "drop i pat = pat ! i # drop (Suc i) pat" by (simp add: Cons_nth_drop_Suc)
    have two: "(Suc i < length pat \<and> pat ! Suc i = CHR ''%'') = (drop (Suc i) pat \<noteq> [] \<and> hd (drop (Suc i) pat) = CHR ''%'')"
      by (auto simp: hd_drop_conv_nth)
    have IH: "parse_loop pat n nstr' vec' err' = (let (v, e) = grammar (drop n pat) nstr' in (vec' @ v, err' \<or> e))"
      if "i < n" "n \<le> length pat" for n nstr' vec' err'
      using less.hyps that True by simp
    note S = IH [of "Suc i", simplified]
    consider "pat ! i \<noteq> CHR ''%''" | "pat ! i = CHR ''%''" "Suc i < length pat \<and> pat ! Suc i = CHR ''%''"
      | "pat ! i = CHR ''%''" "\<not> (Suc i < length pat \<and> pat ! Suc i = CHR ''%'')" by blast
    then show ?thesis
    proof cases
      case 1
      then show ?thesis using True S by (subst parse_loop.simps) (simp add: d grammar.simps(2))
    next
      case 2
      then show ?thesis using True S two by (subst parse_loop.simps) (simp add: d grammar.simps(2))
    next
      case 3
      note scan = scan_split [OF True refl]
      have g: "grammar (drop i pat) nstr = (case split_directive (drop (Suc i) pat) of
          Some (name, fmt, rest) \<Rightarrow> (let (vec, err) = grammar rest [] in (flush_text nstr @ (name, fmt, 1) # vec, err))
        | None \<Rightarrow> (let (vec, err) = grammar (drop (Suc i) pat) nstr in ((''<<pattern_error>>'', [], 0) # vec, True)))"
        using 3 two unfolding d grammar.simps(2) by argo
      show ?thesis
      proof (cases "split_directive (drop (Suc i) pat)")
        case None
        then obtain str n where "scan_directive pat i (i + 1) 0 0 [] = (1, str, [], n)" using scan by auto
        then show ?thesis using 3 True S None
          by (subst parse_loop.simps) (auto simp: g split: prod.splits)
      next
        case (Some x)
        obtain name fmt rest where x: "x = (name, fmt, rest)" by (metis prod.exhaust)
        then obtain n where n: "n \<le> length pat" "scan_directive pat i (i + 1) 0 0 [] = (0, name, fmt, n)" "drop n pat = rest"
          using scan Some by auto
        then have "i < n" using scan_directive_ge [of "i + 1" pat i 0 0 "[]"] by simp
        then show ?thesis using 3 True Some x n IH [of n]
          by (subst parse_loop.simps) (auto simp: g split: prod.splits)
      qed
    qed
  qed
qed

subsection \<open>Patterns printed from items\<close>

datatype token = Text string | Directive string "string option"

fun print_token :: "token \<Rightarrow> string" where
  "print_token (Text s) = s"
| "print_token (Directive d None) = ''%'' @ d"
| "print_token (Directive d (Some f)) = ''%'' @ d @ ''{'' @ f @ ''}''"

definition print_tokens :: "token list \<Rightarrow> string" where
  "print_tokens ts = concat (map print_token ts)"

definition token_item :: "token \<Rightarrow> format_item" where
  "token_item t = (case t of Text s \<Rightarrow> String_item s
     | Directive d f \<Rightarrow> (case format_items d of None \<Rightarrow> String_item [] | Some mk \<Rightarrow> mk (case f of None \<Rightarrow> [] | Some s \<Rightarrow> s)))"

fun token_ok :: "token \<Rightarrow> bool" where
  "token_ok (Text s) = (s \<noteq> [] \<and> CHR ''%'' \<notin> set s)"
| "token_ok (Directive d f) = (format_items d \<noteq> None \<and> (case f of None \<Rightarrow> True | Some s \<Rightarrow> CHR ''}'' \<notin> set s))"

text \<open>Texts do not touch, and a text after a directive without a format does not continue its name.\<close>

fun separated :: "token list \<Rightarrow> bool" where
  "separated (Text s # Text s' # ts) = False"
| "separated (Directive d None # Text s # ts) = (\<not> name_char (hd s) \<and> hd s \<noteq> CHR ''{'' \<and> separated (Text s # ts))"
| "separated (t # ts) = separated ts"
| "separated [] = True"

definition token_segment :: "token \<Rightarrow> segment" where
  "token_segment t = (case t of Text s \<Rightarrow> (s, [], 0) | Directive d f \<Rightarrow> (d, case f of None \<Rightarrow> [] | Some s \<Rightarrow> s, 1))"

lemma format_items_letter: "format_items d \<noteq> None \<Longrightarrow> \<exists>c. d = [c] \<and> is_alpha c"
  by (auto simp: format_items_def is_alpha_def split: if_splits)

lemma takeWhile_letter: "is_alpha c \<Longrightarrow> takeWhile name_char (c # s) = c # takeWhile name_char s \<and> dropWhile name_char (c # s) = dropWhile name_char s"
  by (simp add: name_char_def)

lemma grammar_text:
  "CHR ''%'' \<notin> set s \<Longrightarrow> grammar (s @ r) nstr = grammar r (nstr @ s)"
  by (induction s arbitrary: nstr) (auto simp: grammar.simps(2))

lemma split_format:
  assumes "is_alpha c" "CHR ''}'' \<notin> set f"
  shows "split_directive (c # CHR ''{'' # f @ CHR ''}'' # r) = Some ([c], f, r)"
proof -
  have "takeWhile (\<lambda>c. c \<noteq> CHR ''}'') (f @ CHR ''}'' # r) = f" "dropWhile (\<lambda>c. c \<noteq> CHR ''}'') (f @ CHR ''}'' # r) = CHR ''}'' # r"
    using assms(2) by (induction f) auto
  then show ?thesis using takeWhile_letter [OF assms(1)] brace_not_name by (simp add: split_directive_def)
qed

lemma split_plain:
  assumes "is_alpha c" "r = [] \<or> \<not> name_char (hd r) \<and> hd r \<noteq> CHR ''{''"
  shows "split_directive (c # r) = Some ([c], [], r)"
proof -
  have "takeWhile name_char r = []" "dropWhile name_char r = r" using assms(2) by (cases r; auto)+
  then show ?thesis using takeWhile_letter [OF assms(1), of r] assms(2) by (auto simp: split_directive_def)
qed

lemma grammar_directive:
  assumes "split_directive s = Some (name, fmt, rest)" "s \<noteq> []" "hd s \<noteq> CHR ''%''"
  shows "grammar (CHR ''%'' # s) nstr = (let (vec, err) = grammar rest [] in (flush_text nstr @ (name, fmt, 1) # vec, err))"
  using assms by (simp add: grammar.simps(2))

definition starts_text :: "token list \<Rightarrow> bool" where
  "starts_text ts = (case ts of Text s # _ \<Rightarrow> True | _ \<Rightarrow> False)"

lemma separated_Cons:
  "separated (t # ts) \<Longrightarrow> separated ts"
  by (induction "t # ts" rule: separated.induct) auto

lemma separated_text: "separated (Text s # ts) \<Longrightarrow> \<not> starts_text ts"
  by (induction "Text s # ts" rule: separated.induct) (auto simp: starts_text_def)

lemma print_tokens_Cons: "print_tokens (t # ts) = print_token t @ print_tokens ts" "print_tokens [] = []"
  by (simp_all add: print_tokens_def)

lemma after_directive:
  assumes "separated (Directive d None # ts)" "\<forall>t \<in> set ts. token_ok t"
  shows "print_tokens ts = [] \<or> \<not> name_char (hd (print_tokens ts)) \<and> hd (print_tokens ts) \<noteq> CHR ''{''"
proof (cases ts)
  case (Cons t us)
  show ?thesis
  proof (cases t)
    case (Text s)
    then show ?thesis using assms Cons by (cases s) (auto simp: print_tokens_Cons)
  next
    case (Directive e f)
    then show ?thesis using Cons brace_not_name by (cases f) (auto simp: print_tokens_Cons)
  qed
qed (simp add: print_tokens_Cons)

lemma grammar_tokens:
  "\<forall>t \<in> set ts. token_ok t \<Longrightarrow> separated ts \<Longrightarrow> nstr = [] \<or> \<not> starts_text ts \<Longrightarrow>
    grammar (print_tokens ts) nstr = (flush_text nstr @ map token_segment ts, False)"
proof (induction ts arbitrary: nstr)
  case Nil
  then show ?case by (simp add: print_tokens_Cons)
next
  case (Cons t ts)
  have sep: "separated ts" using Cons.prems separated_Cons by blast
  have ok: "\<forall>t \<in> set ts. token_ok t" using Cons.prems by simp
  show ?case
  proof (cases t)
    case (Text s)
    then have n: "nstr = []" "\<not> starts_text ts"
      using Cons.prems separated_text by (auto simp: starts_text_def)
    then have "grammar (print_tokens ts) s = (flush_text s @ map token_segment ts, False)"
      using Cons.IH [OF ok sep, of s] by simp
    then show ?thesis using Text Cons.prems n
      by (simp add: print_tokens_Cons grammar_text token_segment_def flush_text_def)
  next
    case (Directive d f)
    then obtain c where c: "d = [c]" "is_alpha c" using format_items_letter [of d] Cons.prems by auto
    then have pc: "c \<noteq> CHR ''%''" by (auto simp: is_alpha_def)
    have IH: "grammar (print_tokens ts) [] = (map token_segment ts, False)"
      using Cons.IH [OF ok sep, of "[]"] by (simp add: flush_text_def)
    show ?thesis
    proof (cases f)
      case None
      then have "split_directive (c # print_tokens ts) = Some ([c], [], print_tokens ts)"
        using split_plain [OF c(2)] after_directive [of d ts] Cons.prems(2) ok Directive by blast
      then show ?thesis using grammar_directive [of "c # print_tokens ts"] IH Directive None c pc
        by (simp add: print_tokens_Cons token_segment_def)
    next
      case (Some s)
      then have "split_directive (c # CHR ''{'' # s @ CHR ''}'' # print_tokens ts) = Some ([c], s, print_tokens ts)"
        using split_format [OF c(2)] Cons.prems(1) Directive by simp
      then show ?thesis using grammar_directive [of "c # CHR ''{'' # s @ CHR ''}'' # print_tokens ts"] IH Directive Some c pc
        by (simp add: print_tokens_Cons token_segment_def)
    qed
  qed
qed

lemma make_item_segment: "token_ok t \<Longrightarrow> make_item (token_segment t) = token_item t \<and> \<not> unknown_item (token_segment t)"
  by (cases t) (auto simp: make_item_def token_segment_def token_item_def unknown_item_def split: option.splits)

subsection \<open>Properties\<close>

text \<open>
  C14: the pattern parser is the grammar. The two nested index loops of \<open>LogFormatter::init\<close>, with their
  status flag and their changes of the loop variable, compute for every pattern, well formed or not,
  what the recursive grammar gives: the items, and the error flag, which is set exactly for an
  unterminated format and for an unknown directive.
\<close>

theorem pattern_parser:
  "new_LogFormatter pat =
     \<lparr> f_pattern = pat, f_items = map make_item (fst (grammar pat [])),
       f_error = (snd (grammar pat []) \<or> (\<exists>sg \<in> set (fst (grammar pat [])). unknown_item sg)) \<rparr>"
  using parse_loop_grammar [of 0 pat "[]" "[]" False]
  by (simp add: new_LogFormatter_def init_formatter_def Let_def split: prod.splits)

text \<open>
  Parsing inverts printing. A sequence of texts and known directives, printed as a pattern, is
  parsed without an error to exactly the items of the sequence: texts verbatim, each directive its item
  with its format. Texts must not contain a percent sign, formats no closing brace, and a text that
  follows a directive without a format must not continue its name.
\<close>

theorem pattern_roundtrip:
  assumes "\<forall>t \<in> set ts. token_ok t" "separated ts"
  shows "new_LogFormatter (print_tokens ts) =
    \<lparr> f_pattern = print_tokens ts, f_items = map token_item ts, f_error = False \<rparr>"
proof -
  have "parse_loop (print_tokens ts) 0 [] [] False = (map token_segment ts, False)"
    using parse_loop_grammar [of 0 "print_tokens ts" "[]" "[]" False] grammar_tokens [OF assms, of "[]"]
    by (simp add: flush_text_def)
  then show ?thesis using assms(1) make_item_segment
    by (auto simp: new_LogFormatter_def init_formatter_def)
qed

text \<open>The formatter every logger starts with.\<close>

definition default_pattern :: string where
  "default_pattern = ''%d{%Y-%m-%d %H:%M:%S}%T%t%T%F%T[%p]%T[%c]%T%f:%l%T%m%n''"

theorem pattern_roundtrip_witness:
  "new_LogFormatter default_pattern =
    \<lparr> f_pattern = default_pattern,
      f_items = [DateTime_item ''%Y-%m-%d %H:%M:%S'', Tab_item, ThreadId_item, Tab_item, FiberId_item, Tab_item,
        String_item ''['', Level_item, String_item '']'', Tab_item, String_item ''['', Name_item, String_item '']'',
        Tab_item, Filename_item, String_item '':'', Line_item, Tab_item, Message_item, NewLine_item],
      f_error = False \<rparr>"
  using pattern_roundtrip [of "[Directive ''d'' (Some ''%Y-%m-%d %H:%M:%S''), Directive ''T'' None, Directive ''t'' None,
      Directive ''T'' None, Directive ''F'' None, Directive ''T'' None, Text ''['', Directive ''p'' None, Text '']'',
      Directive ''T'' None, Text ''['', Directive ''c'' None, Text '']'', Directive ''T'' None, Directive ''f'' None,
      Text '':'', Directive ''l'' None, Directive ''T'' None, Directive ''m'' None, Directive ''n'' None]"]
  by (simp add: print_tokens_def token_item_def format_items_def new_DateTime_item_def default_pattern_def
      name_char_def is_alpha_def)

end
