(* ===== verification/Logger.thy ===== *)
theory Logger
  imports LogFormat StdContainers
begin

text \<open>
  Loggers, appenders and their manager: the second half of \<open>src/log/log.cpp\<close> and the classes of
  \<open>include/fishjoy/log/log.hpp\<close>.

  A \<open>Logger::ptr\<close> and a \<open>LogAppender::ptr\<close> are indices of the objects in \<open>logger_heap\<close> and \<open>appender_heap\<close>; the
  heaps only grow. Formatters do not change once they are built and are values. The outside (standard
  output, files, the clock, \<open>strftime\<close>) is a record of functions on a state of its own. The calls are
  atomic, as under the locks of the logger and of the appender.
\<close>

subsection \<open>State\<close>

record 'w log_io =
  io_time :: "'w \<Rightarrow> int \<times> 'w"
  io_stdout :: "string \<Rightarrow> 'w \<Rightarrow> 'w"
  io_open :: "string \<Rightarrow> 'w \<Rightarrow> bool \<times> 'w"
  io_file :: "string \<Rightarrow> string \<Rightarrow> 'w \<Rightarrow> bool \<times> 'w"
  io_strftime :: "nat \<Rightarrow> string \<Rightarrow> int \<Rightarrow> string option"

text \<open>\<open>StdoutLogAppender\<close> and \<open>FileLogAppender\<close> with its path; \<open>fs_open\<close> and \<open>fs_good\<close> are the state of \<open>m_filestream\<close>.\<close>

datatype sink = Stdout | Logfile string

record appender =
  ap_sink :: sink
  ap_level :: level
  ap_hasFormatter :: bool
  ap_formatter :: "log_formatter option"
  fs_open :: bool
  fs_good :: bool
  ap_lastTime :: int

record logger =
  lg_name :: string
  lg_level :: level
  lg_appenders :: "nat list"
  lg_formatter :: "log_formatter option"
  lg_root :: "nat option"

record 'w log_sys =
  logger_heap :: "logger list"
  appender_heap :: "appender list"
  m_loggers :: "(string \<times> nat) list"
  m_rootLogger :: nat
  log_world :: 'w

definition logger_at :: "nat \<Rightarrow> 'w log_sys \<Rightarrow> logger result" where
  "logger_at p s = (if p < length (logger_heap s) then Inr (logger_heap s ! p) else Inl Null_deref)"

definition appender_at :: "nat \<Rightarrow> 'w log_sys \<Rightarrow> appender result" where
  "appender_at i s = (if i < length (appender_heap s) then Inr (appender_heap s ! i) else Inl Null_deref)"

definition upd_logger :: "nat \<Rightarrow> logger \<Rightarrow> 'w log_sys \<Rightarrow> 'w log_sys" where
  "upd_logger p lg s = s\<lparr>logger_heap := (logger_heap s)[p := lg]\<rparr>"

definition upd_appender :: "nat \<Rightarrow> appender \<Rightarrow> 'w log_sys \<Rightarrow> 'w log_sys" where
  "upd_appender i a s = s\<lparr>appender_heap := (appender_heap s)[i := a]\<rparr>"

definition new_Logger :: "string \<Rightarrow> logger" where
  "new_Logger name =
     \<lparr> lg_name = name, lg_level = DEBUG, lg_appenders = [],
       lg_formatter = Some (new_LogFormatter default_pattern), lg_root = None \<rparr>"

subsection \<open>Appenders\<close>

definition new_appender :: "sink \<Rightarrow> appender" where
  "new_appender k =
     \<lparr> ap_sink = k, ap_level = DEBUG, ap_hasFormatter = False, ap_formatter = None,
       fs_open = False, fs_good = True, ap_lastTime = 0 \<rparr>"

definition ap_setFormatter :: "log_formatter option \<Rightarrow> appender \<Rightarrow> appender" where
  "ap_setFormatter val a = (let a = a\<lparr>ap_formatter := val\<rparr> in
     if ap_formatter a \<noteq> None then a\<lparr>ap_hasFormatter := True\<rparr> else a\<lparr>ap_hasFormatter := False\<rparr>)"

definition ap_setLevel :: "level \<Rightarrow> appender \<Rightarrow> appender" where
  "ap_setLevel val a = a\<lparr>ap_level := val\<rparr>"

text \<open>
  \<open>FileLogAppender::reopen\<close>. A stream in a failed state is not closed, and opening a stream that is
  still open fails; a successful open clears the state.
\<close>

definition reopen :: "'w log_io \<Rightarrow> string \<Rightarrow> appender \<Rightarrow> 'w \<Rightarrow> bool \<times> appender \<times> 'w" where
  "reopen io path a w =
     (let a = (if fs_good a then a\<lparr>fs_open := False\<rparr> else a) in
      if fs_open a then (False, a\<lparr>fs_good := False\<rparr>, w)
      else let (ok, w) = io_open io path w in (ok, a\<lparr>fs_open := ok, fs_good := ok\<rparr>, w))"

definition new_FileLogAppender :: "'w log_io \<Rightarrow> string \<Rightarrow> 'w \<Rightarrow> appender \<times> 'w" where
  "new_FileLogAppender io path w = snd (reopen io path (new_appender (Logfile path)) w)"

definition new_StdoutLogAppender :: appender where
  "new_StdoutLogAppender = new_appender Stdout"

definition env_of :: "'w log_io \<Rightarrow> 'w log_sys \<Rightarrow> nat log_env" where
  "env_of io s =
     \<lparr> logger_name = (\<lambda>p. if p < length (logger_heap s) then lg_name (logger_heap s ! p) else []),
       strftime_local = io_strftime io \<rparr>"

definition formatted :: "'w log_io \<Rightarrow> level \<Rightarrow> nat log_event \<Rightarrow> log_formatter option \<Rightarrow> 'w log_sys \<Rightarrow> string result" where
  "formatted io lvl ev fm s =
     (case fm of None \<Rightarrow> Inl Null_deref | Some f \<Rightarrow> formatter_format (env_of io s) f lvl ev)"

text \<open>\<open>StdoutLogAppender::log\<close> and \<open>FileLogAppender::log\<close>.\<close>

definition appender_write :: "'w log_io \<Rightarrow> level \<Rightarrow> nat log_event \<Rightarrow> nat \<Rightarrow> appender \<Rightarrow> 'w log_sys \<Rightarrow> 'w log_sys result" where
  "appender_write io lvl ev i a s =
     (case ap_sink a of
        Stdout \<Rightarrow> rbind (formatted io lvl ev (ap_formatter a) s) (\<lambda>out.
          Inr (s\<lparr>log_world := io_stdout io out (log_world s)\<rparr>))
      | Logfile path \<Rightarrow>
          (let (now, w) = io_time io (log_world s);
               (a, w) = (if now \<noteq> ap_lastTime a
                         then let (_, a, w) = reopen io path a w in (a\<lparr>ap_lastTime := now\<rparr>, w) else (a, w))
           in rbind (formatted io lvl ev (ap_formatter a) s) (\<lambda>out.
                let (ok, w) = (if fs_good a \<and> fs_open a then io_file io path out w else (False, w));
                    w = (if ok then w else io_stdout io (''error'' @ [CHR 0x0A]) w)
                in Inr ((upd_appender i (a\<lparr>fs_good := ok\<rparr>) s)\<lparr>log_world := w\<rparr>))))"

definition appender_log :: "'w log_io \<Rightarrow> level \<Rightarrow> nat log_event \<Rightarrow> nat \<Rightarrow> 'w log_sys \<Rightarrow> 'w log_sys result" where
  "appender_log io lvl ev i s =
     rbind (appender_at i s) (\<lambda>a. if ap_level a \<le> lvl then appender_write io lvl ev i a s else Inr s)"

fun appenders_log :: "'w log_io \<Rightarrow> level \<Rightarrow> nat log_event \<Rightarrow> nat list \<Rightarrow> 'w log_sys \<Rightarrow> 'w log_sys result" where
  "appenders_log io lvl ev [] s = Inr s"
| "appenders_log io lvl ev (i # is) s = rbind (appender_log io lvl ev i s) (appenders_log io lvl ev is)"

subsection \<open>Loggers\<close>

text \<open>\<open>Logger::log\<close>; \<open>None\<close> when the chain of root loggers does not end.\<close>

partial_function (option) logger_log ::
  "'w log_io \<Rightarrow> nat \<Rightarrow> level \<Rightarrow> nat log_event \<Rightarrow> 'w log_sys \<Rightarrow> 'w log_sys result option" where
  "logger_log io p lvl ev s =
     (case logger_at p s of
        Inl e \<Rightarrow> Some (Inl e)
      | Inr lg \<Rightarrow>
          if lg_level lg \<le> lvl then
            if lg_appenders lg \<noteq> [] then Some (appenders_log io lvl ev (lg_appenders lg) s)
            else (case lg_root lg of None \<Rightarrow> Some (Inr s) | Some r \<Rightarrow> logger_log io r lvl ev s)
          else Some (Inr s))"

text \<open>\<open>FISHJOY_LOG_LEVEL\<close>: the event is logged when its wrapper is destroyed, by \<open>~LogEventWrap\<close>.\<close>

definition log_macro :: "'w log_io \<Rightarrow> nat \<Rightarrow> level \<Rightarrow> nat log_event \<Rightarrow> 'w log_sys \<Rightarrow> 'w log_sys result option" where
  "log_macro io p lvl ev s =
     (case logger_at p s of
        Inl e \<Rightarrow> Some (Inl e)
      | Inr lg \<Rightarrow> if lg_level lg \<le> lvl then logger_log io (le_logger ev) (le_level ev) ev s else Some (Inr s))"

definition setLevel :: "nat \<Rightarrow> level \<Rightarrow> 'w log_sys \<Rightarrow> 'w log_sys result" where
  "setLevel p val s = rbind (logger_at p s) (\<lambda>lg. Inr (upd_logger p (lg\<lparr>lg_level := val\<rparr>) s))"

fun share_formatter :: "log_formatter option \<Rightarrow> nat list \<Rightarrow> 'w log_sys \<Rightarrow> 'w log_sys result" where
  "share_formatter val [] s = Inr s"
| "share_formatter val (i # is) s =
     rbind (appender_at i s) (\<lambda>a.
       share_formatter val is (if \<not> ap_hasFormatter a then upd_appender i (a\<lparr>ap_formatter := val\<rparr>) s else s))"

definition setFormatter :: "nat \<Rightarrow> log_formatter option \<Rightarrow> 'w log_sys \<Rightarrow> 'w log_sys result" where
  "setFormatter p val s =
     rbind (logger_at p s) (\<lambda>lg. share_formatter val (lg_appenders lg) (upd_logger p (lg\<lparr>lg_formatter := val\<rparr>) s))"

definition setFormatter_text :: "'w log_io \<Rightarrow> nat \<Rightarrow> string \<Rightarrow> 'w log_sys \<Rightarrow> 'w log_sys result" where
  "setFormatter_text io p val s =
     rbind (logger_at p s) (\<lambda>lg.
       let new_val = new_LogFormatter val in
       if f_error new_val
       then Inr (s\<lparr>log_world := io_stdout io (''Logger setFormatter name='' @ lg_name lg @ '' value='' @ val
              @ '' invalid formatter'' @ [CHR 0x0A]) (log_world s)\<rparr>)
       else setFormatter p (Some new_val) s)"

definition addAppender :: "nat \<Rightarrow> nat \<Rightarrow> 'w log_sys \<Rightarrow> 'w log_sys result" where
  "addAppender p i s =
     rbind (logger_at p s) (\<lambda>lg. rbind (appender_at i s) (\<lambda>a.
       let s = (if ap_formatter a = None then upd_appender i (a\<lparr>ap_formatter := lg_formatter lg\<rparr>) s else s)
       in Inr (upd_logger p (lg\<lparr>lg_appenders := lg_appenders lg @ [i]\<rparr>) s)))"

definition delAppender :: "nat \<Rightarrow> nat \<Rightarrow> 'w log_sys \<Rightarrow> 'w log_sys result" where
  "delAppender p i s =
     rbind (logger_at p s) (\<lambda>lg. Inr (upd_logger p (lg\<lparr>lg_appenders := remove1 i (lg_appenders lg)\<rparr>) s))"

definition clearAppenders :: "nat \<Rightarrow> 'w log_sys \<Rightarrow> 'w log_sys result" where
  "clearAppenders p s = rbind (logger_at p s) (\<lambda>lg. Inr (upd_logger p (lg\<lparr>lg_appenders := []\<rparr>) s))"

subsection \<open>The manager\<close>

definition alloc_appender :: "appender \<Rightarrow> 'w log_sys \<Rightarrow> nat \<times> 'w log_sys" where
  "alloc_appender a s = (length (appender_heap s), s\<lparr>appender_heap := appender_heap s @ [a]\<rparr>)"

definition new_LoggerManager :: "'w \<Rightarrow> 'w log_sys result" where
  "new_LoggerManager w =
     rbind (addAppender 0 0 \<lparr> logger_heap = [new_Logger ''root''], appender_heap = [new_StdoutLogAppender], m_loggers = [],
         m_rootLogger = 0, log_world = w \<rparr>) (\<lambda>s.
       Inr (s\<lparr>m_loggers := map_assign string_less (lg_name (logger_heap s ! 0)) 0 (m_loggers s)\<rparr>))"

definition getLogger :: "string \<Rightarrow> 'w log_sys \<Rightarrow> nat \<times> 'w log_sys" where
  "getLogger name s =
     (case map_find string_less name (m_loggers s) of
        Some p \<Rightarrow> (p, s)
      | None \<Rightarrow>
          (let p = length (logger_heap s); lg = (new_Logger name)\<lparr>lg_root := Some (m_rootLogger s)\<rparr> in
           (p, s\<lparr>logger_heap := logger_heap s @ [lg], m_loggers := map_assign string_less name p (m_loggers s)\<rparr>)))"

subsection \<open>Configuration\<close>

record appender_define =
  ad_type :: int
  ad_level :: level
  ad_formatter :: string
  ad_file :: string

record log_define =
  ld_name :: string
  ld_level :: level
  ld_formatter :: string
  ld_appenders :: "appender_define list"

text \<open>\<open>operator==\<close>, as written: the vector of appenders is compared with itself.\<close>

definition define_eq :: "log_define \<Rightarrow> log_define \<Rightarrow> bool" where
  "define_eq d oth \<longleftrightarrow> ld_name d = ld_name oth \<and> ld_level d = ld_level oth \<and> ld_formatter d = ld_formatter oth
     \<and> ld_appenders d = ld_appenders d"

definition define_less :: "log_define \<Rightarrow> log_define \<Rightarrow> bool" where
  "define_less d oth = string_less (ld_name d) (ld_name oth)"

text \<open>One appender of the listener: an unknown type leaves the pointer null.\<close>

definition make_appender :: "'w log_io \<Rightarrow> string \<Rightarrow> appender_define \<Rightarrow> 'w log_sys \<Rightarrow> (nat \<times> 'w log_sys) result" where
  "make_appender io name ad s =
     rbind (if ad_type ad = 1
            then let (a, w) = new_FileLogAppender io (ad_file ad) (log_world s) in Inr (a, s\<lparr>log_world := w\<rparr>)
            else if ad_type ad = 2 then Inr (new_StdoutLogAppender, s) else Inl Null_deref) (\<lambda>(ap, s).
       let ap = ap_setLevel (ad_level ad) ap in
       if ad_formatter ad = [] then Inr (alloc_appender ap s)
       else
         let fmt = new_LogFormatter (ad_formatter ad) in
         if \<not> f_error fmt then Inr (alloc_appender (ap_setFormatter (Some fmt) ap) s)
         else Inr (alloc_appender ap (s\<lparr>log_world := io_stdout io (''log.name='' @ name @ '' appender type='' @ dec_int (ad_type ad)
             @ '' formatter='' @ ad_formatter ad @ '' is invalid'' @ [CHR 0x0A]) (log_world s)\<rparr>)))"

fun make_appenders :: "'w log_io \<Rightarrow> string \<Rightarrow> nat \<Rightarrow> appender_define list \<Rightarrow> 'w log_sys \<Rightarrow> 'w log_sys result" where
  "make_appenders io name p [] s = Inr s"
| "make_appenders io name p (ad # ads) s =
     rbind (make_appender io name ad s) (\<lambda>(i, s). rbind (addAppender p i s) (make_appenders io name p ads))"

text \<open>
  The listener of the \<open>logs\<close> variable. In its first loop \<open>logger\<close> stays null when the entry is in both
  sets and equal; in the second, loggers without a new entry are silenced.
\<close>

definition pick_logger :: "log_define list \<Rightarrow> log_define \<Rightarrow> 'w log_sys \<Rightarrow> (nat \<times> 'w log_sys) result" where
  "pick_logger old d s =
     (case set_find define_less d old of
        None \<Rightarrow> Inr (getLogger (ld_name d) s)
      | Some d' \<Rightarrow> if \<not> define_eq d d' then Inr (getLogger (ld_name d) s) else Inl Null_deref)"

definition apply_define :: "'w log_io \<Rightarrow> log_define list \<Rightarrow> log_define \<Rightarrow> 'w log_sys \<Rightarrow> 'w log_sys result" where
  "apply_define io old d s =
     rbind (pick_logger old d s) (\<lambda>(p, s).
     rbind (setLevel p (ld_level d) s) (\<lambda>s.
     rbind (if ld_formatter d \<noteq> [] then setFormatter_text io p (ld_formatter d) s else Inr s) (\<lambda>s.
     rbind (clearAppenders p s) (\<lambda>s.
       make_appenders io (ld_name d) p (ld_appenders d) s))))"

fun apply_defines :: "'w log_io \<Rightarrow> log_define list \<Rightarrow> log_define list \<Rightarrow> 'w log_sys \<Rightarrow> 'w log_sys result" where
  "apply_defines io old [] s = Inr s"
| "apply_defines io old (d # ds) s = rbind (apply_define io old d s) (apply_defines io old ds)"

definition silence :: "log_define list \<Rightarrow> log_define \<Rightarrow> 'w log_sys \<Rightarrow> 'w log_sys result" where
  "silence new d s =
     (if set_find define_less d new = None
      then (let (p, s) = getLogger (ld_name d) s in rbind (setLevel p UNKNOWN s) (clearAppenders p))
      else Inr s)"

fun silence_all :: "log_define list \<Rightarrow> log_define list \<Rightarrow> 'w log_sys \<Rightarrow> 'w log_sys result" where
  "silence_all new [] s = Inr s"
| "silence_all new (d # ds) s = rbind (silence new d s) (silence_all new ds)"

definition on_logger_conf_changed :: "'w log_io \<Rightarrow> log_define list \<Rightarrow> log_define list \<Rightarrow> 'w log_sys \<Rightarrow> 'w log_sys result" where
  "on_logger_conf_changed io old_value new_value s =
     rbind (apply_defines io old_value new_value s) (silence_all new_value old_value)"

subsection \<open>What logging leaves alone\<close>

definition same_appender :: "appender \<Rightarrow> appender \<Rightarrow> bool" where
  "same_appender a b \<longleftrightarrow> ap_sink b = ap_sink a \<and> ap_level b = ap_level a \<and> ap_hasFormatter b = ap_hasFormatter a
     \<and> ap_formatter b = ap_formatter a"

lemma same_appender_refl [simp]: "same_appender a a"
  by (simp add: same_appender_def)

definition same_setup :: "'w log_sys \<Rightarrow> 'w log_sys \<Rightarrow> bool" where
  "same_setup s s' \<longleftrightarrow> logger_heap s' = logger_heap s \<and> m_loggers s' = m_loggers s \<and> m_rootLogger s' = m_rootLogger s
     \<and> length (appender_heap s') = length (appender_heap s)
     \<and> (\<forall>j < length (appender_heap s). same_appender (appender_heap s ! j) (appender_heap s' ! j))"

lemma same_setup_refl [simp]: "same_setup s s"
  by (simp add: same_setup_def)

lemma same_setup_trans: "same_setup s s' \<Longrightarrow> same_setup s' s'' \<Longrightarrow> same_setup s s''"
  by (auto simp: same_setup_def same_appender_def)

lemma same_setup_env: "same_setup s s' \<Longrightarrow> env_of io s' = env_of io s"
  by (auto simp: same_setup_def env_of_def)

lemma reopen_setup:
  "reopen io path a w = (r, a', w') \<Longrightarrow>
     ap_sink a' = ap_sink a \<and> ap_level a' = ap_level a \<and> ap_hasFormatter a' = ap_hasFormatter a \<and> ap_formatter a' = ap_formatter a"
  by (auto simp: reopen_def Let_def split: if_splits prod.splits)

lemma same_setup_upd: "same_appender (appender_heap s ! i) a \<Longrightarrow> same_setup s ((upd_appender i a s)\<lparr>log_world := w\<rparr>)"
proof -
  assume "same_appender (appender_heap s ! i) a"
  then have "same_appender (appender_heap s ! j) ((appender_heap s)[i := a] ! j)" if "j < length (appender_heap s)" for j
    using that by (cases "i = j") auto
  then show ?thesis by (simp add: same_setup_def upd_appender_def)
qed

text \<open>The stream a file appender writes to, after it has been reopened when the second changed.\<close>

definition fresh_stream :: "'w log_io \<Rightarrow> string \<Rightarrow> appender \<Rightarrow> 'w \<Rightarrow> appender \<times> 'w" where
  "fresh_stream io path a w =
     (let (now, w) = io_time io w in
      if now \<noteq> ap_lastTime a then let (_, a, w) = reopen io path a w in (a\<lparr>ap_lastTime := now\<rparr>, w) else (a, w))"

lemma fresh_stream_same: "fresh_stream io path a w = (a', w') \<Longrightarrow> same_appender a a'"
  by (auto simp: fresh_stream_def same_appender_def split: prod.splits if_splits dest!: reopen_setup)

lemma appender_write_stdout:
  "ap_sink a = Stdout \<Longrightarrow> appender_write io lvl ev i a s =
     rbind (formatted io lvl ev (ap_formatter a) s) (\<lambda>out. Inr (s\<lparr>log_world := io_stdout io out (log_world s)\<rparr>))"
  by (simp add: appender_write_def)

lemma appender_write_file:
  assumes "ap_sink a = Logfile path" "fresh_stream io path a (log_world s) = (a1, w1)"
  shows "appender_write io lvl ev i a s =
     rbind (formatted io lvl ev (ap_formatter a) s) (\<lambda>out.
       let (ok, w) = (if fs_good a1 \<and> fs_open a1 then io_file io path out w1 else (False, w1));
           w = (if ok then w else io_stdout io (''error'' @ [CHR 0x0A]) w)
       in Inr ((upd_appender i (a1\<lparr>fs_good := ok\<rparr>) s)\<lparr>log_world := w\<rparr>))"
  using assms fresh_stream_same [OF assms(2)]
  by (auto simp: appender_write_def fresh_stream_def Let_def same_appender_def split: prod.splits if_splits)

lemma appender_write_setup:
  assumes "appender_write io lvl ev i (appender_heap s ! i) s = Inr s'"
  shows "same_setup s s'"
proof (cases "ap_sink (appender_heap s ! i)")
  case Stdout
  then show ?thesis using assms by (auto simp: appender_write_stdout rbind_eq_Inr_iff same_setup_def)
next
  case (Logfile path)
  obtain a1 w1 where f: "fresh_stream io path (appender_heap s ! i) (log_world s) = (a1, w1)" by fastforce
  then have same: "same_appender (appender_heap s ! i) (a1\<lparr>fs_good := ok\<rparr>)" for ok
    using fresh_stream_same [OF f] by (simp add: same_appender_def)
  moreover obtain out where out: "formatted io lvl ev (ap_formatter (appender_heap s ! i)) s = Inr out"
    using assms by (auto simp: appender_write_file [OF Logfile f] rbind_eq_Inr_iff)
  moreover obtain ok w where "(if fs_good a1 \<and> fs_open a1 then io_file io path out w1 else (False, w1)) = (ok, w)"
    by fastforce
  ultimately have "s' = (upd_appender i (a1\<lparr>fs_good := ok\<rparr>) s)
      \<lparr>log_world := if ok then w else io_stdout io (''error'' @ [CHR 0x0A]) w\<rparr>"
    using assms by (simp add: appender_write_file [OF Logfile f] Let_def)
  then show ?thesis by (simp only:) (rule same_setup_upd [OF same])
qed

lemma appender_log_setup: "appender_log io lvl ev i s = Inr s' \<Longrightarrow> same_setup s s'"
  using appender_write_setup [of io lvl ev i s s']
  by (auto simp: appender_log_def appender_at_def split: if_splits)

lemma appenders_log_setup: "appenders_log io lvl ev is s = Inr s' \<Longrightarrow> same_setup s s'"
proof (induction "is" arbitrary: s)
  case (Cons i "is")
  then obtain s1 where "appender_log io lvl ev i s = Inr s1" "appenders_log io lvl ev is s1 = Inr s'"
    by (auto simp: rbind_eq_Inr_iff)
  then show ?case using Cons.IH appender_log_setup same_setup_trans by blast
qed simp

subsection \<open>The invariant\<close>

text \<open>
  Every attached appender exists and has a formatter, so does every logger; a root pointer is the
  manager's root, which has none; the map gives loggers of the names it is asked for.
\<close>

definition logger_ok :: "'w log_sys \<Rightarrow> logger \<Rightarrow> bool" where
  "logger_ok s lg \<longleftrightarrow> lg_formatter lg \<noteq> None
     \<and> (\<forall>i \<in> set (lg_appenders lg). i < length (appender_heap s) \<and> ap_formatter (appender_heap s ! i) \<noteq> None)
     \<and> (lg_root lg = None \<or> lg_root lg = Some (m_rootLogger s))"

definition log_inv :: "'w log_sys \<Rightarrow> bool" where
  "log_inv s \<longleftrightarrow> (\<forall>lg \<in> set (logger_heap s). logger_ok s lg)
     \<and> m_rootLogger s < length (logger_heap s) \<and> lg_root (logger_heap s ! m_rootLogger s) = None
     \<and> (\<forall>(name, p) \<in> set (m_loggers s). p < length (logger_heap s) \<and> lg_name (logger_heap s ! p) = name)
     \<and> sorted_wrt string_less (map fst (m_loggers s))"

lemma same_setup_inv: "same_setup s s' \<Longrightarrow> log_inv s \<Longrightarrow> log_inv s'"
  by (auto simp: same_setup_def log_inv_def logger_ok_def same_appender_def)

lemma log_inv_logger: "log_inv s \<Longrightarrow> p < length (logger_heap s) \<Longrightarrow> logger_ok s (logger_heap s ! p)"
  by (simp add: log_inv_def)

text \<open>\<open>keeps s r\<close>: the operation returns, keeps the invariant and the objects there are.\<close>

definition keeps :: "'w log_sys \<Rightarrow> 'w log_sys result \<Rightarrow> bool" where
  "keeps s r = (case r of Inl _ \<Rightarrow> False | Inr s' \<Rightarrow> log_inv s' \<and> length (logger_heap s) \<le> length (logger_heap s')
     \<and> length (appender_heap s) \<le> length (appender_heap s'))"

lemma keepsI: "r = Inr s' \<Longrightarrow> log_inv s' \<Longrightarrow> length (logger_heap s) \<le> length (logger_heap s') \<Longrightarrow>
    length (appender_heap s) \<le> length (appender_heap s') \<Longrightarrow> keeps s r"
  by (simp add: keeps_def)

lemma keeps_bind: "keeps s r \<Longrightarrow> (\<And>s'. log_inv s' \<Longrightarrow> length (logger_heap s) \<le> length (logger_heap s') \<Longrightarrow>
    length (appender_heap s) \<le> length (appender_heap s') \<Longrightarrow> keeps s' (f s')) \<Longrightarrow> keeps s (rbind r f)"
proof (cases r)
  case (Inr s')
  moreover assume "keeps s r" and step: "\<And>s'. log_inv s' \<Longrightarrow> length (logger_heap s) \<le> length (logger_heap s') \<Longrightarrow>
    length (appender_heap s) \<le> length (appender_heap s') \<Longrightarrow> keeps s' (f s')"
  ultimately have "log_inv s'" "length (logger_heap s) \<le> length (logger_heap s')"
    "length (appender_heap s) \<le> length (appender_heap s')" by (auto simp: keeps_def)
  with step [of s'] Inr show ?thesis by (auto simp: keeps_def split: sum.splits)
qed (simp add: keeps_def)

lemma upd_logger_inv:
  assumes "log_inv s" "p < length (logger_heap s)" "logger_ok s lg"
    "lg_name lg = lg_name (logger_heap s ! p)" "lg_root lg = lg_root (logger_heap s ! p)"
  shows "log_inv (upd_logger p lg s)"
proof -
  have "logger_ok (upd_logger p lg s) l \<longleftrightarrow> logger_ok s l" for l by (simp add: logger_ok_def upd_logger_def)
  then show ?thesis
    using assms set_update_subset_insert [of "logger_heap s" p lg]
    by (auto simp: log_inv_def upd_logger_def nth_list_update)
qed

lemma upd_appender_inv:
  assumes "log_inv s" "ap_formatter a \<noteq> None \<or> i \<ge> length (appender_heap s)
     \<or> ap_formatter a = ap_formatter (appender_heap s ! i)"
  shows "log_inv (upd_appender i a s)"
proof -
  have "ap_formatter (appender_heap (upd_appender i a s) ! j) \<noteq> None"
    if "j < length (appender_heap s)" "ap_formatter (appender_heap s ! j) \<noteq> None" for j
    using that assms(2) by (cases "i = j") (auto simp: upd_appender_def)
  then have "logger_ok s lg \<Longrightarrow> logger_ok (upd_appender i a s) lg" for lg
    by (auto simp: logger_ok_def) (auto simp: upd_appender_def)
  then show ?thesis using assms(1) by (auto simp: log_inv_def) (auto simp: upd_appender_def)
qed

lemma setLevel_keeps: "log_inv s \<Longrightarrow> p < length (logger_heap s) \<Longrightarrow> keeps s (setLevel p val s)"
  using log_inv_logger [of s p]
  by (auto simp: setLevel_def logger_at_def keeps_def logger_ok_def intro!: upd_logger_inv) (auto simp: upd_logger_def)

lemma share_formatter_keeps:
  "log_inv s \<Longrightarrow> \<forall>i \<in> set is. i < length (appender_heap s) \<Longrightarrow> keeps s (share_formatter (Some f) is s)"
proof (induction "is" arbitrary: s)
  case (Cons i "is")
  define s1 where "s1 = (if \<not> ap_hasFormatter (appender_heap s ! i)
    then upd_appender i ((appender_heap s ! i)\<lparr>ap_formatter := Some f\<rparr>) s else s)"
  have "log_inv s1" using Cons.prems upd_appender_inv [of s "(appender_heap s ! i)\<lparr>ap_formatter := Some f\<rparr>" i]
    by (simp add: s1_def)
  moreover have len: "length (appender_heap s1) = length (appender_heap s)" "logger_heap s1 = logger_heap s"
    by (auto simp: upd_appender_def s1_def)
  ultimately have "keeps s1 (share_formatter (Some f) is s1)" using Cons by auto
  moreover have "share_formatter (Some f) (i # is) s = share_formatter (Some f) is s1"
    using Cons.prems by (simp add: appender_at_def s1_def)
  ultimately show ?case using len by (simp add: keeps_def split: sum.splits)
qed (simp add: keeps_def)

lemma setFormatter_keeps:
  assumes "log_inv s" "p < length (logger_heap s)"
  shows "keeps s (setFormatter p (Some f) s)"
proof -
  let ?s = "upd_logger p ((logger_heap s ! p)\<lparr>lg_formatter := Some f\<rparr>) s"
  have ok: "logger_ok s (logger_heap s ! p)" using assms log_inv_logger by blast
  then have "log_inv ?s" by (intro upd_logger_inv assms) (auto simp: logger_ok_def)
  then have "keeps ?s (share_formatter (Some f) (lg_appenders (logger_heap s ! p)) ?s)"
    by (rule share_formatter_keeps) (use ok in \<open>auto simp: logger_ok_def upd_logger_def\<close>)
  then show ?thesis using assms by (auto simp: setFormatter_def logger_at_def keeps_def upd_logger_def split: sum.splits)
qed

lemma world_inv: "log_inv (s\<lparr>log_world := w\<rparr>) = log_inv s"
  by (simp add: log_inv_def logger_ok_def)

lemma setFormatter_text_keeps:
  "log_inv s \<Longrightarrow> p < length (logger_heap s) \<Longrightarrow> keeps s (setFormatter_text io p val s)"
  using setFormatter_keeps [of s p] by (simp add: setFormatter_text_def logger_at_def Let_def) (simp add: keeps_def world_inv)

lemma addAppender_keeps:
  assumes "log_inv s" "p < length (logger_heap s)" "i < length (appender_heap s)"
  shows "keeps s (addAppender p i s)"
proof -
  let ?lg = "logger_heap s ! p" and ?a = "appender_heap s ! i"
  let ?s = "if ap_formatter ?a = None then upd_appender i (?a\<lparr>ap_formatter := lg_formatter ?lg\<rparr>) s else s"
  have ok: "logger_ok s ?lg" using assms log_inv_logger by blast
  then have "log_inv ?s" using assms upd_appender_inv [OF assms(1), of "?a\<lparr>ap_formatter := lg_formatter ?lg\<rparr>" i]
    by (simp add: logger_ok_def)
  moreover have "p < length (logger_heap ?s)" "logger_heap ?s ! p = ?lg" using assms by (auto simp: upd_appender_def)
  moreover from this have "logger_ok ?s ?lg" using log_inv_logger [of ?s p] \<open>log_inv ?s\<close> by simp
  moreover have "i < length (appender_heap ?s) \<and> ap_formatter (appender_heap ?s ! i) \<noteq> None"
    using assms ok by (auto simp: upd_appender_def logger_ok_def)
  ultimately have "log_inv (upd_logger p (?lg\<lparr>lg_appenders := lg_appenders ?lg @ [i]\<rparr>) ?s)"
    by (intro upd_logger_inv) (auto simp: logger_ok_def)
  then show ?thesis using assms
    by (intro keepsI) (auto simp: addAppender_def logger_at_def appender_at_def Let_def upd_logger_def upd_appender_def)
qed

lemma delAppender_keeps: "log_inv s \<Longrightarrow> p < length (logger_heap s) \<Longrightarrow> keeps s (delAppender p i s)"
  using log_inv_logger [of s p]
  by (auto simp: delAppender_def logger_at_def keeps_def logger_ok_def dest: notin_set_remove1 intro!: upd_logger_inv)
    (auto simp: upd_logger_def)

lemma clearAppenders_keeps: "log_inv s \<Longrightarrow> p < length (logger_heap s) \<Longrightarrow> keeps s (clearAppenders p s)"
  using log_inv_logger [of s p]
  by (auto simp: clearAppenders_def logger_at_def keeps_def logger_ok_def intro!: upd_logger_inv) (auto simp: upd_logger_def)

lemma map_find_in: "map_find lt k m = Some v \<Longrightarrow> \<exists>j. (j, v) \<in> set m \<and> same_key lt j k"
  by (induction lt k m rule: map_find.induct) (auto simp: same_key_def split: if_splits)

lemma map_assign_in: "(a, b) \<in> set (map_assign lt k v m) \<Longrightarrow> b = v \<and> (a = k \<or> same_key lt a k) \<or> (a, b) \<in> set m"
  by (induction lt k v m rule: map_assign.induct) (auto simp: same_key_def split: if_splits)

lemma find_logger:
  "log_inv s \<Longrightarrow> map_find string_less name (m_loggers s) = Some p \<Longrightarrow>
     p < length (logger_heap s) \<and> lg_name (logger_heap s ! p) = name"
  using map_find_in [of string_less name "m_loggers s" p] by (auto simp: log_inv_def string_less_same)

lemma getLogger_inv:
  assumes "log_inv s" "getLogger name s = (p, s')"
  shows "log_inv s'" "p < length (logger_heap s')" "lg_name (logger_heap s' ! p) = name"
    "map_find string_less name (m_loggers s') = Some p"
    "length (logger_heap s) \<le> length (logger_heap s')" "appender_heap s' = appender_heap s"
    "\<forall>q < length (logger_heap s). logger_heap s' ! q = logger_heap s ! q"
proof -
  show "appender_heap s' = appender_heap s" "length (logger_heap s) \<le> length (logger_heap s')"
    "\<forall>q < length (logger_heap s). logger_heap s' ! q = logger_heap s ! q"
    using assms(2) by (auto simp: getLogger_def Let_def nth_append split: option.splits)
  show "p < length (logger_heap s')" "lg_name (logger_heap s' ! p) = name"
    using assms find_logger [OF assms(1)] by (auto simp: getLogger_def Let_def nth_append new_Logger_def split: option.splits)
  show "map_find string_less name (m_loggers s') = Some p"
    using assms(2) by (auto simp: getLogger_def Let_def string_order.map_find_assign split: option.splits)
  show "log_inv s'"
  proof (cases "map_find string_less name (m_loggers s)")
    case Some
    then show ?thesis using assms by (simp add: getLogger_def)
  next
    case None
    then have "s' = s\<lparr>logger_heap := logger_heap s @ [(new_Logger name)\<lparr>lg_root := Some (m_rootLogger s)\<rparr>],
        m_loggers := map_assign string_less name (length (logger_heap s)) (m_loggers s)\<rparr>"
      using assms(2) by (auto simp: getLogger_def Let_def)
    then show ?thesis using assms(1)
      by (auto simp: log_inv_def logger_ok_def new_Logger_def nth_append string_less_same
        string_order.sorted_map_assign dest!: map_assign_in)
  qed
qed

lemma alloc_appender_inv:
  "log_inv s \<Longrightarrow> alloc_appender a s = (i, s') \<Longrightarrow>
     log_inv s' \<and> i < length (appender_heap s') \<and> logger_heap s' = logger_heap s
     \<and> length (appender_heap s') = Suc (length (appender_heap s))"
  by (auto simp: alloc_appender_def log_inv_def logger_ok_def nth_append less_Suc_eq)

subsection \<open>The listener\<close>

lemma make_appender_inv:
  assumes "log_inv s" "ad_type ad = 1 \<or> ad_type ad = 2"
  shows "\<exists>i s'. make_appender io name ad s = Inr (i, s') \<and> log_inv s' \<and> i < length (appender_heap s')
    \<and> logger_heap s' = logger_heap s \<and> length (appender_heap s) \<le> length (appender_heap s')"
proof -
  obtain ap w where "(if ad_type ad = 1 then let (a, w) = new_FileLogAppender io (ad_file ad) (log_world s) in Inr (a, s\<lparr>log_world := w\<rparr>)
      else if ad_type ad = 2 then Inr (new_StdoutLogAppender, s) else Inl Null_deref) = Inr (ap, s\<lparr>log_world := w\<rparr>)"
  proof (cases "ad_type ad = 1")
    case True
    obtain a w where "new_FileLogAppender io (ad_file ad) (log_world s) = (a, w)" by fastforce
    then show ?thesis using that [of a w] True by simp
  next
    case False
    then show ?thesis using that [of new_StdoutLogAppender "log_world s"] assms(2) by simp
  qed
  moreover have "\<exists>i s'. alloc_appender a (s\<lparr>log_world := w'\<rparr>) = (i, s') \<and> log_inv s' \<and> i < length (appender_heap s')
    \<and> logger_heap s' = logger_heap s \<and> length (appender_heap s) \<le> length (appender_heap s')" for a w'
    using alloc_appender_inv [of "s\<lparr>log_world := w'\<rparr>" a] assms(1) world_inv [where s = s and w = w']
    by (cases "alloc_appender a (s\<lparr>log_world := w'\<rparr>)") auto
  ultimately show ?thesis
    by (simp add: make_appender_def Let_def)
qed

lemma make_appenders_keeps:
  "log_inv s \<Longrightarrow> p < length (logger_heap s) \<Longrightarrow> \<forall>ad \<in> set ads. ad_type ad = 1 \<or> ad_type ad = 2 \<Longrightarrow>
     keeps s (make_appenders io name p ads s)"
proof (induction ads arbitrary: s)
  case (Cons ad ads)
  then obtain i s1 where 1: "make_appender io name ad s = Inr (i, s1)" "log_inv s1" "i < length (appender_heap s1)"
    "logger_heap s1 = logger_heap s" "length (appender_heap s) \<le> length (appender_heap s1)"
    using make_appender_inv [of s ad io name] by auto
  have "keeps s1 (rbind (addAppender p i s1) (make_appenders io name p ads))"
    by (rule keeps_bind [OF addAppender_keeps]) (use 1 Cons in auto)
  then show ?case using 1 by (auto simp: keeps_def split: sum.splits)
qed (simp add: keeps_def)

text \<open>What the listener can apply: known types, and no entry that it takes for unchanged.\<close>

definition define_ok :: "log_define list \<Rightarrow> log_define \<Rightarrow> bool" where
  "define_ok old d \<longleftrightarrow> (\<forall>ad \<in> set (ld_appenders d). ad_type ad = 1 \<or> ad_type ad = 2)
     \<and> (case set_find define_less d old of None \<Rightarrow> True | Some d' \<Rightarrow> \<not> define_eq d d')"

lemma apply_define_keeps:
  fixes s :: "'w log_sys"
  assumes "log_inv s" "define_ok old d"
  shows "keeps s (apply_define io old d s)"
proof -
  obtain p s1 where g: "getLogger (ld_name d) s = (p, s1)" by fastforce
  note G = getLogger_inv [OF assms(1) g]
  have pick: "pick_logger old d s = Inr (p, s1)"
    using assms(2) g by (auto simp: pick_logger_def define_ok_def split: option.splits)
  have "keeps s1 (rbind (setLevel p (ld_level d) s1) (\<lambda>s.
     rbind (if ld_formatter d \<noteq> [] then setFormatter_text io p (ld_formatter d) s else Inr s) (\<lambda>s.
     rbind (clearAppenders p s) (\<lambda>s. make_appenders io (ld_name d) p (ld_appenders d) s))))"
  proof (intro keeps_bind)
    show "keeps s1 (setLevel p (ld_level d) s1)" using G setLevel_keeps by blast
  next
    fix s2 :: "'w log_sys" assume 2: "log_inv s2" "length (logger_heap s1) \<le> length (logger_heap s2)"
    show "keeps s2 (if ld_formatter d \<noteq> [] then setFormatter_text io p (ld_formatter d) s2 else Inr s2)"
      using 2 G setFormatter_text_keeps [of s2 p io "ld_formatter d"] by (simp add: keeps_def)
    fix s3 :: "'w log_sys" assume 3: "log_inv s3" "length (logger_heap s2) \<le> length (logger_heap s3)"
    show "keeps s3 (clearAppenders p s3)" using 2 3 G clearAppenders_keeps [of s3 p] by simp
    fix s4 :: "'w log_sys" assume 4: "log_inv s4" "length (logger_heap s3) \<le> length (logger_heap s4)"
    show "keeps s4 (make_appenders io (ld_name d) p (ld_appenders d) s4)"
      by (rule make_appenders_keeps) (use 2 3 4 G assms(2) in \<open>auto simp: define_ok_def\<close>)
  qed
  then show ?thesis using pick G by (auto simp: apply_define_def keeps_def split: sum.splits)
qed

lemma apply_defines_keeps: "log_inv s \<Longrightarrow> \<forall>d \<in> set ds. define_ok old d \<Longrightarrow> keeps s (apply_defines io old ds s)"
proof (induction ds arbitrary: s)
  case (Cons d ds)
  then show ?case by (simp add: keeps_bind apply_define_keeps)
qed (simp add: keeps_def)

lemma silence_keeps: "log_inv s \<Longrightarrow> keeps s (silence new d s)"
proof -
  assume inv: "log_inv s"
  obtain p s1 where g: "getLogger (ld_name d) s = (p, s1)" by fastforce
  note G = getLogger_inv [OF inv g]
  have "keeps s1 (rbind (setLevel p UNKNOWN s1) (clearAppenders p))"
    by (rule keeps_bind [OF setLevel_keeps]) (use G in \<open>auto intro!: clearAppenders_keeps\<close>)
  then show ?thesis using g G inv by (auto simp: silence_def keeps_def split: sum.splits)
qed

lemma silence_all_keeps: "log_inv s \<Longrightarrow> keeps s (silence_all new ds s)"
proof (induction ds arbitrary: s)
  case (Cons d ds)
  then show ?case by (simp add: keeps_bind silence_keeps)
qed (simp add: keeps_def)

text \<open>
  The entries on which the listener dereferences a null pointer: an appender of unknown type, or an old entry with the same name, level
  and formatter, whatever its appenders are.
\<close>

definition crashes :: "log_define list \<Rightarrow> log_define \<Rightarrow> bool" where
  "crashes old d \<longleftrightarrow> list_ex (\<lambda>ad. ad_type ad \<noteq> 1 \<and> ad_type ad \<noteq> 2) (ld_appenders d)
     \<or> list_ex (\<lambda>d'. ld_name d' = ld_name d \<and> ld_level d' = ld_level d \<and> ld_formatter d' = ld_formatter d) old"

lemma define_same: "same_key define_less d e \<longleftrightarrow> ld_name d = ld_name e"
  using string_less_same [of "ld_name d" "ld_name e"] by (simp add: same_key_def define_less_def)

interpretation define_order: strict_weak define_less
proof unfold_locales
  show "\<not> define_less a a" for a by (simp add: define_less_def string_order.irrefl)
  show "define_less a c" if "define_less a b" "define_less b c" for a b c
    using that string_order.trans unfolding define_less_def by blast
  show "same_key define_less a c" if "same_key define_less a b" "same_key define_less b c" for a b c
    using that by (simp add: define_same)
qed

lemma crashes_iff:
  assumes "sorted_wrt define_less old"
  shows "crashes old d \<longleftrightarrow> \<not> define_ok old d"
proof (cases "set_find define_less d old")
  case None
  then have "\<forall>d' \<in> set old. ld_name d' \<noteq> ld_name d"
    using define_order.set_find_None_iff [OF assms, of d] define_same by simp
  then show ?thesis using None by (auto simp: crashes_def define_ok_def list_ex_iff)
next
  case (Some e)
  have only: "d' = e" if "d' \<in> set old" "ld_name d' = ld_name d" for d'
    using define_order.set_find_Some_iff [OF assms, of d d'] define_same Some that by simp
  have e: "e \<in> set old" "ld_name e = ld_name d"
    using define_order.set_find_Some_iff [OF assms, of d e] define_same Some by auto
  let ?P = "\<lambda>d'. ld_name d' = ld_name d \<and> ld_level d' = ld_level d \<and> ld_formatter d' = ld_formatter d"
  have "list_ex ?P old \<longleftrightarrow> ?P e"
    unfolding list_ex_iff using only e(1) by metis
  also have "\<dots> \<longleftrightarrow> define_eq d e" using e(2) by (auto simp: define_eq_def)
  finally show ?thesis using Some by (simp add: crashes_def define_ok_def list_ex_iff)
qed

subsection \<open>Reachable states\<close>

text \<open>
  What a program does with the library. The one thing it must not do is to take the formatter of an
  appender or of a logger away (\<open>setFormatter(nullptr)\<close>).
\<close>

inductive log_reachable :: "'w log_io \<Rightarrow> 'w log_sys \<Rightarrow> bool" for io :: "'w log_io" where
  log_start: "new_LoggerManager w = Inr s \<Longrightarrow> log_reachable io s"
| log_getLogger: "log_reachable io s \<Longrightarrow> getLogger name s = (p, s') \<Longrightarrow> log_reachable io s'"
| log_new_stdout: "log_reachable io s \<Longrightarrow> alloc_appender new_StdoutLogAppender s = (i, s') \<Longrightarrow> log_reachable io s'"
| log_new_file: "log_reachable io s \<Longrightarrow> new_FileLogAppender io path (log_world s) = (a, w) \<Longrightarrow>
    alloc_appender a (s\<lparr>log_world := w\<rparr>) = (i, s') \<Longrightarrow> log_reachable io s'"
| log_ap_setFormatter: "log_reachable io s \<Longrightarrow> appender_at i s = Inr a \<Longrightarrow>
    log_reachable io (upd_appender i (ap_setFormatter (Some f) a) s)"
| log_ap_setLevel: "log_reachable io s \<Longrightarrow> appender_at i s = Inr a \<Longrightarrow> log_reachable io (upd_appender i (ap_setLevel val a) s)"
| log_setLevel: "log_reachable io s \<Longrightarrow> setLevel p val s = Inr s' \<Longrightarrow> log_reachable io s'"
| log_setFormatter: "log_reachable io s \<Longrightarrow> setFormatter p (Some f) s = Inr s' \<Longrightarrow> log_reachable io s'"
| log_setFormatter_text: "log_reachable io s \<Longrightarrow> setFormatter_text io p pat s = Inr s' \<Longrightarrow> log_reachable io s'"
| log_addAppender: "log_reachable io s \<Longrightarrow> addAppender p i s = Inr s' \<Longrightarrow> log_reachable io s'"
| log_delAppender: "log_reachable io s \<Longrightarrow> delAppender p i s = Inr s' \<Longrightarrow> log_reachable io s'"
| log_clearAppenders: "log_reachable io s \<Longrightarrow> clearAppenders p s = Inr s' \<Longrightarrow> log_reachable io s'"
| log_conf: "log_reachable io s \<Longrightarrow> on_logger_conf_changed io old new s = Inr s' \<Longrightarrow> log_reachable io s'"
| log_log: "log_reachable io s \<Longrightarrow> log_macro io p lvl ev s = Some (Inr s') \<Longrightarrow> log_reachable io s'"

lemma keeps_inv: "keeps s r \<Longrightarrow> r = Inr s' \<Longrightarrow> log_inv s'"
  by (simp add: keeps_def)

lemma logger_log_unfold:
  assumes "log_inv s" "p < length (logger_heap s)"
  shows "logger_log io p lvl ev s =
    (let lg = logger_heap s ! p; root = logger_heap s ! m_rootLogger s in
     if \<not> lg_level lg \<le> lvl then Some (Inr s)
     else if lg_appenders lg \<noteq> [] then Some (appenders_log io lvl ev (lg_appenders lg) s)
     else if lg_root lg = None \<or> \<not> lg_level root \<le> lvl then Some (Inr s)
     else Some (appenders_log io lvl ev (lg_appenders root) s))"
proof -
  have "lg_root (logger_heap s ! p) = None \<or> lg_root (logger_heap s ! p) = Some (m_rootLogger s)"
    using assms log_inv_logger unfolding logger_ok_def by blast
  moreover have "logger_log io (m_rootLogger s) lvl ev s =
      (if lg_level (logger_heap s ! m_rootLogger s) \<le> lvl
       then Some (appenders_log io lvl ev (lg_appenders (logger_heap s ! m_rootLogger s)) s) else Some (Inr s))"
    using assms by (subst logger_log.simps) (simp add: logger_at_def log_inv_def)
  ultimately show ?thesis
    using assms by (subst logger_log.simps) (auto simp: logger_at_def Let_def)
qed

lemma logger_log_setup:
  assumes "log_inv s" "logger_log io p lvl ev s = Some (Inr s')"
  shows "same_setup s s'"
proof (cases "p < length (logger_heap s)")
  case True
  then show ?thesis using assms(2) logger_log_unfold [OF assms(1) True, of io lvl ev]
    by (auto simp: Let_def split: if_splits dest: appenders_log_setup)
next
  case False
  then show ?thesis using assms(2) by (subst (asm) logger_log.simps) (simp add: logger_at_def)
qed

lemma at_valid [simp]: "logger_at p s = Inr lg \<longleftrightarrow> p < length (logger_heap s) \<and> lg = logger_heap s ! p"
  "appender_at i s = Inr a \<longleftrightarrow> i < length (appender_heap s) \<and> a = appender_heap s ! i"
  by (auto simp: logger_at_def appender_at_def)

text \<open>The listener returns exactly on what it can apply.\<close>

lemma make_appenders_fail:
  "log_inv s \<Longrightarrow> p < length (logger_heap s) \<Longrightarrow> \<exists>ad \<in> set ads. \<not> (ad_type ad = 1 \<or> ad_type ad = 2) \<Longrightarrow>
     make_appenders io name p ads s = Inl Null_deref"
proof (induction ads arbitrary: s)
  case (Cons ad ads)
  show ?case
  proof (cases "ad_type ad = 1 \<or> ad_type ad = 2")
    case True
    then obtain i s1 where 1: "make_appender io name ad s = Inr (i, s1)" "log_inv s1" "i < length (appender_heap s1)"
      "logger_heap s1 = logger_heap s"
      using make_appender_inv [OF Cons.prems(1) True, of io name] by auto
    then obtain s2 where "addAppender p i s1 = Inr s2" "log_inv s2" "length (logger_heap s1) \<le> length (logger_heap s2)"
      using addAppender_keeps [OF 1(2) _ 1(3), of p] Cons.prems(2) by (auto simp: keeps_def split: sum.splits)
    moreover have "\<exists>ad \<in> set ads. \<not> (ad_type ad = 1 \<or> ad_type ad = 2)" using Cons.prems(3) True by auto
    ultimately show ?thesis using 1 Cons.IH [of s2] Cons.prems(2) by simp
  next
    case False
    then show ?thesis by (simp add: make_appender_def)
  qed
qed simp

lemma apply_define_fail:
  fixes s :: "'w log_sys"
  assumes "log_inv s" "\<not> define_ok old d"
  shows "apply_define io old d s = Inl Null_deref"
proof (cases "pick_logger old d s")
  case (Inl e)
  then show ?thesis by (auto simp: apply_define_def pick_logger_def split: option.splits if_splits)
next
  case (Inr ps)
  then have g: "getLogger (ld_name d) s = ps" and bad: "\<exists>ad \<in> set (ld_appenders d). \<not> (ad_type ad = 1 \<or> ad_type ad = 2)"
    using assms(2) by (auto simp: define_ok_def pick_logger_def split: option.splits if_splits)
  obtain p s1 where ps: "ps = (p, s1)" by (rule prod.exhaust)
  note G = getLogger_inv [OF assms(1) g [unfolded ps]]
  obtain s2 where 2: "setLevel p (ld_level d) s1 = Inr s2" "log_inv s2" "p < length (logger_heap s2)"
    using setLevel_keeps [OF G(1,2), of "ld_level d"] G(2) by (auto simp: keeps_def split: sum.splits)
  have "keeps s2 (if ld_formatter d \<noteq> [] then setFormatter_text io p (ld_formatter d) s2 else Inr s2)"
    using 2 setFormatter_text_keeps [of s2 p io "ld_formatter d"] by (simp add: keeps_def)
  then obtain s3 where 3: "(if ld_formatter d \<noteq> [] then setFormatter_text io p (ld_formatter d) s2 else Inr s2) = Inr s3"
      "log_inv s3" "p < length (logger_heap s3)"
    using 2(3) by (auto simp: keeps_def split: sum.splits)
  obtain s4 where 4: "clearAppenders p s3 = Inr s4" "log_inv s4" "p < length (logger_heap s4)"
    using clearAppenders_keeps [OF 3(2,3)] 3(3) by (auto simp: keeps_def split: sum.splits)
  have "make_appenders io (ld_name d) p (ld_appenders d) s4 = Inl Null_deref" by (rule make_appenders_fail [OF 4(2,3) bad])
  then show ?thesis
    unfolding apply_define_def Inr ps by (simp only: rbind_simps prod.case 2(1) 3(1) 4(1))
qed

lemma apply_defines_fail:
  "log_inv s \<Longrightarrow> \<exists>d \<in> set ds. \<not> define_ok old d \<Longrightarrow> apply_defines io old ds s = Inl Null_deref"
proof (induction ds arbitrary: s)
  case (Cons d ds)
  show ?case
  proof (cases "define_ok old d")
    case True
    then obtain s1 where "apply_define io old d s = Inr s1" "log_inv s1"
      using apply_define_keeps [OF Cons.prems(1) True, of io] by (auto simp: keeps_def split: sum.splits)
    then show ?thesis using Cons True by auto
  next
    case False
    then show ?thesis using apply_define_fail [OF Cons.prems(1) False, of io] by simp
  qed
qed simp

lemma conf_ok:
  assumes "log_inv s"
  shows "\<forall>d \<in> set new. define_ok old d \<Longrightarrow> keeps s (on_logger_conf_changed io old new s)"
    and "\<not> (\<forall>d \<in> set new. define_ok old d) \<Longrightarrow> on_logger_conf_changed io old new s = Inl Null_deref"
    and "on_logger_conf_changed io old new s = Inr s' \<Longrightarrow> log_inv s'"
proof -
  show 1: "keeps s (on_logger_conf_changed io old new s)" if "\<forall>d \<in> set new. define_ok old d"
    unfolding on_logger_conf_changed_def
    by (rule keeps_bind [OF apply_defines_keeps [OF assms that]]) (rule silence_all_keeps)
  show 2: "on_logger_conf_changed io old new s = Inl Null_deref" if "\<not> (\<forall>d \<in> set new. define_ok old d)"
    using apply_defines_fail [OF assms, of new old io] that by (simp add: on_logger_conf_changed_def)
  show "on_logger_conf_changed io old new s = Inr s' \<Longrightarrow> log_inv s'"
    using 1 2 by (cases "\<forall>d \<in> set new. define_ok old d") (auto simp: keeps_def)
qed

lemma log_start_inv: "new_LoggerManager w = Inr s \<Longrightarrow> log_inv s"
  by (auto simp: new_LoggerManager_def addAppender_def rbind_eq_Inr_iff Let_def upd_appender_def upd_logger_def
      new_StdoutLogAppender_def new_appender_def new_Logger_def log_inv_def logger_ok_def)

lemma log_reachable_inv: "log_reachable io s \<Longrightarrow> log_inv s"
proof (induction rule: log_reachable.induct)
  case (log_start w s)
  then show ?case by (rule log_start_inv)
next
  case (log_getLogger s name p s')
  then show ?case using getLogger_inv by blast
next
  case (log_new_stdout s i s')
  then show ?case using alloc_appender_inv by blast
next
  case (log_new_file s path a w i s')
  then show ?case using alloc_appender_inv [of "s\<lparr>log_world := w\<rparr>"] world_inv [where s = s and w = w] by blast
next
  case (log_ap_setFormatter s i a f)
  then show ?case using upd_appender_inv [of s "ap_setFormatter (Some f) a" i] by (simp add: ap_setFormatter_def)
next
  case (log_ap_setLevel s i a val)
  then show ?case using upd_appender_inv [of s "ap_setLevel val a" i] by (simp add: ap_setLevel_def)
next
  case (log_setLevel s p val s')
  then have "p < length (logger_heap s)" by (auto simp: setLevel_def rbind_eq_Inr_iff)
  then show ?case using log_setLevel keeps_inv setLevel_keeps by blast
next
  case (log_setFormatter s p f s')
  then have "p < length (logger_heap s)" by (auto simp: setFormatter_def rbind_eq_Inr_iff)
  then show ?case using log_setFormatter keeps_inv setFormatter_keeps by blast
next
  case (log_setFormatter_text s p pat s')
  then have "p < length (logger_heap s)" by (auto simp: setFormatter_text_def rbind_eq_Inr_iff)
  then show ?case using log_setFormatter_text keeps_inv setFormatter_text_keeps by blast
next
  case (log_addAppender s p i s')
  then have "p < length (logger_heap s)" "i < length (appender_heap s)" by (auto simp: addAppender_def rbind_eq_Inr_iff)
  then show ?case using log_addAppender keeps_inv addAppender_keeps by blast
next
  case (log_delAppender s p i s')
  then have "p < length (logger_heap s)" by (auto simp: delAppender_def rbind_eq_Inr_iff)
  then show ?case using log_delAppender keeps_inv delAppender_keeps by blast
next
  case (log_clearAppenders s p s')
  then have "p < length (logger_heap s)" by (auto simp: clearAppenders_def rbind_eq_Inr_iff)
  then show ?case using log_clearAppenders keeps_inv clearAppenders_keeps by blast
next
  case (log_conf s old new s')
  then show ?case using conf_ok(3) by blast
next
  case (log_log s p lvl ev s')
  then show ?case
    using logger_log_setup [of s io "le_logger ev" "le_level ev" ev s'] same_setup_inv [of s s']
    by (auto simp: log_macro_def split: sum.splits if_splits)
qed

subsection \<open>Where a message goes\<close>

text \<open>
  \<open>shown w k\<close> is the text a sink has accepted. \<open>io_law\<close> is what the code relies on of the streams: reading
  the clock and opening a file for appending, whether it succeeds or not, write nothing; what is written is
  appended to its sink and to no other, and of a write to a file that fails at most the beginning is.
  \<open>writable\<close> are the files that can always be opened and written.
\<close>

definition io_law :: "'w log_io \<Rightarrow> ('w \<Rightarrow> sink \<Rightarrow> string) \<Rightarrow> bool" where
  "io_law io shown \<longleftrightarrow>
     (\<forall>w. shown (snd (io_time io w)) = shown w)
   \<and> (\<forall>path w. shown (snd (io_open io path w)) = shown w)
   \<and> (\<forall>out w. shown (io_stdout io out w) = (shown w)(Stdout := shown w Stdout @ out))
   \<and> (\<forall>path out w. \<exists>n. shown (snd (io_file io path out w))
        = (shown w)(Logfile path := shown w (Logfile path) @ (if fst (io_file io path out w) then out else take n out)))"

definition writable :: "'w log_io \<Rightarrow> string \<Rightarrow> bool" where
  "writable io path \<longleftrightarrow> (\<forall>w. fst (io_open io path w)) \<and> (\<forall>out w. fst (io_file io path out w))"

text \<open>The appenders that take a message of a level logged to a logger, in the order in which they get it.\<close>

definition targets :: "nat \<Rightarrow> level \<Rightarrow> 'w log_sys \<Rightarrow> nat list" where
  "targets p lvl s =
     (let lg = logger_heap s ! p; root = logger_heap s ! m_rootLogger s;
          own = (\<lambda>l. filter (\<lambda>i. ap_level (appender_heap s ! i) \<le> lvl) (lg_appenders l))
      in if \<not> lg_level lg \<le> lvl then []
         else if lg_appenders lg \<noteq> [] then own lg
         else if lg_root lg = None \<or> \<not> lg_level root \<le> lvl then [] else own root)"

definition text_of :: "'w log_io \<Rightarrow> level \<Rightarrow> nat log_event \<Rightarrow> appender \<Rightarrow> 'w log_sys \<Rightarrow> string" where
  "text_of io lvl ev a s = (case formatted io lvl ev (ap_formatter a) s of Inl _ \<Rightarrow> [] | Inr out \<Rightarrow> out)"

text \<open>
  What one appender does with a message: its sink accepts the whole text, or, when a file fails, at most a beginning \<open>part\<close> of it, and
  \<open>error\<close> is printed on standard output.
\<close>

definition deliver :: "'w log_io \<Rightarrow> level \<Rightarrow> nat log_event \<Rightarrow> 'w log_sys \<Rightarrow> nat \<times> string option \<Rightarrow> (sink \<Rightarrow> string) \<Rightarrow> sink \<Rightarrow> string" where
  "deliver io lvl ev s io_result sh =
     (let (i, lost) = io_result; a = appender_heap s ! i in
      case lost of
        None \<Rightarrow> sh(ap_sink a := sh (ap_sink a) @ text_of io lvl ev a s)
      | Some part \<Rightarrow> (let sh = sh(ap_sink a := sh (ap_sink a) @ part) in sh(Stdout := sh Stdout @ ''error'' @ [CHR 0x0A])))"

text \<open>The dates a formatter prints fit the buffer of 64 bytes; the stream of a file appender is usable.\<close>

definition dates_fit :: "'w log_io \<Rightarrow> nat log_event \<Rightarrow> log_formatter \<Rightarrow> bool" where
  "dates_fit io ev f = list_all (\<lambda>it. case it of DateTime_item fmt \<Rightarrow> io_strftime io 64 fmt (le_time ev) \<noteq> None | _ \<Rightarrow> True) (f_items f)"

text \<open>An appender loses a message only when it writes to a file that is not open in a good state or can fail.\<close>

definition stream_ok :: "appender \<Rightarrow> bool" where
  "stream_ok a = (case ap_sink a of Stdout \<Rightarrow> True | Logfile _ \<Rightarrow> fs_good a \<and> fs_open a)"

lemma dates_fit_ok: "dates_fit io ev f \<Longrightarrow> is_ok (formatted io lvl ev (Some f) s)"
proof -
  have "is_ok (items_format (env_of io s) lvl ev its)"
    if "list_all (\<lambda>it. case it of DateTime_item fmt \<Rightarrow> io_strftime io 64 fmt (le_time ev) \<noteq> None | _ \<Rightarrow> True) its" for its
    using that
  proof (induction its)
    case (Cons it its)
    have "is_ok (item_format (env_of io s) lvl ev it)"
      using Cons.prems by (cases it) (auto simp: env_of_def)
    then show ?case using Cons by (auto simp: is_ok_iff)
  qed simp
  then show "dates_fit io ev f \<Longrightarrow> ?thesis" by (simp add: dates_fit_def formatted_def formatter_format_def)
qed

definition may_lose :: "'w log_io \<Rightarrow> level \<Rightarrow> nat log_event \<Rightarrow> 'w log_sys \<Rightarrow> nat \<Rightarrow> string option \<Rightarrow> bool" where
  "may_lose io lvl ev s i lost =
     (case lost of None \<Rightarrow> True
      | Some part \<Rightarrow> (let a = appender_heap s ! i in
          part = take (length part) (text_of io lvl ev a s)
          \<and> (case ap_sink a of Stdout \<Rightarrow> False | Logfile path \<Rightarrow> \<not> (stream_ok a \<and> writable io path))))"

text \<open>Once open in a good state the stream of a writable file stays so.\<close>

definition streams_kept :: "'w log_io \<Rightarrow> 'w log_sys \<Rightarrow> 'w log_sys \<Rightarrow> bool" where
  "streams_kept io s s' \<longleftrightarrow> (\<forall>j path. j < length (appender_heap s) \<and> ap_sink (appender_heap s ! j) = Logfile path
     \<and> writable io path \<and> stream_ok (appender_heap s ! j) \<longrightarrow> stream_ok (appender_heap s' ! j))"

lemma fresh_stream_shown:
  assumes "io_law io shown" "fresh_stream io path a w = (a1, w1)"
  shows "shown w1 = shown w"
proof -
  have o: "shown (snd (io_open io path v)) = shown v" for v using assms(1) unfolding io_law_def by blast
  have "shown w2 = shown v" if "reopen io path a v = (r, a2, w2)" for r a2 w2 v
    using that o [of v] unfolding reopen_def by (auto simp: Let_def split: prod.splits if_splits)
  moreover have "shown (snd (io_time io w)) = shown w" using assms(1) unfolding io_law_def by blast
  ultimately show ?thesis using assms(2) by (auto simp: fresh_stream_def split: prod.splits if_splits)
qed

lemma fresh_stream_ok:
  assumes "writable io path" "fs_good a \<and> fs_open a" "fresh_stream io path a w = (a1, w1)"
  shows "fs_good a1 \<and> fs_open a1"
proof -
  have "fs_good a2 \<and> fs_open a2" if "reopen io path a v = (r, a2, w2)" for r a2 w2 v
    using that assms(1,2) unfolding writable_def reopen_def by (auto simp: Let_def split: prod.splits) (metis fst_conv)+
  then show ?thesis using assms(2,3) by (auto simp: fresh_stream_def split: prod.splits if_splits)
qed

definition formattable :: "'w log_io \<Rightarrow> nat log_event \<Rightarrow> appender \<Rightarrow> bool" where
  "formattable io ev a = (case ap_formatter a of None \<Rightarrow> False | Some f \<Rightarrow> dates_fit io ev f)"

lemma appender_write_deliver:
  assumes "io_law io shown" "i < length (appender_heap s)" "formattable io ev (appender_heap s ! i)"
  shows "\<exists>s' lost. appender_write io lvl ev i (appender_heap s ! i) s = Inr s' \<and> may_lose io lvl ev s i lost
     \<and> shown (log_world s') = deliver io lvl ev s (i, lost) (shown (log_world s)) \<and> streams_kept io s s'"
proof -
  let ?a = "appender_heap s ! i"
  obtain f where f: "ap_formatter ?a = Some f" "dates_fit io ev f" using assms(3) by (auto simp: formattable_def split: option.splits)
  then obtain out where out: "formatted io lvl ev (ap_formatter ?a) s = Inr out"
    using dates_fit_ok [of io ev f lvl s] by (auto simp: is_ok_iff)
  then have tx: "text_of io lvl ev ?a s = out" by (simp add: text_of_def)
  have std: "shown (io_stdout io t w) = (shown w)(Stdout := shown w Stdout @ t)" for t w
    using assms(1) unfolding io_law_def by blast
  show ?thesis
  proof (cases "ap_sink ?a")
    case Stdout
    then show ?thesis using out tx std
      by (intro exI [of _ "s\<lparr>log_world := io_stdout io out (log_world s)\<rparr>"] exI [of _ None])
        (simp add: appender_write_stdout deliver_def may_lose_def streams_kept_def Let_def)
  next
    case (Logfile path)
    obtain a1 w1 where fr: "fresh_stream io path ?a (log_world s) = (a1, w1)" by (rule prod.exhaust)
    note S = fresh_stream_same [OF fr] and W = fresh_stream_shown [OF assms(1) fr]
    define res where "res = (if fs_good a1 \<and> fs_open a1 then io_file io path out w1 else (False, w1))"
    obtain ok w2 where r: "res = (ok, w2)" by (rule prod.exhaust)
    have "\<exists>n. shown w2 = (shown w1)(Logfile path := shown w1 (Logfile path) @ (if ok then out else take n out))"
    proof (cases "fs_good a1 \<and> fs_open a1")
      case True
      moreover have "\<exists>n. shown (snd (io_file io path out w1))
          = (shown w1)(Logfile path := shown w1 (Logfile path) @ (if fst (io_file io path out w1) then out else take n out))"
        using assms(1) unfolding io_law_def by blast
      ultimately show ?thesis using r by (simp add: res_def)
    next
      case False
      then show ?thesis using r by (intro exI [of _ 0]) (auto simp: res_def fun_eq_iff)
    qed
    then obtain n where sh: "shown w2 = (shown (log_world s))(Logfile path := shown (log_world s) (Logfile path) @ (if ok then out else take n out))"
      using W by metis
    have fine: "ok" if "stream_ok ?a" "writable io path"
    proof -
      have "fs_good a1 \<and> fs_open a1" using fresh_stream_ok [OF that(2) _ fr] that(1) Logfile by (simp add: stream_ok_def)
      moreover have "fst (io_file io path out w1)" using that(2) unfolding writable_def by blast
      ultimately show ?thesis using r by (simp add: res_def)
    qed
    let ?s' = "(upd_appender i (a1\<lparr>fs_good := ok\<rparr>) s)\<lparr>log_world := if ok then w2 else io_stdout io (''error'' @ [CHR 0x0A]) w2\<rparr>"
    let ?lost = "if ok then None else Some (take n out)"
    have "appender_write io lvl ev i ?a s = Inr ?s'"
      using out r by (simp add: appender_write_file [OF Logfile fr] res_def [symmetric] Let_def)
    moreover have "may_lose io lvl ev s i ?lost" using fine Logfile tx by (auto simp: may_lose_def Let_def min_def)
    moreover have "shown (log_world ?s') = deliver io lvl ev s (i, ?lost) (shown (log_world s))"
      using sh tx Logfile std by (simp add: deliver_def Let_def)
    moreover have "streams_kept io s ?s'"
      unfolding streams_kept_def
    proof (intro allI impI)
      fix j path' assume j: "j < length (appender_heap s) \<and> ap_sink (appender_heap s ! j) = Logfile path'
          \<and> writable io path' \<and> stream_ok (appender_heap s ! j)"
      show "stream_ok (appender_heap ?s' ! j)"
      proof (cases "i = j")
        case True
        then have "writable io path" "stream_ok ?a" using j Logfile by auto
        then show ?thesis using True j fine fresh_stream_ok [OF _ _ fr] Logfile S
          by (simp add: upd_appender_def stream_ok_def same_appender_def)
      next
        case False
        then show ?thesis using j by (simp add: upd_appender_def)
      qed
    qed
    ultimately show ?thesis by blast
  qed
qed

lemma deliver_setup: "same_setup s s' \<Longrightarrow> i < length (appender_heap s) \<Longrightarrow> deliver io lvl ev s' (i, l) = deliver io lvl ev s (i, l)"
  using same_setup_env [of s s' io]
  by (cases "ap_formatter (appender_heap s ! i)")
    (auto simp: deliver_def text_of_def formatted_def same_setup_def same_appender_def fun_eq_iff Let_def split: option.split)

lemma text_of_setup:
  "same_setup s s' \<Longrightarrow> i < length (appender_heap s) \<Longrightarrow>
     text_of io lvl ev (appender_heap s' ! i) s' = text_of io lvl ev (appender_heap s ! i) s"
  using same_setup_env [of s s' io]
  by (cases "ap_formatter (appender_heap s ! i)") (auto simp: text_of_def formatted_def same_setup_def same_appender_def)

lemma may_lose_setup:
  assumes "same_setup s s'" "streams_kept io s s'" "i < length (appender_heap s)" "may_lose io lvl ev s' i l"
  shows "may_lose io lvl ev s i l"
proof -
  have "ap_sink (appender_heap s' ! i) = ap_sink (appender_heap s ! i)" using assms(1,3) by (simp add: same_setup_def same_appender_def)
  then show ?thesis using assms(2-4) text_of_setup [OF assms(1,3), of io lvl ev]
    by (auto simp: may_lose_def streams_kept_def Let_def split: option.splits sink.splits)
qed

lemma fold_cong_zip:
  "length ls = length js \<Longrightarrow> (\<And>j l. j \<in> set js \<Longrightarrow> g (j, l) = h (j, l)) \<Longrightarrow> fold g (zip js ls) x = fold h (zip js ls) x"
  by (rule fold_cong) (auto dest: set_zip_leftD)

lemma appenders_log_deliver:
  assumes "io_law io shown" "\<forall>i \<in> set is. i < length (appender_heap s)"
    and "\<forall>i \<in> set is. ap_level (appender_heap s ! i) \<le> lvl \<longrightarrow> formattable io ev (appender_heap s ! i)"
  shows "\<exists>s' ls. appenders_log io lvl ev is s = Inr s'
    \<and> list_all2 (may_lose io lvl ev s) (filter (\<lambda>i. ap_level (appender_heap s ! i) \<le> lvl) is) ls
    \<and> shown (log_world s')
      = fold (deliver io lvl ev s) (zip (filter (\<lambda>i. ap_level (appender_heap s ! i) \<le> lvl) is) ls) (shown (log_world s))"
  using assms(2,3)
proof (induction "is" arbitrary: s)
  case (Cons i "is")
  show ?case
  proof (cases "ap_level (appender_heap s ! i) \<le> lvl")
    case False
    then show ?thesis using Cons by (simp add: appender_log_def appender_at_def)
  next
    case True
    then obtain s1 l where s1: "appender_write io lvl ev i (appender_heap s ! i) s = Inr s1" "may_lose io lvl ev s i l"
      "shown (log_world s1) = deliver io lvl ev s (i, l) (shown (log_world s))" "streams_kept io s s1"
      using appender_write_deliver [OF assms(1), of i s ev lvl] Cons.prems by auto
    have kept: "same_setup s s1" using appender_write_setup s1(1) by blast
    then have len: "length (appender_heap s1) = length (appender_heap s)" by (simp add: same_setup_def)
    have same: "same_appender (appender_heap s ! j) (appender_heap s1 ! j)" if "j \<in> set is" for j
      using kept Cons.prems(1) that by (simp add: same_setup_def)
    have "\<forall>j \<in> set is. ap_level (appender_heap s1 ! j) \<le> lvl \<longrightarrow> formattable io ev (appender_heap s1 ! j)"
      using Cons.prems same by (auto simp: formattable_def same_appender_def)
    moreover have js: "filter (\<lambda>i. ap_level (appender_heap s1 ! i) \<le> lvl) is = filter (\<lambda>i. ap_level (appender_heap s ! i) \<le> lvl) is"
      (is "_ = ?js") using same by (intro filter_cong) (auto simp: same_appender_def)
    ultimately obtain s2 ls where s2: "appenders_log io lvl ev is s1 = Inr s2" "list_all2 (may_lose io lvl ev s1) ?js ls"
      "shown (log_world s2) = fold (deliver io lvl ev s1) (zip ?js ls) (shown (log_world s1))"
      using Cons.IH [of s1] Cons.prems(1) len by auto
    have valid: "j < length (appender_heap s)" if "j \<in> set ?js" for j using that Cons.prems(1) by simp
    have "list_all2 (may_lose io lvl ev s) ?js ls"
      by (rule list.rel_mono_strong [OF s2(2)]) (use valid may_lose_setup [OF kept s1(4)] in blast)
    moreover have "fold (deliver io lvl ev s1) (zip ?js ls) x = fold (deliver io lvl ev s) (zip ?js ls) x" for x
      using list_all2_lengthD [OF s2(2)] deliver_setup [OF kept] valid by (intro fold_cong_zip) auto
    ultimately show ?thesis using s1 s2 True Cons.prems(1)
      by (intro exI [of _ s2] exI [of _ "l # ls"]) (simp add: appender_log_def appender_at_def)
  qed
qed simp

subsection \<open>Properties\<close>

text \<open>
  C10: a message goes where it belongs. In every reachable state of the log, logging to any logger, when the dates of the patterns fit
  their buffer, returns, never follows a null formatter or logger, and keeps the loggers and appenders as they
  were. Every appender whose level admits the message gets it once, in order, formatted
  by its own formatter, and nothing is written elsewhere. The appenders are the logger's own or,
  when it has none, the root's, and each level on the way is checked. Standard output and a file that is open in a good state and
  can be reopened and written accept the whole message; only at another file it may be lost, but for a beginning, and then \<open>error\<close> is
  printed.
\<close>

theorem log_delivery:
  assumes "log_reachable io s" "io_law io shown" "p < length (logger_heap s)"
    and "\<forall>i \<in> set (targets p lvl s). formattable io ev (appender_heap s ! i)"
  shows "\<exists>s' ls. logger_log io p lvl ev s = Some (Inr s') \<and> log_inv s' \<and> same_setup s s'
    \<and> list_all2 (may_lose io lvl ev s) (targets p lvl s) ls
    \<and> shown (log_world s') = fold (deliver io lvl ev s) (zip (targets p lvl s) ls) (shown (log_world s))"
proof -
  note inv = log_reachable_inv [OF assms(1)]
  have valid: "\<forall>i \<in> set (lg_appenders (logger_heap s ! q)). i < length (appender_heap s)" if "q < length (logger_heap s)" for q
    using log_inv_logger [OF inv that] by (simp add: logger_ok_def)
  have root: "m_rootLogger s < length (logger_heap s)" using inv by (simp add: log_inv_def)
  have "\<exists>s' ls. logger_log io p lvl ev s = Some (Inr s') \<and> list_all2 (may_lose io lvl ev s) (targets p lvl s) ls
    \<and> shown (log_world s') = fold (deliver io lvl ev s) (zip (targets p lvl s) ls) (shown (log_world s))"
    using assms(4) appenders_log_deliver [OF assms(2) valid [OF assms(3)], of lvl ev]
      appenders_log_deliver [OF assms(2) valid [OF root], of lvl ev]
    unfolding logger_log_unfold [OF inv assms(3)] targets_def by (simp add: Let_def split: if_splits)
  then obtain s' ls where r: "logger_log io p lvl ev s = Some (Inr s')" "list_all2 (may_lose io lvl ev s) (targets p lvl s) ls"
    "shown (log_world s') = fold (deliver io lvl ev s) (zip (targets p lvl s) ls) (shown (log_world s))" by blast
  have "same_setup s s'" by (rule logger_log_setup [OF inv r(1)])
  then show ?thesis using r same_setup_inv inv by blast
qed

text \<open>A world that is the text each sink has received, for concrete runs.\<close>

definition mem_io :: "(sink \<Rightarrow> string) log_io" where
  "mem_io = \<lparr> io_time = (\<lambda>w. (7, w)), io_stdout = (\<lambda>out w. w(Stdout := w Stdout @ out)), io_open = (\<lambda>path w. (True, w)),
     io_file = (\<lambda>path out w. (True, w(Logfile path := w (Logfile path) @ out))), io_strftime = (\<lambda>n fmt t. Some fmt) \<rparr>"

lemma mem_io_law: "io_law mem_io (\<lambda>w. w)"
  by (auto simp: io_law_def mem_io_def)

lemma mem_io_dates: "dates_fit mem_io ev f"
  by (auto simp: dates_fit_def list_all_iff mem_io_def split: format_item.splits)

definition start_sys :: "(sink \<Rightarrow> string) log_sys" where
  "start_sys = \<lparr> logger_heap = [(new_Logger ''root'')\<lparr>lg_appenders := [0]\<rparr>],
     appender_heap = [new_StdoutLogAppender\<lparr>ap_formatter := Some (new_LogFormatter default_pattern)\<rparr>],
     m_loggers = [(''root'', 0)], m_rootLogger = 0, log_world = (\<lambda>_. []) \<rparr>"

lemma start_sys_reachable: "log_reachable mem_io start_sys"
proof (rule log_start)
  show "new_LoggerManager (\<lambda>_. []) = Inr start_sys"
    by (simp add: new_LoggerManager_def addAppender_def logger_at_def appender_at_def upd_appender_def upd_logger_def
        new_StdoutLogAppender_def new_appender_def new_Logger_def start_sys_def Let_def)
qed

theorem log_delivery_witness:
  "\<exists>p s s'. getLogger ''system'' start_sys = (p, s)
     \<and> logger_log mem_io p WARN (new_LogEvent p WARN ''a.cpp'' 1 0 1 0 7 ''main'') s = Some (Inr s') \<and> same_setup s s'
     \<and> log_world s' Stdout = text_of mem_io WARN (new_LogEvent p WARN ''a.cpp'' 1 0 1 0 7 ''main'') (appender_heap s ! 0) s"
proof -
  let ?ev = "new_LogEvent 1 WARN ''a.cpp'' 1 0 1 0 7 ''main''"
  obtain p s where g: "getLogger ''system'' start_sys = (p, s)" by fastforce
  then have s: "p = 1" "length (logger_heap s) = 2" "appender_heap s = appender_heap start_sys" "log_world s = (\<lambda>_. [])"
    by (auto simp: getLogger_def start_sys_def string_less_def)
  have t: "targets 1 WARN s = [0]"
    using g by (auto simp: targets_def getLogger_def start_sys_def string_less_def new_Logger_def less_eq_level_def
        new_StdoutLogAppender_def new_appender_def)
  have k: "ap_sink (appender_heap s ! 0) = Stdout" using s by (simp add: start_sys_def new_StdoutLogAppender_def new_appender_def)
  have "formattable mem_io ?ev (appender_heap s ! 0)"
    using s mem_io_dates by (simp add: formattable_def start_sys_def new_StdoutLogAppender_def new_appender_def)
  then obtain s' ls where "logger_log mem_io 1 WARN ?ev s = Some (Inr s')" "same_setup s s'"
      "list_all2 (may_lose mem_io WARN ?ev s) [0] ls" "log_world s' = fold (deliver mem_io WARN ?ev s) (zip [0] ls) (log_world s)"
    using log_delivery [OF log_getLogger [OF start_sys_reachable g] mem_io_law, of 1 WARN ?ev] s t by auto
  moreover from this obtain l where "ls = [l]" "may_lose mem_io WARN ?ev s 0 l" by (auto simp: list_all2_Cons1)
  ultimately show ?thesis using g s k by (auto simp: may_lose_def deliver_def Let_def split: option.splits)
qed

text \<open>
  C31: what reloading the configuration can crash on. In a reachable state, with the old definitions in the order of their names as a
  \<open>std::set\<close> has them, the listener of the \<open>logs\<close> variable dereferences a null
  pointer if and only if a new entry has an appender of unknown type, or an old entry has the same name, level and formatter: since
  \<open>operator==\<close> compares the appenders with themselves, an entry whose appenders alone were changed crashes it just as one that did not change.
  Otherwise it returns, and the new state satisfies the invariant again.
\<close>

theorem conf_change_total:
  assumes "log_reachable io s" "sorted_wrt define_less old"
  shows "if list_ex (crashes old) new then on_logger_conf_changed io old new s = Inl Null_deref
    else (\<exists>s'. on_logger_conf_changed io old new s = Inr s' \<and> log_inv s')"
  using conf_ok(1,2) [OF log_reachable_inv [OF assms(1)], of new old io] crashes_iff [OF assms(2)]
  by (auto simp: list_ex_iff keeps_def split: sum.splits)

theorem conf_change_total_witness:
  "let d = \<lparr> ld_name = ''system'', ld_level = INFO, ld_formatter = ''%m%n'',
       ld_appenders = [\<lparr> ad_type = 1, ad_level = WARN, ad_formatter = [], ad_file = ''a.log'' \<rparr>] \<rparr> in
   is_ok (on_logger_conf_changed mem_io [] [d] start_sys)
   \<and> on_logger_conf_changed mem_io [d] [d\<lparr>ld_appenders := []\<rparr>] start_sys = Inl Null_deref"
proof -
  let ?d = "\<lparr> ld_name = ''system'', ld_level = INFO, ld_formatter = ''%m%n'',
       ld_appenders = [\<lparr> ad_type = 1, ad_level = WARN, ad_formatter = [], ad_file = ''a.log'' \<rparr>] \<rparr>"
  have 1: "\<exists>s'. on_logger_conf_changed mem_io [] [?d] start_sys = Inr s'"
    using conf_change_total [OF start_sys_reachable, of "[]" "[?d]"] by (auto simp: crashes_def)
  have 2: "on_logger_conf_changed mem_io [?d] [?d\<lparr>ld_appenders := []\<rparr>] start_sys = Inl Null_deref"
    using conf_change_total [OF start_sys_reachable, of "[?d]" "[?d\<lparr>ld_appenders := []\<rparr>]"] by (simp add: crashes_def)
  show ?thesis using 1 2 by (auto simp: Let_def)
qed

end
