(* ===== verification/Config.thy ===== *)
theory Config
  imports StringUtil
begin

text \<open>
  Configuration variables: \<open>include/fishjoy/config/config.hpp\<close>, \<open>src/config/config.cpp\<close>.

  The values of all variables are of one type \<open>'v\<close>, a variable's \<open>T\<close> is a number; the conversions and
  \<open>operator==\<close> of a type, which the templates take as parameters, are a record of functions. A
  listener acts on the rest of the program, of type \<open>'w\<close>; one that throws changes nothing. A \<open>YAML::Node\<close> is the tree the YAML library
  documents; its printed form is a parameter.
\<close>

subsection \<open>Variables\<close>

type_synonym ('v, 'w) listener = "'v \<Rightarrow> 'v \<Rightarrow> 'w \<Rightarrow> 'w result"

record ('v, 'w) config_var =
  cv_name :: string
  cv_description :: string
  cv_type :: nat
  cv_val :: 'v
  cv_cbs :: "(nat \<times> ('v, 'w) listener) list"

record 'v conversions =
  from_str :: "nat \<Rightarrow> string \<Rightarrow> 'v result"
  to_str :: "nat \<Rightarrow> 'v \<Rightarrow> string result"
  val_eq :: "nat \<Rightarrow> 'v \<Rightarrow> 'v \<Rightarrow> bool"

text \<open>\<open>Config::GetDatas()\<close>, an unordered map, in some order; the objects; the counters \<open>s_fun_id\<close>, one for each type.\<close>

record ('v, 'w) config =
  cf_datas :: "(string \<times> nat) list"
  cf_vars :: "('v, 'w) config_var list"
  cf_ids :: "nat \<Rightarrow> u64"
  cf_mtimes :: "(string \<times> u64) list"
  cf_world :: 'w

text \<open>What a \<open>catch (std::exception&)\<close> catches; the other faults are not exceptions.\<close>

fun catchable :: "fault \<Rightarrow> bool" where
  "catchable (Out_of_range _) = True"
| "catchable (Logic_error _) = True"
| "catchable (Invalid_argument _) = True"
| "catchable _ = False"

definition new_ConfigVar :: "nat \<Rightarrow> string \<Rightarrow> 'v \<Rightarrow> string \<Rightarrow> ('v, 'w) config_var" where
  "new_ConfigVar ty name default_value description =
     \<lparr> cv_name = map tolower name, cv_description = description, cv_type = ty, cv_val = default_value, cv_cbs = [] \<rparr>"

definition var_at :: "nat \<Rightarrow> ('v, 'w) config \<Rightarrow> ('v, 'w) config_var result" where
  "var_at p s = (if p < length (cf_vars s) then Inr (cf_vars s ! p) else Inl Null_deref)"

definition put_var :: "nat \<Rightarrow> ('v, 'w) config_var \<Rightarrow> ('v, 'w) config \<Rightarrow> ('v, 'w) config" where
  "put_var p c s = s\<lparr>cf_vars := (cf_vars s)[p := c]\<rparr>"

definition getValue :: "nat \<Rightarrow> ('v, 'w) config \<Rightarrow> 'v result" where
  "getValue p s = rbind (var_at p s) (\<lambda>c. Inr (cv_val c))"

fun notify :: "'v \<Rightarrow> 'v \<Rightarrow> (nat \<times> ('v, 'w) listener) list \<Rightarrow> 'w \<Rightarrow> 'w \<times> fault option" where
  "notify old v [] w = (w, None)"
| "notify old v ((i, cb) # cbs) w = (case cb old v w of Inl e \<Rightarrow> (w, Some e) | Inr w \<Rightarrow> notify old v cbs w)"

text \<open>\<open>setValue\<close>: the listeners run first; when one throws, the value stays and the exception passes on.\<close>

definition setValue :: "'v conversions \<Rightarrow> nat \<Rightarrow> 'v \<Rightarrow> ('v, 'w) config \<Rightarrow> (('v, 'w) config \<times> fault option) result" where
  "setValue cv p v s =
     rbind (var_at p s) (\<lambda>c.
       if val_eq cv (cv_type c) v (cv_val c) then Inr (s, None)
       else case notify (cv_val c) v (cv_cbs c) (cf_world s) of
           (w, Some e) \<Rightarrow> Inr (s\<lparr>cf_world := w\<rparr>, Some e)
         | (w, None) \<Rightarrow> Inr (put_var p (c\<lparr>cv_val := v\<rparr>) (s\<lparr>cf_world := w\<rparr>), None))"

text \<open>\<open>fromString\<close> returns false in every case.\<close>

definition fromString :: "'v conversions \<Rightarrow> nat \<Rightarrow> string \<Rightarrow> ('v, 'w) config \<Rightarrow> (bool \<times> ('v, 'w) config) result" where
  "fromString cv p str s =
     rbind (var_at p s) (\<lambda>c.
       case from_str cv (cv_type c) str of
         Inl e \<Rightarrow> if catchable e then Inr (False, s) else Inl e
       | Inr v \<Rightarrow> rbind (setValue cv p v s) (\<lambda>(s, thrown).
           case thrown of None \<Rightarrow> Inr (False, s) | Some e \<Rightarrow> if catchable e then Inr (False, s) else Inl e))"

definition toString :: "'v conversions \<Rightarrow> nat \<Rightarrow> ('v, 'w) config \<Rightarrow> string result" where
  "toString cv p s =
     rbind (var_at p s) (\<lambda>c. case to_str cv (cv_type c) (cv_val c) of
         Inr str \<Rightarrow> Inr str | Inl e \<Rightarrow> if catchable e then Inr [] else Inl e)"

text \<open>The listeners of a variable, a \<open>std::map\<close> from their ids.\<close>

fun put_cb :: "nat \<Rightarrow> 'c \<Rightarrow> (nat \<times> 'c) list \<Rightarrow> (nat \<times> 'c) list" where
  "put_cb i cb [] = [(i, cb)]"
| "put_cb i cb ((j, c) # cbs) =
     (if j < i then (j, c) # put_cb i cb cbs else if i < j then (i, cb) # (j, c) # cbs else (j, cb) # cbs)"

definition addListener :: "nat \<Rightarrow> ('v, 'w) listener \<Rightarrow> ('v, 'w) config \<Rightarrow> (u64 \<times> ('v, 'w) config) result" where
  "addListener p cb s =
     rbind (var_at p s) (\<lambda>c.
       let i = cf_ids s (cv_type c) + 1 in
       Inr (i, put_var p (c\<lparr>cv_cbs := put_cb (unat i) cb (cv_cbs c)\<rparr>) (s\<lparr>cf_ids := (cf_ids s)(cv_type c := i)\<rparr>)))"

definition delListener :: "nat \<Rightarrow> u64 \<Rightarrow> ('v, 'w) config \<Rightarrow> ('v, 'w) config result" where
  "delListener p key s =
     rbind (var_at p s) (\<lambda>c. Inr (put_var p (c\<lparr>cv_cbs := filter (\<lambda>(i, _). i \<noteq> unat key) (cv_cbs c)\<rparr>) s))"

definition getListener :: "nat \<Rightarrow> u64 \<Rightarrow> ('v, 'w) config \<Rightarrow> ('v, 'w) listener option result" where
  "getListener p key s = rbind (var_at p s) (\<lambda>c. Inr (map_of (cv_cbs c) (unat key)))"

definition clearListener :: "nat \<Rightarrow> ('v, 'w) config \<Rightarrow> ('v, 'w) config result" where
  "clearListener p s = rbind (var_at p s) (\<lambda>c. Inr (put_var p (c\<lparr>cv_cbs := []\<rparr>) s))"

subsection \<open>Looking variables up\<close>

definition valid_name :: string where
  "valid_name = ''abcdefghikjlmnopqrstuvwxyz._012345678''"

definition LookupBase :: "string \<Rightarrow> ('v, 'w) config \<Rightarrow> nat option" where
  "LookupBase name s = map_of (cf_datas s) name"

text \<open>\<open>Lookup<T>(name)\<close> and the one that creates: a null pointer when the type is another one.\<close>

definition Lookup_existing :: "nat \<Rightarrow> string \<Rightarrow> ('v, 'w) config \<Rightarrow> nat option result" where
  "Lookup_existing ty name s =
     (case LookupBase name s of
        None \<Rightarrow> Inr None
      | Some p \<Rightarrow> rbind (var_at p s) (\<lambda>c. Inr (if cv_type c = ty then Some p else None)))"

definition Lookup :: "nat \<Rightarrow> string \<Rightarrow> 'v \<Rightarrow> string \<Rightarrow> ('v, 'w) config \<Rightarrow> (nat option \<times> ('v, 'w) config) result" where
  "Lookup ty name default_value description s =
     (case LookupBase name s of
        Some p \<Rightarrow> rbind (var_at p s) (\<lambda>c. Inr (if cv_type c = ty then (Some p, s) else (None, s)))
      | None \<Rightarrow>
          if find_first_not_of valid_name name \<noteq> None then Inl (Invalid_argument name)
          else
            let p = length (cf_vars s) in
            Inr (Some p, s\<lparr>cf_vars := cf_vars s @ [new_ConfigVar ty name default_value description],
              cf_datas := cf_datas s @ [(name, p)]\<rparr>))"

fun visit :: "(nat \<Rightarrow> 'x \<Rightarrow> 'x) \<Rightarrow> (string \<times> nat) list \<Rightarrow> 'x \<Rightarrow> 'x" where
  "visit cb [] x = x"
| "visit cb ((_, p) # m) x = visit cb m (cb p x)"

definition Visit :: "(nat \<Rightarrow> 'x \<Rightarrow> 'x) \<Rightarrow> ('v, 'w) config \<Rightarrow> 'x \<Rightarrow> 'x" where
  "Visit cb s = visit cb (cf_datas s)"

subsection \<open>Loading\<close>

datatype yaml = Y_null | Y_scalar string | Y_seq "yaml list" | Y_map "(yaml \<times> yaml) list"

fun Scalar :: "yaml \<Rightarrow> string" where
  "Scalar (Y_scalar str) = str"
| "Scalar _ = []"

fun ListAllMember :: "string \<Rightarrow> yaml \<Rightarrow> (string \<times> yaml) list"
  and ListEntries :: "string \<Rightarrow> (yaml \<times> yaml) list \<Rightarrow> (string \<times> yaml) list" where
  "ListAllMember prefix node =
     (if find_first_not_of valid_name prefix \<noteq> None then []
      else (prefix, node) # (case node of Y_map kvs \<Rightarrow> ListEntries prefix kvs | _ \<Rightarrow> []))"
| "ListEntries prefix [] = []"
| "ListEntries prefix ((k, v) # kvs) =
     ListAllMember (if prefix = [] then Scalar k else prefix @ ''.'' @ Scalar k) v @ ListEntries prefix kvs"

fun node_text :: "(yaml \<Rightarrow> string) \<Rightarrow> yaml \<Rightarrow> string" where
  "node_text emit (Y_scalar str) = str"
| "node_text emit node = emit node"

fun load_nodes :: "'v conversions \<Rightarrow> (yaml \<Rightarrow> string) \<Rightarrow> (string \<times> yaml) list \<Rightarrow> ('v, 'w) config \<Rightarrow> ('v, 'w) config result" where
  "load_nodes cv emit [] s = Inr s"
| "load_nodes cv emit ((key, node) # ns) s =
     (if key = [] then load_nodes cv emit ns s
      else case LookupBase (map tolower key) s of
          None \<Rightarrow> load_nodes cv emit ns s
        | Some p \<Rightarrow> rbind (fromString cv p (node_text emit node) s) (\<lambda>(_, s). load_nodes cv emit ns s))"

definition LoadFromYaml :: "'v conversions \<Rightarrow> (yaml \<Rightarrow> string) \<Rightarrow> yaml \<Rightarrow> ('v, 'w) config \<Rightarrow> ('v, 'w) config result" where
  "LoadFromYaml cv emit root s = load_nodes cv emit (ListAllMember [] root) s"

text \<open>
  \<open>LoadFromDir\<close> on the files \<open>ListAllFile\<close> found: \<open>mtime\<close> is what \<open>lstat\<close> gives, \<open>LoadFile\<close> the parser of
  the YAML library. The modification time is recorded before the file is read.
\<close>

definition mtime_of :: "string \<Rightarrow> ('v, 'w) config \<Rightarrow> u64" where
  "mtime_of f s = (case map_of (cf_mtimes s) f of None \<Rightarrow> 0 | Some t \<Rightarrow> t)"

fun load_files ::
  "'v conversions \<Rightarrow> (yaml \<Rightarrow> string) \<Rightarrow> (string \<Rightarrow> u64 option) \<Rightarrow> (string \<Rightarrow> yaml result) \<Rightarrow> bool \<Rightarrow> string list
     \<Rightarrow> ('v, 'w) config \<Rightarrow> ('v, 'w) config result" where
  "load_files cv emit mtime LoadFile force [] s = Inr s"
| "load_files cv emit mtime LoadFile force (f # fs) s =
     (case mtime f of
        None \<Rightarrow> Inl (Undefined ''st.st_mtime'')
      | Some t \<Rightarrow>
          if \<not> force \<and> mtime_of f s = t then load_files cv emit mtime LoadFile force fs s
          else
            let s = s\<lparr>cf_mtimes := (f, t) # cf_mtimes s\<rparr> in
            case rbind (LoadFile f) (\<lambda>root. LoadFromYaml cv emit root s) of
              Inr s' \<Rightarrow> load_files cv emit mtime LoadFile force fs s'
            | Inl e \<Rightarrow> if catchable e then load_files cv emit mtime LoadFile force fs s else Inl e)"

subsection \<open>The invariant of the table\<close>

text \<open>Names lead to variables of that name, different names to different variables; names are valid.\<close>

definition config_inv :: "('v, 'w) config \<Rightarrow> bool" where
  "config_inv s \<longleftrightarrow> (\<forall>name p. LookupBase name s = Some p \<longrightarrow>
     p < length (cf_vars s) \<and> cv_name (cf_vars s ! p) = name \<and> set name \<subseteq> set valid_name)"

lemma valid_iff: "find_first_not_of cs str = None \<longleftrightarrow> set str \<subseteq> set cs"
  by (induction str) (auto simp: find_first_not_of_def find_from_eq split: if_splits)

lemma tolower_valid: "set name \<subseteq> set valid_name \<Longrightarrow> map tolower name = name"
proof -
  have "\<forall>c \<in> set valid_name. tolower c = c" by code_simp
  then show "set name \<subseteq> set valid_name \<Longrightarrow> map tolower name = name" by (auto intro!: map_idI)
qed

lemma LookupBase_put [simp]: "LookupBase name (put_var p c s) = LookupBase name s"
  "LookupBase name (s\<lparr>cf_world := w\<rparr>) = LookupBase name s"
  by (simp_all add: LookupBase_def put_var_def)

lemma Lookup_inv:
  assumes "config_inv s" "Lookup ty name v d s = Inr (r, s')"
  shows "config_inv s'"
proof (cases "LookupBase name s")
  case None
  then have v: "set name \<subseteq> set valid_name"
    and s': "s' = s\<lparr>cf_vars := cf_vars s @ [new_ConfigVar ty name v d], cf_datas := cf_datas s @ [(name, length (cf_vars s))]\<rparr>"
    using assms(2) valid_iff [of valid_name name] by (auto simp: Lookup_def Let_def split: if_splits)
  have "LookupBase n s' = (if n = name then Some (length (cf_vars s)) else LookupBase n s)" for n
    using None unfolding s' LookupBase_def by (auto simp: map_add_def split: option.splits)
  then show ?thesis
    using assms(1) v tolower_valid [OF v] by (auto simp: config_inv_def s' nth_append new_ConfigVar_def less_Suc_eq)
next
  case (Some p)
  then show ?thesis using assms by (auto simp: Lookup_def rbind_eq_Inr_iff split: if_splits)
qed

subsection \<open>What loading a document does\<close>

definition same_vars :: "('v, 'w) config \<Rightarrow> ('v, 'w) config \<Rightarrow> bool" where
  "same_vars s s' \<longleftrightarrow> cf_datas s' = cf_datas s \<and> length (cf_vars s') = length (cf_vars s)
     \<and> (\<forall>p < length (cf_vars s). cv_name (cf_vars s' ! p) = cv_name (cf_vars s ! p)
          \<and> cv_type (cf_vars s' ! p) = cv_type (cf_vars s ! p) \<and> cv_cbs (cf_vars s' ! p) = cv_cbs (cf_vars s ! p))"

lemma same_vars_refl: "same_vars s s"
  by (simp add: same_vars_def)

lemma same_vars_trans: "same_vars s s' \<Longrightarrow> same_vars s' s'' \<Longrightarrow> same_vars s s''"
  by (simp add: same_vars_def)

lemma same_vars_inv: "same_vars s s' \<Longrightarrow> config_inv s \<Longrightarrow> config_inv s'"
  by (simp add: same_vars_def config_inv_def LookupBase_def)

text \<open>Listeners that do not throw; conversions that throw only exceptions.\<close>

definition quiet :: "('v, 'w) config \<Rightarrow> bool" where
  "quiet s \<longleftrightarrow> (\<forall>c \<in> set (cf_vars s). \<forall>(i, cb) \<in> set (cv_cbs c). \<forall>old v w. is_ok (cb old v w))"

definition conversions_ok :: "'v conversions \<Rightarrow> bool" where
  "conversions_ok cv \<longleftrightarrow> (\<forall>ty str e. from_str cv ty str = Inl e \<longrightarrow> catchable e)"

text \<open>The value a variable has after a text is assigned to it.\<close>

definition assign :: "'v conversions \<Rightarrow> nat \<Rightarrow> 'v \<Rightarrow> string \<Rightarrow> 'v" where
  "assign cv ty old str = (case from_str cv ty str of Inl _ \<Rightarrow> old | Inr v \<Rightarrow> if val_eq cv ty v old then old else v)"

lemma notify_quiet: "\<forall>(i, cb) \<in> set cbs. \<forall>old v w. is_ok (cb old v w) \<Longrightarrow> \<exists>w'. notify old v cbs w = (w', None)"
proof (induction cbs arbitrary: w)
  case (Cons p cbs)
  obtain i cb where p: "p = (i, cb)" by fastforce
  then have "is_ok (cb old v w)" using Cons.prems by simp
  then obtain w1 where "cb old v w = Inr w1" by (auto simp: is_ok_iff)
  then show ?case using Cons p by auto
qed simp

lemma same_vars_quiet: "same_vars s s' \<Longrightarrow> quiet s \<Longrightarrow> quiet s'"
  unfolding quiet_def
proof
  fix c
  assume same: "same_vars s s'" and q: "\<forall>c \<in> set (cf_vars s). \<forall>(i, cb) \<in> set (cv_cbs c). \<forall>old v w. is_ok (cb old v w)"
    and "c \<in> set (cf_vars s')"
  then obtain i where "i < length (cf_vars s')" "c = cf_vars s' ! i" by (metis in_set_conv_nth)
  then have "cf_vars s ! i \<in> set (cf_vars s)" "cv_cbs c = cv_cbs (cf_vars s ! i)" using same by (simp_all add: same_vars_def)
  then show "\<forall>(i, cb) \<in> set (cv_cbs c). \<forall>old v w. is_ok (cb old v w)" using q by simp
qed


lemma fromString_step:
  assumes "conversions_ok cv" "quiet s" "p < length (cf_vars s)"
  shows "\<exists>s'. fromString cv p str s = Inr (False, s') \<and> same_vars s s'
     \<and> (\<forall>q < length (cf_vars s). cv_val (cf_vars s' ! q)
          = (if q = p then assign cv (cv_type (cf_vars s ! p)) (cv_val (cf_vars s ! p)) str else cv_val (cf_vars s ! q)))"
proof (cases "from_str cv (cv_type (cf_vars s ! p)) str")
  case (Inl e)
  then have "catchable e" using assms(1) unfolding conversions_ok_def by blast
  then show ?thesis using assms(3) Inl by (auto simp: fromString_def var_at_def assign_def same_vars_refl)
next
  case (Inr v)
  let ?c = "cf_vars s ! p"
  have "\<forall>(i, cb) \<in> set (cv_cbs ?c). \<forall>old v w. is_ok (cb old v w)"
    using assms(2) nth_mem [OF assms(3)] unfolding quiet_def by (rule bspec)
  then have "\<exists>w. notify (cv_val ?c) v (cv_cbs ?c) (cf_world s) = (w, None)" by (rule notify_quiet)
  then obtain w where w: "notify (cv_val ?c) v (cv_cbs ?c) (cf_world s) = (w, None)" ..
  show ?thesis
  proof (cases "val_eq cv (cv_type ?c) v (cv_val ?c)")
    case True
    then show ?thesis using assms(3) Inr by (auto simp: fromString_def var_at_def setValue_def assign_def same_vars_refl)
  next
    case False
    let ?s' = "put_var p (?c\<lparr>cv_val := v\<rparr>) (s\<lparr>cf_world := w\<rparr>)"
    have "fromString cv p str s = Inr (False, ?s')"
      using assms(3) Inr False w by (simp add: fromString_def var_at_def setValue_def)
    moreover have "same_vars s ?s'"
      using assms(3) by (auto simp: same_vars_def put_var_def nth_list_update)
    ultimately show ?thesis using assms(3) Inr False
      by (auto simp: put_var_def assign_def nth_list_update)
  qed
qed

text \<open>The texts a list of nodes has for a name.\<close>

definition texts_for :: "(yaml \<Rightarrow> string) \<Rightarrow> string \<Rightarrow> (string \<times> yaml) list \<Rightarrow> string list" where
  "texts_for emit name ns = map (node_text emit \<circ> snd) (filter (\<lambda>(key, _). key = name) ns)"

lemma load_nodes_values:
  assumes "conversions_ok cv" "\<forall>(key, _) \<in> set ns. set key \<subseteq> set valid_name"
    and "config_inv s" "quiet s"
  shows "\<exists>s'. load_nodes cv emit ns s = Inr s' \<and> same_vars s s'
     \<and> (\<forall>name p. name \<noteq> [] \<and> LookupBase name s = Some p \<longrightarrow> cv_val (cf_vars s' ! p)
          = foldl (assign cv (cv_type (cf_vars s ! p))) (cv_val (cf_vars s ! p)) (texts_for emit name ns))"
  using assms(2-4)
proof (induction ns arbitrary: s)
  case Nil
  then show ?case by (simp add: same_vars_refl texts_for_def)
next
  case (Cons kn ns)
  obtain key node where kn: "kn = (key, node)" by fastforce
  have low: "map tolower key = key" using Cons.prems(1) tolower_valid kn by auto
  have ns: "\<forall>(key, _) \<in> set ns. set key \<subseteq> set valid_name" using Cons.prems(1) by simp
  show ?case
  proof (cases "key = [] \<or> LookupBase key s = None")
    case True
    then have "load_nodes cv emit (kn # ns) s = load_nodes cv emit ns s" using kn low by auto
    moreover have "texts_for emit name (kn # ns) = texts_for emit name ns" if "name \<noteq> [] \<and> LookupBase name s = Some p" for name p
      using that True kn by (auto simp: texts_for_def)
    ultimately show ?thesis using Cons.IH [OF ns Cons.prems(2,3)] by simp
  next
    case False
    then obtain p where Some: "LookupBase key s = Some p" by blast
    then have p: "p < length (cf_vars s)" "key \<noteq> []" "cv_name (cf_vars s ! p) = key"
      using False Cons.prems(2) unfolding config_inv_def by blast+
    obtain s1 where s1: "fromString cv p (node_text emit node) s = Inr (False, s1)" "same_vars s s1"
      "\<forall>q < length (cf_vars s). cv_val (cf_vars s1 ! q)
          = (if q = p then assign cv (cv_type (cf_vars s ! p)) (cv_val (cf_vars s ! p)) (node_text emit node) else cv_val (cf_vars s ! q))"
      using fromString_step [OF assms(1) Cons.prems(3) p(1)] by blast
    have look: "LookupBase n s1 = LookupBase n s" for n using s1(2) by (simp add: same_vars_def LookupBase_def)
    obtain s2 where s2: "load_nodes cv emit ns s1 = Inr s2" "same_vars s1 s2"
      "\<And>name q. name \<noteq> [] \<and> LookupBase name s1 = Some q \<Longrightarrow> cv_val (cf_vars s2 ! q)
          = foldl (assign cv (cv_type (cf_vars s1 ! q))) (cv_val (cf_vars s1 ! q)) (texts_for emit name ns)"
      using Cons.IH [OF ns same_vars_inv [OF s1(2) Cons.prems(2)] same_vars_quiet [OF s1(2) Cons.prems(3)]] by blast
    have "load_nodes cv emit (kn # ns) s = Inr s2" using kn low p(2) Some s1(1) s2(1) by simp
    moreover have "cv_val (cf_vars s2 ! q)
        = foldl (assign cv (cv_type (cf_vars s ! q))) (cv_val (cf_vars s ! q)) (texts_for emit name (kn # ns))"
      if q: "name \<noteq> [] \<and> LookupBase name s = Some q" for name q
    proof -
      have "q < length (cf_vars s)" and name: "cv_name (cf_vars s ! q) = name"
        using q Cons.prems(2) unfolding config_inv_def by blast+
      moreover have "q = p \<longleftrightarrow> name = key"
      proof
        show "q = p \<Longrightarrow> name = key" using p(3) name by simp
        show "name = key \<Longrightarrow> q = p" using q Some by simp
      qed
      moreover have "cv_type (cf_vars s1 ! q) = cv_type (cf_vars s ! q)" using s1(2) calculation(1) by (simp add: same_vars_def)
      ultimately show ?thesis using s2(3) [of name q] q look s1(3) kn by (auto simp: texts_for_def)
    qed
    ultimately show ?thesis using same_vars_trans [OF s1(2) s2(2)] by blast
  qed
qed

lemma members_valid:
  "\<forall>(key, _) \<in> set (ListAllMember prefix node). set key \<subseteq> set valid_name"
  "\<forall>(key, _) \<in> set (ListEntries prefix kvs). set key \<subseteq> set valid_name"
proof (induction prefix node and prefix kvs rule: ListAllMember_ListEntries.induct)
  case (1 prefix node)
  show ?case
  proof (cases "find_first_not_of valid_name prefix = None")
    case True
    then show ?thesis using 1 valid_iff [of valid_name prefix] by (cases node) (simp_all del: ListEntries.simps)
  qed simp
next
  case (3 prefix k v kvs)
  then show ?case by (simp only: ListEntries.simps set_append ball_Un)
qed simp

subsection \<open>Properties\<close>


text \<open>Integers as values, for concrete runs.\<close>

definition nat_conversions :: "nat conversions" where
  "nat_conversions = \<lparr> from_str = (\<lambda>ty str. if str \<noteq> [] \<and> list_all is_digit str then Inr (digits_value str)
       else Inl (Invalid_argument str)), to_str = (\<lambda>ty v. Inr (dec v)), val_eq = (\<lambda>ty a b. a = b) \<rparr>"

definition empty_config :: "(nat, nat) config" where
  "empty_config = \<lparr> cf_datas = [], cf_vars = [], cf_ids = (\<lambda>_. 0), cf_mtimes = [], cf_world = 0 \<rparr>"

lemma empty_config_inv: "config_inv empty_config"
  by (simp add: config_inv_def LookupBase_def empty_config_def)


text \<open>
  Looking a variable up creates it once. A new name made of the characters the code allows creates
  the variable with its default value; the next look-ups of the name return the same variable for the same type and a
  null pointer for another type, whatever default they bring. A name with any other character throws
  \<open>invalid_argument\<close>; the digit 9 is such a character, although the documentation allows \<open>[0-9a-z_.]\<close>.
\<close>

theorem lookup_once:
  assumes "config_inv s" "LookupBase name s = None"
  shows "if set name \<subseteq> set valid_name
    then \<exists>p s'. Lookup ty name v d s = Inr (Some p, s') \<and> config_inv s' \<and> LookupBase name s' = Some p \<and> getValue p s' = Inr v
       \<and> Lookup ty' name v' d' s' = Inr (if ty' = ty then Some p else None, s')
       \<and> Lookup_existing ty' name s' = Inr (if ty' = ty then Some p else None)
    else Lookup ty name v d s = Inl (Invalid_argument name)"
proof (cases "set name \<subseteq> set valid_name")
  case True
  let ?s' = "s\<lparr>cf_vars := cf_vars s @ [new_ConfigVar ty name v d], cf_datas := cf_datas s @ [(name, length (cf_vars s))]\<rparr>"
  have "Lookup ty name v d s = Inr (Some (length (cf_vars s)), ?s')"
    using assms(2) True valid_iff [of valid_name name] by (simp add: Lookup_def Let_def)
  moreover have "LookupBase name ?s' = Some (length (cf_vars s))"
    using assms(2) by (simp add: LookupBase_def map_add_def)
  ultimately show ?thesis using True Lookup_inv [OF assms(1)]
    by (auto simp: Lookup_def Lookup_existing_def getValue_def var_at_def new_ConfigVar_def)
next
  case False
  then show ?thesis using assms(2) valid_iff [of valid_name name] by (simp add: Lookup_def)
qed

theorem lookup_once_witness:
  "Lookup 0 ''worker9'' 4 [] empty_config = Inl (Invalid_argument ''worker9'')"
  using lookup_once [OF empty_config_inv, of "''worker9''" 0 4 "[]"]
  by (simp add: LookupBase_def empty_config_def valid_name_def)

end
