(* ===== verification/Yaml.thy ===== *)
theory Yaml
  imports Config
begin

text \<open>
  The YAML library, as a record of the functions the code calls, on the trees of \<open>Config\<close>: \<open>y_load\<close> is
  \<open>YAML::Load\<close>, \<open>y_print\<close> the output of a node to a stream, \<open>y_member\<close> is \<open>node[key]\<close> with \<open>None\<close> for an undefined node, \<open>y_elems\<close> the elements \<open>node[0]\<close> to \<open>node[node.size() - 1]\<close>,
  \<open>y_pairs\<close> the iteration over a node with \<open>it->first.Scalar()\<close> and \<open>it->second\<close>, \<open>y_string\<close> is
  \<open>as<std::string>()\<close>; and the nodes the code builds.
\<close>

record yaml_lib =
  y_load :: "string \<Rightarrow> yaml result"
  y_print :: "yaml \<Rightarrow> string"
  y_member :: "string \<Rightarrow> yaml \<Rightarrow> yaml option result"
  y_elems :: "yaml \<Rightarrow> yaml list"
  y_pairs :: "yaml \<Rightarrow> (string \<times> yaml) list result"
  y_string :: "yaml \<Rightarrow> string result"

text \<open>A node to which the keys were assigned in this order; without any it stays null.\<close>

definition map_node :: "(string \<times> yaml) list \<Rightarrow> yaml" where
  "map_node kvs = (if kvs = [] then Y_null else Y_map (map (\<lambda>(k, v). (Y_scalar k, v)) kvs))"

definition seq_node :: "yaml list \<Rightarrow> yaml" where
  "seq_node ns = (if ns = [] then Y_null else Y_seq ns)"

subsection \<open>The documented behaviour\<close>

text \<open>The documented behaviour of the library on the nodes it is asked for.\<close>

definition yaml_law :: "yaml_lib \<Rightarrow> bool" where
  "yaml_law lib \<longleftrightarrow> (\<forall>kvs k. y_member lib k (Y_map kvs) = Inr (map_of kvs (Y_scalar k)))
     \<and> (\<forall>ns. y_elems lib (Y_seq ns) = ns) \<and> y_elems lib Y_null = []
     \<and> (\<forall>kvs. y_pairs lib (Y_map (map (\<lambda>(k, v). (Y_scalar k, v)) kvs)) = Inr kvs) \<and> y_pairs lib Y_null = Inr []
     \<and> (\<forall>str. y_string lib (Y_scalar str) = Inr str)"

definition reloads :: "yaml_lib \<Rightarrow> yaml \<Rightarrow> bool" where
  "reloads lib n \<longleftrightarrow> y_load lib (y_print lib n) = Inr n"

lemma map_of_scalars: "map_of (map (\<lambda>(k, v). (Y_scalar k, v)) kvs) (Y_scalar k) = map_of kvs k"
  by (induction kvs) auto

lemma member_map_node:
  "yaml_law lib \<Longrightarrow> kvs \<noteq> [] \<Longrightarrow> y_member lib k (map_node kvs) = Inr (map_of kvs k)"
  by (simp add: yaml_law_def map_node_def map_of_scalars)

lemma pairs_map_node: "yaml_law lib \<Longrightarrow> y_pairs lib (map_node kvs) = Inr kvs"
  by (simp add: yaml_law_def map_node_def)

lemma elems_seq_node: "yaml_law lib \<Longrightarrow> y_elems lib (seq_node ns) = ns"
  by (simp add: yaml_law_def seq_node_def)

lemma string_scalar: "yaml_law lib \<Longrightarrow> y_string lib (Y_scalar str) = Inr str"
  by (simp add: yaml_law_def)

text \<open>A library for concrete runs: the text of a node is its place, in unary, in a list of known nodes.\<close>

definition tree_lib :: "yaml list \<Rightarrow> yaml_lib" where
  "tree_lib known = \<lparr>
     y_load = (\<lambda>str. if length str < length known then Inr (known ! length str) else Inl (Invalid_argument str)),
     y_print = (\<lambda>n. replicate (length (takeWhile (\<lambda>m. m \<noteq> n) known)) CHR ''x''),
     y_member = (\<lambda>k n. case n of Y_map kvs \<Rightarrow> Inr (map_of kvs (Y_scalar k)) | _ \<Rightarrow> Inr None),
     y_elems = (\<lambda>n. case n of Y_seq ns \<Rightarrow> ns | _ \<Rightarrow> []),
     y_pairs = (\<lambda>n. case n of Y_map kvs \<Rightarrow> Inr (map (\<lambda>(k, v). (Scalar k, v)) kvs) | _ \<Rightarrow> Inr []),
     y_string = (\<lambda>n. case n of Y_scalar str \<Rightarrow> Inr str | _ \<Rightarrow> Inl (Invalid_argument [])) \<rparr>"

lemma tree_lib_law: "yaml_law (tree_lib known)"
  by (simp add: yaml_law_def tree_lib_def case_prod_beta' comp_def)

lemma tree_lib_reloads: "n \<in> set known \<Longrightarrow> reloads (tree_lib known) n"
proof -
  assume n: "n \<in> set known"
  have "length (takeWhile (\<lambda>m. m \<noteq> n) known) < length known \<and> known ! length (takeWhile (\<lambda>m. m \<noteq> n) known) = n"
    using n by (induction known) auto
  then show ?thesis by (simp add: reloads_def tree_lib_def)
qed

end
