(* ===== verification/LogConfig.thy ===== *)
theory LogConfig
  imports Logger Yaml
begin

text \<open>
  The configuration of the loggers as YAML text: the two \<open>LexicalCast\<close>s of \<open>std::set<LogDefine>\<close> and the
  \<open>toYamlString\<close> functions of \<open>src/log/log.cpp\<close>.

  What the code writes to \<open>std::cout\<close> is the text \<open>out\<close>.
\<close>

definition level_field :: "level \<Rightarrow> (string \<times> yaml) list" where
  "level_field l = (if l \<noteq> UNKNOWN then [(''level'', Y_scalar (level_ToString l))] else [])"

definition appenders_field :: "yaml list \<Rightarrow> (string \<times> yaml) list" where
  "appenders_field as = (if as = [] then [] else [(''appenders'', Y_seq as)])"

subsection \<open>Reading\<close>

text \<open>\<open>n[key].as<std::string>()\<close> when the member is defined.\<close>

definition read_member :: "yaml_lib \<Rightarrow> string \<Rightarrow> yaml \<Rightarrow> string option result" where
  "read_member lib key n =
     rbind (y_member lib key n) (\<lambda>m. case m of None \<Rightarrow> Inr None | Some v \<Rightarrow> rbind (y_string lib v) (\<lambda>str. Inr (Some str)))"

definition complain :: "yaml_lib \<Rightarrow> string \<Rightarrow> yaml \<Rightarrow> string" where
  "complain lib what n = ''log config error: '' @ what @ '', '' @ y_print lib n @ [CHR 0x0A]"

text \<open>One appender; \<open>None\<close> when it is skipped.\<close>

definition cast_appender :: "yaml_lib \<Rightarrow> yaml \<Rightarrow> string \<Rightarrow> (appender_define option \<times> string) result" where
  "cast_appender lib a out =
     rbind (read_member lib ''type'' a) (\<lambda>type. case type of
         None \<Rightarrow> Inr (None, out @ complain lib ''appender type is null'' a)
       | Some type \<Rightarrow>
           let lad = \<lparr>ad_type = 0, ad_level = UNKNOWN, ad_formatter = [], ad_file = []\<rparr> in
           if type = ''FileLogAppender'' then
             rbind (read_member lib ''file'' a) (\<lambda>file. case file of
                 None \<Rightarrow> Inr (None, out @ complain lib ''fileappender file is null'' a)
               | Some file \<Rightarrow>
                   rbind (read_member lib ''formatter'' a) (\<lambda>fmt.
                     Inr (Some (lad\<lparr>ad_type := 1, ad_file := file,
                       ad_formatter := (case fmt of None \<Rightarrow> [] | Some fmt \<Rightarrow> fmt)\<rparr>), out)))
           else if type = ''StdoutLogAppender'' then Inr (Some (lad\<lparr>ad_type := 2\<rparr>), out)
           else Inr (None, out @ complain lib ''appender type is invalid'' a))"

fun cast_appenders :: "yaml_lib \<Rightarrow> yaml list \<Rightarrow> string \<Rightarrow> (appender_define list \<times> string) result" where
  "cast_appenders lib [] out = Inr ([], out)"
| "cast_appenders lib (a # as) out =
     rbind (cast_appender lib a out) (\<lambda>(lad, out).
     rbind (cast_appenders lib as out) (\<lambda>(lads, out).
       Inr ((case lad of None \<Rightarrow> [] | Some lad \<Rightarrow> [lad]) @ lads, out)))"

definition cast_define :: "yaml_lib \<Rightarrow> yaml \<Rightarrow> string \<Rightarrow> (log_define option \<times> string) result" where
  "cast_define lib n out =
     rbind (read_member lib ''name'' n) (\<lambda>name. case name of
         None \<Rightarrow> Inr (None, out @ complain lib ''name is null'' n)
       | Some name \<Rightarrow>
           rbind (read_member lib ''level'' n) (\<lambda>lvl.
           rbind (read_member lib ''formatter'' n) (\<lambda>fmt.
           rbind (y_member lib ''appenders'' n) (\<lambda>as.
           rbind (cast_appenders lib (case as of None \<Rightarrow> [] | Some as \<Rightarrow> y_elems lib as) out) (\<lambda>(lads, out).
             Inr (Some \<lparr>ld_name = name, ld_level = level_FromString (case lvl of None \<Rightarrow> [] | Some l \<Rightarrow> l),
               ld_formatter = (case fmt of None \<Rightarrow> [] | Some f \<Rightarrow> f), ld_appenders = lads\<rparr>, out))))))"

fun cast_defines :: "yaml_lib \<Rightarrow> yaml list \<Rightarrow> log_define list \<Rightarrow> string \<Rightarrow> (log_define list \<times> string) result" where
  "cast_defines lib [] vec out = Inr (vec, out)"
| "cast_defines lib (n # ns) vec out =
     rbind (cast_define lib n out) (\<lambda>(ld, out).
       cast_defines lib ns (case ld of None \<Rightarrow> vec | Some ld \<Rightarrow> set_insert define_less ld vec) out)"

text \<open>\<open>LexicalCast<std::string, std::set<LogDefine>>\<close>.\<close>

definition defines_FromString :: "yaml_lib \<Rightarrow> string \<Rightarrow> string \<Rightarrow> (log_define list \<times> string) result" where
  "defines_FromString lib v out = rbind (y_load lib v) (\<lambda>node. cast_defines lib (y_elems lib node) [] out)"

subsection \<open>Writing\<close>

definition appender_define_node :: "appender_define \<Rightarrow> yaml" where
  "appender_define_node a = map_node
     ((if ad_type a = 1 then [(''type'', Y_scalar ''FileLogAppender''), (''file'', Y_scalar (ad_file a))]
       else if ad_type a = 2 then [(''type'', Y_scalar ''StdoutLogAppender'')] else [])
      @ level_field (ad_level a)
      @ (if ad_formatter a \<noteq> [] then [(''formatter'', Y_scalar (ad_formatter a))] else []))"

text \<open>The formatter of a logger is written when it is empty, as the code has it.\<close>

definition define_node :: "log_define \<Rightarrow> yaml" where
  "define_node d = map_node
     ([(''name'', Y_scalar (ld_name d))] @ level_field (ld_level d)
      @ (if ld_formatter d = [] then [(''formatter'', Y_scalar (ld_formatter d))] else [])
      @ appenders_field (map appender_define_node (ld_appenders d)))"

definition defines_node :: "log_define list \<Rightarrow> yaml" where
  "defines_node v = seq_node (map define_node v)"

text \<open>\<open>LexicalCast<std::set<LogDefine>, std::string>\<close>.\<close>

definition defines_ToString :: "yaml_lib \<Rightarrow> log_define list \<Rightarrow> string" where
  "defines_ToString lib v = y_print lib (defines_node v)"

text \<open>\<open>toYamlString\<close> of the appenders, of a logger and of the manager.\<close>

definition pattern_field :: "log_formatter option \<Rightarrow> (string \<times> yaml) list" where
  "pattern_field fmt = (case fmt of None \<Rightarrow> [] | Some f \<Rightarrow> [(''formatter'', Y_scalar (f_pattern f))])"

definition appender_node :: "appender \<Rightarrow> yaml" where
  "appender_node a = map_node
     ((case ap_sink a of
         Logfile path \<Rightarrow> [(''type'', Y_scalar ''FileLogAppender''), (''file'', Y_scalar path)]
       | Stdout \<Rightarrow> [(''type'', Y_scalar ''StdoutLogAppender'')])
      @ level_field (ap_level a) @ (if ap_hasFormatter a then pattern_field (ap_formatter a) else []))"

definition appender_toYamlString :: "yaml_lib \<Rightarrow> appender \<Rightarrow> string" where
  "appender_toYamlString lib a = y_print lib (appender_node a)"

fun load_appenders :: "yaml_lib \<Rightarrow> nat list \<Rightarrow> 'w log_sys \<Rightarrow> yaml list result" where
  "load_appenders lib [] s = Inr []"
| "load_appenders lib (i # is) s =
     rbind (appender_at i s) (\<lambda>a. rbind (y_load lib (appender_toYamlString lib a)) (\<lambda>n.
       rbind (load_appenders lib is s) (\<lambda>ns. Inr (n # ns))))"

definition logger_node :: "logger \<Rightarrow> yaml list \<Rightarrow> yaml" where
  "logger_node lg as = map_node
     ([(''name'', Y_scalar (lg_name lg))] @ level_field (lg_level lg) @ pattern_field (lg_formatter lg) @ appenders_field as)"

definition logger_toYamlString :: "yaml_lib \<Rightarrow> nat \<Rightarrow> 'w log_sys \<Rightarrow> string result" where
  "logger_toYamlString lib p s =
     rbind (logger_at p s) (\<lambda>lg. rbind (load_appenders lib (lg_appenders lg) s) (\<lambda>as.
       Inr (y_print lib (logger_node lg as))))"

fun load_loggers :: "yaml_lib \<Rightarrow> (string \<times> nat) list \<Rightarrow> 'w log_sys \<Rightarrow> yaml list result" where
  "load_loggers lib [] s = Inr []"
| "load_loggers lib ((_, p) # m) s =
     rbind (logger_toYamlString lib p s) (\<lambda>str. rbind (y_load lib str) (\<lambda>n.
       rbind (load_loggers lib m s) (\<lambda>ns. Inr (n # ns))))"

definition manager_toYamlString :: "yaml_lib \<Rightarrow> 'w log_sys \<Rightarrow> string result" where
  "manager_toYamlString lib s = rbind (load_loggers lib (m_loggers s) s) (\<lambda>ns. Inr (y_print lib (seq_node ns)))"

subsection \<open>What is read back\<close>

definition opt_field :: "string option \<Rightarrow> (string \<times> yaml) list" where
  "opt_field fo = (case fo of None \<Rightarrow> [] | Some f \<Rightarrow> [(''formatter'', Y_scalar f)])"

definition opt_text :: "string option \<Rightarrow> string" where
  "opt_text fo = (case fo of None \<Rightarrow> [] | Some f \<Rightarrow> f)"

lemma read_map_node:
  assumes "yaml_law lib" "kvs \<noteq> []"
  shows "map_of kvs k = None \<Longrightarrow> read_member lib k (map_node kvs) = Inr None"
    and "map_of kvs k = Some (Y_scalar str) \<Longrightarrow> read_member lib k (map_node kvs) = Inr (Some str)"
  by (simp_all add: read_member_def member_map_node [OF assms] string_scalar [OF assms(1)])

lemma level_of_text: "level_FromString (level_ToString l) = l" "level_FromString [] = UNKNOWN"
  by (cases l) (simp_all add: level_FromString_def level_ToString_def)

lemma cast_file_node:
  assumes "yaml_law lib"
  shows "cast_appender lib (map_node ([(''type'', Y_scalar ''FileLogAppender''), (''file'', Y_scalar path)] @ level_field l
       @ opt_field fo)) out
     = Inr (Some \<lparr>ad_type = 1, ad_level = UNKNOWN, ad_formatter = opt_text fo, ad_file = path\<rparr>, out)"
  by (cases fo) (simp_all add: cast_appender_def read_map_node [OF assms] opt_field_def opt_text_def level_field_def)

lemma cast_stdout_node:
  assumes "yaml_law lib"
  shows "cast_appender lib (map_node ([(''type'', Y_scalar ''StdoutLogAppender'')] @ rest)) out
     = Inr (Some \<lparr>ad_type = 2, ad_level = UNKNOWN, ad_formatter = [], ad_file = []\<rparr>, out)"
  by (simp add: cast_appender_def read_map_node [OF assms])

lemma cast_appenders_all:
  "(\<And>x out. x \<in> set xs \<Longrightarrow> cast_appender lib (node x) out = Inr (Some (ad x), out))
    \<Longrightarrow> cast_appenders lib (map node xs) out = Inr (map ad xs, out)"
  by (induction xs arbitrary: out) simp_all

lemma cast_define_node:
  assumes law: "yaml_law lib" and as: "cast_appenders lib nodes out = Inr (lads, out)"
  shows "cast_define lib (map_node ([(''name'', Y_scalar name)] @ level_field l @ opt_field fo @ appenders_field nodes)) out
     = Inr (Some \<lparr>ld_name = name, ld_level = l, ld_formatter = opt_text fo, ld_appenders = lads\<rparr>, out)"
proof -
  let ?kvs = "[(''name'', Y_scalar name)] @ level_field l @ opt_field fo @ appenders_field nodes"
  have lvl: "read_member lib ''level'' (map_node ?kvs) = Inr (if l = UNKNOWN then None else Some (level_ToString l))"
    by (cases "l = UNKNOWN"; cases fo) (simp_all add: read_map_node [OF law] level_field_def opt_field_def appenders_field_def)
  have fmt: "read_member lib ''formatter'' (map_node ?kvs) = Inr fo"
    by (cases fo) (simp_all add: read_map_node [OF law] level_field_def opt_field_def appenders_field_def)
  have mem: "y_member lib ''appenders'' (map_node ?kvs) = Inr (if nodes = [] then None else Some (Y_seq nodes))"
    by (cases fo) (simp_all add: member_map_node [OF law] level_field_def opt_field_def appenders_field_def)
  have name: "read_member lib ''name'' (map_node ?kvs) = Inr (Some name)"
    by (simp add: read_map_node [OF law])
  have el: "y_elems lib (Y_seq nodes) = nodes" using law by (simp add: yaml_law_def)
  show ?thesis
    unfolding cast_define_def name lvl fmt mem
    using as by (cases "nodes = []") (auto simp: el level_of_text opt_text_def simp del: cast_appenders.simps(2))
qed

lemma cast_defines_all:
  assumes node: "\<And>x out. x \<in> set xs \<Longrightarrow> cast_define lib (node x) out = Inr (Some (f x), out)"
    and sorted: "sorted_wrt define_less (vec @ map f xs)"
  shows "cast_defines lib (map node xs) vec out = Inr (vec @ map f xs, out)"
  using assms
proof (induction xs arbitrary: vec out)
  case (Cons x xs)
  have ins: "set_insert define_less (f x) vec = vec @ [f x]"
    using Cons.prems(2) by (intro set_insert_last) (simp add: sorted_wrt_append list_all_iff)
  have "cast_define lib (node x) out = Inr (Some (f x), out)" using Cons.prems(1) by simp
  moreover have "cast_defines lib (map node xs) (vec @ [f x]) out = Inr ((vec @ [f x]) @ map f xs, out)"
    by (rule Cons.IH) (use Cons.prems in auto)
  ultimately show ?case by (simp add: ins)
qed simp

subsection \<open>Properties\<close>

text \<open>What the text of a set of definitions keeps.\<close>

definition kept_appender :: "appender_define \<Rightarrow> appender_define" where
  "kept_appender a = (if ad_type a = 1 then a\<lparr>ad_level := UNKNOWN\<rparr>
     else \<lparr>ad_type = 2, ad_level = UNKNOWN, ad_formatter = [], ad_file = []\<rparr>)"

definition kept_define :: "log_define \<Rightarrow> log_define" where
  "kept_define d = d\<lparr>ld_formatter := [], ld_appenders := map kept_appender (ld_appenders d)\<rparr>"

lemma define_less_kept: "define_less (kept_define d) (kept_define d') = define_less d d'"
  by (simp add: define_less_def kept_define_def)

lemma cast_appender_define_node:
  assumes "yaml_law lib" "ad_type a = 1 \<or> ad_type a = 2"
  shows "cast_appender lib (appender_define_node a) out = Inr (Some (kept_appender a), out)"
proof (cases "ad_type a = 1")
  case True
  have "appender_define_node a = map_node ([(''type'', Y_scalar ''FileLogAppender''), (''file'', Y_scalar (ad_file a))]
      @ level_field (ad_level a) @ opt_field (if ad_formatter a = [] then None else Some (ad_formatter a)))"
    using True by (simp add: appender_define_node_def opt_field_def)
  then show ?thesis
    using True by (simp only: cast_file_node [OF assms(1)]) (simp add: kept_appender_def opt_text_def)
next
  case False
  then have "ad_type a = 2" using assms(2) by simp
  then show ?thesis
    by (simp only: appender_define_node_def if_False if_True kept_appender_def cast_stdout_node [OF assms(1)])
      (simp add: cast_stdout_node [OF assms(1), simplified])
qed

lemma cast_define_define_node:
  assumes law: "yaml_law lib" and types: "\<forall>a \<in> set (ld_appenders d). ad_type a = 1 \<or> ad_type a = 2"
  shows "cast_define lib (define_node d) out = Inr (Some (kept_define d), out)"
proof -
  have node: "define_node d = map_node ([(''name'', Y_scalar (ld_name d))] @ level_field (ld_level d)
      @ opt_field (if ld_formatter d = [] then Some [] else None) @ appenders_field (map appender_define_node (ld_appenders d)))"
    by (simp add: define_node_def opt_field_def)
  have as: "cast_appenders lib (map appender_define_node (ld_appenders d)) out = Inr (map kept_appender (ld_appenders d), out)"
    using types by (intro cast_appenders_all cast_appender_define_node [OF law]) simp
  show ?thesis
    unfolding node by (simp only: cast_define_node [OF law as]) (simp add: kept_define_def opt_text_def)
qed

text \<open>
  The two casts of \<open>std::set<LogDefine>\<close>. When the library reads back the node that it printed, a set of
  definitions written by one cast and read by the other is the same set of names, in order, with the
  levels and the files and formatters of the file appenders; the formatters of the loggers, which are written only
  when they are empty, and the levels of all appenders, which are never read, are lost, and nothing is complained about.
\<close>

theorem log_config_roundtrip:
  assumes law: "yaml_law lib"
    and sorted: "sorted_wrt define_less v"
    and types: "\<forall>d \<in> set v. \<forall>a \<in> set (ld_appenders d). ad_type a = 1 \<or> ad_type a = 2"
    and reload: "reloads lib (defines_node v)"
  shows "defines_FromString lib (defines_ToString lib v) out = Inr (map kept_define v, out)"
proof -
  have "sorted_wrt define_less ([] @ map kept_define v)"
    using sorted by (simp add: sorted_wrt_map define_less_kept)
  moreover have "cast_define lib (define_node d) out' = Inr (Some (kept_define d), out')" if "d \<in> set v" for d out'
    using that types by (intro cast_define_define_node [OF law]) blast
  ultimately have "cast_defines lib (map define_node v) [] out = Inr ([] @ map kept_define v, out)"
    by (intro cast_defines_all)
  then show ?thesis
    using reload by (simp add: defines_FromString_def defines_ToString_def reloads_def defines_node_def elems_seq_node [OF law])
qed

theorem log_config_roundtrip_witness:
  "let d = \<lparr>ld_name = ''system'', ld_level = WARN, ld_formatter = ''%m'', ld_appenders =
         [\<lparr>ad_type = 1, ad_level = ERROR, ad_formatter = ''%p'', ad_file = ''a.log''\<rparr>]\<rparr>;
       lib = tree_lib [defines_node [d]] in
   defines_FromString lib (defines_ToString lib [d]) [] = Inr ([\<lparr>ld_name = ''system'', ld_level = WARN, ld_formatter = [],
     ld_appenders = [\<lparr>ad_type = 1, ad_level = UNKNOWN, ad_formatter = ''%p'', ad_file = ''a.log''\<rparr>]\<rparr>], [])"
  unfolding Let_def
  by (subst log_config_roundtrip) (simp_all add: tree_lib_law tree_lib_reloads kept_define_def kept_appender_def)

text \<open>The definition that describes a logger of the program.\<close>

definition exported_appender :: "appender \<Rightarrow> appender_define" where
  "exported_appender a = (case ap_sink a of
     Logfile path \<Rightarrow> \<lparr>ad_type = 1, ad_level = UNKNOWN,
       ad_formatter = (if ap_hasFormatter a then opt_text (map_option f_pattern (ap_formatter a)) else []), ad_file = path\<rparr>
   | Stdout \<Rightarrow> \<lparr>ad_type = 2, ad_level = UNKNOWN, ad_formatter = [], ad_file = []\<rparr>)"

definition exported_define :: "'w log_sys \<Rightarrow> logger \<Rightarrow> log_define" where
  "exported_define s lg = \<lparr>ld_name = lg_name lg, ld_level = lg_level lg,
     ld_formatter = opt_text (map_option f_pattern (lg_formatter lg)),
     ld_appenders = map (\<lambda>i. exported_appender (appender_heap s ! i)) (lg_appenders lg)\<rparr>"

definition full_node :: "'w log_sys \<Rightarrow> logger \<Rightarrow> yaml" where
  "full_node s lg = logger_node lg (map (\<lambda>i. appender_node (appender_heap s ! i)) (lg_appenders lg))"

definition manager_node :: "'w log_sys \<Rightarrow> yaml" where
  "manager_node s = seq_node (map (\<lambda>(name, p). full_node s (logger_heap s ! p)) (m_loggers s))"

lemma pattern_field_opt: "pattern_field fmt = opt_field (map_option f_pattern fmt)"
  by (cases fmt) (simp_all add: pattern_field_def opt_field_def)

lemma cast_appender_node:
  assumes "yaml_law lib"
  shows "cast_appender lib (appender_node a) out = Inr (Some (exported_appender a), out)"
proof (cases "ap_sink a")
  case Stdout
  then show ?thesis
    using cast_stdout_node [OF assms, simplified]
    by (simp add: appender_node_def exported_appender_def)
next
  case (Logfile path)
  then have "appender_node a = map_node ([(''type'', Y_scalar ''FileLogAppender''), (''file'', Y_scalar path)]
      @ level_field (ap_level a) @ opt_field (if ap_hasFormatter a then map_option f_pattern (ap_formatter a) else None))"
    by (simp add: appender_node_def pattern_field_opt opt_field_def)
  then show ?thesis
    using Logfile by (simp only: cast_file_node [OF assms]) (simp add: exported_appender_def opt_text_def)
qed

lemma cast_full_node:
  assumes law: "yaml_law lib"
  shows "cast_define lib (full_node s lg) out = Inr (Some (exported_define s lg), out)"
proof -
  have as: "cast_appenders lib (map (\<lambda>i. appender_node (appender_heap s ! i)) (lg_appenders lg)) out
      = Inr (map (\<lambda>i. exported_appender (appender_heap s ! i)) (lg_appenders lg), out)"
    by (intro cast_appenders_all cast_appender_node [OF law])
  show ?thesis
    unfolding full_node_def logger_node_def pattern_field_opt
    by (simp only: cast_define_node [OF law as]) (simp add: exported_define_def)
qed

lemma load_appenders_nodes:
  "\<forall>i \<in> set is. i < length (appender_heap s) \<and> reloads lib (appender_node (appender_heap s ! i))
    \<Longrightarrow> load_appenders lib is s = Inr (map (\<lambda>i. appender_node (appender_heap s ! i)) is)"
  by (induction "is") (simp_all add: appender_at_def appender_toYamlString_def reloads_def)

lemma load_loggers_nodes:
  assumes inv: "log_inv s"
    and as: "\<forall>a \<in> set (appender_heap s). reloads lib (appender_node a)"
    and ls: "\<forall>lg \<in> set (logger_heap s). reloads lib (full_node s lg)"
  shows "set m \<subseteq> set (m_loggers s) \<Longrightarrow>
    load_loggers lib m s = Inr (map (\<lambda>(name, p). full_node s (logger_heap s ! p)) m)"
proof (induction m)
  case (Cons x m)
  obtain name p where x: "x = (name, p)" by fastforce
  have p: "p < length (logger_heap s)" using inv Cons.prems x by (auto simp: log_inv_def)
  then have lg: "logger_ok s (logger_heap s ! p)" using inv by (rule log_inv_logger [rotated])
  have "load_appenders lib (lg_appenders (logger_heap s ! p)) s
      = Inr (map (\<lambda>i. appender_node (appender_heap s ! i)) (lg_appenders (logger_heap s ! p)))"
    by (rule load_appenders_nodes) (use lg as in \<open>auto simp: logger_ok_def\<close>)
  then have "logger_toYamlString lib p s = Inr (y_print lib (full_node s (logger_heap s ! p)))"
    using p by (simp add: logger_toYamlString_def logger_at_def full_node_def)
  moreover have "reloads lib (full_node s (logger_heap s ! p))" using ls p by simp
  ultimately show ?case using Cons x by (simp add: reloads_def)
qed simp

text \<open>
  C28: What the manager writes can be read as a configuration. In a state that the program reaches, when the library
  reads back the nodes that it printed, the text of \<open>LoggerManager::toYamlString\<close> is read by the cast of the
  \<open>logs\<close> variable as one definition for every logger, in the order of the names, with its level, its pattern and its appenders; of
  the appenders the levels, and on the standard output the own patterns, are lost.
\<close>

theorem exported_config:
  assumes law: "yaml_law lib"
    and reach: "log_reachable io s"
    and as: "\<forall>a \<in> set (appender_heap s). reloads lib (appender_node a)"
    and ls: "\<forall>lg \<in> set (logger_heap s). reloads lib (full_node s lg)"
    and all: "reloads lib (manager_node s)"
  shows "rbind (manager_toYamlString lib s) (\<lambda>str. defines_FromString lib str out)
    = Inr (map (\<lambda>(name, p). exported_define s (logger_heap s ! p)) (m_loggers s), out)"
proof -
  have inv: "log_inv s" using reach by (rule log_reachable_inv)
  have printed: "manager_toYamlString lib s = Inr (y_print lib (manager_node s))"
    using load_loggers_nodes [OF inv as ls] by (simp add: manager_toYamlString_def manager_node_def)
  have names: "ld_name (case x of (name, p) \<Rightarrow> exported_define s (logger_heap s ! p)) = fst x" if "x \<in> set (m_loggers s)" for x
    using inv that by (auto simp: log_inv_def exported_define_def)
  have "sorted_wrt (\<lambda>x y. string_less (fst x) (fst y)) (m_loggers s)"
    using inv by (simp add: log_inv_def sorted_wrt_map)
  then have "sorted_wrt (\<lambda>x y. define_less (case x of (name, p) \<Rightarrow> exported_define s (logger_heap s ! p))
      (case y of (name, p) \<Rightarrow> exported_define s (logger_heap s ! p))) (m_loggers s)"
    by (rule sorted_wrt_mono_rel [rotated]) (simp add: define_less_def names)
  then have "cast_defines lib (map (\<lambda>(name, p). full_node s (logger_heap s ! p)) (m_loggers s)) [] out
      = Inr ([] @ map (\<lambda>(name, p). exported_define s (logger_heap s ! p)) (m_loggers s), out)"
    by (intro cast_defines_all) (auto simp: cast_full_node [OF law] sorted_wrt_map)
  then show ?thesis
    using all by (simp add: printed defines_FromString_def reloads_def)
      (simp add: manager_node_def elems_seq_node [OF law])
qed

theorem exported_config_witness:
  "let root = logger_heap start_sys ! 0;
       lib = tree_lib [appender_node (appender_heap start_sys ! 0), full_node start_sys root, manager_node start_sys] in
   rbind (manager_toYamlString lib start_sys) (\<lambda>str. defines_FromString lib str [])
     = Inr ([\<lparr>ld_name = ''root'', ld_level = DEBUG, ld_formatter = default_pattern,
         ld_appenders = [\<lparr>ad_type = 2, ad_level = UNKNOWN, ad_formatter = [], ad_file = []\<rparr>]\<rparr>], [])"
proof -
  have pattern: "f_pattern (new_LogFormatter default_pattern) = default_pattern"
    by (simp add: new_LogFormatter_def init_formatter_def Let_def split: prod.split)
  let ?root = "logger_heap start_sys ! 0"
  let ?known = "[appender_node (appender_heap start_sys ! 0), full_node start_sys ?root, manager_node start_sys]"
  have "\<forall>a \<in> set (appender_heap start_sys). reloads (tree_lib ?known) (appender_node a)"
    by (intro ballI tree_lib_reloads) (simp add: start_sys_def)
  moreover have "\<forall>lg \<in> set (logger_heap start_sys). reloads (tree_lib ?known) (full_node start_sys lg)"
    by (intro ballI tree_lib_reloads) (simp add: start_sys_def)
  moreover have "reloads (tree_lib ?known) (manager_node start_sys)" by (intro tree_lib_reloads) simp
  ultimately have "rbind (manager_toYamlString (tree_lib ?known) start_sys) (\<lambda>str. defines_FromString (tree_lib ?known) str [])
      = Inr (map (\<lambda>(name, p). exported_define start_sys (logger_heap start_sys ! p)) (m_loggers start_sys), [])"
    by (rule exported_config [OF tree_lib_law start_sys_reachable])
  moreover have "map (\<lambda>(name, p). exported_define start_sys (logger_heap start_sys ! p)) (m_loggers start_sys)
      = [\<lparr>ld_name = ''root'', ld_level = DEBUG, ld_formatter = default_pattern,
         ld_appenders = [\<lparr>ad_type = 2, ad_level = UNKNOWN, ad_formatter = [], ad_file = []\<rparr>]\<rparr>]"
    by (simp add: start_sys_def exported_define_def new_Logger_def exported_appender_def new_StdoutLogAppender_def
        new_appender_def opt_text_def pattern)
  ultimately show ?thesis unfolding Let_def by simp
qed

end
