(* ===== verification/LogFile.thy ===== *)
theory LogFile
  imports Prelude
begin

text \<open>
  Log buffers and rolling log files: \<open>src/log/log_buffer.cpp\<close>, \<open>src/log/log_file.cpp\<close>, \<open>include/fishjoy/log/log_buffer.hpp\<close>,
  \<open>include/fishjoy/log/log_file.hpp\<close>.

  Memory is a list of characters of fixed length; writing outside it is a fault. The C library (files, the clock) is a
  record of functions on a state of its own. \<open>LogFile\<close>'s constructor and \<open>getLogFileName\<close> are declared or called but not
  defined in the sources: a \<open>LogFile\<close> is a record with any contents, and the name with its time is a
  parameter.
\<close>

subsection \<open>Buffers\<close>

record log_buffer =
  lb_data :: string
  lb_total :: nat
  lb_available :: nat
  lb_cur :: nat

text \<open>\<open>contents\<close> is what \<open>new char[total]\<close> happens to hold.\<close>

definition new_LogBuffer :: "string \<Rightarrow> log_buffer" where
  "new_LogBuffer contents =
     \<lparr> lb_data = contents, lb_total = length contents, lb_available = length contents, lb_cur = 0 \<rparr>"

definition lb_clear :: "log_buffer \<Rightarrow> log_buffer" where
  "lb_clear b = b\<lparr>lb_cur := 0, lb_available := lb_total b\<rparr>"

text \<open>\<open>append\<close> does not look at the room there is.\<close>

definition lb_append :: "string \<Rightarrow> log_buffer \<Rightarrow> log_buffer result" where
  "lb_append msg b =
     (if lb_cur b + length msg \<le> length (lb_data b)
      then Inr (b\<lparr>lb_data := overwrite (lb_cur b) msg (lb_data b), lb_cur := lb_cur b + length msg,
             lb_available := sub64 (lb_available b) (length msg)\<rparr>)
      else Inl Bad_access)"

definition lb_text :: "log_buffer \<Rightarrow> string" where
  "lb_text b = slice_of 0 (lb_cur b) (lb_data b)"

definition lb_inv :: "log_buffer \<Rightarrow> bool" where
  "lb_inv b \<longleftrightarrow> length (lb_data b) = lb_total b \<and> lb_cur b + lb_available b = lb_total b"

subsection \<open>Writers\<close>

text \<open>
  \<open>MMapFileWriter\<close>: \<open>mf_buffer\<close> is \<open>None\<close> when \<open>mmap\<close> failed or was not called; the sizes are of type \<open>int32_t\<close>.
  \<open>AppendFileWriter\<close>: its stream is the parameter \<open>fwrite\<close>'s.
\<close>

record 'w file_io =
  io_mmap :: "string \<Rightarrow> nat \<Rightarrow> 'w \<Rightarrow> string option \<times> 'w"
  io_fopen :: "string \<Rightarrow> 'w \<Rightarrow> nat option \<times> 'w"
  io_fwrite :: "nat \<Rightarrow> string \<Rightarrow> 'w \<Rightarrow> nat \<times> 'w"
  io_flush :: "nat \<Rightarrow> 'w \<Rightarrow> 'w"
  io_now :: "'w \<Rightarrow> int"

record mmap_writer =
  mf_buffer :: "string option"
  mf_memSize :: int
  mf_written :: int

record append_writer =
  af_fp :: "nat option"
  af_written :: int

datatype writer = MMap mmap_writer | Append append_writer

definition writtenBytes :: "writer \<Rightarrow> nat" where
  "writtenBytes w = nat ((case w of MMap m \<Rightarrow> mf_written m | Append a \<Rightarrow> af_written a) mod 2 ^ 32)"

definition new_MMapFileWriter :: "'w file_io \<Rightarrow> string \<Rightarrow> nat \<Rightarrow> 'w \<Rightarrow> mmap_writer \<times> 'w" where
  "new_MMapFileWriter io basename mem_size w =
     (let (buf, w) = io_mmap io basename mem_size w
      in (\<lparr> mf_buffer = buf, mf_memSize = int32 (int mem_size), mf_written = 0 \<rparr>, w))"

text \<open>Writing through the pointer \<open>mmap\<close> failed to give is a fault.\<close>

definition mmap_append :: "string \<Rightarrow> mmap_writer \<Rightarrow> mmap_writer result" where
  "mmap_append msg m =
     (if int (length msg) > int32 (mf_memSize m - mf_written m) then Inr m
      else case mf_buffer m of
          None \<Rightarrow> Inl Bad_access
        | Some buf \<Rightarrow>
            if 0 \<le> mf_written m \<and> nat (mf_written m) + length msg \<le> length buf
            then Inr (m\<lparr>mf_buffer := Some (overwrite (nat (mf_written m)) msg buf),
                   mf_written := int32 (mf_written m + int (length msg))\<rparr>)
            else Inl Bad_access)"

definition mmap_text :: "mmap_writer \<Rightarrow> string" where
  "mmap_text m = (case mf_buffer m of None \<Rightarrow> [] | Some buf \<Rightarrow> slice_of 0 (nat (mf_written m)) buf)"

text \<open>The loop of \<open>AppendFileWriter::append\<close> over what \<open>fwrite\<close> has left; it stops when nothing is written.\<close>

partial_function (option) fwrite_loop :: "'w file_io \<Rightarrow> nat \<Rightarrow> string \<Rightarrow> 'w \<Rightarrow> 'w option" where
  "fwrite_loop io fp msg w =
     (if msg = [] then Some w
      else let (x, w) = io_fwrite io fp msg w in if x = 0 then Some w else fwrite_loop io fp (drop x msg) w)"

text \<open>\<open>new_written\<close> is the value the uninitialised \<open>m_written\<close> starts with; \<open>setbuffer\<close> is called without a test of the stream.\<close>

definition new_AppendFileWriter :: "'w file_io \<Rightarrow> int \<Rightarrow> string \<Rightarrow> 'w \<Rightarrow> (append_writer \<times> 'w) result" where
  "new_AppendFileWriter io new_written filename w =
     (let (fp, w) = io_fopen io filename w in
      case fp of None \<Rightarrow> Inl Null_deref | Some f \<Rightarrow> Inr (\<lparr> af_fp = Some f, af_written = new_written \<rparr>, w))"

definition append_append :: "'w file_io \<Rightarrow> string \<Rightarrow> append_writer \<Rightarrow> 'w \<Rightarrow> (append_writer \<times> 'w) result option" where
  "append_append io msg a w =
     (case af_fp a of
        None \<Rightarrow> Some (Inl Null_deref)
      | Some fp \<Rightarrow>
          (let (n, w) = io_fwrite io fp msg w in
           map_option (\<lambda>w. Inr (a\<lparr>af_written := int32 (af_written a + int (length msg))\<rparr>, w)) (fwrite_loop io fp (drop n msg) w)))"

definition writer_append :: "'w file_io \<Rightarrow> string \<Rightarrow> writer \<Rightarrow> 'w \<Rightarrow> (writer \<times> 'w) result option" where
  "writer_append io msg f w =
     (case f of
        MMap m \<Rightarrow> Some (rbind (mmap_append msg m) (\<lambda>m. Inr (MMap m, w)))
      | Append a \<Rightarrow> map_option (\<lambda>r. rbind r (\<lambda>(a, w). Inr (Append a, w))) (append_append io msg a w))"

definition writer_flush :: "'w file_io \<Rightarrow> writer \<Rightarrow> 'w \<Rightarrow> 'w" where
  "writer_flush io f w =
     (case f of MMap m \<Rightarrow> w | Append a \<Rightarrow> (case af_fp a of None \<Rightarrow> w | Some fp \<Rightarrow> io_flush io fp w))"

subsection \<open>Rolling files\<close>

datatype writer_type = MMAPFILE | APPENDFILE

record log_file =
  lf_basename :: string
  lf_rollSize :: nat
  lf_flushInterval :: nat
  lf_checkFreqCount :: nat
  lf_count :: nat
  lf_startOfPeriod :: int
  lf_lastRoll :: int
  lf_lastFlush :: int
  lf_file :: "writer option"
  lf_type :: writer_type

definition kRollPerSeconds :: int where "kRollPerSeconds = 60 * 60 * 24"

definition period_of :: "int \<Rightarrow> int" where
  "period_of now = cdiv now kRollPerSeconds * kRollPerSeconds"

text \<open>\<open>getLogFileName\<close> gives the name and the time it is for.\<close>

type_synonym 'w namer = "string \<Rightarrow> 'w \<Rightarrow> string \<times> int \<times> 'w"

definition rollFile :: "'w file_io \<Rightarrow> 'w namer \<Rightarrow> int \<Rightarrow> log_file \<Rightarrow> 'w \<Rightarrow> (log_file \<times> 'w) result" where
  "rollFile io namer junk f w =
     (let (filename, now, w) = namer (lf_basename f) w; start = period_of now in
      if now > lf_lastRoll f then
        let f = f\<lparr>lf_lastRoll := now, lf_lastFlush := now, lf_startOfPeriod := start\<rparr> in
        case lf_type f of
          MMAPFILE \<Rightarrow> (let (m, w) = new_MMapFileWriter io filename (lf_rollSize f) w in Inr (f\<lparr>lf_file := Some (MMap m)\<rparr>, w))
        | APPENDFILE \<Rightarrow> rbind (new_AppendFileWriter io junk filename w) (\<lambda>(a, w). Inr (f\<lparr>lf_file := Some (Append a)\<rparr>, w))
      else Inr (f, w))"

text \<open>The part of \<open>LogFile::append\<close> after the message has been written.\<close>

definition after_append :: "'w file_io \<Rightarrow> 'w namer \<Rightarrow> int \<Rightarrow> writer \<Rightarrow> log_file \<Rightarrow> 'w \<Rightarrow> (log_file \<times> 'w) result" where
  "after_append io namer junk file f w =
     (if writtenBytes file > lf_rollSize f then rollFile io namer junk f w
      else
        let f = f\<lparr>lf_count := (lf_count f + 1) mod 2 ^ 32\<rparr> in
        if lf_count f \<ge> lf_checkFreqCount f then
          let f = f\<lparr>lf_count := 0\<rparr>; now = io_now io w; this_period = period_of now in
          if this_period \<noteq> lf_startOfPeriod f then rollFile io namer junk f w
          else if now - lf_lastFlush f > int (lf_flushInterval f) then
            Inr (f\<lparr>lf_lastFlush := now\<rparr>, writer_flush io file w)
          else Inr (f, w)
        else Inr (f, w))"

definition lf_append :: "'w file_io \<Rightarrow> 'w namer \<Rightarrow> int \<Rightarrow> string \<Rightarrow> log_file \<Rightarrow> 'w \<Rightarrow> (log_file \<times> 'w) result option" where
  "lf_append io namer junk msg f w =
     (case lf_file f of
        None \<Rightarrow> Some (Inl Null_deref)
      | Some file \<Rightarrow> map_option (\<lambda>r. rbind r (\<lambda>(file, w). after_append io namer junk file (f\<lparr>lf_file := Some file\<rparr>) w))
          (writer_append io msg file w))"

definition lf_flush :: "'w file_io \<Rightarrow> log_file \<Rightarrow> 'w \<Rightarrow> 'w result" where
  "lf_flush io f w = (case lf_file f of None \<Rightarrow> Inl Null_deref | Some file \<Rightarrow> Inr (writer_flush io file w))"

subsection \<open>Buffers hold what was appended\<close>

lemma new_LogBuffer_inv: "lb_inv (new_LogBuffer contents)"
  by (simp add: lb_inv_def new_LogBuffer_def)

lemma lb_append_text:
  assumes "lb_inv b" "lb_append msg b = Inr b'"
  shows "lb_text b' = lb_text b @ msg" "lb_inv b'" "lb_available b' = lb_available b - length msg"
  using assms
  by (auto simp: lb_append_def lb_inv_def lb_text_def slice_of_def overwrite_def split: if_splits)

fun lb_appends :: "string list \<Rightarrow> log_buffer \<Rightarrow> log_buffer result" where
  "lb_appends [] b = Inr b"
| "lb_appends (m # ms) b = rbind (lb_append m b) (lb_appends ms)"

lemma lb_appends_text:
  "lb_inv b \<Longrightarrow> lb_appends ms b = Inr b' \<Longrightarrow> lb_text b' = lb_text b @ concat ms \<and> lb_inv b'"
proof (induction ms arbitrary: b)
  case (Cons m ms)
  then obtain b1 where "lb_append m b = Inr b1" "lb_appends ms b1 = Inr b'" by (auto simp: rbind_eq_Inr_iff)
  then show ?case using Cons lb_append_text [of b m b1] by auto
qed simp

lemma lb_appends_ok:
  "lb_inv b \<Longrightarrow> is_ok (lb_appends ms b) \<longleftrightarrow> length (concat ms) \<le> lb_available b"
proof (induction ms arbitrary: b)
  case (Cons m ms)
  show ?case
  proof (cases "lb_append m b")
    case (Inl e)
    then show ?thesis using Cons.prems by (auto simp: lb_append_def lb_inv_def split: if_splits)
  next
    case (Inr b1)
    then have "length m \<le> lb_available b" using Cons.prems by (auto simp: lb_append_def lb_inv_def split: if_splits)
    then show ?thesis using Inr Cons lb_append_text [of b m b1] by auto
  qed
qed simp

subsection \<open>Mapped files\<close>

text \<open>A writer as the constructor leaves it and appends keep it: at most \<open>2\<^sup>3\<^sup>1 - 1\<close> bytes, all written ones mapped.\<close>

definition mmap_inv :: "mmap_writer \<Rightarrow> bool" where
  "mmap_inv m \<longleftrightarrow> 0 \<le> mf_written m \<and> mf_written m \<le> mf_memSize m \<and> mf_memSize m < 2 ^ 31
     \<and> (case mf_buffer m of None \<Rightarrow> False | Some buf \<Rightarrow> int (length buf) = mf_memSize m)"

lemma mmap_append_cases:
  assumes "mmap_inv m"
  shows "mmap_append msg m = Inr m' \<longleftrightarrow>
      (if mf_written m + int (length msg) > mf_memSize m then m' = m
       else m' = m\<lparr>mf_buffer := Some (overwrite (nat (mf_written m)) msg (the (mf_buffer m))),
              mf_written := mf_written m + int (length msg)\<rparr>)"
    and "is_ok (mmap_append msg m)"
proof -
  obtain buf where b: "mf_buffer m = Some buf" "int (length buf) = mf_memSize m"
    using assms by (auto simp: mmap_inv_def split: option.splits)
  have d: "int32 (mf_memSize m - mf_written m) = mf_memSize m - mf_written m"
    using assms by (intro int32_id) (auto simp: mmap_inv_def)
  have w: "int32 (mf_written m + int (length msg)) = mf_written m + int (length msg)"
    if "\<not> mf_written m + int (length msg) > mf_memSize m"
    using assms that by (intro int32_id) (auto simp: mmap_inv_def)
  have fits: "0 \<le> mf_written m \<and> nat (mf_written m) + length msg \<le> length buf" if "\<not> mf_written m + int (length msg) > mf_memSize m"
    using assms that b by (auto simp: mmap_inv_def)
  show "mmap_append msg m = Inr m' \<longleftrightarrow>
      (if mf_written m + int (length msg) > mf_memSize m then m' = m
       else m' = m\<lparr>mf_buffer := Some (overwrite (nat (mf_written m)) msg (the (mf_buffer m))),
              mf_written := mf_written m + int (length msg)\<rparr>)"
    using b d w fits by (auto simp: mmap_append_def)
  show "is_ok (mmap_append msg m)"
    using b d w fits by (auto simp: mmap_append_def)
qed

lemma mmap_append_step:
  assumes "mmap_inv m"
  shows "\<exists>m'. mmap_append msg m = Inr m' \<and> mmap_inv m' \<and> mf_memSize m' = mf_memSize m
    \<and> (if mf_written m + int (length msg) > mf_memSize m then m' = m
       else mmap_text m' = mmap_text m @ msg \<and> mf_written m' = mf_written m + int (length msg))"
proof (cases "mf_written m + int (length msg) > mf_memSize m")
  case True
  then show ?thesis using mmap_append_cases(1) [OF assms, of msg m] assms by auto
next
  case False
  let ?m' = "m\<lparr>mf_buffer := Some (overwrite (nat (mf_written m)) msg (the (mf_buffer m))), mf_written := mf_written m + int (length msg)\<rparr>"
  obtain buf where b: "mf_buffer m = Some buf" "int (length buf) = mf_memSize m"
    using assms by (auto simp: mmap_inv_def split: option.splits)
  then have fits: "nat (mf_written m) + length msg \<le> length buf" "0 \<le> mf_written m"
    using assms False by (auto simp: mmap_inv_def)
  have "mmap_append msg m = Inr ?m'" using mmap_append_cases(1) [OF assms, of msg ?m'] False by simp
  moreover have "mmap_inv ?m'" using assms False b fits by (auto simp: mmap_inv_def)
  moreover have "mmap_text ?m' = mmap_text m @ msg"
    using b fits by (simp add: mmap_text_def slice_of_def overwrite_def nat_add_distrib)
  ultimately show ?thesis using False by auto
qed

text \<open>The messages that fit, one after the other, into the room there is; longer ones are skipped.\<close>

fun kept :: "int \<Rightarrow> string list \<Rightarrow> string list" where
  "kept room [] = []"
| "kept room (msg # msgs) = (if int (length msg) > room then kept room msgs else msg # kept (room - int (length msg)) msgs)"

fun lf_appends :: "'w file_io \<Rightarrow> 'w namer \<Rightarrow> int \<Rightarrow> string list \<Rightarrow> log_file \<Rightarrow> 'w \<Rightarrow> (log_file \<times> 'w) result option" where
  "lf_appends io namer junk [] f w = Some (Inr (f, w))"
| "lf_appends io namer junk (msg # msgs) f w =
     (case lf_append io namer junk msg f w of
        None \<Rightarrow> None
      | Some (Inl e) \<Rightarrow> Some (Inl e)
      | Some (Inr (f, w)) \<Rightarrow> lf_appends io namer junk msgs f w)"

definition mapped_log :: "log_file \<Rightarrow> bool" where
  "mapped_log f = (case lf_file f of Some (MMap m) \<Rightarrow> mmap_inv m \<and> mf_memSize m = int (lf_rollSize f) | _ \<Rightarrow> False)"

definition mapped_text :: "log_file \<Rightarrow> string" where
  "mapped_text f = (case lf_file f of Some (MMap m) \<Rightarrow> mmap_text m | _ \<Rightarrow> [])"

definition mapped_room :: "log_file \<Rightarrow> int" where
  "mapped_room f = (case lf_file f of Some (MMap m) \<Rightarrow> mf_memSize m - mf_written m | _ \<Rightarrow> 0)"

lemma mapped_append:
  assumes "mapped_log f" "lf_count f + 1 < lf_checkFreqCount f" "lf_checkFreqCount f < 2 ^ 32"
  shows "\<exists>f'. lf_append io namer junk msg f w = Some (Inr (f', w)) \<and> mapped_log f' \<and> lf_lastRoll f' = lf_lastRoll f
    \<and> lf_count f' = lf_count f + 1 \<and> lf_checkFreqCount f' = lf_checkFreqCount f
    \<and> (if int (length msg) > mapped_room f then mapped_text f' = mapped_text f \<and> mapped_room f' = mapped_room f
       else mapped_text f' = mapped_text f @ msg \<and> mapped_room f' = mapped_room f - int (length msg))"
proof -
  obtain m where m: "lf_file f = Some (MMap m)" "mmap_inv m" "mf_memSize m = int (lf_rollSize f)"
    using assms(1) by (auto simp: mapped_log_def split: option.splits writer.splits)
  obtain m' where m': "mmap_append msg m = Inr m'" "mmap_inv m'" "mf_memSize m' = mf_memSize m"
    "if mf_written m + int (length msg) > mf_memSize m then m' = m
       else mmap_text m' = mmap_text m @ msg \<and> mf_written m' = mf_written m + int (length msg)"
    using mmap_append_step [OF m(2), of msg] by blast
  have "writtenBytes (MMap m') \<le> lf_rollSize f"
    using m'(2,3) m(3) by (auto simp: writtenBytes_def mmap_inv_def)
  moreover have "(lf_count f + 1) mod 2 ^ 32 = lf_count f + 1" using assms(2,3) by simp
  ultimately have "lf_append io namer junk msg f w
      = Some (Inr (f\<lparr>lf_file := Some (MMap m'), lf_count := lf_count f + 1\<rparr>, w))"
    using m(1) m'(1) assms(2) by (simp add: lf_append_def writer_append_def after_append_def Let_def)
  then show ?thesis using m m' by (auto simp: mapped_log_def mapped_text_def mapped_room_def split: if_splits)
qed

lemma fwrite_loop_returns:
  assumes "\<And>fp msg w. fst (io_fwrite io fp msg w) \<le> length msg"
  shows "fwrite_loop io fp msg w \<noteq> None"
proof (induction "length msg" arbitrary: msg w rule: less_induct)
  case less
  obtain x w1 where x: "io_fwrite io fp msg w = (x, w1)" by fastforce
  show ?case
  proof (cases "msg = [] \<or> x = 0")
    case True
    then show ?thesis using x by (subst fwrite_loop.simps) auto
  next
    case False
    then have "fwrite_loop io fp (drop x msg) w1 \<noteq> None" using less [of "drop x msg" w1] by simp
    then show ?thesis using x False by (subst fwrite_loop.simps) auto
  qed
qed

subsection \<open>Properties\<close>

text \<open>
  C32: a mapped log that is full drops messages. As long as no periodic check is due, a \<open>LogFile\<close> whose file is
  memory-mapped with the roll size, as \<open>rollFile\<close> makes it, never rolls because of its size, since the writer
  refuses what does not fit before the size can be exceeded: of any sequence of messages exactly those that
  still fit are in the file, in order, and the others are lost.
\<close>

theorem mapped_log_drops:
  assumes "mapped_log f" "lf_count f + length msgs < lf_checkFreqCount f" "lf_checkFreqCount f < 2 ^ 32"
  shows "\<exists>f'. lf_appends io namer junk msgs f w = Some (Inr (f', w)) \<and> mapped_log f' \<and> lf_lastRoll f' = lf_lastRoll f
    \<and> mapped_text f' = mapped_text f @ concat (kept (mapped_room f) msgs)"
  using assms
proof (induction msgs arbitrary: f)
  case (Cons msg msgs)
  have c: "lf_count f + 1 < lf_checkFreqCount f" using Cons.prems(2) by simp
  obtain f1 where f1: "lf_append io namer junk msg f w = Some (Inr (f1, w))" "mapped_log f1" "lf_lastRoll f1 = lf_lastRoll f"
    "lf_count f1 = lf_count f + 1" "lf_checkFreqCount f1 = lf_checkFreqCount f"
    "if int (length msg) > mapped_room f then mapped_text f1 = mapped_text f \<and> mapped_room f1 = mapped_room f
       else mapped_text f1 = mapped_text f @ msg \<and> mapped_room f1 = mapped_room f - int (length msg)"
    using mapped_append [OF Cons.prems(1) c Cons.prems(3), of io namer junk msg w] by blast
  obtain f2 where "lf_appends io namer junk msgs f1 w = Some (Inr (f2, w))" "mapped_log f2" "lf_lastRoll f2 = lf_lastRoll f1"
    "mapped_text f2 = mapped_text f1 @ concat (kept (mapped_room f1) msgs)"
    using Cons.IH [of f1] f1 Cons.prems by auto
  then show ?case using f1 by (auto split: if_splits)
qed simp

definition demo_file_io :: "unit file_io" where
  "demo_file_io = \<lparr> io_mmap = (\<lambda>_ n w. (Some (replicate n CHR ''.''), w)), io_fopen = (\<lambda>_ w. (Some 0, w)),
     io_fwrite = (\<lambda>_ msg w. (length msg, w)), io_flush = (\<lambda>_ w. w), io_now = (\<lambda>_. 0) \<rparr>"

definition demo_log :: log_file where
  "demo_log = \<lparr> lf_basename = ''a'', lf_rollSize = 5, lf_flushInterval = 3, lf_checkFreqCount = 1024, lf_count = 0,
     lf_startOfPeriod = 0, lf_lastRoll = 0, lf_lastFlush = 0, lf_file = None, lf_type = MMAPFILE \<rparr>"

theorem mapped_log_drops_witness:
  "\<exists>f f'. rollFile demo_file_io (\<lambda>b w. (''a.log'', 7, w)) 0 demo_log () = Inr (f, ())
     \<and> lf_appends demo_file_io (\<lambda>b w. (''a.log'', 7, w)) 0 [''abc'', ''def'', ''gh'', ''i''] f () = Some (Inr (f', ()))
     \<and> mapped_text f' = ''abcgh''"
proof -
  let ?namer = "\<lambda>b w. (''a.log'', 7, w)"
  obtain f where f: "rollFile demo_file_io ?namer 0 demo_log () = Inr (f, ())"
    "lf_file f = Some (MMap \<lparr> mf_buffer = Some (replicate 5 CHR ''.''), mf_memSize = 5, mf_written = 0 \<rparr>)"
    "lf_rollSize f = 5" "lf_count f = 0" "lf_checkFreqCount f = 1024"
    by (simp add: rollFile_def demo_log_def demo_file_io_def new_MMapFileWriter_def int32_def Let_def)
  then have "mapped_log f" "mapped_text f = []" "mapped_room f = 5"
    by (simp_all add: mapped_log_def mmap_inv_def mapped_text_def mmap_text_def mapped_room_def)
  then show ?thesis
    using mapped_log_drops [of f "[''abc'', ''def'', ''gh'', ''i'']" demo_file_io ?namer 0 "()"] f by auto
qed

end
