(* ===== verification/Lexical.thy ===== *)
theory Lexical
  imports Yaml StdContainers
begin

text \<open>
  The casts between containers and YAML text: \<open>include/fishjoy/utils/lexical.hpp\<close>.

  \<open>std::vector\<close> and \<open>std::list\<close> are lists, \<open>std::set\<close> and \<open>std::map\<close> sorted lists, the unordered containers
  lists of different elements or keys, in the order in which they are iterated. The casts of the
  element type are the parameters \<open>from_text\<close> and \<open>to_text\<close>, as in the templates.
\<close>

subsection \<open>Reading\<close>

text \<open>The loops over the elements: \<open>ss.str("")\<close>, \<open>ss << node[i]\<close>, and the cast of the text.\<close>

fun cast_elems :: "yaml_lib \<Rightarrow> (string \<Rightarrow> 'v result) \<Rightarrow> ('c \<Rightarrow> 'v \<Rightarrow> 'c) \<Rightarrow> yaml list \<Rightarrow> 'c \<Rightarrow> 'c result" where
  "cast_elems lib from_text put [] vec = Inr vec"
| "cast_elems lib from_text put (n # ns) vec =
     rbind (from_text (y_print lib n)) (\<lambda>v. cast_elems lib from_text put ns (put vec v))"

fun cast_pairs ::
  "yaml_lib \<Rightarrow> (string \<Rightarrow> 'v result) \<Rightarrow> ('c \<Rightarrow> string \<Rightarrow> 'v \<Rightarrow> 'c) \<Rightarrow> (string \<times> yaml) list \<Rightarrow> 'c \<Rightarrow> 'c result" where
  "cast_pairs lib from_text put [] m = Inr m"
| "cast_pairs lib from_text put ((k, n) # kns) m =
     rbind (from_text (y_print lib n)) (\<lambda>v. cast_pairs lib from_text put kns (put m k v))"

definition vector_FromString :: "yaml_lib \<Rightarrow> (string \<Rightarrow> 'v result) \<Rightarrow> string \<Rightarrow> 'v list result" where
  "vector_FromString lib from_text v =
     rbind (y_load lib v) (\<lambda>node. cast_elems lib from_text (\<lambda>vec x. vec @ [x]) (y_elems lib node) [])"

definition list_FromString :: "yaml_lib \<Rightarrow> (string \<Rightarrow> 'v result) \<Rightarrow> string \<Rightarrow> 'v list result" where
  "list_FromString lib from_text v =
     rbind (y_load lib v) (\<lambda>node. cast_elems lib from_text (\<lambda>vec x. vec @ [x]) (y_elems lib node) [])"

definition set_FromString :: "yaml_lib \<Rightarrow> ('v \<Rightarrow> 'v \<Rightarrow> bool) \<Rightarrow> (string \<Rightarrow> 'v result) \<Rightarrow> string \<Rightarrow> 'v list result" where
  "set_FromString lib lt from_text v =
     rbind (y_load lib v) (\<lambda>node. cast_elems lib from_text (\<lambda>vec x. set_insert lt x vec) (y_elems lib node) [])"

definition unordered_set_FromString :: "yaml_lib \<Rightarrow> (string \<Rightarrow> 'v result) \<Rightarrow> string \<Rightarrow> 'v list result" where
  "unordered_set_FromString lib from_text v =
     rbind (y_load lib v) (\<lambda>node.
       cast_elems lib from_text (\<lambda>vec x. if x \<in> set vec then vec else vec @ [x]) (y_elems lib node) [])"

definition map_FromString :: "yaml_lib \<Rightarrow> (string \<Rightarrow> 'v result) \<Rightarrow> string \<Rightarrow> (string \<times> 'v) list result" where
  "map_FromString lib from_text v =
     rbind (y_load lib v) (\<lambda>node. rbind (y_pairs lib node) (\<lambda>kns.
       cast_pairs lib from_text (\<lambda>m k x. map_insert string_less k x m) kns []))"

definition unordered_map_FromString :: "yaml_lib \<Rightarrow> (string \<Rightarrow> 'v result) \<Rightarrow> string \<Rightarrow> (string \<times> 'v) list result" where
  "unordered_map_FromString lib from_text v =
     rbind (y_load lib v) (\<lambda>node. rbind (y_pairs lib node) (\<lambda>kns.
       cast_pairs lib from_text (\<lambda>m k x. if k \<in> fst ` set m then m else m @ [(k, x)]) kns []))"

subsection \<open>Writing\<close>

fun load_elems :: "yaml_lib \<Rightarrow> ('v \<Rightarrow> string result) \<Rightarrow> 'v list \<Rightarrow> yaml list result" where
  "load_elems lib to_text [] = Inr []"
| "load_elems lib to_text (v # vs) =
     rbind (to_text v) (\<lambda>t. rbind (y_load lib t) (\<lambda>n. rbind (load_elems lib to_text vs) (\<lambda>ns. Inr (n # ns))))"

fun load_pairs :: "yaml_lib \<Rightarrow> ('v \<Rightarrow> string result) \<Rightarrow> (string \<times> 'v) list \<Rightarrow> (string \<times> yaml) list result" where
  "load_pairs lib to_text [] = Inr []"
| "load_pairs lib to_text ((k, v) # kvs) =
     rbind (to_text v) (\<lambda>t. rbind (y_load lib t) (\<lambda>n. rbind (load_pairs lib to_text kvs) (\<lambda>kns. Inr ((k, n) # kns))))"

definition vector_ToString :: "yaml_lib \<Rightarrow> ('v \<Rightarrow> string result) \<Rightarrow> 'v list \<Rightarrow> string result" where
  "vector_ToString lib to_text v = rbind (load_elems lib to_text v) (\<lambda>ns. Inr (y_print lib (seq_node ns)))"

definition list_ToString :: "yaml_lib \<Rightarrow> ('v \<Rightarrow> string result) \<Rightarrow> 'v list \<Rightarrow> string result" where
  "list_ToString lib to_text v = rbind (load_elems lib to_text v) (\<lambda>ns. Inr (y_print lib (seq_node ns)))"

definition set_ToString :: "yaml_lib \<Rightarrow> ('v \<Rightarrow> string result) \<Rightarrow> 'v list \<Rightarrow> string result" where
  "set_ToString lib to_text v = rbind (load_elems lib to_text v) (\<lambda>ns. Inr (y_print lib (seq_node ns)))"

definition unordered_set_ToString :: "yaml_lib \<Rightarrow> ('v \<Rightarrow> string result) \<Rightarrow> 'v list \<Rightarrow> string result" where
  "unordered_set_ToString lib to_text v = rbind (load_elems lib to_text v) (\<lambda>ns. Inr (y_print lib (seq_node ns)))"

definition map_ToString :: "yaml_lib \<Rightarrow> ('v \<Rightarrow> string result) \<Rightarrow> (string \<times> 'v) list \<Rightarrow> string result" where
  "map_ToString lib to_text v = rbind (load_pairs lib to_text v) (\<lambda>kns. Inr (y_print lib (map_node kns)))"

definition unordered_map_ToString :: "yaml_lib \<Rightarrow> ('v \<Rightarrow> string result) \<Rightarrow> (string \<times> 'v) list \<Rightarrow> string result" where
  "unordered_map_ToString lib to_text v = rbind (load_pairs lib to_text v) (\<lambda>kns. Inr (y_print lib (map_node kns)))"

subsection \<open>The contract of a pair of casts\<close>

text \<open>
  A value that is \<open>ok\<close> is written as a text that the library loads as the value's node, and the text of
  that node is read as the value. The casts of a container have the contract when those of its elements do, so
  that it holds for containers of containers.
\<close>

definition seq_ok :: "yaml_lib \<Rightarrow> ('v \<Rightarrow> bool) \<Rightarrow> ('v \<Rightarrow> yaml) \<Rightarrow> 'v list \<Rightarrow> bool" where
  "seq_ok lib ok node vs \<longleftrightarrow> yaml_law lib \<and> list_all ok vs \<and> reloads lib (seq_node (map node vs))"

definition pairs_node :: "('v \<Rightarrow> yaml) \<Rightarrow> (string \<times> 'v) list \<Rightarrow> yaml" where
  "pairs_node node kvs = map_node (map (\<lambda>(k, v). (k, node v)) kvs)"

definition pairs_ok :: "yaml_lib \<Rightarrow> ('v \<Rightarrow> bool) \<Rightarrow> ('v \<Rightarrow> yaml) \<Rightarrow> (string \<times> 'v) list \<Rightarrow> bool" where
  "pairs_ok lib ok node kvs \<longleftrightarrow> yaml_law lib \<and> list_all (\<lambda>(k, v). ok v) kvs \<and> reloads lib (pairs_node node kvs)"

lemma foldl_snoc: "(\<And>ys x zs. vs = ys @ x # zs \<Longrightarrow> put ys x = ys @ [x]) \<Longrightarrow> foldl put [] vs = vs"
proof (induction vs rule: rev_induct)
  case (snoc x vs)
  have "foldl put [] vs = vs" by (rule snoc.IH) (use snoc.prems in auto)
  then show ?case using snoc.prems [of vs x "[]"] by simp
qed simp

lemma fold_set_insert: "sorted_wrt lt vs \<Longrightarrow> foldl (\<lambda>vec x. set_insert lt x vec) [] vs = vs"
  by (rule foldl_snoc) (auto simp: sorted_wrt_append list_all_iff intro!: set_insert_last)

lemma fold_distinct: "distinct vs \<Longrightarrow> foldl (\<lambda>vec x. if x \<in> set vec then vec else vec @ [x]) [] vs = vs"
  by (rule foldl_snoc) auto

lemma fold_map_insert:
  "sorted_wrt lt (map fst kvs) \<Longrightarrow> foldl (\<lambda>m (k, x). map_insert lt k x m) [] kvs = kvs"
  by (rule foldl_snoc) (fastforce simp: sorted_wrt_append list_all_iff intro!: map_insert_last)

lemma fold_distinct_keys:
  "distinct (map fst kvs) \<Longrightarrow> foldl (\<lambda>m (k, x). if k \<in> fst ` set m then m else m @ [(k, x)]) [] kvs = kvs"
  by (rule foldl_snoc) auto

locale cast_pair =
  fixes lib :: yaml_lib
    and ok :: "'v \<Rightarrow> bool"
    and node :: "'v \<Rightarrow> yaml"
    and from_text :: "string \<Rightarrow> 'v result"
    and to_text :: "'v \<Rightarrow> string result"
  assumes writes: "ok v \<Longrightarrow> rbind (to_text v) (y_load lib) = Inr (node v)"
    and reads: "ok v \<Longrightarrow> from_text (y_print lib (node v)) = Inr v"
begin

lemma load_elems_nodes: "list_all ok vs \<Longrightarrow> load_elems lib to_text vs = Inr (map node vs)"
proof (induction vs)
  case (Cons v vs)
  then show ?case using writes [of v] by (cases "to_text v") simp_all
qed simp

lemma load_pairs_nodes: "list_all (\<lambda>(k, v). ok v) kvs \<Longrightarrow> load_pairs lib to_text kvs = Inr (map (\<lambda>(k, v). (k, node v)) kvs)"
proof (induction kvs)
  case (Cons kv kvs)
  obtain k v where kv: "kv = (k, v)" by fastforce
  then show ?case using Cons writes [of v] by (cases "to_text v") simp_all
qed simp

lemma cast_elems_nodes: "list_all ok vs \<Longrightarrow> cast_elems lib from_text put (map node vs) vec = Inr (foldl put vec vs)"
  by (induction vs arbitrary: vec) (simp_all add: reads)

lemma cast_pairs_nodes:
  "list_all (\<lambda>(k, v). ok v) kvs \<Longrightarrow>
    cast_pairs lib from_text put (map (\<lambda>(k, v). (k, node v)) kvs) m = Inr (foldl (\<lambda>m (k, v). put m k v) m kvs)"
  by (induction kvs arbitrary: m) (auto simp: reads)

lemma seq_read:
  assumes "seq_ok lib ok node vs"
  shows "load_elems lib to_text vs = Inr (map node vs)"
    and "y_load lib (y_print lib (seq_node (map node vs))) = Inr (seq_node (map node vs))"
    and "cast_elems lib from_text put (y_elems lib (seq_node (map node vs))) [] = Inr (foldl put [] vs)"
  using assms by (simp_all add: seq_ok_def load_elems_nodes cast_elems_nodes reloads_def elems_seq_node)

lemma pairs_read:
  assumes "pairs_ok lib ok node kvs"
  shows "load_pairs lib to_text kvs = Inr (map (\<lambda>(k, v). (k, node v)) kvs)"
    and "y_load lib (y_print lib (pairs_node node kvs)) = Inr (pairs_node node kvs)"
    and "rbind (y_pairs lib (pairs_node node kvs)) (\<lambda>kns. cast_pairs lib from_text put kns [])
      = Inr (foldl (\<lambda>m (k, v). put m k v) [] kvs)"
  using assms
  by (simp_all add: pairs_ok_def load_pairs_nodes cast_pairs_nodes reloads_def pairs_node_def pairs_map_node)

lemma vector_pair:
  "cast_pair lib (seq_ok lib ok node) (\<lambda>vs. seq_node (map node vs))
    (vector_FromString lib from_text) (vector_ToString lib to_text)"
  by unfold_locales (simp_all add: vector_FromString_def vector_ToString_def seq_read foldl_snoc)

lemma list_pair:
  "cast_pair lib (seq_ok lib ok node) (\<lambda>vs. seq_node (map node vs))
    (list_FromString lib from_text) (list_ToString lib to_text)"
  by unfold_locales (simp_all add: list_FromString_def list_ToString_def seq_read foldl_snoc)

lemma set_pair:
  "cast_pair lib (\<lambda>vs. seq_ok lib ok node vs \<and> sorted_wrt lt vs) (\<lambda>vs. seq_node (map node vs))
    (set_FromString lib lt from_text) (set_ToString lib to_text)"
  by unfold_locales (simp_all add: set_FromString_def set_ToString_def seq_read fold_set_insert)

lemma unordered_set_pair:
  "cast_pair lib (\<lambda>vs. seq_ok lib ok node vs \<and> distinct vs) (\<lambda>vs. seq_node (map node vs))
    (unordered_set_FromString lib from_text) (unordered_set_ToString lib to_text)"
  by unfold_locales (simp_all add: unordered_set_FromString_def unordered_set_ToString_def seq_read fold_distinct)

lemma map_pair:
  "cast_pair lib (\<lambda>kvs. pairs_ok lib ok node kvs \<and> sorted_wrt string_less (map fst kvs)) (pairs_node node)
    (map_FromString lib from_text) (map_ToString lib to_text)"
  by unfold_locales
    (simp_all add: map_FromString_def map_ToString_def pairs_read fold_map_insert flip: pairs_node_def)

lemma unordered_map_pair:
  "cast_pair lib (\<lambda>kvs. pairs_ok lib ok node kvs \<and> distinct (map fst kvs)) (pairs_node node)
    (unordered_map_FromString lib from_text) (unordered_map_ToString lib to_text)"
  by unfold_locales
    (simp_all add: unordered_map_FromString_def unordered_map_ToString_def pairs_read fold_distinct_keys flip: pairs_node_def)

lemma container_roundtrips:
  shows "seq_ok lib ok node vs \<Longrightarrow> rbind (vector_ToString lib to_text vs) (vector_FromString lib from_text) = Inr vs"
    and "seq_ok lib ok node vs \<Longrightarrow> rbind (list_ToString lib to_text vs) (list_FromString lib from_text) = Inr vs"
    and "seq_ok lib ok node vs \<Longrightarrow> sorted_wrt lt vs \<Longrightarrow>
      rbind (set_ToString lib to_text vs) (set_FromString lib lt from_text) = Inr vs"
    and "seq_ok lib ok node vs \<Longrightarrow> distinct vs \<Longrightarrow>
      rbind (unordered_set_ToString lib to_text vs) (unordered_set_FromString lib from_text) = Inr vs"
    and "pairs_ok lib ok node kvs \<Longrightarrow> sorted_wrt string_less (map fst kvs) \<Longrightarrow>
      rbind (map_ToString lib to_text kvs) (map_FromString lib from_text) = Inr kvs"
    and "pairs_ok lib ok node kvs \<Longrightarrow> distinct (map fst kvs) \<Longrightarrow>
      rbind (unordered_map_ToString lib to_text kvs) (unordered_map_FromString lib from_text) = Inr kvs"
  by (simp_all add: vector_ToString_def list_ToString_def set_ToString_def unordered_set_ToString_def seq_read
      map_ToString_def unordered_map_ToString_def pairs_read cast_pair.reads [OF vector_pair] cast_pair.reads [OF list_pair]
      cast_pair.reads [OF set_pair] cast_pair.reads [OF unordered_set_pair] cast_pair.reads [OF map_pair]
      cast_pair.reads [OF unordered_map_pair] flip: pairs_node_def)

end

subsection \<open>Strings and containers of strings\<close>

text \<open>For strings \<open>boost::lexical_cast\<close> is the identity.\<close>

definition text_ok :: "yaml_lib \<Rightarrow> string \<Rightarrow> bool" where
  "text_ok lib str \<longleftrightarrow> y_load lib str = Inr (Y_scalar str) \<and> y_print lib (Y_scalar str) = str"

interpretation string_cast: cast_pair lib "text_ok lib" Y_scalar Inr Inr for lib
  by unfold_locales (simp_all add: text_ok_def)

interpretation string_vector: cast_pair lib "seq_ok lib (text_ok lib) Y_scalar" "\<lambda>vs. seq_node (map Y_scalar vs)"
  "vector_FromString lib Inr" "vector_ToString lib Inr" for lib
  by (rule string_cast.vector_pair)

subsection \<open>Properties\<close>

text \<open>
  C29: The casts of the containers. Whenever an element is written as a text that the YAML library loads as
  the element's node and is read from the text of that node, and the library reloads the node of the container that it
  printed, every container comes back from its text: vectors and lists with their order, sets
  and maps under their order, the unordered ones with the order of their iteration.
\<close>

theorem container_casts_roundtrip:
  assumes writes: "\<And>v. ok v \<Longrightarrow> rbind (to_text v) (y_load lib) = Inr (node v)"
    and reads: "\<And>v. ok v \<Longrightarrow> from_text (y_print lib (node v)) = Inr v"
    and seq: "seq_ok lib ok node vs" and pairs: "pairs_ok lib ok node kvs"
  shows "rbind (vector_ToString lib to_text vs) (vector_FromString lib from_text) = Inr vs
    \<and> rbind (list_ToString lib to_text vs) (list_FromString lib from_text) = Inr vs
    \<and> (sorted_wrt lt vs \<longrightarrow> rbind (set_ToString lib to_text vs) (set_FromString lib lt from_text) = Inr vs)
    \<and> (distinct vs \<longrightarrow> rbind (unordered_set_ToString lib to_text vs) (unordered_set_FromString lib from_text) = Inr vs)
    \<and> (sorted_wrt string_less (map fst kvs) \<longrightarrow> rbind (map_ToString lib to_text kvs) (map_FromString lib from_text) = Inr kvs)
    \<and> (distinct (map fst kvs) \<longrightarrow>
        rbind (unordered_map_ToString lib to_text kvs) (unordered_map_FromString lib from_text) = Inr kvs)"
proof -
  have "cast_pair lib ok node from_text to_text" by unfold_locales (fact writes, fact reads)
  from cast_pair.container_roundtrips [OF this] show ?thesis using seq pairs by blast
qed

text \<open>Vectors of strings in a vector and in a map, with the contract of \<open>string_vector\<close>.\<close>

theorem container_casts_roundtrip_witness:
  "let vs = [[''a'', ''b''], [''c'']]; kvs = [(''x'', [''c'']), (''y'', [''a'', ''b''])];
       strs = (\<lambda>xs. seq_node (map Y_scalar xs));
       lib = tree_lib [Y_scalar [], strs [''a'', ''b''], strs [''c''], seq_node (map strs vs), pairs_node strs kvs]
         \<lparr>y_load := (\<lambda>t. if t = ''a'' \<or> t = ''b'' \<or> t = ''c'' then Inr (Y_scalar t)
            else y_load (tree_lib [Y_scalar [], strs [''a'', ''b''], strs [''c''], seq_node (map strs vs), pairs_node strs kvs]) t),
          y_print := (\<lambda>n. if n = Y_scalar ''a'' \<or> n = Y_scalar ''b'' \<or> n = Y_scalar ''c'' then Scalar n
            else y_print (tree_lib [Y_scalar [], strs [''a'', ''b''], strs [''c''], seq_node (map strs vs), pairs_node strs kvs]) n)\<rparr> in
   rbind (vector_ToString lib (vector_ToString lib Inr) vs) (vector_FromString lib (vector_FromString lib Inr)) = Inr vs
   \<and> rbind (map_ToString lib (vector_ToString lib Inr) kvs) (map_FromString lib (vector_FromString lib Inr)) = Inr kvs"
proof -
  let ?vs = "[[''a'', ''b''], [''c'']]"
  let ?kvs = "[(''x'', [''c'']), (''y'', [''a'', ''b''])]"
  let ?strs = "\<lambda>xs. seq_node (map Y_scalar xs)"
  let ?base = "tree_lib [Y_scalar [], ?strs [''a'', ''b''], ?strs [''c''], seq_node (map ?strs ?vs), pairs_node ?strs ?kvs]"
  let ?lib = "?base\<lparr>y_load := (\<lambda>t. if t = ''a'' \<or> t = ''b'' \<or> t = ''c'' then Inr (Y_scalar t) else y_load ?base t),
      y_print := (\<lambda>n. if n = Y_scalar ''a'' \<or> n = Y_scalar ''b'' \<or> n = Y_scalar ''c'' then Scalar n else y_print ?base n)\<rparr>"
  have law: "yaml_law ?lib" using tree_lib_law by (simp add: yaml_law_def)
  have texts: "text_ok ?lib ''a''" "text_ok ?lib ''b''" "text_ok ?lib ''c''" by (simp_all add: text_ok_def)
  have reload: "reloads ?lib (?strs [''a'', ''b''])" "reloads ?lib (?strs [''c''])" "reloads ?lib (seq_node (map ?strs ?vs))"
    "reloads ?lib (pairs_node ?strs ?kvs)"
    by (simp_all add: reloads_def tree_lib_def seq_node_def pairs_node_def map_node_def numeral_2_eq_2 numeral_3_eq_3)
  have elems: "seq_ok ?lib (text_ok ?lib) Y_scalar [''a'', ''b'']" "seq_ok ?lib (text_ok ?lib) Y_scalar [''c'']"
    using law texts reload by (simp_all add: seq_ok_def)
  have "seq_ok ?lib (seq_ok ?lib (text_ok ?lib) Y_scalar) ?strs ?vs" "pairs_ok ?lib (seq_ok ?lib (text_ok ?lib) Y_scalar) ?strs ?kvs"
    using law elems reload by (simp_all add: seq_ok_def [of _ "seq_ok _ _ _"] pairs_ok_def)
  moreover have "sorted_wrt string_less (map fst ?kvs)" by (simp add: string_less_def)
  ultimately show ?thesis
    unfolding Let_def using container_casts_roundtrip [where lib = ?lib and vs = ?vs and kvs = ?kvs,
      OF string_vector.writes string_vector.reads] by blast
qed

end
