(* ===== verification/Env.thy ===== *)
theory Env
  imports StringUtil StdContainers
begin

text \<open>
  The program's environment: \<open>src/config/env.cpp\<close>, \<open>include/fishjoy/config/env.hpp\<close>.

  The path \<open>readlink\<close> gives for the executable and the variables of the process are parameters; \<open>m_args\<close> is
  a \<open>std::map\<close>. The work path is the value of a configuration variable, when there is one.
\<close>

record env =
  m_args :: "(string \<times> string) list"
  m_helps :: "(string \<times> string) list"
  m_program :: string
  m_exe :: string
  m_cwd :: string

definition new_Env :: env where
  "new_Env = \<lparr> m_args = [], m_helps = [], m_program = [], m_exe = [], m_cwd = [] \<rparr>"

definition add_arg :: "string \<Rightarrow> string \<Rightarrow> env \<Rightarrow> env" where
  "add_arg key val e = e\<lparr>m_args := map_assign string_less key val (m_args e)\<rparr>"

definition has_arg :: "string \<Rightarrow> env \<Rightarrow> bool" where
  "has_arg key e = (map_find string_less key (m_args e) \<noteq> None)"

definition del_arg :: "string \<Rightarrow> env \<Rightarrow> env" where
  "del_arg key e = e\<lparr>m_args := map_erase string_less key (m_args e)\<rparr>"

definition get_arg :: "string \<Rightarrow> string \<Rightarrow> env \<Rightarrow> string" where
  "get_arg key default_value e =
     (case map_find string_less key (m_args e) of Some v \<Rightarrow> v | None \<Rightarrow> default_value)"

text \<open>\<open>m_exe.substr(0, m_exe.find_last_of("/")) + "/"\<close>; without a slash the count is \<open>npos\<close>.\<close>

definition dir_of :: "string \<Rightarrow> string" where
  "dir_of exe =
     (case find_from (\<lambda>c. c = CHR ''/'') 0 (rev exe) of
        None \<Rightarrow> exe
      | Some i \<Rightarrow> substr 0 (length exe - 1 - i) exe) @ ''/''"

text \<open>The loop over the arguments, with \<open>now_key\<close>; the result is what \<open>init\<close> returns.\<close>

fun parse_args :: "string list \<Rightarrow> string option \<Rightarrow> env \<Rightarrow> bool \<times> env" where
  "parse_args [] now_key e = (True, case now_key of None \<Rightarrow> e | Some k \<Rightarrow> add_arg k [] e)"
| "parse_args (arg # args) now_key e =
     (if arg \<noteq> [] \<and> hd arg = CHR ''-'' then
        if length arg > 1 then
          parse_args args (Some (tl arg)) (case now_key of None \<Rightarrow> e | Some k \<Rightarrow> add_arg k [] e)
        else (False, e)
      else (case now_key of
              Some k \<Rightarrow> parse_args args None (add_arg k arg e)
            | None \<Rightarrow> (False, e)))"

definition init_env :: "string \<Rightarrow> string list \<Rightarrow> env \<Rightarrow> (bool \<times> env) result" where
  "init_env exe argv e =
     (case argv of
        [] \<Rightarrow> Inl (Logic_error ''m_program = argv[0]'')
      | prog # args \<Rightarrow> Inr (parse_args args None (e\<lparr>m_exe := exe, m_cwd := dir_of exe, m_program := prog\<rparr>)))"

definition removeHelp :: "string \<Rightarrow> env \<Rightarrow> env" where
  "removeHelp key e = e\<lparr>m_helps := filter (\<lambda>(k, _). k \<noteq> key) (m_helps e)\<rparr>"

definition addHelp :: "string \<Rightarrow> string \<Rightarrow> env \<Rightarrow> env" where
  "addHelp key desc e = (let e = removeHelp key e in e\<lparr>m_helps := m_helps e @ [(key, desc)]\<rparr>)"

definition endl :: string where "endl = [CHR 0x0A]"

definition printHelp :: "env \<Rightarrow> string" where
  "printHelp e = ''Usage: '' @ m_program e @ '' [options]'' @ endl
     @ concat (map (\<lambda>(k, d). ''    -'' @ k @ '' : '' @ d @ endl) (m_helps e))"

definition getAbsolutePath :: "string \<Rightarrow> env \<Rightarrow> string" where
  "getAbsolutePath path e =
     (if path = [] then ''/'' else if hd path = CHR ''/'' then path else m_cwd e @ path)"

definition getAbsoluteWorkPath :: "string option \<Rightarrow> string \<Rightarrow> env \<Rightarrow> string result" where
  "getAbsoluteWorkPath work_path path e =
     (if path = [] then Inr ''/'' else if hd path = CHR ''/'' then Inr path
      else (case work_path of None \<Rightarrow> Inl Null_deref | Some w \<Rightarrow> Inr (w @ ''/'' @ path)))"

definition getConfigPath :: "env \<Rightarrow> string" where
  "getConfigPath e = getAbsolutePath (get_arg ''c'' ''conf'' e) e"

definition setEnv :: "(string \<Rightarrow> string \<Rightarrow> 'p \<Rightarrow> int \<times> 'p) \<Rightarrow> string \<Rightarrow> string \<Rightarrow> 'p \<Rightarrow> bool \<times> 'p" where
  "setEnv setenv key val p = (let (r, p) = setenv key val p in (r = 0, p))"

definition getEnv :: "(string \<Rightarrow> 'p \<Rightarrow> string option) \<Rightarrow> string \<Rightarrow> string \<Rightarrow> 'p \<Rightarrow> string" where
  "getEnv getenv key default_value p = (case getenv key p of None \<Rightarrow> default_value | Some v \<Rightarrow> v)"

subsection \<open>Command lines\<close>

text \<open>A command line printed from options, each a key and perhaps a value.\<close>

type_synonym cmd_option = "string \<times> string option"

definition print_option :: "cmd_option \<Rightarrow> string list" where
  "print_option p = (case p of (k, None) \<Rightarrow> [CHR ''-'' # k] | (k, Some v) \<Rightarrow> [CHR ''-'' # k, v])"

definition option_ok :: "cmd_option \<Rightarrow> bool" where
  "option_ok p = (case p of (k, v) \<Rightarrow> k \<noteq> [] \<and> (case v of None \<Rightarrow> True | Some t \<Rightarrow> t = [] \<or> hd t \<noteq> CHR ''-''))"

definition option_value :: "cmd_option \<Rightarrow> string \<times> string" where
  "option_value p = (fst p, case snd p of None \<Rightarrow> [] | Some v \<Rightarrow> v)"

definition add_pending :: "string option \<Rightarrow> env \<Rightarrow> env" where
  "add_pending now_key e = (case now_key of None \<Rightarrow> e | Some k \<Rightarrow> add_arg k [] e)"

definition add_options :: "cmd_option list \<Rightarrow> env \<Rightarrow> env" where
  "add_options ps e = fold (\<lambda>p. case option_value p of (k, v) \<Rightarrow> add_arg k v) ps e"

lemma parse_options:
  "list_all option_ok ps \<Longrightarrow> parse_args (concat (map print_option ps)) now_key e = (True, add_options ps (add_pending now_key e))"
proof (induction ps arbitrary: now_key e)
  case Nil
  then show ?case by (simp add: add_options_def add_pending_def)
next
  case (Cons p ps)
  obtain k v where p: "p = (k, v)" by fastforce
  then have k: "k \<noteq> []" using Cons.prems by (simp add: option_ok_def)
  show ?case
  proof (cases v)
    case None
    then show ?thesis using p k Cons
      by (auto simp: print_option_def add_options_def add_pending_def option_value_def split: option.splits)
  next
    case (Some t)
    then have "\<not> (t \<noteq> [] \<and> hd t = CHR ''-'')" using p Cons.prems by (auto simp: option_ok_def)
    then show ?thesis using p k Some Cons
      by (auto simp: print_option_def add_options_def add_pending_def option_value_def split: option.splits)
  qed
qed

lemma find_options:
  "map_find string_less key (m_args (add_options ps e)) =
     (case map_of (rev (map option_value ps)) key of None \<Rightarrow> map_find string_less key (m_args e) | Some v \<Rightarrow> Some v)"
proof (induction ps arbitrary: e)
  case Nil
  then show ?case by (simp add: add_options_def)
next
  case (Cons p ps)
  obtain k v where p: "option_value p = (k, v)" by fastforce
  have "add_options (p # ps) e = add_options ps (add_arg k v e)" by (simp add: add_options_def p)
  then show ?case using Cons [of "add_arg k v e"] p
    by (auto simp: add_arg_def string_order.map_find_assign string_less_same map_add_def split: option.splits)
qed

lemma options_keep: "m_cwd (add_options ps e) = m_cwd e" "m_helps (add_options ps e) = m_helps e"
proof -
  have "m_cwd (add_options ps e) = m_cwd e \<and> m_helps (add_options ps e) = m_helps e"
    by (induction ps arbitrary: e) (auto simp: add_options_def add_arg_def split: prod.splits)
  then show "m_cwd (add_options ps e) = m_cwd e" "m_helps (add_options ps e) = m_helps e" by simp_all
qed

text \<open>The help texts have distinct keys, the last description for each.\<close>

lemma addHelp_distinct: "distinct (map fst (m_helps e)) \<Longrightarrow> distinct (map fst (m_helps (addHelp key desc e)))"
  by (auto simp: addHelp_def removeHelp_def Let_def distinct_map inj_on_def)

lemma addHelp_last: "map_of (m_helps (addHelp key desc e)) k = (if k = key then Some desc else map_of (m_helps e) k)"
proof -
  have "map_of (filter (\<lambda>(k, _). k \<noteq> key) hs) j = (if j = key then None else map_of hs j)" for hs :: "(string \<times> string) list" and j
    by (induction hs) auto
  then show ?thesis by (simp add: addHelp_def removeHelp_def Let_def map_add_def split: option.splits)
qed

subsection \<open>Properties\<close>

text \<open>
  Command lines round trip. A command line printed from options whose keys are not empty and whose
  values do not start with a dash is accepted, whatever was set before; afterwards every key has the
  value of its last option (empty for an option without one), other keys keep theirs, and a relative
  configuration path given with \<open>-c\<close> is resolved against the directory of the executable.
\<close>

theorem command_line_roundtrip:
  assumes "list_all option_ok ps"
  shows "\<exists>e'. init_env exe (prog # concat (map print_option ps)) e = Inr (True, e')
     \<and> get_arg key d e' = (case map_of (rev (map option_value ps)) key of None \<Rightarrow> get_arg key d e | Some v \<Rightarrow> v)
     \<and> has_arg key e' = (key \<in> fst ` set ps \<or> has_arg key e)
     \<and> (case map_of (rev (map option_value ps)) ''c'' of None \<Rightarrow> True
        | Some v \<Rightarrow> getConfigPath e' = (if v = [] then ''/'' else if hd v = CHR ''/'' then v else dir_of exe @ v))"
proof -
  let ?e = "e\<lparr>m_exe := exe, m_cwd := dir_of exe, m_program := prog\<rparr>"
  let ?e' = "add_options ps ?e"
  have "init_env exe (prog # concat (map print_option ps)) e = Inr (True, ?e')"
    using parse_options [OF assms, of None ?e] by (simp add: init_env_def add_pending_def)
  moreover have "has_arg key ?e' = (key \<in> fst ` set ps \<or> has_arg key e)"
  proof -
    have keys: "map_of (rev (map option_value ps)) key = None \<longleftrightarrow> key \<notin> fst ` set ps"
      by (simp add: map_of_eq_None_iff option_value_def image_image)
    have m: "m_args ?e = m_args e" by simp
    show ?thesis unfolding has_arg_def find_options m using keys by (auto split: option.splits)
  qed
  moreover have "get_arg key d ?e' = (case map_of (rev (map option_value ps)) key of None \<Rightarrow> get_arg key d e | Some v \<Rightarrow> v)"
    using find_options [of key ps ?e] by (simp add: get_arg_def split: option.splits)
  moreover have "get_arg ''c'' ''conf'' ?e' = v" if "map_of (rev (map option_value ps)) ''c'' = Some v" for v
    using find_options [of "''c''" ps ?e] that by (simp add: get_arg_def)
  ultimately show ?thesis using options_keep [of ps ?e]
    by (intro exI [of _ ?e'], cases "map_of (rev (map option_value ps)) ''c''") (simp_all add: getConfigPath_def getAbsolutePath_def)
qed

theorem command_line_roundtrip_witness:
  "\<exists>e'. init_env ''/opt/app/server'' [''server'', ''-d'', ''-c'', ''etc'', ''-p'', ''80''] new_Env = Inr (True, e')
     \<and> get_arg ''p'' [] e' = ''80'' \<and> getConfigPath e' = ''/opt/app/etc''"
  using command_line_roundtrip [of "[(''d'', None), (''c'', Some ''etc''), (''p'', Some ''80'')]" "''/opt/app/server''" "''server''" new_Env "''p''" "[]"]
  by (simp add: option_ok_def print_option_def option_value_def dir_of_def substr_def) blast

end
