(* ===== verification/ThreadPool.thy ===== *)
theory ThreadPool
  imports Prelude "HOL-Library.Multiset"
begin

text \<open>
  The pool of plain threads: \<open>include/fishjoy/thread/threadpool.hpp\<close>.

  The critical sections under \<open>taskQueMtx_\<close> are atomic operations on the pool. An operating-system thread is a
  pair of the id it was given and where it stands in \<open>threadFunc\<close>; \<open>threadMap\<close> (\<open>threads_\<close>) holds the ids of the
  \<open>Thread\<close> objects. Members are named as in the source without the final underscore. The atomic counters are 32-bit
  words. \<open>generatedId_\<close> is one counter for all pools of a program.
\<close>

subsection \<open>State\<close>

datatype pool_mode = MODE_FIXED | MODE_CACHED

definition TASK_MAX_THRESHOLD :: int where "TASK_MAX_THRESHOLD = 2147483647"
definition THREAD_MAX_THRESHOLD :: u32 where "THREAD_MAX_THRESHOLD = 10"

datatype 'a thread_pc = Waiting | Busy 'a | Exited

record 'a pool =
  threadMap :: "nat list"
  initSize :: u32
  curThreadSize :: u32
  threadSizeThreshold :: u32
  idleThreadSize :: u32
  taskQue :: "'a list"
  taskSize :: u32
  taskQueMaxSizeThreshold :: int
  poolMode :: pool_mode
  isPoolRunning :: bool
  os_threads :: "(nat \<times> 'a thread_pc) list"

definition new_ThreadPool :: "'a pool" where
  "new_ThreadPool =
     \<lparr> threadMap = [], initSize = 0, curThreadSize = 0, threadSizeThreshold = THREAD_MAX_THRESHOLD,
       idleThreadSize = 0, taskQue = [], taskSize = 0, taskQueMaxSizeThreshold = TASK_MAX_THRESHOLD,
       poolMode = MODE_FIXED, isPoolRunning = False, os_threads = [] \<rparr>"

subsection \<open>Settings\<close>

definition setMode :: "pool_mode \<Rightarrow> 'a pool \<Rightarrow> 'a pool" where
  "setMode mode p = (if isPoolRunning p then p else p\<lparr>poolMode := mode\<rparr>)"

definition setTaskQueMaxThreshHold :: "int \<Rightarrow> 'a pool \<Rightarrow> 'a pool" where
  "setTaskQueMaxThreshHold threshold p = (if isPoolRunning p then p else p\<lparr>taskQueMaxSizeThreshold := threshold\<rparr>)"

definition setThreadSizeThreshHold :: "int \<Rightarrow> 'a pool \<Rightarrow> 'a pool" where
  "setThreadSizeThreshHold threshold p =
     (if isPoolRunning p then p
      else if poolMode p = MODE_CACHED then p\<lparr>threadSizeThreshold := of_int threshold\<rparr> else p)"

definition setInitThreadSize :: "int \<Rightarrow> 'a pool \<Rightarrow> 'a pool" where
  "setInitThreadSize sz p = (if isPoolRunning p then p else p\<lparr>initSize := of_int sz\<rparr>)"

subsection \<open>Starting\<close>

text \<open>The constructor of \<open>Thread\<close>, and \<open>Thread::start\<close> on the object of an id.\<close>

definition new_Thread :: "nat \<Rightarrow> nat \<times> nat" where
  "new_Thread generatedId = (generatedId, generatedId + 1)"

definition start_Thread :: "nat \<Rightarrow> 'a pool \<Rightarrow> 'a pool result" where
  "start_Thread i p =
     (if i \<in> set (threadMap p) then Inr (p\<lparr>os_threads := os_threads p @ [(i, Waiting)]\<rparr>) else Inl Null_deref)"

fun create_threads :: "nat \<Rightarrow> nat \<times> 'a pool \<Rightarrow> nat \<times> 'a pool" where
  "create_threads 0 st = st"
| "create_threads (Suc n) (gen, p) =
     (let (i, gen) = new_Thread gen in create_threads n (gen, p\<lparr>threadMap := threadMap p @ [i]\<rparr>))"

text \<open>The loop that starts \<open>threadMap[i]\<close>: the index, not the id, is looked up; a missing entry is a null pointer.\<close>

fun start_threads :: "nat list \<Rightarrow> 'a pool \<Rightarrow> 'a pool result" where
  "start_threads [] p = Inr p"
| "start_threads (i # is) p =
     rbind (start_Thread i p) (\<lambda>p. start_threads is (p\<lparr>idleThreadSize := idleThreadSize p + 1\<rparr>))"

definition start_pool :: "u32 \<Rightarrow> nat \<times> 'a pool \<Rightarrow> (nat \<times> 'a pool) result" where
  "start_pool initThreadSize st =
     (let (gen, p) = st;
          p = p\<lparr>isPoolRunning := True, initSize := initThreadSize, curThreadSize := initThreadSize\<rparr>;
          (gen, p) = create_threads (unat initThreadSize) (gen, p)
      in rbind (start_threads [0..<unat initThreadSize] p) (\<lambda>p. Inr (gen, p)))"

subsection \<open>Tasks\<close>

text \<open>
  \<open>submitTask\<close> under the lock: \<open>False\<close> when the queue stays full for a second and the task is given up. The bound is
  converted to \<open>size_t\<close>.
\<close>

definition queue_room :: "'a pool \<Rightarrow> bool" where
  "queue_room p \<longleftrightarrow> length (taskQue p) < nat (taskQueMaxSizeThreshold p mod 2 ^ 64)"

definition submitTask :: "'a \<Rightarrow> nat \<times> 'a pool \<Rightarrow> bool \<times> nat \<times> 'a pool" where
  "submitTask task st =
     (let (gen, p) = st in
      if \<not> queue_room p then (False, gen, p)
      else
        let p = p\<lparr>taskQue := taskQue p @ [task], taskSize := taskSize p + 1\<rparr> in
        if poolMode p = MODE_CACHED \<and> taskSize p > idleThreadSize p \<and> curThreadSize p < threadSizeThreshold p then
          let (i, gen) = new_Thread gen;
              p = p\<lparr>threadMap := threadMap p @ [i], os_threads := os_threads p @ [(i, Waiting)]\<rparr>;
              p = p\<lparr>curThreadSize := curThreadSize p + 1, idleThreadSize := idleThreadSize p + 1\<rparr>
          in (True, gen, p)
        else (True, gen, p))"

text \<open>The steps of \<open>threadFunc\<close> for the \<open>j\<close>-th thread: taking a task, having executed it, being recycled, leaving.\<close>

definition take_task :: "nat \<Rightarrow> 'a pool \<Rightarrow> 'a pool option" where
  "take_task j p =
     (case (os_threads p ! j, taskQue p) of
        ((i, Waiting), task # que) \<Rightarrow>
          if isPoolRunning p
          then Some (p\<lparr>idleThreadSize := idleThreadSize p - 1, taskQue := que, taskSize := taskSize p - 1,
                 os_threads := (os_threads p)[j := (i, Busy task)]\<rparr>)
          else None
      | _ \<Rightarrow> None)"

definition end_task :: "nat \<Rightarrow> 'a pool \<Rightarrow> ('a \<times> 'a pool) option" where
  "end_task j p =
     (case os_threads p ! j of
        (i, Busy task) \<Rightarrow> Some (task, p\<lparr>idleThreadSize := idleThreadSize p + 1, os_threads := (os_threads p)[j := (i, Waiting)]\<rparr>)
      | _ \<Rightarrow> None)"

definition recycle :: "nat \<Rightarrow> 'a pool \<Rightarrow> 'a pool option" where
  "recycle j p =
     (case os_threads p ! j of
        (i, Waiting) \<Rightarrow>
          if isPoolRunning p \<and> taskQue p = [] \<and> poolMode p = MODE_CACHED \<and> curThreadSize p > initSize p
          then Some (p\<lparr>threadMap := remove1 i (threadMap p), curThreadSize := curThreadSize p - 1,
                 idleThreadSize := idleThreadSize p - 1, os_threads := (os_threads p)[j := (i, Exited)]\<rparr>)
          else None
      | _ \<Rightarrow> None)"

definition leave_loop :: "nat \<Rightarrow> 'a pool \<Rightarrow> 'a pool option" where
  "leave_loop j p =
     (case os_threads p ! j of
        (i, Waiting) \<Rightarrow>
          if \<not> isPoolRunning p
          then Some (p\<lparr>threadMap := remove1 i (threadMap p), os_threads := (os_threads p)[j := (i, Exited)]\<rparr>)
          else None
      | _ \<Rightarrow> None)"

text \<open>The destructor sets the flag and returns when \<open>threadMap\<close> is empty.\<close>

definition stop_pool :: "'a pool \<Rightarrow> 'a pool" where
  "stop_pool p = p\<lparr>isPoolRunning := False\<rparr>"

definition pool_gone :: "'a pool \<Rightarrow> bool" where
  "pool_gone p = (threadMap p = [])"

subsection \<open>Interleavings\<close>

text \<open>A pool with the id counter and the history: the accepted tasks, those taken in their order, and those executed.\<close>

record 'a pool_sys =
  ps_gen :: nat
  ps_pool :: "'a pool"
  ps_submitted :: "'a list"
  ps_taken :: "'a list"
  ps_executed :: "'a list"

inductive pool_step :: "'a pool_sys \<Rightarrow> 'a pool_sys \<Rightarrow> bool" where
  p_submit: "submitTask t (ps_gen S, ps_pool S) = (True, gen, p) \<Longrightarrow>
     pool_step S (S\<lparr>ps_gen := gen, ps_pool := p, ps_submitted := ps_submitted S @ [t]\<rparr>)"
| p_take: "j < length (os_threads (ps_pool S)) \<Longrightarrow> take_task j (ps_pool S) = Some p \<Longrightarrow>
     pool_step S (S\<lparr>ps_pool := p, ps_taken := ps_taken S @ [hd (taskQue (ps_pool S))]\<rparr>)"
| p_end: "j < length (os_threads (ps_pool S)) \<Longrightarrow> end_task j (ps_pool S) = Some (t, p) \<Longrightarrow>
     pool_step S (S\<lparr>ps_pool := p, ps_executed := ps_executed S @ [t]\<rparr>)"
| p_recycle: "j < length (os_threads (ps_pool S)) \<Longrightarrow> recycle j (ps_pool S) = Some p \<Longrightarrow> pool_step S (S\<lparr>ps_pool := p\<rparr>)"
| p_leave: "j < length (os_threads (ps_pool S)) \<Longrightarrow> leave_loop j (ps_pool S) = Some p \<Longrightarrow> pool_step S (S\<lparr>ps_pool := p\<rparr>)"
| p_stop: "pool_step S (S\<lparr>ps_pool := stop_pool (ps_pool S)\<rparr>)"

text \<open>A pool is configured, then started with fewer than \<open>2\<^sup>3\<^sup>1\<close> threads, then used.\<close>

inductive configured :: "'a pool \<Rightarrow> bool" where
  c_new: "configured new_ThreadPool"
| c_mode: "configured p \<Longrightarrow> configured (setMode m p)"
| c_queue: "configured p \<Longrightarrow> configured (setTaskQueMaxThreshHold n p)"
| c_threads: "configured p \<Longrightarrow> configured (setThreadSizeThreshHold n p)"
| c_init: "configured p \<Longrightarrow> configured (setInitThreadSize n p)"

inductive pool_reachable :: "'a pool_sys \<Rightarrow> bool" where
  r_start: "configured p \<Longrightarrow> unat n < 2 ^ 31 \<Longrightarrow> start_pool n (gen, p) = Inr (gen', p') \<Longrightarrow>
     pool_reachable \<lparr> ps_gen = gen', ps_pool = p', ps_submitted = [], ps_taken = [], ps_executed = [] \<rparr>"
| r_step: "pool_reachable S \<Longrightarrow> pool_step S S' \<Longrightarrow> pool_reachable S'"

subsection \<open>Starting a pool\<close>

lemma create_threads_eq:
  "create_threads n (gen, p) = (gen + n, p\<lparr>threadMap := threadMap p @ [gen..<gen + n]\<rparr>)"
  by (induction n arbitrary: gen p) (simp_all add: new_Thread_def upt_rec)

lemma start_threads_eq:
  "start_threads is p = (if set is \<subseteq> set (threadMap p)
     then Inr (p\<lparr>os_threads := os_threads p @ map (\<lambda>i. (i, Waiting)) is, idleThreadSize := idleThreadSize p + of_nat (length is)\<rparr>)
     else Inl Null_deref)"
  by (induction "is" arbitrary: p) (auto simp: start_Thread_def)

lemma configured_fresh: "configured p \<Longrightarrow> threadMap p = [] \<and> os_threads p = [] \<and> idleThreadSize p = 0 \<and> taskQue p = []
    \<and> taskSize p = 0 \<and> \<not> isPoolRunning p"
  by (induction rule: configured.induct)
    (auto simp: new_ThreadPool_def setMode_def setTaskQueMaxThreshHold_def setThreadSizeThreshHold_def setInitThreadSize_def)

lemma start_pool_eq:
  assumes "configured p"
  shows "start_pool n (gen, p) =
    (if gen = 0 \<or> n = 0
     then Inr (gen + unat n, p\<lparr>isPoolRunning := True, initSize := n, curThreadSize := n,
            threadMap := [gen..<gen + unat n], os_threads := map (\<lambda>i. (i, Waiting)) [0..<unat n], idleThreadSize := n\<rparr>)
     else Inl Null_deref)"
proof -
  have "set [0..<unat n] \<subseteq> set [gen..<gen + unat n] \<longleftrightarrow> gen = 0 \<or> n = 0"
  proof
    assume "set [0..<unat n] \<subseteq> set [gen..<gen + unat n]"
    then have "0 < unat n \<Longrightarrow> gen = 0" by (auto simp: subset_iff)
    then show "gen = 0 \<or> n = 0" by (metis gr0I unat_eq_zero)
  qed auto
  then show ?thesis using configured_fresh [OF assms]
    by (auto simp: start_pool_def create_threads_eq start_threads_eq Let_def)
qed

subsection \<open>The invariant\<close>

definition live_threads :: "'a pool \<Rightarrow> nat" where
  "live_threads p = size (filter_mset (\<lambda>x. snd x \<noteq> Exited) (mset (os_threads p)))"

definition waiting_threads :: "'a pool \<Rightarrow> nat" where
  "waiting_threads p = size (filter_mset (\<lambda>x. snd x = Waiting) (mset (os_threads p)))"

fun pc_tasks :: "'a thread_pc \<Rightarrow> 'a list" where
  "pc_tasks (Busy t) = [t]"
| "pc_tasks _ = []"

definition busy_tasks :: "'a pool \<Rightarrow> 'a multiset" where
  "busy_tasks p = (\<Sum>x\<in>#mset (os_threads p). mset (pc_tasks (snd x)))"

definition thread_limit :: "'a pool \<Rightarrow> nat" where
  "thread_limit p = (if poolMode p = MODE_CACHED then max (unat (initSize p)) (unat (threadSizeThreshold p)) else unat (initSize p))"

definition counters_ok :: "'a pool \<Rightarrow> bool" where
  "counters_ok p \<longleftrightarrow> (isPoolRunning p \<longrightarrow>
       curThreadSize p = of_nat (live_threads p) \<and> idleThreadSize p = of_nat (waiting_threads p)
     \<and> unat (initSize p) \<le> live_threads p
     \<and> live_threads p \<le> thread_limit p)"

definition pool_sys_inv :: "'a pool_sys \<Rightarrow> bool" where
  "pool_sys_inv S \<longleftrightarrow> (let p = ps_pool S in
       counters_ok p
     \<and> taskSize p = of_nat (length (taskQue p))
     \<and> mset (threadMap p) = image_mset fst (filter_mset (\<lambda>x. snd x \<noteq> Exited) (mset (os_threads p)))
     \<and> ps_submitted S = ps_taken S @ taskQue p
     \<and> mset (ps_taken S) = busy_tasks p + mset (ps_executed S))"

lemmas thread_counts = live_threads_def waiting_threads_def busy_tasks_def

text \<open>The limit depends on the settings only.\<close>

lemma thread_limit_simps [simp]:
  "thread_limit (p\<lparr>taskQue := a\<rparr>) = thread_limit p" "thread_limit (p\<lparr>taskSize := b\<rparr>) = thread_limit p"
  "thread_limit (p\<lparr>threadMap := c\<rparr>) = thread_limit p" "thread_limit (p\<lparr>idleThreadSize := b\<rparr>) = thread_limit p"
  "thread_limit (p\<lparr>curThreadSize := b\<rparr>) = thread_limit p" "thread_limit (p\<lparr>os_threads := d\<rparr>) = thread_limit p"
  by (simp_all add: thread_limit_def)

text \<open>Changing the state of one thread, seen on the multiset of all.\<close>

lemma thread_upd:
  assumes "j < length xs"
  shows "\<exists>M. mset xs = add_mset (xs ! j) M \<and> (\<forall>y. mset (xs[j := y]) = add_mset y M)"
proof -
  have "xs ! j \<in># mset xs" using assms by simp
  then obtain M where "mset xs = add_mset (xs ! j) M" by (metis insert_DiffM)
  then show ?thesis using mset_update [OF assms] by auto
qed

lemma live_small: "counters_ok p \<Longrightarrow> isPoolRunning p \<Longrightarrow> unat (curThreadSize p) = live_threads p"
proof -
  assume c: "counters_ok p" "isPoolRunning p"
  then have "live_threads p \<le> max (unat (initSize p)) (unat (threadSizeThreshold p))"
    by (auto simp: counters_ok_def thread_limit_def split: if_splits)
  also have "\<dots> < 2 ^ 32" using unsigned_less [of "initSize p", where ?'a = nat] unsigned_less [of "threadSizeThreshold p", where ?'a = nat] by simp
  finally show ?thesis using c by (simp add: counters_ok_def unsigned_of_nat take_bit_nat_eq_self)
qed

lemma submit_inv:
  assumes "pool_sys_inv S" "submitTask t (ps_gen S, ps_pool S) = (True, gen, p)"
  shows "pool_sys_inv (S\<lparr>ps_gen := gen, ps_pool := p, ps_submitted := ps_submitted S @ [t]\<rparr>)"
proof -
  let ?p = "ps_pool S"
  have c: "counters_ok ?p" using assms(1) by (simp add: pool_sys_inv_def Let_def)
  show ?thesis
  proof (cases "poolMode ?p = MODE_CACHED \<and> taskSize ?p + 1 > idleThreadSize ?p \<and> curThreadSize ?p < threadSizeThreshold ?p")
    case True
    then have p: "p = ?p\<lparr>taskQue := taskQue ?p @ [t], taskSize := taskSize ?p + 1, threadMap := threadMap ?p @ [ps_gen S],
        os_threads := os_threads ?p @ [(ps_gen S, Waiting)], curThreadSize := curThreadSize ?p + 1, idleThreadSize := idleThreadSize ?p + 1\<rparr>"
      using assms(2) by (auto simp: submitTask_def new_Thread_def Let_def split: if_splits)
    have "counters_ok p" unfolding counters_ok_def
    proof (intro impI)
      assume "isPoolRunning p"
      then have r: "isPoolRunning ?p" using p by simp
      then have "live_threads ?p < unat (threadSizeThreshold ?p)" using live_small [OF c r] True by (simp add: word_less_nat_alt)
      then show "curThreadSize p = of_nat (live_threads p) \<and> idleThreadSize p = of_nat (waiting_threads p)
        \<and> unat (initSize p) \<le> live_threads p
        \<and> live_threads p \<le> thread_limit p"
        using c r True by (auto simp: counters_ok_def p thread_counts) (auto simp: thread_limit_def)
    qed
    then show ?thesis using assms(1) by (simp add: pool_sys_inv_def Let_def p thread_counts)
  next
    case False
    then have p: "p = ?p\<lparr>taskQue := taskQue ?p @ [t], taskSize := taskSize ?p + 1\<rparr>"
      using assms(2) by (auto simp: submitTask_def Let_def split: if_splits)
    then show ?thesis using assms(1) by (simp add: pool_sys_inv_def Let_def thread_counts counters_ok_def)
  qed
qed

lemma take_inv:
  assumes "pool_sys_inv S" "j < length (os_threads (ps_pool S))" "take_task j (ps_pool S) = Some p"
  shows "pool_sys_inv (S\<lparr>ps_pool := p, ps_taken := ps_taken S @ [hd (taskQue (ps_pool S))]\<rparr>)"
proof -
  let ?p = "ps_pool S"
  obtain i t q where o: "os_threads ?p ! j = (i, Waiting)" "taskQue ?p = t # q" "isPoolRunning ?p"
    and p: "p = ?p\<lparr>idleThreadSize := idleThreadSize ?p - 1, taskQue := q, taskSize := taskSize ?p - 1, os_threads := (os_threads ?p)[j := (i, Busy t)]\<rparr>"
    using assms(3) by (auto simp: take_task_def split: prod.splits thread_pc.splits list.splits if_splits)
  obtain M where M: "mset (os_threads ?p) = add_mset (i, Waiting) M" "mset ((os_threads ?p)[j := (i, Busy t)]) = add_mset (i, Busy t) M"
    using thread_upd [OF assms(2)] o(1) by auto
  show ?thesis using assms(1) o(2,3) M by (simp add: pool_sys_inv_def Let_def p thread_counts counters_ok_def)
qed

lemma end_inv:
  assumes "pool_sys_inv S" "j < length (os_threads (ps_pool S))" "end_task j (ps_pool S) = Some (t, p)"
  shows "pool_sys_inv (S\<lparr>ps_pool := p, ps_executed := ps_executed S @ [t]\<rparr>)"
proof -
  let ?p = "ps_pool S"
  obtain i where o: "os_threads ?p ! j = (i, Busy t)"
    and p: "p = ?p\<lparr>idleThreadSize := idleThreadSize ?p + 1, os_threads := (os_threads ?p)[j := (i, Waiting)]\<rparr>"
    using assms(3) by (auto simp: end_task_def split: prod.splits thread_pc.splits)
  obtain M where M: "mset (os_threads ?p) = add_mset (i, Busy t) M" "mset ((os_threads ?p)[j := (i, Waiting)]) = add_mset (i, Waiting) M"
    using thread_upd [OF assms(2)] o(1) by auto
  show ?thesis using assms(1) M by (simp add: pool_sys_inv_def Let_def p thread_counts counters_ok_def)
qed

lemma recycle_inv:
  assumes "pool_sys_inv S" "j < length (os_threads (ps_pool S))" "recycle j (ps_pool S) = Some p"
  shows "pool_sys_inv (S\<lparr>ps_pool := p\<rparr>)"
proof -
  let ?p = "ps_pool S"
  have c: "counters_ok ?p" using assms(1) by (simp add: pool_sys_inv_def Let_def)
  obtain i where o: "os_threads ?p ! j = (i, Waiting)" and r: "isPoolRunning ?p" "curThreadSize ?p > initSize ?p"
    and p: "p = ?p\<lparr>threadMap := remove1 i (threadMap ?p), curThreadSize := curThreadSize ?p - 1,
                 idleThreadSize := idleThreadSize ?p - 1, os_threads := (os_threads ?p)[j := (i, Exited)]\<rparr>"
    using assms(3) by (auto simp: recycle_def split: prod.splits thread_pc.splits if_splits)
  obtain M where M: "mset (os_threads ?p) = add_mset (i, Waiting) M" "mset ((os_threads ?p)[j := (i, Exited)]) = add_mset (i, Exited) M"
    using thread_upd [OF assms(2)] o(1) by auto
  have "unat (initSize ?p) < live_threads ?p" using live_small [OF c r(1)] r(2) by (simp add: word_less_nat_alt)
  then show ?thesis using assms(1) M r(1) by (auto simp: pool_sys_inv_def Let_def p thread_counts counters_ok_def)
qed

lemma leave_inv:
  assumes "pool_sys_inv S" "j < length (os_threads (ps_pool S))" "leave_loop j (ps_pool S) = Some p"
  shows "pool_sys_inv (S\<lparr>ps_pool := p\<rparr>)"
proof -
  let ?p = "ps_pool S"
  obtain i where o: "os_threads ?p ! j = (i, Waiting)" and r: "\<not> isPoolRunning ?p"
    and p: "p = ?p\<lparr>threadMap := remove1 i (threadMap ?p), os_threads := (os_threads ?p)[j := (i, Exited)]\<rparr>"
    using assms(3) by (auto simp: leave_loop_def split: prod.splits thread_pc.splits if_splits)
  obtain M where M: "mset (os_threads ?p) = add_mset (i, Waiting) M" "mset ((os_threads ?p)[j := (i, Exited)]) = add_mset (i, Exited) M"
    using thread_upd [OF assms(2)] o(1) by auto
  show ?thesis using assms(1) M r by (auto simp: pool_sys_inv_def Let_def p thread_counts counters_ok_def thread_limit_def)
qed

lemma pool_step_inv: "pool_step S S' \<Longrightarrow> pool_sys_inv S \<Longrightarrow> pool_sys_inv S'"
proof (induction rule: pool_step.induct)
  case (p_submit t S gen p)
  then show ?case by (intro submit_inv)
next
  case (p_take j S p)
  then show ?case by (intro take_inv)
next
  case (p_end j S t p)
  then show ?case by (intro end_inv)
next
  case (p_recycle j S p)
  then show ?case by (intro recycle_inv)
next
  case (p_leave j S p)
  then show ?case by (intro leave_inv)
next
  case (p_stop S)
  then show ?case by (simp add: pool_sys_inv_def Let_def stop_pool_def thread_counts counters_ok_def)
qed

lemma thread_pool_reachable_inv: "pool_reachable S \<Longrightarrow> pool_sys_inv S"
proof (induction rule: pool_reachable.induct)
  case (r_start p n gen gen' p')
  define ws :: "(nat \<times> 'a thread_pc) list" where "ws = map (\<lambda>i. (i, Waiting)) [0..<unat n]"
  have all: "\<forall>x \<in> set ws. snd x = Waiting" by (auto simp: ws_def)
  then have "filter_mset (\<lambda>x. snd x \<noteq> Exited) (mset ws) = mset ws" "filter_mset (\<lambda>x. snd x = Waiting) (mset ws) = mset ws"
    by (auto simp: filter_mset_eq_conv)
  moreover have "(\<Sum>x\<in>#mset ws. mset (pc_tasks (snd x))) = {#}" using all by simp
  moreover have "size ws = unat n" "image_mset fst (mset ws) = mset [0..<unat n]" by (simp_all add: ws_def flip: mset_map) (simp add: comp_def)
  moreover have "gen = 0 \<or> n = 0" "gen' = gen + unat n"
    "p' = p\<lparr>isPoolRunning := True, initSize := n, curThreadSize := n, threadMap := [gen..<gen + unat n], os_threads := ws, idleThreadSize := n\<rparr>"
    using r_start(3) by (auto simp: start_pool_eq [OF r_start(1)] ws_def split: if_splits)
  ultimately show ?case using configured_fresh [OF r_start(1)]
    by (auto simp: pool_sys_inv_def Let_def counters_ok_def thread_counts thread_limit_def)
next
  case (r_step S S')
  then show ?case using pool_step_inv by blast
qed

subsection \<open>Shutting down\<close>

fun pc_weight :: "'a thread_pc \<Rightarrow> nat" where
  "pc_weight (Busy t) = 2"
| "pc_weight Waiting = 1"
| "pc_weight Exited = 0"

definition work_left :: "'a pool \<Rightarrow> nat" where
  "work_left p = (\<Sum>x\<in>#mset (os_threads p). pc_weight (snd x))"

lemma work_left_upd:
  assumes "j < length (os_threads p)" "pc_weight c < pc_weight (snd (os_threads p ! j))"
  shows "(\<Sum>x\<in>#mset ((os_threads p)[j := (i, c)]). pc_weight (snd x)) < work_left p"
  using thread_upd [OF assms(1)] assms(2) by (auto simp: work_left_def)

text \<open>A stopped pool in which a thread is still in its loop can make a step that brings it closer to the end.\<close>

lemma stop_progress:
  assumes "\<not> isPoolRunning (ps_pool S)" "\<not> (\<forall>x \<in> set (os_threads (ps_pool S)). snd x = Exited)"
  shows "\<exists>S'. pool_step S S' \<and> \<not> isPoolRunning (ps_pool S') \<and> ps_taken S' = ps_taken S
    \<and> work_left (ps_pool S') < work_left (ps_pool S)"
proof -
  let ?p = "ps_pool S"
  obtain j where j: "j < length (os_threads ?p)" "snd (os_threads ?p ! j) \<noteq> Exited"
    using assms(2) by (auto simp: in_set_conv_nth)
  obtain i c where ic: "os_threads ?p ! j = (i, c)" by fastforce
  show ?thesis
  proof (cases c)
    case Waiting
    let ?q = "?p\<lparr>threadMap := remove1 i (threadMap ?p), os_threads := (os_threads ?p)[j := (i, Exited)]\<rparr>"
    have "leave_loop j ?p = Some ?q" using ic Waiting assms(1) by (simp add: leave_loop_def)
    moreover have "work_left ?q < work_left ?p" using work_left_upd [OF j(1), of Exited i] ic Waiting by (simp add: work_left_def)
    ultimately show ?thesis using p_leave [OF j(1)] assms(1) by (intro exI [of _ "S\<lparr>ps_pool := ?q\<rparr>"]) simp
  next
    case (Busy t)
    let ?q = "?p\<lparr>idleThreadSize := idleThreadSize ?p + 1, os_threads := (os_threads ?p)[j := (i, Waiting)]\<rparr>"
    have "end_task j ?p = Some (t, ?q)" using ic Busy by (simp add: end_task_def)
    moreover have "work_left ?q < work_left ?p" using work_left_upd [OF j(1), of Waiting i] ic Busy by (simp add: work_left_def)
    ultimately show ?thesis using p_end [OF j(1)] assms(1)
      by (intro exI [of _ "S\<lparr>ps_pool := ?q, ps_executed := ps_executed S @ [t]\<rparr>"]) simp
  next
    case Exited
    then show ?thesis using j(2) ic by simp
  qed
qed

lemma stop_runs_out:
  "\<not> isPoolRunning (ps_pool S) \<Longrightarrow> \<exists>S'. pool_step\<^sup>*\<^sup>* S S' \<and> ps_taken S' = ps_taken S
     \<and> (\<forall>x \<in> set (os_threads (ps_pool S')). snd x = Exited)"
proof (induction "work_left (ps_pool S)" arbitrary: S rule: less_induct)
  case less
  show ?case
  proof (cases "\<forall>x \<in> set (os_threads (ps_pool S)). snd x = Exited")
    case False
    obtain S1 where 1: "pool_step S S1" "\<not> isPoolRunning (ps_pool S1)" "ps_taken S1 = ps_taken S"
      "work_left (ps_pool S1) < work_left (ps_pool S)"
      using stop_progress [OF less.prems False] by blast
    obtain S2 where "pool_step\<^sup>*\<^sup>* S1 S2" "ps_taken S2 = ps_taken S1" "\<forall>x \<in> set (os_threads (ps_pool S2)). snd x = Exited"
      using less.hyps [OF 1(4) 1(2)] by blast
    then show ?thesis using 1 converse_rtranclp_into_rtranclp [of pool_step S S1 S2] by auto
  qed auto
qed

lemma stopped_step: "pool_step S S' \<Longrightarrow> \<not> isPoolRunning (ps_pool S) \<Longrightarrow> \<not> isPoolRunning (ps_pool S') \<and> ps_taken S' = ps_taken S"
  by (induction rule: pool_step.induct)
    (auto simp: submitTask_def take_task_def end_task_def recycle_def leave_loop_def stop_pool_def Let_def new_Thread_def
      split: if_splits prod.splits thread_pc.splits list.splits)

lemma stopped_steps: "pool_step\<^sup>*\<^sup>* S S' \<Longrightarrow> \<not> isPoolRunning (ps_pool S) \<Longrightarrow> \<not> isPoolRunning (ps_pool S') \<and> ps_taken S' = ps_taken S"
proof (induction rule: rtranclp_induct)
  case (step y z)
  then show ?case using stopped_step [OF step(2)] by simp
qed simp

lemma reachable_steps: "pool_step\<^sup>*\<^sup>* S S' \<Longrightarrow> pool_reachable S \<Longrightarrow> pool_reachable S'"
  by (induction rule: rtranclp_induct) (auto intro: r_step)

subsection \<open>Properties\<close>

text \<open>
  C8: The pool keeps its tasks and counts. In every interleaving of submissions and threads the accepted
  tasks are those taken, in the order of submission, and those in the queue; every task taken is being
  executed by one thread or has been executed once; \<open>taskSize\<close> is the length of the queue, the thread
  objects are those of the threads that have not left, and while the pool runs both thread counters are
  exact and the number of threads stays between the initial number and the limit of the mode.
\<close>

theorem thread_pool_safe:
  assumes "pool_reachable S" "p = ps_pool S"
  shows "ps_submitted S = ps_taken S @ taskQue p \<and> mset (ps_taken S) = busy_tasks p + mset (ps_executed S)
    \<and> taskSize p = of_nat (length (taskQue p)) \<and> length (threadMap p) = live_threads p
    \<and> (if isPoolRunning p then unat (curThreadSize p) = live_threads p \<and> idleThreadSize p = of_nat (waiting_threads p)
          \<and> unat (initSize p) \<le> live_threads p \<and> live_threads p \<le> thread_limit p else True)"
proof -
  have inv: "pool_sys_inv S" by (rule thread_pool_reachable_inv [OF assms(1)])
  then have "size (mset (threadMap p)) = live_threads p"
    by (simp only: pool_sys_inv_def Let_def assms(2) live_threads_def size_image_mset)
  then show ?thesis using inv live_small [of p] by (auto simp: pool_sys_inv_def Let_def assms(2) counters_ok_def)
qed

definition demo_start :: "nat pool_sys" where
  "demo_start = \<lparr> ps_gen = 2, ps_pool = new_ThreadPool\<lparr>poolMode := MODE_CACHED, isPoolRunning := True, initSize := 2, curThreadSize := 2,
     threadMap := [0, 1], os_threads := [(0, Waiting), (1, Waiting)], idleThreadSize := 2\<rparr>,
     ps_submitted = [], ps_taken = [], ps_executed = [] \<rparr>"

lemma demo_start_reachable: "pool_reachable demo_start"
proof -
  have c: "configured (setMode MODE_CACHED new_ThreadPool)" by (intro c_mode c_new)
  have "start_pool 2 (0, setMode MODE_CACHED new_ThreadPool) = Inr (2, ps_pool demo_start)"
    by (simp add: start_pool_eq [OF c] demo_start_def) (simp add: setMode_def new_ThreadPool_def upt_rec numeral_2_eq_2)
  from r_start [OF c _ this] show ?thesis by (simp add: demo_start_def)
qed

theorem thread_pool_safe_witness:
  "\<exists>S. pool_step demo_start S \<and> ps_submitted S = [7] \<and> taskQue (ps_pool S) = [7] \<and> ps_taken S = [] \<and> taskSize (ps_pool S) = 1"
proof -
  obtain gen p where sub: "submitTask 7 (ps_gen demo_start, ps_pool demo_start) = (True, gen, p)" "taskQue p = [7]"
    by (simp add: submitTask_def queue_room_def demo_start_def new_ThreadPool_def TASK_MAX_THRESHOLD_def Let_def)
  let ?S = "demo_start\<lparr>ps_gen := gen, ps_pool := p, ps_submitted := ps_submitted demo_start @ [7]\<rparr>"
  have step: "pool_step demo_start ?S" by (rule p_submit [OF sub(1)])
  have "ps_submitted ?S = [7]" by (simp add: demo_start_def)
  then show ?thesis using thread_pool_safe [OF r_step [OF demo_start_reachable step] refl] step sub(2) by (intro exI [of _ ?S]) simp
qed

text \<open>
  A program can start one pool only. \<open>start\<close> looks the new \<open>Thread\<close> objects up under \<open>0, 1, \<dots>\<close> although their
  ids go on from those of all pools before: it succeeds exactly for the first threads of the program (or for
  no threads), and otherwise follows a null pointer.
\<close>

theorem second_pool_faults:
  assumes "configured p"
  shows "start_pool n (gen, p) = Inl Null_deref \<longleftrightarrow> gen \<noteq> 0 \<and> n \<noteq> 0"
  by (simp add: start_pool_eq [OF assms])

theorem second_pool_faults_witness:
  "\<exists>gen p. start_pool 4 (0, new_ThreadPool :: nat pool) = Inr (gen, p) \<and> start_pool 4 (gen, new_ThreadPool :: nat pool) = Inl Null_deref"
  using second_pool_faults [OF c_new, of 4 4] start_pool_eq [OF c_new, of 4 0] by auto



end
