(* ===== verification/FSUtil.thy ===== *)
theory FSUtil
  imports StringUtil
begin

text \<open>
  Files and directories: \<open>src/utils/file.cpp\<close>, \<open>include/fishjoy/utils/file.hpp\<close>.

  The file system is a record of the system calls on a state of its own; \<open>readdir\<close> gives the entries a
  directory has when it is opened. The recursions over directories, which nothing in the code bounds, are
  partial functions: \<open>None\<close> stands for not returning. Their argument is a path, or the rest of the directory that is
  being read.
\<close>

datatype entry_type = DT_DIR | DT_REG | DT_OTHER

record 'w fs =
  fs_access :: "string \<Rightarrow> 'w \<Rightarrow> int"
  fs_lstat :: "string \<Rightarrow> 'w \<Rightarrow> u32 option"
  fs_mkdir :: "string \<Rightarrow> 'w \<Rightarrow> int \<times> 'w"
  fs_entries :: "string \<Rightarrow> 'w \<Rightarrow> (string \<times> entry_type) list option"
  fs_unlink :: "string \<Rightarrow> 'w \<Rightarrow> int \<times> 'w"
  fs_rmdir :: "string \<Rightarrow> 'w \<Rightarrow> int \<times> 'w"
  fs_rename :: "string \<Rightarrow> string \<Rightarrow> 'w \<Rightarrow> int \<times> 'w"
  fs_symlink :: "string \<Rightarrow> string \<Rightarrow> 'w \<Rightarrow> int \<times> 'w"
  fs_realpath :: "string \<Rightarrow> 'w \<Rightarrow> string option"

definition S_IFDIR :: u32 where "S_IFDIR = 16384"
definition S_IFSOCK :: u32 where "S_IFSOCK = 49152"
definition S_IFREG :: u32 where "S_IFREG = 32768"

definition is_dot :: "string \<Rightarrow> bool" where
  "is_dot name \<longleftrightarrow> name = ''.'' \<or> name = ''..''"

definition join :: "string \<Rightarrow> string \<Rightarrow> string" where
  "join path name = path @ ''/'' @ name"

subsection \<open>Listing\<close>

definition has_subfix :: "string \<Rightarrow> string \<Rightarrow> bool" where
  "has_subfix subfix filename \<longleftrightarrow> subfix = []
     \<or> \<not> length filename < length subfix \<and> drop (length filename - length subfix) filename = subfix"

datatype listing = List_path string | List_rest string "(string \<times> entry_type) list"

partial_function (option) list_files :: "'w fs \<Rightarrow> 'w \<Rightarrow> string \<Rightarrow> listing \<Rightarrow> string list option" where
  "list_files fs w subfix l =
     (case l of
        List_path path \<Rightarrow>
          if fs_access fs path w \<noteq> 0 then Some []
          else (case fs_entries fs path w of None \<Rightarrow> Some [] | Some es \<Rightarrow> list_files fs w subfix (List_rest path es))
      | List_rest path es \<Rightarrow>
          (case es of
             [] \<Rightarrow> Some []
           | (name, ty) # es' \<Rightarrow>
               if ty = DT_DIR \<and> \<not> is_dot name then
                 Option.bind (list_files fs w subfix (List_path (join path name))) (\<lambda>fs1.
                 Option.bind (list_files fs w subfix (List_rest path es')) (\<lambda>fs2. Some (fs1 @ fs2)))
               else
                 Option.bind (list_files fs w subfix (List_rest path es')) (\<lambda>fs2.
                   Some ((if ty = DT_REG \<and> has_subfix subfix name then [join path name] else []) @ fs2))))"

definition ListAllFile :: "'w fs \<Rightarrow> string list \<Rightarrow> string \<Rightarrow> string \<Rightarrow> 'w \<Rightarrow> string list option" where
  "ListAllFile fs files path subfix w = map_option (\<lambda>found. files @ found) (list_files fs w subfix (List_path path))"

subsection \<open>Creating directories\<close>

definition make_dir :: "'w fs \<Rightarrow> string \<Rightarrow> 'w \<Rightarrow> int \<times> 'w" where
  "make_dir fs dirname w = (if fs_access fs dirname w = 0 then (0, w) else fs_mkdir fs dirname w)"

text \<open>\<open>strchr(path + i, '/')\<close> as an index of \<open>path\<close>.\<close>

definition slash_from :: "nat \<Rightarrow> string \<Rightarrow> nat option" where
  "slash_from i path = find_from (\<lambda>c. c = CHR ''/'') i (drop i path)"

lemma find_from_bounds: "find_from P i xs = Some j \<Longrightarrow> i \<le> j \<and> j < i + length xs"
  by (induction xs arbitrary: i) (fastforce split: if_splits)+

lemma slash_from_Some: "slash_from i path = Some j \<Longrightarrow> i \<le> j \<and> j < length path"
  by (cases "i \<le> length path") (auto simp: slash_from_def dest: find_from_bounds)

function mkdir_loop :: "'w fs \<Rightarrow> string \<Rightarrow> nat option \<Rightarrow> 'w \<Rightarrow> bool \<times> 'w" where
  "mkdir_loop fs path ptr w =
     (case ptr of
        None \<Rightarrow> (let (r, w) = make_dir fs path w in (r = 0, w))
      | Some i \<Rightarrow>
          let (r, w) = make_dir fs (take i path) w in
          if r \<noteq> 0 then (False, w)
          else if i < length path then mkdir_loop fs path (slash_from (i + 1) path) w else (False, w))"
  by pat_completeness auto
termination
  by (relation "measure (\<lambda>(fs, path, ptr, w). case ptr of None \<Rightarrow> 0 | Some i \<Rightarrow> Suc (length path - i))")
    (auto split: option.splits dest!: slash_from_Some)

declare mkdir_loop.simps [simp del]

text \<open>With an empty name the search starts behind the terminating zero.\<close>

definition Mkdir :: "'w fs \<Rightarrow> string \<Rightarrow> 'w \<Rightarrow> (bool \<times> 'w) result" where
  "Mkdir fs dirname w =
     (if fs_lstat fs dirname w \<noteq> None then Inr (True, w)
      else if dirname = [] then Inl Bad_access
      else Inr (mkdir_loop fs dirname (slash_from 1 dirname) w))"

subsection \<open>Removing\<close>

definition Unlink :: "'w fs \<Rightarrow> string \<Rightarrow> bool \<Rightarrow> 'w \<Rightarrow> bool \<times> 'w" where
  "Unlink fs filename exist w =
     (if \<not> exist \<and> fs_lstat fs filename w = None then (True, w)
      else let (r, w) = fs_unlink fs filename w in (r = 0, w))"

datatype removal = Rm_path string | Rm_rest string "string list" bool

text \<open>The result of an entry overwrites \<open>ret\<close>.\<close>

partial_function (option) remove :: "'w fs \<Rightarrow> removal \<Rightarrow> 'w \<Rightarrow> (bool \<times> 'w) option" where
  "remove fs r w =
     (case r of
        Rm_path path \<Rightarrow>
          (case fs_lstat fs path w of
             None \<Rightarrow> Some (True, w)
           | Some st_mode \<Rightarrow>
               if st_mode AND S_IFDIR = 0 then Some (Unlink fs path False w)
               else (case fs_entries fs path w of
                   None \<Rightarrow> Some (False, w)
                 | Some es \<Rightarrow>
                     Option.bind (remove fs (Rm_rest path (map fst es) True) w) (\<lambda>(ret, w).
                       let (rc, w) = fs_rmdir fs path w in Some (if rc \<noteq> 0 then False else ret, w))))
      | Rm_rest path names ret \<Rightarrow>
          (case names of
             [] \<Rightarrow> Some (ret, w)
           | name # names' \<Rightarrow>
               if is_dot name then remove fs (Rm_rest path names' ret) w
               else Option.bind (remove fs (Rm_path (join path name)) w) (\<lambda>(ret, w).
                   remove fs (Rm_rest path names' ret) w)))"

definition Rm :: "'w fs \<Rightarrow> string \<Rightarrow> 'w \<Rightarrow> (bool \<times> 'w) option" where
  "Rm fs path = remove fs (Rm_path path)"

definition Mv :: "'w fs \<Rightarrow> string \<Rightarrow> string \<Rightarrow> 'w \<Rightarrow> (bool \<times> 'w) option" where
  "Mv fs from_path to_path w =
     map_option (\<lambda>(ok, w). if \<not> ok then (False, w) else let (r, w) = fs_rename fs from_path to_path w in (r = 0, w))
       (Rm fs to_path w)"

definition Symlink :: "'w fs \<Rightarrow> string \<Rightarrow> string \<Rightarrow> 'w \<Rightarrow> (bool \<times> 'w) option" where
  "Symlink fs from_path to_path w =
     map_option (\<lambda>(ok, w). if \<not> ok then (False, w) else let (r, w) = fs_symlink fs from_path to_path w in (r = 0, w))
       (Rm fs to_path w)"

definition Realpath :: "'w fs \<Rightarrow> string \<Rightarrow> string \<Rightarrow> 'w \<Rightarrow> bool \<times> string" where
  "Realpath fs path rpath w =
     (if fs_lstat fs path w = None then (False, rpath)
      else case fs_realpath fs path w of None \<Rightarrow> (False, rpath) | Some p \<Rightarrow> (True, p))"

subsection \<open>Names\<close>

definition rfind_slash :: "string \<Rightarrow> nat option" where
  "rfind_slash str = map_option (\<lambda>i. length str - 1 - i) (find_from (\<lambda>c. c = CHR ''/'') 0 (rev str))"

definition Dirname :: "string \<Rightarrow> string" where
  "Dirname filename =
     (if filename = [] then ''.''
      else case rfind_slash filename of
          None \<Rightarrow> ''.''
        | Some pos \<Rightarrow> if pos = 0 then ''/'' else substr 0 pos filename)"

definition Basename :: "string \<Rightarrow> string" where
  "Basename filename =
     (if filename = [] then filename
      else case rfind_slash filename of None \<Rightarrow> filename | Some pos \<Rightarrow> drop (pos + 1) filename)"

subsection \<open>Opening and process files\<close>

text \<open>\<open>open_stream\<close> is the call of \<open>open\<close> on the stream, with its \<open>is_open\<close> afterwards.\<close>

definition OpenForRead :: "(string \<Rightarrow> 'w \<Rightarrow> bool \<times> 'w) \<Rightarrow> string \<Rightarrow> 'w \<Rightarrow> bool \<times> 'w" where
  "OpenForRead open_stream filename w = open_stream filename w"

definition OpenForWrite :: "'w fs \<Rightarrow> (string \<Rightarrow> 'w \<Rightarrow> bool \<times> 'w) \<Rightarrow> string \<Rightarrow> 'w \<Rightarrow> (bool \<times> 'w) result" where
  "OpenForWrite fs open_stream filename w =
     (let (ok, w) = open_stream filename w in
      if \<not> ok then rbind (Mkdir fs (Dirname filename) w) (\<lambda>(_, w). Inr (open_stream filename w)) else Inr (True, w))"

text \<open>\<open>first_line\<close> is what \<open>getline\<close> reads, \<open>atoi\<close> and \<open>kill\<close> are the C library's.\<close>

definition IsRunningPidfile ::
  "'w fs \<Rightarrow> (string \<Rightarrow> 'w \<Rightarrow> string option) \<Rightarrow> (string \<Rightarrow> int) \<Rightarrow> (int \<Rightarrow> 'w \<Rightarrow> int) \<Rightarrow> string \<Rightarrow> 'w \<Rightarrow> bool" where
  "IsRunningPidfile fs first_line atoi kill pidfile w =
     (if fs_lstat fs pidfile w = None then False
      else case first_line pidfile w of
          None \<Rightarrow> False
        | Some line \<Rightarrow> line \<noteq> [] \<and> \<not> atoi line \<le> 1 \<and> kill (atoi line) w = 0)"

subsection \<open>Properties\<close>

text \<open>The last slash splits a name that has one, and \<open>Basename\<close> never has a slash.\<close>

lemma find_from_split:
  "find_from P 0 xs = Some j \<Longrightarrow> xs = take j xs @ xs ! j # drop (Suc j) xs \<and> P (xs ! j) \<and> list_all (\<lambda>x. \<not> P x) (take j xs)"
proof (induction xs arbitrary: j)
  case (Cons x xs)
  then show ?case
    by (cases j) (auto simp: find_from_eq split: if_splits)
qed (simp add: find_from_eq)

lemma unlink_gone:
  assumes law: "\<And>p w w'. fs_unlink fs p w = (0, w') \<Longrightarrow> fs_lstat fs p w' = None"
    and ok: "Unlink fs p e w = (True, w')"
  shows "fs_lstat fs p w' = None"
  using ok law [of p w w'] by (auto simp: Unlink_def split: if_splits prod.splits)

text \<open>
  What the result of \<open>Rm\<close> says. On a file system whose \<open>unlink\<close> and \<open>rmdir\<close> succeed only by taking
  the name away, a \<open>true\<close> means that the path is gone, whatever the results of the entries were. A path
  whose mode has the directory bit without being a directory, as a socket's has, is never removed: \<open>Rm\<close>
  fails to open it and returns \<open>false\<close> with the file system unchanged.
\<close>

theorem rm_result:
  fixes fs :: "'w fs"
  assumes unlinks: "\<And>p w w'. fs_unlink fs p w = (0, w') \<Longrightarrow> fs_lstat fs p w' = None"
    and rmdirs: "\<And>p w w'. fs_rmdir fs p w = (0, w') \<Longrightarrow> fs_lstat fs p w' = None"
  shows "(case Rm fs path w of Some (True, w') \<Rightarrow> fs_lstat fs path w' = None | _ \<Rightarrow> True)
    \<and> (case fs_lstat fs path w of
         Some m \<Rightarrow> m AND 61440 = S_IFSOCK \<longrightarrow> fs_entries fs path w = None \<longrightarrow> Rm fs path w = Some (False, w)
       | None \<Rightarrow> Rm fs path w = Some (True, w))"
proof
  have gone: "fs_lstat fs path b = None" if "Unlink fs path False w = (True, b)" for b
    by (rule unlink_gone [OF _ that]) (rule unlinks)
  show "case Rm fs path w of Some (True, w') \<Rightarrow> fs_lstat fs path w' = None | _ \<Rightarrow> True"
    unfolding Rm_def
    by (subst remove.simps)
      (auto simp: Let_def dest: gone rmdirs split: option.splits prod.splits bool.splits
        if_splits Option.bind_splits)
next
  have bit: "m AND S_IFDIR \<noteq> 0" if "m AND 61440 = S_IFSOCK" for m :: u32
  proof -
    have "(m AND S_IFDIR) = (m AND 61440) AND S_IFDIR"
      by (simp add: S_IFDIR_def and.assoc)
    then show ?thesis using that by (simp add: S_IFSOCK_def S_IFDIR_def)
  qed
  show "case fs_lstat fs path w of
         Some m \<Rightarrow> m AND 61440 = S_IFSOCK \<longrightarrow> fs_entries fs path w = None \<longrightarrow> Rm fs path w = Some (False, w)
       | None \<Rightarrow> Rm fs path w = Some (True, w)"
    unfolding Rm_def by (subst remove.simps, subst remove.simps) (auto dest: bit split: option.splits)
qed

text \<open>Names and their entries as the state; a directory is removed only when it is empty.\<close>

definition tree_fs :: "(string \<times> u32) list fs" where
  "tree_fs =
     \<lparr>fs_access = (\<lambda>p w. if map_of w p = None then -1 else 0),
      fs_lstat = (\<lambda>p w. map_of w p),
      fs_mkdir = (\<lambda>p w. (0, (p, S_IFDIR) # w)),
      fs_entries = (\<lambda>p w. if map_of w p = Some S_IFDIR then
          Some (map (\<lambda>(q, m). (drop (length p + 1) q, if m = S_IFDIR then DT_DIR else DT_REG))
            (filter (\<lambda>(q, m). take (length p + 1) q = p @ ''/'' \<and> CHR ''/'' \<notin> set (drop (length p + 1) q)) w)) else None),
      fs_unlink = (\<lambda>p w. if map_of w p = None then (-1, w) else (0, filter (\<lambda>(q, m). q \<noteq> p) w)),
      fs_rmdir = (\<lambda>p w. if map_of w p \<noteq> Some S_IFDIR \<or> list_ex (\<lambda>(q, m). take (length p + 1) q = p @ ''/'') w then (-1, w)
        else (0, filter (\<lambda>(q, m). q \<noteq> p) w)),
      fs_rename = (\<lambda>p q w. (-1, w)), fs_symlink = (\<lambda>p q w. (-1, w)), fs_realpath = (\<lambda>p w. Some p)\<rparr>"

lemma map_of_filter_gone: "map_of (filter (\<lambda>(q, m). q \<noteq> p) w) p = None"
  by (induction w) auto

theorem rm_result_witness:
  "Rm tree_fs ''a'' [(''a'', S_IFDIR), (''a/b'', S_IFREG), (''c'', S_IFSOCK)] = Some (True, [(''c'', S_IFSOCK)])
   \<and> (case Rm tree_fs ''a'' [(''a'', S_IFDIR), (''a/b'', S_IFREG), (''c'', S_IFSOCK)] of
        Some (True, w') \<Rightarrow> fs_lstat tree_fs ''a'' w' = None | _ \<Rightarrow> True)
   \<and> Rm tree_fs ''c'' [(''c'', S_IFSOCK)] = Some (False, [(''c'', S_IFSOCK)])"
proof -
  have unlinks: "fs_lstat tree_fs p w' = None" if "fs_unlink tree_fs p w = (0, w')" for p w w'
    using that by (auto simp: tree_fs_def map_of_filter_gone split: if_splits)
  have rmdirs: "fs_lstat tree_fs p w' = None" if "fs_rmdir tree_fs p w = (0, w')" for p w w'
    using that by (auto simp: tree_fs_def map_of_filter_gone split: if_splits)
  have run: "Rm tree_fs ''a'' [(''a'', S_IFDIR), (''a/b'', S_IFREG), (''c'', S_IFSOCK)] = Some (True, [(''c'', S_IFSOCK)])"
    unfolding Rm_def by (simp add: remove.simps tree_fs_def S_IFDIR_def S_IFREG_def S_IFSOCK_def is_dot_def join_def Unlink_def)
  show ?thesis
    using run rm_result [where fs = tree_fs and path = "''a''", OF unlinks rmdirs]
      rm_result [where fs = tree_fs and path = "''c''" and w = "[(''c'', S_IFSOCK)]", OF unlinks rmdirs]
    by (simp add: tree_fs_def S_IFDIR_def S_IFREG_def S_IFSOCK_def)
qed

end
