(* ===== verification/Settings.thy ===== *)
theory Settings
  imports Config
begin

text \<open>
  Configuration variables that are copied into static variables: the buffer and body sizes of
  \<open>src/http/http_parser.cpp\<close> and the connect timeout of \<open>src/fiber/hook.cpp\<close>. A static initialiser looks the
  variable up, copies its value and adds a listener that copies every new value.

  The rest of the program, on which listeners act, has the static variables \<open>static_of\<close> and more. \<open>U64\<close> is a value
  of a \<open>ConfigVar<uint64_t>\<close> (type 1), \<open>I32\<close> one of a \<open>ConfigVar<int>\<close> (type 2).
\<close>

subsection \<open>Static variables\<close>

datatype cached = Request_buffer_size | Request_max_body_size | Response_buffer_size | Response_max_body_size | Connect_timeout

datatype 'x setting = U64 u64 | I32 int | Other_value 'x

record statics =
  static_of :: "cached \<Rightarrow> u64"

text \<open>The assignment to a \<open>uint64_t\<close>; variables of other types are not assigned.\<close>

fun as_u64 :: "'x setting \<Rightarrow> u64" where
  "as_u64 (U64 n) = n"
| "as_u64 (I32 i) = of_int i"
| "as_u64 (Other_value x) = 0"

definition store :: "cached \<Rightarrow> 'x setting \<Rightarrow> 'z statics_scheme \<Rightarrow> 'z statics_scheme" where
  "store f v w = w\<lparr>static_of := (static_of w)(f := as_u64 v)\<rparr>"

definition cache_listener :: "cached \<Rightarrow> ('x setting, 'z statics_scheme) listener" where
  "cache_listener f = (\<lambda>old v w. Inr (store f v w))"

definition deref_var :: "nat option \<Rightarrow> nat result" where
  "deref_var p = (case p of None \<Rightarrow> Inl Null_deref | Some q \<Rightarrow> Inr q)"

definition copy_value :: "cached \<Rightarrow> nat option \<Rightarrow> ('x setting, 'z statics_scheme) config \<Rightarrow> ('x setting, 'z statics_scheme) config result" where
  "copy_value f p s =
     rbind (deref_var p) (\<lambda>q. rbind (getValue q s) (\<lambda>v. Inr (s\<lparr>cf_world := store f v (cf_world s)\<rparr>)))"

definition watch :: "cached \<Rightarrow> nat option \<Rightarrow> ('x setting, 'z statics_scheme) config \<Rightarrow> ('x setting, 'z statics_scheme) config result" where
  "watch f p s = rbind (deref_var p) (\<lambda>q. rbind (addListener q (cache_listener f) s) (\<lambda>(_, s). Inr s))"

text \<open>The variables of \<open>http_parser.cpp\<close> and \<open>_RequestSizeIniter\<close>.\<close>

definition init_http_sizes :: "('x setting, 'z statics_scheme) config \<Rightarrow> (nat option list \<times> ('x setting, 'z statics_scheme) config) result" where
  "init_http_sizes s =
     rbind (Lookup 1 ''http.request.buffer_size'' (U64 (4 * 1024)) ''http request buffer size'' s) (\<lambda>(p1, s).
     rbind (Lookup 1 ''http.request.max_body_size'' (U64 (64 * 1024 * 1024)) ''http request max body size'' s) (\<lambda>(p2, s).
     rbind (Lookup 1 ''http.response.buffer_size'' (U64 (4 * 1024)) ''http response buffer size'' s) (\<lambda>(p3, s).
     rbind (Lookup 1 ''http.response.max_body_size'' (U64 (64 * 1024 * 1024)) ''http response max body size'' s) (\<lambda>(p4, s).
     rbind (copy_value Request_buffer_size p1 s) (\<lambda>s.
     rbind (copy_value Request_max_body_size p2 s) (\<lambda>s.
     rbind (copy_value Response_buffer_size p3 s) (\<lambda>s.
     rbind (copy_value Response_max_body_size p4 s) (\<lambda>s.
     rbind (watch Request_buffer_size p1 s) (\<lambda>s.
     rbind (watch Request_max_body_size p2 s) (\<lambda>s.
     rbind (watch Response_buffer_size p3 s) (\<lambda>s.
     rbind (watch Response_max_body_size p4 s) (\<lambda>s.
       Inr ([p1, p2, p3, p4], s)))))))))))))"

text \<open>The variable of \<open>hook.cpp\<close> and \<open>_HookIniter\<close>.\<close>

definition init_connect_timeout :: "('x setting, 'z statics_scheme) config \<Rightarrow> (nat option \<times> ('x setting, 'z statics_scheme) config) result" where
  "init_connect_timeout s =
     rbind (Lookup 2 ''tcp.connect.timeout'' (I32 5000) ''tcp connect timeout'' s) (\<lambda>(p, s).
     rbind (copy_value Connect_timeout p s) (\<lambda>s.
     rbind (watch Connect_timeout p s) (\<lambda>s. Inr (p, s))))"

definition GetHttpRequestBufferSize :: "'z statics_scheme \<Rightarrow> u64" where
  "GetHttpRequestBufferSize w = static_of w Request_buffer_size"

definition GetHttpRequestMaxBodySize :: "'z statics_scheme \<Rightarrow> u64" where
  "GetHttpRequestMaxBodySize w = static_of w Request_max_body_size"

definition GetHttpResponseBufferSize :: "'z statics_scheme \<Rightarrow> u64" where
  "GetHttpResponseBufferSize w = static_of w Response_buffer_size"

definition GetHttpResponseMaxBodySize :: "'z statics_scheme \<Rightarrow> u64" where
  "GetHttpResponseMaxBodySize w = static_of w Response_max_body_size"

subsection \<open>The invariant\<close>

text \<open>Listeners that neither throw nor touch the static variables.\<close>

definition neutral :: "('x setting, 'z statics_scheme) listener \<Rightarrow> bool" where
  "neutral cb \<longleftrightarrow> (\<forall>old v w. \<exists>w'. cb old v w = Inr w' \<and> static_of w' = static_of w)"

text \<open>\<open>tr\<close> lists the static variables with the configuration variables they follow.\<close>

definition allowed :: "(cached \<times> nat) list \<Rightarrow> nat \<Rightarrow> ('x setting, 'z statics_scheme) listener \<Rightarrow> bool" where
  "allowed tr p cb \<longleftrightarrow> neutral cb \<or> (\<exists>f. (f, p) \<in> set tr \<and> cb = cache_listener f)"

definition follows :: "('x setting, 'z statics_scheme) config \<Rightarrow> cached \<Rightarrow> nat \<Rightarrow> bool" where
  "follows s f p \<longleftrightarrow> static_of (cf_world s) f = as_u64 (cv_val (cf_vars s ! p))"

definition in_sync :: "(cached \<times> nat) list \<Rightarrow> ('x setting, 'z statics_scheme) config \<Rightarrow> bool" where
  "in_sync tr s \<longleftrightarrow> distinct (map fst tr) \<and> distinct (map snd tr)
     \<and> (\<forall>(f, p) \<in> set tr. p < length (cf_vars s) \<and> follows s f p \<and> cache_listener f \<in> snd ` set (cv_cbs (cf_vars s ! p)))
     \<and> (\<forall>p < length (cf_vars s). \<forall>(i, cb) \<in> set (cv_cbs (cf_vars s ! p)).
          allowed tr p cb \<and> i \<le> unat (cf_ids s (cv_type (cf_vars s ! p))))"

lemma cache_not_neutral: "\<not> neutral (cache_listener f :: ('x setting, 'z statics_scheme) listener)"
proof
  fix w :: "'z statics_scheme" and old :: "'x setting"
  assume "neutral (cache_listener f :: ('x setting, 'z statics_scheme) listener)"
  then have "\<exists>w'. cache_listener f old (U64 (static_of w f + 1)) w = Inr w' \<and> static_of w' = static_of w"
    unfolding neutral_def by blast
  then have "(static_of w)(f := static_of w f + 1) = static_of w" by (simp add: cache_listener_def store_def)
  then have "static_of w f + 1 = static_of w f" by (metis fun_upd_same)
  then show False by simp
qed

lemma cache_listener_inject:
  "(cache_listener f :: ('x setting, 'z statics_scheme) listener) = cache_listener g \<longleftrightarrow> f = g"
proof
  fix w :: "'z statics_scheme" and old :: "'x setting"
  assume "(cache_listener f :: ('x setting, 'z statics_scheme) listener) = cache_listener g"
  then have "cache_listener f old (U64 (static_of w f + 1)) w = cache_listener g old (U64 (static_of w f + 1)) w" by simp
  then have "store f (U64 (static_of w f + 1) :: 'x setting) w = store g (U64 (static_of w f + 1) :: 'x setting) w"
    by (simp add: cache_listener_def)
  then have "static_of (store f (U64 (static_of w f + 1) :: 'x setting) w) f
      = static_of (store g (U64 (static_of w f + 1) :: 'x setting) w) f" by (rule arg_cong)
  then show "f = g" by (auto simp: store_def split: if_splits)
qed simp

text \<open>A notification with neutral listeners and at most that of one static variable.\<close>

lemma notify_statics:
  "\<forall>(i, cb) \<in> set cbs. neutral cb \<or> cb = cache_listener f \<Longrightarrow>
    \<exists>w'. notify old v cbs w = (w', None)
      \<and> static_of w' = (if cache_listener f \<in> snd ` set cbs then (static_of w)(f := as_u64 v) else static_of w)"
proof (induction cbs arbitrary: w)
  case (Cons x cbs)
  obtain i cb where x: "x = (i, cb)" by fastforce
  have rest: "\<forall>(i, cb) \<in> set cbs. neutral cb \<or> cb = cache_listener f" using Cons.prems by simp
  show ?case
  proof (cases "cb = cache_listener f")
    case True
    then have "cb old v w = Inr (store f v w)" by (simp add: cache_listener_def)
    moreover obtain w' where "notify old v cbs (store f v w) = (w', None)"
      "static_of w' = (if cache_listener f \<in> snd ` set cbs then (static_of (store f v w))(f := as_u64 v) else static_of (store f v w))"
      using Cons.IH [OF rest] by blast
    ultimately show ?thesis using x True by (auto simp: store_def fun_upd_def)
  next
    case False
    then have "neutral cb" using Cons.prems x by simp
    then obtain w1 where w1: "cb old v w = Inr w1" "static_of w1 = static_of w" unfolding neutral_def by blast
    obtain w' where "notify old v cbs w1 = (w', None)"
      "static_of w' = (if cache_listener f \<in> snd ` set cbs then (static_of w1)(f := as_u64 v) else static_of w1)"
      using Cons.IH [OF rest] by blast
    then show ?thesis using x w1 False by auto
  qed
qed simp

lemma put_cb_set: "i \<notin> fst ` set cbs \<Longrightarrow> set (put_cb i cb cbs) = insert (i, cb) (set cbs)"
  by (induction cbs) (auto split: if_splits)

subsection \<open>Operations keep the static variables in step\<close>

lemma in_sync_one:
  assumes "in_sync tr s" "(f, p) \<in> set tr" "(g, p) \<in> set tr"
  shows "f = g"
proof -
  have "distinct (map snd tr)" using assms(1) by (simp add: in_sync_def)
  then show ?thesis using assms(2,3) by (metis (no_types, lifting) distinct_map inj_onD prod.inject snd_conv)
qed

lemma in_sync_allowed:
  assumes "in_sync tr s" "p < length (cf_vars s)" "(i, cb) \<in> set (cv_cbs (cf_vars s ! p))"
  shows "allowed tr p cb"
proof -
  have "\<forall>(i, cb) \<in> set (cv_cbs (cf_vars s ! p)). allowed tr p cb \<and> i \<le> unat (cf_ids s (cv_type (cf_vars s ! p)))"
    using assms(1,2) by (simp add: in_sync_def)
  then show ?thesis using assms(3) by blast
qed

lemma in_sync_notify:
  assumes sync: "in_sync tr s" and p: "p < length (cf_vars s)"
  shows "\<exists>w'. notify old v (cv_cbs (cf_vars s ! p)) w = (w', None)
    \<and> (\<forall>(f, q) \<in> set tr. static_of w' f = (if q = p then as_u64 v else static_of w f))"
proof (cases "\<exists>f. (f, p) \<in> set tr")
  case True
  then obtain f where f: "(f, p) \<in> set tr" ..
  have cbs: "\<forall>(i, cb) \<in> set (cv_cbs (cf_vars s ! p)). neutral cb \<or> cb = cache_listener f"
  proof (clarify)
    fix i cb assume "(i, cb) \<in> set (cv_cbs (cf_vars s ! p))" "cb \<noteq> cache_listener f"
    then show "neutral cb" using in_sync_allowed [OF sync p] in_sync_one [OF sync f] unfolding allowed_def by blast
  qed
  have "cache_listener f \<in> snd ` set (cv_cbs (cf_vars s ! p))" using sync f by (auto simp: in_sync_def)
  then obtain w' where w': "notify old v (cv_cbs (cf_vars s ! p)) w = (w', None)" "static_of w' = (static_of w)(f := as_u64 v)"
    using notify_statics [OF cbs, of old v w] by auto
  have "static_of w' g = (if q = p then as_u64 v else static_of w g)" if "(g, q) \<in> set tr" for g q
  proof -
    have "distinct (map fst tr)" using sync by (simp add: in_sync_def)
    then have "g = f \<longleftrightarrow> q = p"
      using that f in_sync_one [OF sync f, of g] by (metis eq_key_imp_eq_value)
    then show ?thesis by (auto simp: w'(2))
  qed
  then show ?thesis using w'(1) by blast
next
  case False
  then have cbs: "\<forall>(i, cb) \<in> set (cv_cbs (cf_vars s ! p)). neutral cb"
    using in_sync_allowed [OF sync p] unfolding allowed_def by blast
  then have no: "cache_listener Connect_timeout \<notin> snd ` set (cv_cbs (cf_vars s ! p))"
    using cache_not_neutral by fastforce
  have "\<forall>(i, cb) \<in> set (cv_cbs (cf_vars s ! p)). neutral cb \<or> cb = cache_listener Connect_timeout" using cbs by fast
  from notify_statics [OF this, of old v w]
  obtain w' where "notify old v (cv_cbs (cf_vars s ! p)) w = (w', None)" "static_of w' = static_of w"
    using no by auto
  then show ?thesis using False by auto
qed

lemma setValue_sync:
  assumes sync: "in_sync tr s" and set: "setValue cv p v s = Inr (s', e)"
  shows "in_sync tr s' \<and> e = None"
proof -
  have p: "p < length (cf_vars s)" using set by (auto simp: setValue_def var_at_def split: if_splits)
  show ?thesis
  proof (cases "val_eq cv (cv_type (cf_vars s ! p)) v (cv_val (cf_vars s ! p))")
    case True
    then show ?thesis using sync set p by (simp add: setValue_def var_at_def)
  next
    case False
    obtain w' where w': "notify (cv_val (cf_vars s ! p)) v (cv_cbs (cf_vars s ! p)) (cf_world s) = (w', None)"
      "\<forall>(f, q) \<in> set tr. static_of w' f = (if q = p then as_u64 v else static_of (cf_world s) f)"
      using in_sync_notify [OF sync p] by blast
    then have s': "s' = put_var p ((cf_vars s ! p)\<lparr>cv_val := v\<rparr>) (s\<lparr>cf_world := w'\<rparr>)" "e = None"
      using set p False by (simp_all add: setValue_def var_at_def)
    have "follows s' f q" if "(f, q) \<in> set tr" for f q
      using that sync w'(2) by (fastforce simp: s' follows_def put_var_def in_sync_def nth_list_update p)
    moreover have "length (cf_vars s') = length (cf_vars s)" "cf_ids s' = cf_ids s"
      "\<And>q. cv_cbs (cf_vars s' ! q) = cv_cbs (cf_vars s ! q)" "\<And>q. cv_type (cf_vars s' ! q) = cv_type (cf_vars s ! q)"
      using p by (simp_all add: s'(1) put_var_def nth_list_update)
    ultimately show ?thesis using sync s'(2) unfolding in_sync_def by auto
  qed
qed

lemma fromString_sync:
  assumes "in_sync tr s" "fromString cv p str s = Inr (b, s')"
  shows "in_sync tr s'"
proof -
  obtain c where c: "var_at p s = Inr c" using assms(2) by (auto simp: fromString_def rbind_eq_Inr_iff)
  show ?thesis
  proof (cases "from_str cv (cv_type c) str")
    case (Inl e)
    then show ?thesis using assms c by (simp add: fromString_def split: if_splits)
  next
    case (Inr v)
    then obtain s1 thrown where set: "setValue cv p v s = Inr (s1, thrown)"
      using assms(2) c by (auto simp: fromString_def rbind_eq_Inr_iff)
    then show ?thesis using setValue_sync [OF assms(1) set] assms(2) c Inr by (simp add: fromString_def)
  qed
qed

lemma load_nodes_sync: "in_sync tr s \<Longrightarrow> load_nodes cv emit ns s = Inr s' \<Longrightarrow> in_sync tr s'"
proof (induction ns arbitrary: s)
  case (Cons n ns)
  obtain key node where n: "n = (key, node)" by fastforce
  show ?case using Cons n fromString_sync
    by (auto simp: rbind_eq_Inr_iff split: if_splits option.splits) blast
qed simp

lemma LoadFromYaml_sync: "in_sync tr s \<Longrightarrow> LoadFromYaml cv emit root s = Inr s' \<Longrightarrow> in_sync tr s'"
  unfolding LoadFromYaml_def by (rule load_nodes_sync)

lemma in_sync_mtimes: "in_sync tr s \<Longrightarrow> in_sync tr (s\<lparr>cf_mtimes := m\<rparr>)"
  by (simp add: in_sync_def follows_def)

lemma load_files_sync: "in_sync tr s \<Longrightarrow> load_files cv emit mtime LoadFile force fs s = Inr s' \<Longrightarrow> in_sync tr s'"
proof (induction fs arbitrary: s)
  case (Cons f fs)
  obtain t where t: "mtime f = Some t" using Cons.prems by (cases "mtime f") auto
  let ?s = "s\<lparr>cf_mtimes := (f, t) # cf_mtimes s\<rparr>"
  note m = in_sync_mtimes [OF Cons.prems(1), of "(f, t) # cf_mtimes s"]
  show ?case
  proof (cases "\<not> force \<and> mtime_of f s = t")
    case True
    then show ?thesis using Cons t by simp
  next
    case False
    show ?thesis
    proof (cases "rbind (LoadFile f) (\<lambda>root. LoadFromYaml cv emit root ?s)")
      case (Inl e)
      then show ?thesis using Cons t False m by (auto simp: Let_def split: if_splits)
    next
      case (Inr s1)
      then have "in_sync tr s1" using LoadFromYaml_sync [OF m] by (auto simp: rbind_eq_Inr_iff)
      then show ?thesis using Cons t False Inr by (simp add: Let_def)
    qed
  qed
qed simp

lemma Lookup_sync:
  assumes "in_sync tr s" "Lookup ty name v d s = Inr (r, s')"
  shows "in_sync tr s'"
proof (cases "LookupBase name s")
  case None
  then have "s' = s\<lparr>cf_vars := cf_vars s @ [new_ConfigVar ty name v d], cf_datas := cf_datas s @ [(name, length (cf_vars s))]\<rparr>"
    using assms(2) by (auto simp: Lookup_def Let_def split: if_splits)
  then show ?thesis using assms(1)
    by (auto simp: in_sync_def follows_def nth_append new_ConfigVar_def less_Suc_eq)
next
  case (Some p)
  then show ?thesis using assms by (auto simp: Lookup_def rbind_eq_Inr_iff split: if_splits)
qed

definition ids_bound :: "('x setting, 'z statics_scheme) config \<Rightarrow> bool" where
  "ids_bound s \<longleftrightarrow> (\<forall>p < length (cf_vars s). \<forall>(i, cb) \<in> set (cv_cbs (cf_vars s ! p)). i \<le> unat (cf_ids s (cv_type (cf_vars s ! p))))"

lemma in_sync_ids: "in_sync tr s \<Longrightarrow> ids_bound s"
  by (fastforce simp: in_sync_def ids_bound_def)

lemma in_sync_allowed_ids:
  "in_sync tr s \<longleftrightarrow> distinct (map fst tr) \<and> distinct (map snd tr)
     \<and> (\<forall>(f, p) \<in> set tr. p < length (cf_vars s) \<and> follows s f p \<and> cache_listener f \<in> snd ` set (cv_cbs (cf_vars s ! p)))
     \<and> (\<forall>p < length (cf_vars s). \<forall>(i, cb) \<in> set (cv_cbs (cf_vars s ! p)). allowed tr p cb) \<and> ids_bound s"
  unfolding in_sync_def ids_bound_def by fastforce

lemma addListener_effect:
  assumes add: "addListener p cb s = Inr (i, s')" and ids: "ids_bound s" and room: "cf_ids s (cv_type (cf_vars s ! p)) + 1 \<noteq> 0"
  shows "p < length (cf_vars s)" "length (cf_vars s') = length (cf_vars s)" "cf_datas s' = cf_datas s" "cf_world s' = cf_world s"
    and "\<And>q. set (cv_cbs (cf_vars s' ! q)) = (if q = p then insert (unat i, cb) (set (cv_cbs (cf_vars s ! q))) else set (cv_cbs (cf_vars s ! q)))"
    and "\<And>q. cv_type (cf_vars s' ! q) = cv_type (cf_vars s ! q)" "\<And>q. cv_name (cf_vars s' ! q) = cv_name (cf_vars s ! q)"
    and "\<And>q. cv_val (cf_vars s' ! q) = cv_val (cf_vars s ! q)"
    and "cf_ids s' = (cf_ids s)(cv_type (cf_vars s ! p) := cf_ids s (cv_type (cf_vars s ! p)) + 1)" "ids_bound s'"
proof -
  let ?ty = "cv_type (cf_vars s ! p)"
  show p: "p < length (cf_vars s)" using add by (auto simp: addListener_def var_at_def split: if_splits)
  then have s': "s' = put_var p ((cf_vars s ! p)\<lparr>cv_cbs := put_cb (unat i) cb (cv_cbs (cf_vars s ! p))\<rparr>)
      (s\<lparr>cf_ids := (cf_ids s)(?ty := i)\<rparr>)" and i: "i = cf_ids s ?ty + 1"
    using add by (auto simp: addListener_def var_at_def Let_def)
  have u: "unat i = unat (cf_ids s ?ty) + 1" using room i unatSuc [of "cf_ids s ?ty"] by (simp add: add.commute)
  have "\<forall>(j, c) \<in> set (cv_cbs (cf_vars s ! p)). j \<le> unat (cf_ids s ?ty)" using ids p by (simp add: ids_bound_def)
  then have "unat i \<notin> fst ` set (cv_cbs (cf_vars s ! p))" using u by fastforce
  then show cbs: "set (cv_cbs (cf_vars s' ! q)) = (if q = p then insert (unat i, cb) (set (cv_cbs (cf_vars s ! q))) else set (cv_cbs (cf_vars s ! q)))" for q
    using p by (simp add: s' put_var_def nth_list_update put_cb_set)
  show "length (cf_vars s') = length (cf_vars s)" "cf_datas s' = cf_datas s" "cf_world s' = cf_world s"
    "cf_ids s' = (cf_ids s)(?ty := cf_ids s ?ty + 1)"
    by (simp_all add: s' put_var_def i)
  show ty: "cv_type (cf_vars s' ! q) = cv_type (cf_vars s ! q)" "cv_name (cf_vars s' ! q) = cv_name (cf_vars s ! q)"
    "cv_val (cf_vars s' ! q) = cv_val (cf_vars s ! q)" for q
    using p by (simp_all add: s' put_var_def nth_list_update)
  have "j \<le> unat (cf_ids s' ty)" if "j \<le> unat (cf_ids s ty)" for j ty
    using that u by (auto simp: s' put_var_def)
  note grows = this
  have own: "cf_ids s' ?ty = i" and len: "length (cf_vars s') = length (cf_vars s)" by (simp_all add: s' put_var_def)
  show "ids_bound s'"
    unfolding ids_bound_def len ty
  proof (intro allI impI, clarify)
    fix q j c assume q: "q < length (cf_vars s)" and "(j, c) \<in> set (cv_cbs (cf_vars s' ! q))"
    then consider "q = p" "j = unat i" | "(j, c) \<in> set (cv_cbs (cf_vars s ! q))" by (auto simp: cbs split: if_splits)
    then show "j \<le> unat (cf_ids s' (cv_type (cf_vars s ! q)))"
    proof cases
      case 2
      then have "j \<le> unat (cf_ids s (cv_type (cf_vars s ! q)))" using ids q unfolding ids_bound_def by blast
      then show ?thesis by (rule grows)
    qed (simp add: own)
  qed
qed

lemma addListener_sync:
  assumes sync: "in_sync tr s" and add: "addListener p cb s = Inr (i, s')" and cb: "neutral cb"
    and room: "cf_ids s (cv_type (cf_vars s ! p)) + 1 \<noteq> 0"
  shows "in_sync tr s'"
proof -
  note E = addListener_effect [OF add in_sync_ids [OF sync] room]
  have "follows s' f q \<longleftrightarrow> follows s f q" for f q by (simp add: follows_def E)
  then show ?thesis
    using sync cb E(1,2,10) unfolding in_sync_allowed_ids by (auto simp: E(5) allowed_def)
qed

lemma watch_sync:
  fixes s :: "('x setting, 'z statics_scheme) config"
  assumes sync: "in_sync tr s" and new: "f \<notin> fst ` set tr" "q \<notin> snd ` set tr" "follows s f q"
    and room: "cf_ids s (cv_type (cf_vars s ! q)) + 1 \<noteq> 0" and watch: "watch f (Some q) s = Inr s'"
  shows "in_sync ((f, q) # tr) s'"
proof -
  obtain i where add: "addListener q (cache_listener f) s = Inr (i, s')"
    using watch by (auto simp: watch_def deref_var_def rbind_eq_Inr_iff)
  note E = addListener_effect [OF add in_sync_ids [OF sync] room]
  have "follows s' g r \<longleftrightarrow> follows s g r" for g r by (simp add: follows_def E)
  moreover have "allowed ((f, q) # tr) r cb" if "r < length (cf_vars s)" "(j, cb) \<in> set (cv_cbs (cf_vars s' ! r))" for r j cb
  proof (cases "r = q \<and> cb = cache_listener f")
    case True
    then show ?thesis by (auto simp: allowed_def)
  next
    case False
    then have "(j, cb) \<in> set (cv_cbs (cf_vars s ! r))" using that(2) by (auto simp: E(5) split: if_splits)
    from in_sync_allowed [OF sync that(1) this] show ?thesis by (auto simp: allowed_def)
  qed
  moreover have "\<forall>(g, p) \<in> set tr. p < length (cf_vars s) \<and> follows s g p \<and> cache_listener g \<in> snd ` set (cv_cbs (cf_vars s' ! p))"
    using sync unfolding in_sync_allowed_ids by (auto simp: E(5))
  moreover have "cache_listener f \<in> snd ` set (cv_cbs (cf_vars s' ! q))" by (force simp: E(5))
  ultimately show ?thesis
    using sync new E(1,2,10) unfolding in_sync_allowed_ids by auto
qed

lemma copy_effect:
  assumes "copy_value f (Some q) s = Inr s'"
  shows "q < length (cf_vars s)" "s' = s\<lparr>cf_world := store f (cv_val (cf_vars s ! q)) (cf_world s)\<rparr>" "follows s' f q"
    and "\<And>g r. g \<noteq> f \<Longrightarrow> follows s' g r \<longleftrightarrow> follows s g r"
proof -
  show q: "q < length (cf_vars s)" and s': "s' = s\<lparr>cf_world := store f (cv_val (cf_vars s ! q)) (cf_world s)\<rparr>"
    using assms by (auto simp: copy_value_def deref_var_def getValue_def var_at_def rbind_eq_Inr_iff split: if_splits)
  show "follows s' f q" "\<And>g r. g \<noteq> f \<Longrightarrow> follows s' g r \<longleftrightarrow> follows s g r"
    by (simp_all add: s' follows_def store_def)
qed

lemma copy_sync:
  assumes "in_sync tr s" "f \<notin> fst ` set tr" "copy_value f (Some q) s = Inr s'"
  shows "in_sync tr s'"
proof -
  note E = copy_effect [OF assms(3)]
  have "follows s' g r" if "(g, r) \<in> set tr" for g r
  proof -
    have "g \<noteq> f" using that assms(2) by force
    moreover have "follows s g r" using assms(1) that by (auto simp: in_sync_def)
    ultimately show ?thesis using E(4) by blast
  qed
  then show ?thesis using assms(1) unfolding in_sync_def by (auto simp: E(2))
qed

subsection \<open>The static initialisers\<close>

fun setting_name :: "cached \<Rightarrow> string" where
  "setting_name Request_buffer_size = ''http.request.buffer_size''"
| "setting_name Request_max_body_size = ''http.request.max_body_size''"
| "setting_name Response_buffer_size = ''http.response.buffer_size''"
| "setting_name Response_max_body_size = ''http.response.max_body_size''"
| "setting_name Connect_timeout = ''tcp.connect.timeout''"

definition tracks :: "(cached \<times> nat) list \<Rightarrow> ('x setting, 'z statics_scheme) config \<Rightarrow> bool" where
  "tracks tr s \<longleftrightarrow> in_sync tr s \<and> config_inv s \<and> (\<forall>(f, p) \<in> set tr. LookupBase (setting_name f) s = Some p)"

definition room :: "nat \<Rightarrow> ('x setting, 'z statics_scheme) config \<Rightarrow> bool" where
  "room k s \<longleftrightarrow> (\<forall>ty. unat (cf_ids s ty) + k < 2 ^ 64)"

lemma setting_name_inject: "setting_name f = setting_name g \<longleftrightarrow> f = g"
  by (cases f; cases g) simp_all

lemma room_next: "room (Suc k) s \<Longrightarrow> cf_ids s ty + 1 \<noteq> 0"
proof
  assume "room (Suc k) s" "cf_ids s ty + 1 = 0"
  then have "cf_ids s ty = - 1" "unat (cf_ids s ty) + Suc k < 2 ^ 64" by (simp_all add: room_def eq_neg_iff_add_eq_0)
  then show False by (simp add: unsigned_minus_1_eq_mask mask_eq_exp_minus_1)
qed

lemma config_inv_one_name:
  "config_inv s \<Longrightarrow> LookupBase m s = Some q \<Longrightarrow> LookupBase n s = Some q \<Longrightarrow> m = n"
  unfolding config_inv_def by blast

lemma Lookup_tracks:
  assumes "tracks tr s" "Lookup ty name v d s = Inr (r, s')"
  shows "tracks tr s' \<and> cf_ids s' = cf_ids s \<and> (\<forall>n q. LookupBase n s = Some q \<longrightarrow> LookupBase n s' = Some q)
    \<and> (\<forall>q. r = Some q \<longrightarrow> LookupBase name s' = Some q)"
proof -
  have "cf_ids s' = cf_ids s" "\<forall>n q. LookupBase n s = Some q \<longrightarrow> LookupBase n s' = Some q"
    "\<forall>q. r = Some q \<longrightarrow> LookupBase name s' = Some q"
    using assms(2) by (auto simp: Lookup_def Let_def LookupBase_def rbind_eq_Inr_iff map_add_def split: option.splits if_splits)
  moreover have "in_sync tr s'" using assms Lookup_sync unfolding tracks_def by blast
  moreover have "config_inv s'" using assms(1) Lookup_inv [OF _ assms(2)] by (simp add: tracks_def)
  moreover have "\<forall>(f, p) \<in> set tr. LookupBase (setting_name f) s = Some p" using assms(1) by (simp add: tracks_def)
  ultimately show ?thesis unfolding tracks_def by fastforce
qed

lemma copy_tracks:
  assumes tracks: "tracks tr s" and f: "f \<notin> fst ` set tr" and copy: "copy_value f p s = Inr s'"
  obtains q where "p = Some q" "tracks tr s'" "cf_ids s' = cf_ids s" "\<And>n. LookupBase n s' = LookupBase n s" "follows s' f q"
    "\<And>g r. g \<noteq> f \<Longrightarrow> follows s' g r \<longleftrightarrow> follows s g r"
proof -
  obtain q where p: "p = Some q" using copy by (cases p) (auto simp: copy_value_def deref_var_def)
  note E = copy_effect [OF copy [unfolded p]]
  have "in_sync tr s'" using tracks f copy copy_sync unfolding tracks_def p by blast
  then have "tracks tr s'" using tracks by (simp add: tracks_def E(2) config_inv_def)
  then show ?thesis using that p E by simp
qed

lemma watch_tracks:
  assumes tracks: "tracks tr s" and f: "f \<notin> fst ` set tr" and q: "LookupBase (setting_name f) s = Some q" "follows s f q"
    and room: "room (Suc k) s" and watch: "watch f (Some q) s = Inr s'"
  shows "tracks ((f, q) # tr) s'" "room k s'" "LookupBase n s' = LookupBase n s" "follows s' g r \<longleftrightarrow> follows s g r"
proof -
  obtain i where add: "addListener q (cache_listener f) s = Inr (i, s')"
    using watch by (auto simp: watch_def deref_var_def rbind_eq_Inr_iff)
  have sync: "in_sync tr s" and inv: "config_inv s" and names: "\<forall>(f, p) \<in> set tr. LookupBase (setting_name f) s = Some p"
    using tracks by (simp_all add: tracks_def)
  note next_id = room_next [OF room, of "cv_type (cf_vars s ! q)"]
  note E = addListener_effect [OF add in_sync_ids [OF sync] next_id]
  have "q \<notin> snd ` set tr"
  proof
    assume "q \<in> snd ` set tr"
    then obtain g where g: "(g, q) \<in> set tr" by force
    then have "LookupBase (setting_name g) s = Some q" using names by fast
    then have "g = f" using config_inv_one_name [OF inv q(1)] setting_name_inject by metis
    then show False using g f by force
  qed
  then have "in_sync ((f, q) # tr) s'" by (rule watch_sync [OF sync f _ q(2) next_id watch])
  moreover have lb: "LookupBase n s' = LookupBase n s" for n by (simp add: LookupBase_def E)
  moreover have "config_inv s'" using inv by (simp add: config_inv_def lb E)
  ultimately show "tracks ((f, q) # tr) s'" using names q(1) by (simp add: tracks_def)
  show "LookupBase n s' = LookupBase n s" by (rule lb)
  show "follows s' g r \<longleftrightarrow> follows s g r" by (simp add: follows_def E)
  have "unat (cf_ids s ty + 1) = Suc (unat (cf_ids s ty))" for ty
    using unatSuc [of "cf_ids s ty"] room_next [OF room, of ty] by (simp add: add.commute)
  then show "room k s'" using room unfolding room_def E(9) by (auto simp: less_imp_le Suc_lessD)
qed

lemma init_connect_tracks:
  assumes tracks: "tracks tr s" and room: "room (Suc k) s" and new: "Connect_timeout \<notin> fst ` set tr"
    and init: "init_connect_timeout s = Inr (p, s')"
  obtains q where "p = Some q" "tracks ((Connect_timeout, q) # tr) s'" "room k s'"
proof -
  obtain s1 s2 where run: "Lookup 2 ''tcp.connect.timeout'' (I32 5000) ''tcp connect timeout'' s = Inr (p, s1)"
    "copy_value Connect_timeout p s1 = Inr s2" "watch Connect_timeout p s2 = Inr s'"
    using init by (auto simp: init_connect_timeout_def rbind_eq_Inr_iff)
  note L = Lookup_tracks [OF tracks run(1)]
  obtain q where q: "p = Some q" and C: "tracks tr s2" "cf_ids s2 = cf_ids s1" "\<And>n. LookupBase n s2 = LookupBase n s1"
    "follows s2 Connect_timeout q"
    using copy_tracks [OF _ new run(2)] L by metis
  have "LookupBase (setting_name Connect_timeout) s2 = Some q" using L q C(3) by simp
  moreover have "room (Suc k) s2" using room L C(2) by (simp add: room_def)
  ultimately show ?thesis
    using that [OF q] watch_tracks [OF C(1) new _ C(4)] run(3) q by metis
qed

definition http_settings :: "cached list" where
  "http_settings = [Request_buffer_size, Request_max_body_size, Response_buffer_size, Response_max_body_size]"

lemma init_http_tracks:
  assumes tracks: "tracks tr s" and room: "room (k + 4) s" and new: "\<forall>f \<in> set http_settings. f \<notin> fst ` set tr"
    and init: "init_http_sizes s = Inr (ps, s')"
  obtains q1 q2 q3 q4 where "ps = [Some q1, Some q2, Some q3, Some q4]" "room k s'"
    "tracks ([(Response_max_body_size, q4), (Response_buffer_size, q3), (Request_max_body_size, q2), (Request_buffer_size, q1)] @ tr) s'"
proof -
  let ?n1 = "setting_name Request_buffer_size" let ?n2 = "setting_name Request_max_body_size"
  let ?n3 = "setting_name Response_buffer_size" let ?n4 = "setting_name Response_max_body_size"
  obtain p1 p2 p3 p4 a1 a2 a3 a4 b1 b2 b3 b4 c1 c2 c3 where
    l1: "Lookup 1 ?n1 (U64 (4 * 1024)) ''http request buffer size'' s = Inr (p1, a1)" and
    l2: "Lookup 1 ?n2 (U64 (64 * 1024 * 1024)) ''http request max body size'' a1 = Inr (p2, a2)" and
    l3: "Lookup 1 ?n3 (U64 (4 * 1024)) ''http response buffer size'' a2 = Inr (p3, a3)" and
    l4: "Lookup 1 ?n4 (U64 (64 * 1024 * 1024)) ''http response max body size'' a3 = Inr (p4, a4)" and
    c: "copy_value Request_buffer_size p1 a4 = Inr b1" "copy_value Request_max_body_size p2 b1 = Inr b2"
      "copy_value Response_buffer_size p3 b2 = Inr b3" "copy_value Response_max_body_size p4 b3 = Inr b4" and
    w: "watch Request_buffer_size p1 b4 = Inr c1" "watch Request_max_body_size p2 c1 = Inr c2"
      "watch Response_buffer_size p3 c2 = Inr c3" "watch Response_max_body_size p4 c3 = Inr s'" and
    ps: "ps = [p1, p2, p3, p4]"
    using init by (auto simp: init_http_sizes_def rbind_eq_Inr_iff)
  note L1 = Lookup_tracks [OF tracks l1]
  note L2 = Lookup_tracks [OF L1 [THEN conjunct1] l2]
  note L3 = Lookup_tracks [OF L2 [THEN conjunct1] l3]
  note L4 = Lookup_tracks [OF L3 [THEN conjunct1] l4]
  have fresh: "Request_buffer_size \<notin> fst ` set tr" "Request_max_body_size \<notin> fst ` set tr"
    "Response_buffer_size \<notin> fst ` set tr" "Response_max_body_size \<notin> fst ` set tr"
    using new by (simp_all add: http_settings_def)
  obtain q1 where C1: "p1 = Some q1" "tracks tr b1" "cf_ids b1 = cf_ids a4" "\<And>n. LookupBase n b1 = LookupBase n a4"
    "follows b1 Request_buffer_size q1" using copy_tracks [OF L4 [THEN conjunct1] fresh(1) c(1)] by metis
  obtain q2 where C2: "p2 = Some q2" "tracks tr b2" "cf_ids b2 = cf_ids b1" "\<And>n. LookupBase n b2 = LookupBase n b1"
    "follows b2 Request_max_body_size q2" "\<And>g r. g \<noteq> Request_max_body_size \<Longrightarrow> follows b2 g r \<longleftrightarrow> follows b1 g r"
    using copy_tracks [OF C1(2) fresh(2) c(2)] by metis
  obtain q3 where C3: "p3 = Some q3" "tracks tr b3" "cf_ids b3 = cf_ids b2" "\<And>n. LookupBase n b3 = LookupBase n b2"
    "follows b3 Response_buffer_size q3" "\<And>g r. g \<noteq> Response_buffer_size \<Longrightarrow> follows b3 g r \<longleftrightarrow> follows b2 g r"
    using copy_tracks [OF C2(2) fresh(3) c(3)] by metis
  obtain q4 where C4: "p4 = Some q4" "tracks tr b4" "cf_ids b4 = cf_ids b3" "\<And>n. LookupBase n b4 = LookupBase n b3"
    "follows b4 Response_max_body_size q4" "\<And>g r. g \<noteq> Response_max_body_size \<Longrightarrow> follows b4 g r \<longleftrightarrow> follows b3 g r"
    using copy_tracks [OF C3(2) fresh(4) c(4)] by metis
  have names: "LookupBase ?n1 b4 = Some q1" "LookupBase ?n2 b4 = Some q2" "LookupBase ?n3 b4 = Some q3" "LookupBase ?n4 b4 = Some q4"
    using L1 L2 L3 L4 C1(1) C2(1) C3(1) C4(1) by (simp_all only: C1(4) C2(4) C3(4) C4(4))
  have vals: "follows b4 Request_buffer_size q1" "follows b4 Request_max_body_size q2" "follows b4 Response_buffer_size q3"
    using C1(5) C2(5) C3(5) by (simp_all add: C2(6) C3(6) C4(6))
  have "cf_ids b4 = cf_ids s" using L1 L2 L3 L4 C1(3) C2(3) C3(3) C4(3) by simp
  then have room4: "room (Suc (Suc (Suc (Suc k)))) b4" using room by (simp add: room_def)
  note W1 = watch_tracks [OF C4(2) fresh(1) names(1) vals(1) room4 w(1) [unfolded C1(1)]]
  have fresh2: "Request_max_body_size \<notin> fst ` set ((Request_buffer_size, q1) # tr)" using fresh by simp
  note W2 = watch_tracks [OF W1(1) fresh2 names(2) [folded W1(3)] vals(2) [folded W1(4)] W1(2) w(2) [unfolded C2(1)]]
  have fresh3: "Response_buffer_size \<notin> fst ` set ((Request_max_body_size, q2) # (Request_buffer_size, q1) # tr)" using fresh by simp
  have f3: "LookupBase ?n3 c2 = Some q3" "follows c2 Response_buffer_size q3" using names vals by (simp_all only: W1(3,4) W2(3,4))
  note W3 = watch_tracks [OF W2(1) fresh3 f3 W2(2) w(3) [unfolded C3(1)]]
  have fresh4: "Response_max_body_size \<notin> fst ` set ((Response_buffer_size, q3) # (Request_max_body_size, q2) # (Request_buffer_size, q1) # tr)"
    using fresh by simp
  have f4: "LookupBase ?n4 c3 = Some q4" "follows c3 Response_max_body_size q4"
    using names C4(5) by (simp_all only: W1(3,4) W2(3,4) W3(3,4))
  note W4 = watch_tracks [OF W3(1) fresh4 f4 W3(2) w(4) [unfolded C4(1)]]
  show ?thesis using that [OF _ W4(2)] W4(1) ps C1(1) C2(1) C3(1) C4(1) by simp
qed

subsection \<open>Types\<close>

text \<open>A \<open>ConfigVar<T>\<close> holds a \<open>T\<close>.\<close>

definition has_type :: "nat \<Rightarrow> 'x setting \<Rightarrow> bool" where
  "has_type ty v = (case v of U64 _ \<Rightarrow> ty = 1 | I32 _ \<Rightarrow> ty = 2 | Other_value _ \<Rightarrow> ty \<noteq> 1 \<and> ty \<noteq> 2)"

definition typed :: "('x setting, 'z statics_scheme) config \<Rightarrow> bool" where
  "typed s = list_all (\<lambda>c. has_type (cv_type c) (cv_val c)) (cf_vars s)"

definition typed_conversions :: "'x setting conversions \<Rightarrow> bool" where
  "typed_conversions cv \<longleftrightarrow> (\<forall>ty str v. from_str cv ty str = Inr v \<longrightarrow> has_type ty v)"

subsection \<open>What a program does with its variables\<close>

text \<open>
  Listeners of the rest of the program neither throw nor touch the static variables; values have the type of their
  variable, as the templates enforce; nobody removes the listeners of the initialisers.
\<close>

inductive settings_step ::
  "'x setting conversions \<Rightarrow> (yaml \<Rightarrow> string) \<Rightarrow> ('x setting, 'z statics_scheme) config \<Rightarrow> ('x setting, 'z statics_scheme) config \<Rightarrow> bool"
  for cv :: "'x setting conversions" and emit :: "yaml \<Rightarrow> string" where
  st_set: "var_at p s = Inr c \<Longrightarrow> has_type (cv_type c) v \<Longrightarrow> setValue cv p v s = Inr (s', thrown) \<Longrightarrow> settings_step cv emit s s'"
| st_from: "fromString cv p str s = Inr (b, s') \<Longrightarrow> settings_step cv emit s s'"
| st_load: "LoadFromYaml cv emit root s = Inr s' \<Longrightarrow> settings_step cv emit s s'"
| st_files: "load_files cv emit mtime LoadFile force fs s = Inr s' \<Longrightarrow> settings_step cv emit s s'"
| st_lookup: "has_type ty v \<Longrightarrow> Lookup ty name v d s = Inr (r, s') \<Longrightarrow> settings_step cv emit s s'"
| st_listen: "neutral cb \<Longrightarrow> cf_ids s (cv_type (cf_vars s ! p)) + 1 \<noteq> 0 \<Longrightarrow> addListener p cb s = Inr (i, s') \<Longrightarrow> settings_step cv emit s s'"
| st_forget: "list_all (\<lambda>(i, cb). i = unat key \<longrightarrow> neutral cb) (cv_cbs (cf_vars s ! p)) \<Longrightarrow> delListener p key s = Inr s' \<Longrightarrow>
    settings_step cv emit s s'"
| st_world: "static_of w = static_of (cf_world s) \<Longrightarrow> settings_step cv emit s (s\<lparr>cf_world := w\<rparr>)"

lemma delListener_sync:
  assumes sync: "in_sync tr s" and other: "list_all (\<lambda>(i, cb). i = unat key \<longrightarrow> neutral cb) (cv_cbs (cf_vars s ! p))"
    and del: "delListener p key s = Inr s'"
  shows "in_sync tr s'"
proof -
  have p: "p < length (cf_vars s)" using del by (auto simp: delListener_def var_at_def split: if_splits)
  then have s': "s' = put_var p ((cf_vars s ! p)\<lparr>cv_cbs := filter (\<lambda>(i, _). i \<noteq> unat key) (cv_cbs (cf_vars s ! p))\<rparr>) s"
    using del by (auto simp: delListener_def var_at_def)
  have cbs: "cv_cbs (cf_vars s' ! q) = (if q = p then filter (\<lambda>(i, _). i \<noteq> unat key) (cv_cbs (cf_vars s ! p)) else cv_cbs (cf_vars s ! q))" for q
    using p by (simp add: s' put_var_def nth_list_update)
  have same: "length (cf_vars s') = length (cf_vars s)" "cf_ids s' = cf_ids s" "cf_world s' = cf_world s"
    "\<And>q. cv_type (cf_vars s' ! q) = cv_type (cf_vars s ! q)" "\<And>q. cv_val (cf_vars s' ! q) = cv_val (cf_vars s ! q)"
    using p by (simp_all add: s' put_var_def nth_list_update)
  have stays: "cache_listener f \<in> snd ` set (cv_cbs (cf_vars s' ! q))" if mem: "cache_listener f \<in> snd ` set (cv_cbs (cf_vars s ! q))" for f q
  proof -
    obtain i where i: "(i, cache_listener f) \<in> set (cv_cbs (cf_vars s ! q))" using mem by force
    then have "q = p \<Longrightarrow> i \<noteq> unat key" using other cache_not_neutral [of f] unfolding list_all_iff by fast
    then have "(i, cache_listener f) \<in> set (cv_cbs (cf_vars s' ! q))" using i by (auto simp: cbs)
    then show ?thesis by force
  qed
  have sub: "set (cv_cbs (cf_vars s' ! q)) \<subseteq> set (cv_cbs (cf_vars s ! q))" for q by (auto simp: cbs)
  have ids: "ids_bound s'" using in_sync_ids [OF sync] sub unfolding ids_bound_def same by fast
  have "\<forall>q < length (cf_vars s). \<forall>(i, cb) \<in> set (cv_cbs (cf_vars s' ! q)). allowed tr q cb"
    using in_sync_allowed [OF sync] sub by fast
  moreover have "\<forall>(f, q) \<in> set tr. q < length (cf_vars s) \<and> follows s' f q \<and> cache_listener f \<in> snd ` set (cv_cbs (cf_vars s' ! q))"
    using sync stays unfolding in_sync_allowed_ids follows_def same by blast
  ultimately show ?thesis using sync ids unfolding in_sync_allowed_ids same by blast
qed

lemma settings_step_sync: "settings_step cv emit s s' \<Longrightarrow> in_sync tr s \<Longrightarrow> in_sync tr s'"
proof (induction rule: settings_step.induct)
  case (st_set p s c v s' thrown)
  then show ?case using setValue_sync by blast
next
  case (st_from p str s b s')
  then show ?case by (rule fromString_sync [rotated])
next
  case (st_load root s s')
  then show ?case by (rule LoadFromYaml_sync [rotated])
next
  case (st_files mtime LoadFile force fs s s')
  then show ?case by (rule load_files_sync [rotated])
next
  case (st_lookup ty v name d s r s')
  then show ?case using Lookup_sync by blast
next
  case (st_listen cb s p i s')
  then show ?case using addListener_sync by blast
next
  case (st_forget key s p s')
  then show ?case using delListener_sync by blast
next
  case (st_world w s)
  then show ?case by (simp add: in_sync_def follows_def)
qed

lemma settings_steps_sync: "(settings_step cv emit)\<^sup>*\<^sup>* s s' \<Longrightarrow> in_sync tr s \<Longrightarrow> in_sync tr s'"
  by (induction rule: rtranclp_induct) (simp_all add: settings_step_sync)

subsection \<open>Typing is preserved\<close>

lemma typed_nth: "typed s \<Longrightarrow> p < length (cf_vars s) \<Longrightarrow> has_type (cv_type (cf_vars s ! p)) (cv_val (cf_vars s ! p))"
  by (simp add: typed_def list_all_length)

lemma setValue_typed:
  assumes "typed s" "has_type (cv_type (cf_vars s ! p)) v" "setValue cv p v s = Inr (s', e)"
  shows "typed s'"
proof -
  have p: "p < length (cf_vars s)" using assms(3) by (auto simp: setValue_def var_at_def split: if_splits)
  then have "s' = s \<or> (\<exists>w. s' = s\<lparr>cf_world := w\<rparr>) \<or> (\<exists>w. s' = put_var p ((cf_vars s ! p)\<lparr>cv_val := v\<rparr>) (s\<lparr>cf_world := w\<rparr>))"
    using assms(3) by (auto simp: setValue_def var_at_def split: if_splits prod.splits option.splits)
  then show ?thesis using assms(1,2) p by (auto simp: typed_def list_all_length put_var_def nth_list_update)
qed

lemma fromString_typed:
  assumes cv: "typed_conversions cv" and s: "typed s" and run: "fromString cv p str s = Inr (b, s')"
  shows "typed s'"
proof -
  obtain c where c: "var_at p s = Inr c" using run by (auto simp: fromString_def rbind_eq_Inr_iff)
  then have c': "c = cf_vars s ! p" by (auto simp: var_at_def split: if_splits)
  show ?thesis
  proof (cases "from_str cv (cv_type c) str")
    case (Inl e)
    then show ?thesis using s run c by (simp add: fromString_def split: if_splits)
  next
    case (Inr v)
    then obtain s1 thrown where set: "setValue cv p v s = Inr (s1, thrown)"
      using run c by (auto simp: fromString_def rbind_eq_Inr_iff)
    have "has_type (cv_type (cf_vars s ! p)) v" using cv Inr unfolding typed_conversions_def c' by blast
    from setValue_typed [OF s this set] show ?thesis
      using run c Inr set by (simp add: fromString_def split: option.splits if_splits)
  qed
qed

lemma load_nodes_typed: "typed_conversions cv \<Longrightarrow> typed s \<Longrightarrow> load_nodes cv emit ns s = Inr s' \<Longrightarrow> typed s'"
proof (induction ns arbitrary: s)
  case (Cons n ns)
  obtain key node where n: "n = (key, node)" by fastforce
  show ?case using Cons n fromString_typed [OF Cons.prems(1)]
    by (auto simp: rbind_eq_Inr_iff split: if_splits option.splits) blast
qed simp

lemma load_files_typed:
  "typed_conversions cv \<Longrightarrow> typed s \<Longrightarrow> load_files cv emit mtime LoadFile force fs s = Inr s' \<Longrightarrow> typed s'"
proof (induction fs arbitrary: s)
  case (Cons f fs)
  obtain t where t: "mtime f = Some t" using Cons.prems by (cases "mtime f") auto
  let ?s = "s\<lparr>cf_mtimes := (f, t) # cf_mtimes s\<rparr>"
  have m: "typed ?s" using Cons.prems(2) by (simp add: typed_def)
  show ?case
  proof (cases "\<not> force \<and> mtime_of f s = t")
    case True
    then show ?thesis using Cons t by simp
  next
    case False
    show ?thesis
    proof (cases "rbind (LoadFile f) (\<lambda>root. LoadFromYaml cv emit root ?s)")
      case (Inl e)
      then show ?thesis using Cons t False m by (auto simp: Let_def split: if_splits)
    next
      case (Inr s1)
      then have "typed s1" using load_nodes_typed [OF Cons.prems(1) m] by (auto simp: rbind_eq_Inr_iff LoadFromYaml_def)
      then show ?thesis using Cons t False Inr by (simp add: Let_def)
    qed
  qed
qed simp

lemma Lookup_typed:
  assumes "typed s" "has_type ty v" "Lookup ty name v d s = Inr (r, s')"
  shows "typed s' \<and> (case r of None \<Rightarrow> True | Some p \<Rightarrow> \<exists>u. getValue p s' = Inr u \<and> has_type ty u)"
proof (cases "LookupBase name s")
  case None
  then have "s' = s\<lparr>cf_vars := cf_vars s @ [new_ConfigVar ty name v d], cf_datas := cf_datas s @ [(name, length (cf_vars s))]\<rparr>"
    "r = Some (length (cf_vars s))"
    using assms(3) by (auto simp: Lookup_def Let_def split: if_splits)
  then show ?thesis using assms(1,2) by (simp add: typed_def new_ConfigVar_def getValue_def var_at_def)
next
  case (Some p)
  then obtain c where c: "var_at p s = Inr c" "s' = s" "r = (if cv_type c = ty then Some p else None)"
    using assms(3) by (auto simp: Lookup_def rbind_eq_Inr_iff split: if_splits)
  then have "p < length (cf_vars s)" "c = cf_vars s ! p" by (auto simp: var_at_def split: if_splits)
  then show ?thesis using assms(1) c typed_nth [OF assms(1), of p] by (auto simp: getValue_def)
qed

lemma settings_step_typed: "settings_step cv emit s s' \<Longrightarrow> typed_conversions cv \<Longrightarrow> typed s \<Longrightarrow> typed s'"
proof (induction rule: settings_step.induct)
  case (st_set p s c v s' thrown)
  then show ?case using setValue_typed [of s p v cv s' thrown] by (auto simp: var_at_def split: if_splits)
next
  case (st_from p str s b s')
  then show ?case using fromString_typed by blast
next
  case (st_load root s s')
  then show ?case using load_nodes_typed unfolding LoadFromYaml_def by blast
next
  case (st_files mtime LoadFile force fs s s')
  then show ?case using load_files_typed by blast
next
  case (st_lookup ty v name d s r s')
  then show ?case using Lookup_typed by blast
next
  case (st_listen cb s p i s')
  then show ?case
    by (auto simp: addListener_def var_at_def Let_def typed_def put_var_def list_all_length nth_list_update split: if_splits)
next
  case (st_forget key s p s')
  then show ?case
    by (auto simp: delListener_def var_at_def typed_def put_var_def list_all_length nth_list_update split: if_splits)
next
  case (st_world w s)
  then show ?case by (simp add: typed_def)
qed

lemma settings_steps_typed: "(settings_step cv emit)\<^sup>*\<^sup>* s s' \<Longrightarrow> typed_conversions cv \<Longrightarrow> typed s \<Longrightarrow> typed s'"
  by (induction rule: rtranclp_induct) (simp_all add: settings_step_typed)

subsection \<open>Properties\<close>

text \<open>The static initialisers of both files, the one of \<open>http_parser.cpp\<close> first.\<close>

definition init_statics :: "('x setting, 'z statics_scheme) config \<Rightarrow> (nat option list \<times> ('x setting, 'z statics_scheme) config) result" where
  "init_statics s =
     rbind (init_http_sizes s) (\<lambda>(ps, s). rbind (init_connect_timeout s) (\<lambda>(p, s). Inr (ps @ [p], s)))"

definition all_settings :: "cached list" where
  "all_settings = http_settings @ [Connect_timeout]"

text \<open>The value of the variable a static variable was initialised from, as it would be copied now.\<close>

definition configured_value :: "('x setting, 'z statics_scheme) config \<Rightarrow> nat option \<Rightarrow> u64 result" where
  "configured_value s p = rbind (deref_var p) (\<lambda>q. rbind (getValue q s) (\<lambda>v. Inr (as_u64 v)))"

text \<open>
  C15: The copies of configuration variables never go stale. After the initialisers of \<open>http_parser.cpp\<close> and
  \<open>hook.cpp\<close> have run, whatever the program does with its variables (setting, parsing, loading documents and
  directories, new variables, other listeners), the buffer and body sizes the HTTP parsers ask for and the connect
  timeout are at every moment the values of their five variables.
\<close>

theorem cached_settings:
  assumes start: "in_sync [] s0" "config_inv s0" "room 5 s0"
    and init: "init_statics s0 = Inr (ps, s1)"
    and steps: "(settings_step cv emit)\<^sup>*\<^sup>* s1 s"
  shows "map (configured_value s) ps =
    [Inr (GetHttpRequestBufferSize (cf_world s)), Inr (GetHttpRequestMaxBodySize (cf_world s)),
     Inr (GetHttpResponseBufferSize (cf_world s)), Inr (GetHttpResponseMaxBodySize (cf_world s)),
     Inr (static_of (cf_world s) Connect_timeout)]"
proof -
  obtain ps1 a p where run: "init_http_sizes s0 = Inr (ps1, a)" "init_connect_timeout a = Inr (p, s1)" "ps = ps1 @ [p]"
    using init by (auto simp: init_statics_def rbind_eq_Inr_iff)
  have "tracks [] s0" "room (1 + 4) s0" using start by (simp_all add: tracks_def)
  then obtain q1 q2 q3 q4 where http: "ps1 = [Some q1, Some q2, Some q3, Some q4]" "room 1 a"
    "tracks [(Response_max_body_size, q4), (Response_buffer_size, q3), (Request_max_body_size, q2), (Request_buffer_size, q1)] a"
    using init_http_tracks [OF _ _ _ run(1)] by (metis append_Nil2 empty_iff image_empty list.set(1))
  then obtain q5 where connect: "p = Some q5" "tracks [(Connect_timeout, q5), (Response_max_body_size, q4),
      (Response_buffer_size, q3), (Request_max_body_size, q2), (Request_buffer_size, q1)] s1"
    using init_connect_tracks [OF http(3) _ _ run(2), of 0] by auto
  then have "in_sync [(Connect_timeout, q5), (Response_max_body_size, q4),
      (Response_buffer_size, q3), (Request_max_body_size, q2), (Request_buffer_size, q1)] s"
    using settings_steps_sync [OF steps] by (simp add: tracks_def)
  then show ?thesis
    by (simp add: run(3) http(1) connect(1) in_sync_def follows_def configured_value_def deref_var_def getValue_def var_at_def
        GetHttpRequestBufferSize_def GetHttpRequestMaxBodySize_def GetHttpResponseBufferSize_def GetHttpResponseMaxBodySize_def)
qed


definition text_conversions :: "unit setting conversions" where
  "text_conversions = \<lparr>from_str = (\<lambda>ty str. if ty = 1 then Inr (U64 (of_nat (length str)))
       else if ty = 2 then Inr (I32 (int (length str))) else Inr (Other_value ())),
     to_str = (\<lambda>ty v. Inr []), val_eq = (\<lambda>ty a b. a = b)\<rparr>"

definition no_settings :: "(unit setting, statics) config" where
  "no_settings = \<lparr>cf_datas = [], cf_vars = [], cf_ids = (\<lambda>ty. 0), cf_mtimes = [], cf_world = \<lparr>static_of = (\<lambda>f. 0)\<rparr>\<rparr>"

lemma setting_name_valid: "find_first_not_of valid_name (setting_name f) = None"
proof -
  have "\<forall>f \<in> {Request_buffer_size, Request_max_body_size, Response_buffer_size, Response_max_body_size, Connect_timeout}.
      find_first_not_of valid_name (setting_name f) = None" by code_simp
  then show ?thesis by (cases f) simp_all
qed

lemmas setting_names_valid = setting_name_valid [of Request_buffer_size, simplified] setting_name_valid [of Request_max_body_size, simplified]
  setting_name_valid [of Response_buffer_size, simplified] setting_name_valid [of Response_max_body_size, simplified]
  setting_name_valid [of Connect_timeout, simplified]

lemma no_settings_start: "in_sync [] no_settings" "config_inv no_settings" "room 5 no_settings" "typed no_settings"
  by (simp_all add: in_sync_def config_inv_def room_def no_settings_def LookupBase_def typed_def)

lemma no_settings_init:
  obtains s where "init_statics no_settings = Inr ([Some 0, Some 1, Some 2, Some 3, Some 4], s)" "length (cf_vars s) = 5"
    "cv_type (cf_vars s ! 0) = 1" "cv_val (cf_vars s ! 0) = U64 (4 * 1024)"
    "cv_cbs (cf_vars s ! 0) = [(1, cache_listener Request_buffer_size)]"
proof -
  have "\<exists>s. init_statics no_settings = Inr ([Some 0, Some 1, Some 2, Some 3, Some 4], s) \<and> length (cf_vars s) = 5
      \<and> cv_type (cf_vars s ! 0) = 1 \<and> cv_val (cf_vars s ! 0) = U64 (4 * 1024)
      \<and> cv_cbs (cf_vars s ! 0) = [(1, cache_listener Request_buffer_size)]"
    by (simp add: init_statics_def init_http_sizes_def init_connect_timeout_def no_settings_def Lookup_def LookupBase_def
        setting_names_valid copy_value_def watch_def deref_var_def getValue_def addListener_def var_at_def put_var_def Let_def
        new_ConfigVar_def)
  then show ?thesis using that by blast
qed

theorem cached_settings_witness:
  "\<exists>ps s1 s. init_statics no_settings = Inr (ps, s1) \<and> setValue text_conversions 0 (U64 8192) s1 = Inr (s, None)
     \<and> GetHttpRequestBufferSize (cf_world s) = 8192"
proof -
  obtain s1 where init: "init_statics no_settings = Inr ([Some 0, Some 1, Some 2, Some 3, Some 4], s1)" and len: "length (cf_vars s1) = 5"
    and old: "cv_type (cf_vars s1 ! 0) = 1" "cv_val (cf_vars s1 ! 0) = U64 (4 * 1024)"
    "cv_cbs (cf_vars s1 ! 0) = [(1, cache_listener Request_buffer_size)]" by (rule no_settings_init)
  define s where "s = put_var 0 ((cf_vars s1 ! 0)\<lparr>cv_val := U64 8192\<rparr>) (s1\<lparr>cf_world := store Request_buffer_size (U64 8192 :: unit setting) (cf_world s1)\<rparr>)"
  have set: "setValue text_conversions 0 (U64 8192) s1 = Inr (s, None)"
    using len old by (simp add: setValue_def var_at_def text_conversions_def s_def cache_listener_def)
  have "settings_step text_conversions Scalar s1 s"
    by (rule st_set [OF _ _ set]) (use len old in \<open>simp_all add: var_at_def has_type_def\<close>)
  then have "map (configured_value s) [Some 0, Some 1, Some 2, Some 3, Some 4] =
      [Inr (GetHttpRequestBufferSize (cf_world s)), Inr (GetHttpRequestMaxBodySize (cf_world s)),
       Inr (GetHttpResponseBufferSize (cf_world s)), Inr (GetHttpResponseMaxBodySize (cf_world s)),
       Inr (static_of (cf_world s) Connect_timeout)]"
    by (intro cached_settings [OF no_settings_start(1-3) init]) auto
  then show ?thesis
    using init set len by (auto simp: configured_value_def deref_var_def getValue_def var_at_def s_def put_var_def)
qed


end
