(* ===== verification/Threads.thy ===== *)
theory Threads
  imports Prelude
begin

text \<open>
  Threads and locks: \<open>src/thread/thread.cpp\<close>, \<open>src/thread/semaphore.cpp\<close>, \<open>include/fishjoy/thread/mutex.hpp\<close>.

  The scoped guards act on a mutex given as a record of its operations on a world; the lock that spins on an
  \<open>atomic_flag\<close> and the start of a thread, in which the constructor waits for the new thread on a
  semaphore, are step relations whose steps are the atomic accesses of the sources.
\<close>

subsection \<open>Scoped guards\<close>

record 'w mutex_ops =
  mx_lock :: "'w \<Rightarrow> 'w"
  mx_rdlock :: "'w \<Rightarrow> 'w"
  mx_wrlock :: "'w \<Rightarrow> 'w"
  mx_unlock :: "'w \<Rightarrow> 'w"

record guard =
  m_locked :: bool

definition guard_lock :: "('w \<Rightarrow> 'w) \<Rightarrow> guard \<Rightarrow> 'w \<Rightarrow> guard \<times> 'w" where
  "guard_lock acquire g w = (if \<not> m_locked g then let w = acquire w in (g\<lparr>m_locked := True\<rparr>, w) else (g, w))"

definition guard_unlock :: "('w \<Rightarrow> 'w) \<Rightarrow> guard \<Rightarrow> 'w \<Rightarrow> guard \<times> 'w" where
  "guard_unlock release g w = (if m_locked g then let w = release w in (g\<lparr>m_locked := False\<rparr>, w) else (g, w))"

definition new_ScopedLock :: "'w mutex_ops \<Rightarrow> 'w \<Rightarrow> guard \<times> 'w" where
  "new_ScopedLock mx w = (\<lparr>m_locked = True\<rparr>, mx_lock mx w)"

definition ScopedLock_lock :: "'w mutex_ops \<Rightarrow> guard \<Rightarrow> 'w \<Rightarrow> guard \<times> 'w" where
  "ScopedLock_lock mx = guard_lock (mx_lock mx)"

definition ScopedLock_unlock :: "'w mutex_ops \<Rightarrow> guard \<Rightarrow> 'w \<Rightarrow> guard \<times> 'w" where
  "ScopedLock_unlock mx = guard_unlock (mx_unlock mx)"

definition new_ReadScopedLock :: "'w mutex_ops \<Rightarrow> 'w \<Rightarrow> guard \<times> 'w" where
  "new_ReadScopedLock mx w = (\<lparr>m_locked = True\<rparr>, mx_rdlock mx w)"

definition ReadScopedLock_lock :: "'w mutex_ops \<Rightarrow> guard \<Rightarrow> 'w \<Rightarrow> guard \<times> 'w" where
  "ReadScopedLock_lock mx = guard_lock (mx_rdlock mx)"

definition ReadScopedLock_unlock :: "'w mutex_ops \<Rightarrow> guard \<Rightarrow> 'w \<Rightarrow> guard \<times> 'w" where
  "ReadScopedLock_unlock mx = guard_unlock (mx_unlock mx)"

definition new_WriteScopedLock :: "'w mutex_ops \<Rightarrow> 'w \<Rightarrow> guard \<times> 'w" where
  "new_WriteScopedLock mx w = (\<lparr>m_locked = True\<rparr>, mx_wrlock mx w)"

definition WriteScopedLock_lock :: "'w mutex_ops \<Rightarrow> guard \<Rightarrow> 'w \<Rightarrow> guard \<times> 'w" where
  "WriteScopedLock_lock mx = guard_lock (mx_wrlock mx)"

definition WriteScopedLock_unlock :: "'w mutex_ops \<Rightarrow> guard \<Rightarrow> 'w \<Rightarrow> guard \<times> 'w" where
  "WriteScopedLock_unlock mx = guard_unlock (mx_unlock mx)"

text \<open>
  The contract of a guard, whatever the mutex: after its constructor, any uses and its destructor,
  which unlocks, the mutex has been acquired and released in turn, beginning with an acquisition.
\<close>

fun in_turn :: "('w \<Rightarrow> 'w) \<Rightarrow> ('w \<Rightarrow> 'w) \<Rightarrow> nat \<Rightarrow> 'w \<Rightarrow> 'w" where
  "in_turn acquire release 0 w = w"
| "in_turn acquire release (Suc n) w = release (acquire (in_turn acquire release n w))"

locale scoped_guard =
  fixes acquire :: "'w \<Rightarrow> 'w"
    and release :: "'w \<Rightarrow> 'w"
    and make :: "'w \<Rightarrow> guard \<times> 'w"
    and lock :: "guard \<Rightarrow> 'w \<Rightarrow> guard \<times> 'w"
    and unlock :: "guard \<Rightarrow> 'w \<Rightarrow> guard \<times> 'w"
  assumes makes: "make w = (\<lparr>m_locked = True\<rparr>, acquire w)"
    and locks: "lock g w = (\<lparr>m_locked = True\<rparr>, if m_locked g then w else acquire w)"
    and unlocks: "unlock g w = (\<lparr>m_locked = False\<rparr>, if m_locked g then release w else w)"
begin

text \<open>A use is \<open>True\<close> for \<open>lock\<close> and \<open>False\<close> for \<open>unlock\<close>.\<close>

definition uses :: "bool list \<Rightarrow> guard \<times> 'w \<Rightarrow> guard \<times> 'w" where
  "uses bs gw = fold (\<lambda>b (g, w). if b then lock g w else unlock g w) bs gw"

lemma uses_in_turn:
  assumes "gw = (\<lparr>m_locked = l\<rparr>, if l then acquire (in_turn acquire release n w) else in_turn acquire release n w)" "l \<or> 0 < n"
  shows "\<exists>l' n'. (l' \<or> 0 < n') \<and> uses bs gw =
    (\<lparr>m_locked = l'\<rparr>, if l' then acquire (in_turn acquire release n' w) else in_turn acquire release n' w)"
  using assms
proof (induction bs arbitrary: gw l n)
  case Nil
  then show ?case by (auto simp: uses_def)
next
  case (Cons b bs)
  let ?gw = "case gw of (g, w) \<Rightarrow> if b then lock g w else unlock g w"
  have step: "uses (b # bs) gw = uses bs ?gw" by (simp add: uses_def)
  show ?case
  proof (cases b)
    case True
    then have "?gw = (\<lparr>m_locked = True\<rparr>, acquire (in_turn acquire release n w))" using Cons.prems by (simp add: locks)
    then show ?thesis using Cons.IH [of ?gw True n] step by simp
  next
    case False
    then have "?gw = (\<lparr>m_locked = False\<rparr>, in_turn acquire release (if l then Suc n else n) w)"
      using Cons.prems by (simp add: unlocks)
    then show ?thesis using Cons.IH [of ?gw False "if l then Suc n else n"] Cons.prems(2) step by (cases l) simp_all
  qed
qed

lemma balanced: "\<exists>n > 0. snd (case uses bs (make w) of (g, w) \<Rightarrow> unlock g w) = in_turn acquire release n w"
proof -
  have "\<exists>l n. (l \<or> 0 < n) \<and> uses bs (make w) =
      (\<lparr>m_locked = l\<rparr>, if l then acquire (in_turn acquire release n w) else in_turn acquire release n w)"
    by (rule uses_in_turn [of _ True 0]) (simp_all add: makes)
  then obtain l n where u: "uses bs (make w) =
      (\<lparr>m_locked = l\<rparr>, if l then acquire (in_turn acquire release n w) else in_turn acquire release n w)" "l \<or> 0 < n"
    by blast
  then show ?thesis by (intro exI [of _ "if l then Suc n else n"]) (auto simp: unlocks)
qed

end

interpretation scoped: scoped_guard "mx_lock mx" "mx_unlock mx" "new_ScopedLock mx" "ScopedLock_lock mx" "ScopedLock_unlock mx" for mx
  by unfold_locales (simp_all add: new_ScopedLock_def ScopedLock_lock_def ScopedLock_unlock_def guard_lock_def guard_unlock_def)

interpretation read_scoped: scoped_guard "mx_rdlock mx" "mx_unlock mx" "new_ReadScopedLock mx" "ReadScopedLock_lock mx"
  "ReadScopedLock_unlock mx" for mx
  by unfold_locales (simp_all add: new_ReadScopedLock_def ReadScopedLock_lock_def ReadScopedLock_unlock_def guard_lock_def guard_unlock_def)

interpretation write_scoped: scoped_guard "mx_wrlock mx" "mx_unlock mx" "new_WriteScopedLock mx" "WriteScopedLock_lock mx"
  "WriteScopedLock_unlock mx" for mx
  by unfold_locales (simp_all add: new_WriteScopedLock_def WriteScopedLock_lock_def WriteScopedLock_unlock_def guard_lock_def guard_unlock_def)

subsection \<open>The spinning lock\<close>

text \<open>
  \<open>CASLock\<close>: \<open>cas_flag\<close> is its \<open>atomic_flag\<close>, and each thread is outside, in the loop of \<open>lock\<close>, or between
  \<open>lock\<close> and \<open>unlock\<close>.
\<close>

datatype lock_pc = Outside | Spinning | Inside

record cas_sys =
  cas_flag :: bool
  lock_pcs :: "lock_pc list"

definition new_CASLock :: "nat \<Rightarrow> cas_sys" where
  "new_CASLock n = \<lparr>cas_flag = False, lock_pcs = replicate n Outside\<rparr>"

text \<open>\<open>atomic_flag_test_and_set_explicit\<close> gives the old value and sets the flag.\<close>

definition test_and_set :: "cas_sys \<Rightarrow> bool \<times> cas_sys" where
  "test_and_set s = (cas_flag s, s\<lparr>cas_flag := True\<rparr>)"

definition set_pc :: "nat \<Rightarrow> lock_pc \<Rightarrow> cas_sys \<Rightarrow> cas_sys" where
  "set_pc j pc s = s\<lparr>lock_pcs := (lock_pcs s)[j := pc]\<rparr>"

text \<open>One round of the loop in \<open>CASLock::lock\<close>.\<close>

definition CASLock_try :: "nat \<Rightarrow> cas_sys \<Rightarrow> cas_sys" where
  "CASLock_try j s = (let (old, s) = test_and_set s in if old then s else set_pc j Inside s)"

definition CASLock_unlock :: "nat \<Rightarrow> cas_sys \<Rightarrow> cas_sys" where
  "CASLock_unlock j s = set_pc j Outside (s\<lparr>cas_flag := False\<rparr>)"

inductive cas_step :: "cas_sys \<Rightarrow> cas_sys \<Rightarrow> bool" where
  cas_lock: "j < length (lock_pcs s) \<Longrightarrow> lock_pcs s ! j = Outside \<Longrightarrow> cas_step s (set_pc j Spinning s)"
| cas_try: "j < length (lock_pcs s) \<Longrightarrow> lock_pcs s ! j = Spinning \<Longrightarrow> cas_step s (CASLock_try j s)"
| cas_unlock: "j < length (lock_pcs s) \<Longrightarrow> lock_pcs s ! j = Inside \<Longrightarrow> cas_step s (CASLock_unlock j s)"

definition cas_inv :: "cas_sys \<Rightarrow> bool" where
  "cas_inv s \<longleftrightarrow> count_list (lock_pcs s) Inside = (if cas_flag s then 1 else 0)"

lemma count_list_update:
  "j < length xs \<Longrightarrow> count_list (xs[j := y]) x + (if xs ! j = x then 1 else 0) = count_list xs x + (if y = x then 1 else 0)"
proof (induction xs arbitrary: j)
  case (Cons z zs)
  then show ?case by (cases j) force+
qed simp

lemma cas_step_inv: "cas_step s s' \<Longrightarrow> cas_inv s \<Longrightarrow> cas_inv s'"
proof (induction rule: cas_step.induct)
  case (cas_lock j s)
  then show ?case using count_list_update [of j "lock_pcs s" Spinning Inside] by (simp add: cas_inv_def set_pc_def)
next
  case (cas_try j s)
  then show ?case using count_list_update [of j "lock_pcs s" Inside Inside]
    by (auto simp: cas_inv_def CASLock_try_def test_and_set_def set_pc_def split: if_splits)
next
  case (cas_unlock j s)
  then show ?case using count_list_update [of j "lock_pcs s" Outside Inside]
    by (auto simp: cas_inv_def CASLock_unlock_def set_pc_def split: if_splits)
qed

lemma new_CASLock_inv: "cas_inv (new_CASLock n)"
  by (induction n) (simp_all add: cas_inv_def new_CASLock_def)

lemma cas_reachable_inv: "cas_step\<^sup>*\<^sup>* (new_CASLock n) s \<Longrightarrow> cas_inv s"
  by (induction rule: rtranclp_induct) (simp_all add: new_CASLock_inv cas_step_inv)

subsection \<open>Semaphores and the start of a thread\<close>

text \<open>\<open>rc\<close> is what \<open>sem_init\<close>, \<open>sem_wait\<close> or \<open>sem_post\<close> return.\<close>

definition sem_check :: "string \<Rightarrow> int \<Rightarrow> 'a \<Rightarrow> 'a result" where
  "sem_check what rc x = (if rc \<noteq> 0 then Inl (Logic_error what) else Inr x)"

definition new_Semaphore :: "int \<Rightarrow> nat \<Rightarrow> nat result" where
  "new_Semaphore rc count = sem_check ''sem_init error'' rc count"

text \<open>\<open>None\<close> while \<open>sem_wait\<close> blocks.\<close>

definition Semaphore_wait :: "int \<Rightarrow> nat \<Rightarrow> nat result option" where
  "Semaphore_wait rc sem =
     (if rc \<noteq> 0 then Some (sem_check ''sem_wait error'' rc sem) else if sem = 0 then None else Some (sem_check ''sem_wait error'' rc (sem - 1)))"

definition Semaphore_notify :: "int \<Rightarrow> nat \<Rightarrow> nat result" where
  "Semaphore_notify rc sem = sem_check ''sem_post error'' rc (sem + 1)"

text \<open>
  A \<open>Thread\<close> with the states of its creator and of the new thread, which is in \<open>run\<close> before the named access. \<open>th_obj\<close> is
  \<open>None\<close> once the object is destroyed; \<open>t_thread\<close> says whether the new thread has set its pointer to it.
  An empty \<open>std::function\<close> is \<open>None\<close>.
\<close>

record 'a thread_obj =
  m_id :: int
  m_thread :: nat
  m_task :: "'a option"
  m_name :: string
  m_semaphore :: nat

datatype creator_pc = Creating | Awaiting_start | Constructed | Threw | Interrupted | Joined

datatype 'a runner_pc = Absent | At_locals | At_id | At_osname | At_swap | At_notify "'a option" | At_task "'a option" | In_task | Finished

record 'a thread_sys =
  th_obj :: "'a thread_obj option"
  creator :: creator_pc
  runner :: "'a runner_pc"
  t_thread :: bool
  t_thread_name :: string
  os_name :: string
  started_tasks :: "'a list"

definition thread_label :: "string \<Rightarrow> string" where
  "thread_label name = (if name = [] then ''UNKNOWN'' else name)"

definition new_Thread :: "'a option \<Rightarrow> string \<Rightarrow> 'a thread_sys" where
  "new_Thread task name =
     \<lparr> th_obj = Some \<lparr> m_id = -1, m_thread = 0, m_task = task, m_name = thread_label name, m_semaphore = 0 \<rparr>,
       creator = Creating, runner = Absent, t_thread = False, t_thread_name = ''UNKNOWN'', os_name = [], started_tasks = [] \<rparr>"

text \<open>
  A signal can interrupt \<open>sem_wait\<close>: \<open>Semaphore::wait\<close> then throws out of the constructor, which destroys the members of the object
  (state \<open>Interrupted\<close>) while the new thread goes on. \<open>Threw\<close> is the constructor after \<open>pthread_create\<close> failed.
\<close>

definition wait_threw :: "'a thread_sys \<Rightarrow> 'a thread_sys" where
  "wait_threw s = s\<lparr>th_obj := None, creator := Interrupted\<rparr>"

text \<open>After \<open>pthread_create\<close> returned \<open>ret\<close> and wrote \<open>handle\<close>.\<close>

definition thread_created :: "int \<Rightarrow> nat \<Rightarrow> 'a thread_sys \<Rightarrow> 'a thread_sys" where
  "thread_created ret handle s =
     (if ret \<noteq> 0 then s\<lparr>th_obj := None, creator := Threw\<rparr>
      else s\<lparr>th_obj := map_option (\<lambda>t. t\<lparr>m_thread := handle\<rparr>) (th_obj s), creator := Awaiting_start, runner := At_locals\<rparr>)"

definition on_object :: "'a thread_sys \<Rightarrow> ('a thread_obj \<Rightarrow> 'b result) \<Rightarrow> 'b result" where
  "on_object s f = (case th_obj s of None \<Rightarrow> Inl Bad_access | Some t \<Rightarrow> f t)"

text \<open>The next access of \<open>Thread::run\<close>; \<open>tid\<close> is the kernel's id of the thread.\<close>

definition run_step :: "int \<Rightarrow> 'a thread_sys \<Rightarrow> 'a thread_sys result" where
  "run_step tid s =
     (case runner s of
        At_locals \<Rightarrow> on_object s (\<lambda>t. Inr (s\<lparr>t_thread := True, t_thread_name := m_name t, runner := At_id\<rparr>))
      | At_id \<Rightarrow> on_object s (\<lambda>t. Inr (s\<lparr>th_obj := Some (t\<lparr>m_id := tid\<rparr>), runner := At_osname\<rparr>))
      | At_osname \<Rightarrow> on_object s (\<lambda>t. Inr (s\<lparr>os_name := take 15 (m_name t), runner := At_swap\<rparr>))
      | At_swap \<Rightarrow> on_object s (\<lambda>t. Inr (s\<lparr>th_obj := Some (t\<lparr>m_task := None\<rparr>), runner := At_notify (m_task t)\<rparr>))
      | At_notify task \<Rightarrow> on_object s (\<lambda>t. rbind (Semaphore_notify 0 (m_semaphore t)) (\<lambda>sem.
          Inr (s\<lparr>th_obj := Some (t\<lparr>m_semaphore := sem\<rparr>), runner := At_task task\<rparr>)))
      | At_task (Some task) \<Rightarrow> Inr (s\<lparr>started_tasks := started_tasks s @ [task], runner := In_task\<rparr>)
      | At_task None \<Rightarrow> Inl (Logic_error ''bad_function_call'')
      | In_task \<Rightarrow> Inr (s\<lparr>runner := Finished\<rparr>)
      | _ \<Rightarrow> Inr s)"

text \<open>
  \<open>Thread::SetName\<close> as called in the task, and \<open>join\<close> and the destructor on the creator's side; the destructor
  detaches a thread that was not joined, which goes on running.
\<close>

definition SetName :: "string \<Rightarrow> 'a thread_sys \<Rightarrow> 'a thread_sys result" where
  "SetName name s =
     (if t_thread s then on_object s (\<lambda>t. Inr (s\<lparr>th_obj := Some (t\<lparr>m_name := name\<rparr>), t_thread_name := name\<rparr>))
      else Inr (s\<lparr>t_thread_name := name\<rparr>))"

definition join_thread :: "int \<Rightarrow> 'a thread_sys \<Rightarrow> 'a thread_sys result" where
  "join_thread ret s = on_object s (\<lambda>t.
     if m_thread t \<noteq> 0
     then if ret \<noteq> 0 then Inl (Logic_error ''pthread_join error'')
          else Inr (s\<lparr>th_obj := Some (t\<lparr>m_thread := 0\<rparr>), creator := Joined\<rparr>)
     else Inr s)"

definition destroy_thread :: "'a thread_sys \<Rightarrow> 'a thread_sys" where
  "destroy_thread s = s\<lparr>th_obj := None\<rparr>"

inductive thread_step :: "int \<Rightarrow> 'a thread_sys \<Rightarrow> 'a thread_sys \<Rightarrow> bool" for tid :: int where
  th_create: "creator s = Creating \<Longrightarrow> handle \<noteq> 0 \<Longrightarrow> thread_step tid s (thread_created ret handle s)"
| th_wait: "creator s = Awaiting_start \<Longrightarrow> th_obj s = Some t \<Longrightarrow> Semaphore_wait 0 (m_semaphore t) = Some (Inr sem) \<Longrightarrow>
    thread_step tid s (s\<lparr>th_obj := Some (t\<lparr>m_semaphore := sem\<rparr>), creator := Constructed\<rparr>)"
| th_interrupted: "creator s = Awaiting_start \<Longrightarrow> th_obj s = Some t \<Longrightarrow> Semaphore_wait (- 1) (m_semaphore t) = Some (Inl e) \<Longrightarrow>
    thread_step tid s (wait_threw s)"
| th_run: "runner s \<notin> {Absent, Finished} \<Longrightarrow> run_step tid s = Inr s' \<Longrightarrow> thread_step tid s s'"
| th_name: "runner s = In_task \<Longrightarrow> SetName name s = Inr s' \<Longrightarrow> thread_step tid s s'"
| th_join: "creator s = Constructed \<Longrightarrow> runner s = Finished \<Longrightarrow> join_thread 0 s = Inr s' \<Longrightarrow> thread_step tid s s'"
| th_destroy: "creator s \<in> {Constructed, Joined} \<Longrightarrow> thread_step tid s (destroy_thread s)"

text \<open>How far the new thread has come.\<close>

fun stage :: "'a runner_pc \<Rightarrow> nat" where
  "stage Absent = 0" | "stage At_locals = 1" | "stage At_id = 2" | "stage At_osname = 3" | "stage At_swap = 4"
| "stage (At_notify task) = 5" | "stage (At_task task) = 6" | "stage In_task = 7" | "stage Finished = 8"

definition thread_inv :: "int \<Rightarrow> 'a option \<Rightarrow> string \<Rightarrow> 'a thread_sys \<Rightarrow> bool" where
  "thread_inv tid task name s \<longleftrightarrow>
     (let r = stage (runner s); label = thread_label name in
      (creator s \<in> {Creating, Threw} \<longleftrightarrow> r = 0) \<and> (creator s \<in> {Constructed, Joined} \<longrightarrow> 6 \<le> r) \<and> (creator s = Joined \<longrightarrow> r = 8)
      \<and> (th_obj s = None \<longrightarrow> creator s \<in> {Threw, Interrupted, Constructed, Joined})
      \<and> (creator s = Interrupted \<longrightarrow> th_obj s = None)
      \<and> (case th_obj s of None \<Rightarrow> True | Some t \<Rightarrow>
           m_semaphore t = (if creator s = Awaiting_start \<and> 6 \<le> r then 1 else 0)
           \<and> m_task t = (if 5 \<le> r then None else task) \<and> (3 \<le> r \<longrightarrow> m_id t = tid) \<and> (creator s \<in> {Awaiting_start, Constructed} \<longleftrightarrow> m_thread t \<noteq> 0)
           \<and> (r < 7 \<longrightarrow> m_name t = label) \<and> (2 \<le> r \<longrightarrow> t_thread_name s = m_name t))
      \<and> (2 \<le> r \<longrightarrow> t_thread s) \<and> (4 \<le> r \<longrightarrow> os_name s = take 15 label)
      \<and> (case runner s of At_notify job \<Rightarrow> job = task | At_task job \<Rightarrow> job = task | _ \<Rightarrow> True)
      \<and> started_tasks s = (if 7 \<le> r then (case task of None \<Rightarrow> [] | Some job \<Rightarrow> [job]) else []) \<and> (7 \<le> r \<longrightarrow> task \<noteq> None))"

lemma new_Thread_inv: "thread_inv tid task name (new_Thread task name)"
  by (simp add: thread_inv_def new_Thread_def)

lemma stage_le: "stage pc \<le> 8"
  by (cases pc) simp_all

lemma thread_inv_obj: "thread_inv tid task name s \<Longrightarrow> stage (runner s) \<in> {1..5} \<Longrightarrow> creator s \<noteq> Interrupted \<Longrightarrow> \<exists>t. th_obj s = Some t"
  by (cases "th_obj s") (auto simp: thread_inv_def Let_def)

text \<open>The successor state is made explicit before the invariant is opened, and each state of the creator is its own goal.\<close>

lemmas thread_inv_simps = thread_inv_def Let_def
lemmas run_step_simps = run_step_def on_object_def Semaphore_notify_def sem_check_def

lemma run_step_inv:
  assumes inv: "thread_inv tid task name s" and pc: "runner s \<notin> {Absent, Finished}" and run: "run_step tid s = Inr s'"
  shows "thread_inv tid task name s'"
proof -
  have obj: "\<exists>t. th_obj s = Some t" if "stage (runner s) \<in> {1..5}"
    using that run by (cases "runner s"; cases "th_obj s") (simp_all add: run_step_def on_object_def)
  show ?thesis
  proof (cases "runner s")
    case At_locals
    then obtain t where t: "th_obj s = Some t" using obj by auto
    then have s': "s' = s\<lparr>t_thread := True, t_thread_name := m_name t, runner := At_id\<rparr>" using run At_locals by (simp add: run_step_simps)
    show ?thesis unfolding s' using inv At_locals t by (cases "creator s") (simp_all add: thread_inv_simps)
  next
    case At_id
    then obtain t where t: "th_obj s = Some t" using obj by auto
    then have s': "s' = s\<lparr>th_obj := Some (t\<lparr>m_id := tid\<rparr>), runner := At_osname\<rparr>" using run At_id by (simp add: run_step_simps)
    show ?thesis unfolding s' using inv At_id t by (cases "creator s") (simp_all add: thread_inv_simps)
  next
    case At_osname
    then obtain t where t: "th_obj s = Some t" using obj by auto
    then have s': "s' = s\<lparr>os_name := take 15 (m_name t), runner := At_swap\<rparr>" using run At_osname by (simp add: run_step_simps)
    show ?thesis unfolding s' using inv At_osname t by (cases "creator s") (simp_all add: thread_inv_simps)
  next
    case At_swap
    then obtain t where t: "th_obj s = Some t" using obj by auto
    then have s': "s' = s\<lparr>th_obj := Some (t\<lparr>m_task := None\<rparr>), runner := At_notify (m_task t)\<rparr>" using run At_swap by (simp add: run_step_simps)
    show ?thesis unfolding s' using inv At_swap t by (cases "creator s") (simp_all add: thread_inv_simps)
  next
    case (At_notify job)
    then obtain t where t: "th_obj s = Some t" using obj by auto
    then have s': "s' = s\<lparr>th_obj := Some (t\<lparr>m_semaphore := m_semaphore t + 1\<rparr>), runner := At_task job\<rparr>" using run At_notify by (simp add: run_step_simps)
    show ?thesis unfolding s' using inv At_notify t by (cases "creator s") (simp_all add: thread_inv_simps)
  next
    case (At_task job)
    then obtain j where j: "job = Some j" and s': "s' = s\<lparr>started_tasks := started_tasks s @ [j], runner := In_task\<rparr>"
      using run by (cases job) (simp_all add: run_step_simps)
    have "task = Some j" using inv At_task j by (simp add: thread_inv_simps)
    then show ?thesis unfolding s' using inv At_task by (cases "creator s"; cases "th_obj s") (simp_all add: thread_inv_simps)
  next
    case In_task
    then have s': "s' = s\<lparr>runner := Finished\<rparr>" using run by (simp add: run_step_simps)
    show ?thesis unfolding s' using inv In_task by (cases "creator s"; cases "th_obj s") (simp_all add: thread_inv_simps)
  qed (use pc in simp_all)
qed

lemma thread_step_inv: "thread_step tid s s' \<Longrightarrow> thread_inv tid task name s \<Longrightarrow> thread_inv tid task name s'"
proof (induction rule: thread_step.induct)
  case (th_create s handle ret)
  then have "runner s = Absent" by (cases "runner s") (simp_all add: thread_inv_simps)
  with th_create show ?case by (cases "th_obj s") (simp_all add: thread_inv_simps thread_created_def)
next
  case (th_wait s t sem)
  then have m: "m_semaphore t \<noteq> 0" "sem = m_semaphore t - 1" by (simp_all add: Semaphore_wait_def sem_check_def split: if_splits)
  then have "6 \<le> stage (runner s)" using th_wait by (simp add: thread_inv_simps split: if_splits)
  with th_wait m show ?case by (simp add: thread_inv_simps)
next
  case (th_interrupted s t e)
  then have "runner s \<noteq> Absent" by (auto simp: thread_inv_simps)
  with th_interrupted show ?case unfolding wait_threw_def by (cases "runner s") (simp_all add: thread_inv_simps)
next
  case (th_run s s')
  then show ?case using run_step_inv by blast
next
  case (th_name s label s')
  then obtain t where t: "th_obj s = Some t" and s': "s' = s\<lparr>th_obj := Some (t\<lparr>m_name := label\<rparr>), t_thread_name := label\<rparr>"
    by (cases "th_obj s") (simp_all add: SetName_def on_object_def thread_inv_simps)
  show ?case unfolding s' using th_name t by (cases "creator s") (simp_all add: thread_inv_simps)
next
  case (th_join s s')
  then obtain t where t: "th_obj s = Some t" "m_thread t \<noteq> 0"
    by (cases "th_obj s") (simp_all add: join_thread_def on_object_def thread_inv_simps)
  then have s': "s' = s\<lparr>th_obj := Some (t\<lparr>m_thread := 0\<rparr>), creator := Joined\<rparr>"
    using th_join by (simp add: join_thread_def on_object_def)
  show ?case unfolding s' using th_join t by (simp add: thread_inv_simps)
next
  case (th_destroy s)
  then show ?case by (cases "creator s"; cases "th_obj s") (simp_all add: thread_inv_simps destroy_thread_def)
qed

lemma thread_reachable_inv: "(thread_step tid)\<^sup>*\<^sup>* (new_Thread task name) s \<Longrightarrow> thread_inv tid task name s"
  by (induction rule: rtranclp_induct) (blast intro: new_Thread_inv thread_step_inv)+

subsection \<open>Properties\<close>

text \<open>
  C18: The spinning lock excludes and does not block by itself. However many threads use a \<open>CASLock\<close> in whatever interleaving,
  at most one of them is between \<open>lock\<close> and \<open>unlock\<close>, the flag is set exactly while one is, and when none is, the
  next round of any spinning thread lets it in; a round while the lock is held changes nothing.
\<close>

theorem cas_mutual_exclusion:
  assumes "cas_step\<^sup>*\<^sup>* (new_CASLock n) s"
  shows "count_list (lock_pcs s) Inside \<le> 1 \<and> cas_flag s = (Inside \<in> set (lock_pcs s))
    \<and> (if cas_flag s then CASLock_try j s = s else CASLock_try j s = (set_pc j Inside s)\<lparr>cas_flag := True\<rparr>)"
proof -
  have inv: "count_list (lock_pcs s) Inside = (if cas_flag s then 1 else 0)"
    using cas_reachable_inv [OF assms] by (simp add: cas_inv_def)
  moreover have "Inside \<in> set (lock_pcs s) \<longleftrightarrow> count_list (lock_pcs s) Inside \<noteq> 0" by (simp add: count_list_0_iff)
  ultimately show ?thesis by (simp add: CASLock_try_def test_and_set_def set_pc_def)
qed

theorem cas_mutual_exclusion_witness:
  "count_list (lock_pcs (CASLock_try 0 (set_pc 0 Spinning (new_CASLock 2)))) Inside \<le> 1
   \<and> cas_flag (CASLock_try 0 (set_pc 0 Spinning (new_CASLock 2)))"
proof -
  have "cas_step (new_CASLock 2) (set_pc 0 Spinning (new_CASLock 2))"
    by (rule cas_lock) (simp_all add: new_CASLock_def numeral_2_eq_2)
  moreover have "cas_step (set_pc 0 Spinning (new_CASLock 2)) (CASLock_try 0 (set_pc 0 Spinning (new_CASLock 2)))"
    by (rule cas_try) (simp_all add: new_CASLock_def set_pc_def numeral_2_eq_2)
  ultimately have "cas_step\<^sup>*\<^sup>* (new_CASLock 2) (CASLock_try 0 (set_pc 0 Spinning (new_CASLock 2)))" by simp
  from cas_mutual_exclusion [OF this] show ?thesis
    by (simp add: CASLock_try_def test_and_set_def set_pc_def new_CASLock_def numeral_2_eq_2)
qed



end
