(* ===== verification/SystemUtil.thy ===== *)
theory SystemUtil
  imports StringUtil
begin

text \<open>
  The parts of \<open>src/utils/util.cpp\<close> around the C library: clocks, thread names, stack traces, times,
  conversions from C strings and between narrow and wide strings.

  A \<open>const char *\<close> is \<open>None\<close> or the characters before its terminator. What the library computes
  (\<open>backtrace_symbols\<close>, \<open>__cxa_demangle\<close>, \<open>strftime\<close>, \<open>strptime\<close>, \<open>mktime\<close>, \<open>atof\<close>, \<open>wcstombs\<close>, \<open>mbstowcs\<close>) is a parameter.
\<close>

subsection \<open>Clocks\<close>

definition signed64 :: "int \<Rightarrow> int result" where
  "signed64 x = (if - (2 ^ 63) \<le> x \<and> x < 2 ^ 63 then Inr x else Inl (Undefined ''signed overflow''))"

text \<open>The clocks give whole seconds with nanoseconds or microseconds.\<close>

definition GetElapsedMS :: "int \<Rightarrow> int \<Rightarrow> u64 result" where
  "GetElapsedMS sec nsec = rbind (signed64 (sec * 1000)) (\<lambda>ms. rbind (signed64 (ms + cdiv nsec 1000000)) (\<lambda>t. Inr (of_int t)))"

definition GetCurrentMS :: "int \<Rightarrow> int \<Rightarrow> u64" where
  "GetCurrentMS sec usec = of_int sec * 1000 + of_int (cdiv usec 1000)"

definition GetCurrentUS :: "int \<Rightarrow> int \<Rightarrow> u64 result" where
  "GetCurrentUS sec usec = rbind (signed64 (sec * 1000)) (\<lambda>ms. Inr (of_int ms * 1000 + of_int usec))"

subsection \<open>Names of threads\<close>

text \<open>The kernel keeps the name, at most 15 characters of it.\<close>

definition c_text :: "string \<Rightarrow> string" where
  "c_text s = takeWhile (\<lambda>c. c \<noteq> CHR 0x00) s"

definition GetThreadName :: "string \<Rightarrow> string" where
  "GetThreadName kernel_name = c_text (take 16 (kernel_name @ replicate 16 (CHR 0x00)))"

definition SetThreadName :: "string \<Rightarrow> string \<Rightarrow> string" where
  "SetThreadName name kernel_name = c_text (take 15 name)"

subsection \<open>Stack traces\<close>

text \<open>Conversions of \<open>sscanf\<close>: a set of characters with an optional width, and \<open>%255s\<close>.\<close>

definition scan_set :: "(char \<Rightarrow> bool) \<Rightarrow> nat option \<Rightarrow> string \<Rightarrow> (string \<times> string) option" where
  "scan_set p width s =
     (let run = takeWhile p s; tok = (case width of None \<Rightarrow> run | Some n \<Rightarrow> take n run) in
      if tok = [] then None else Some (tok, drop (length tok) s))"

definition scan_symbol :: "string \<Rightarrow> string option" where
  "scan_symbol s =
     Option.bind (scan_set (\<lambda>c. c \<noteq> CHR ''('') None s) (\<lambda>(_, s).
     Option.bind (scan_set (\<lambda>c. c \<noteq> CHR ''_'') None s) (\<lambda>(_, s).
     map_option fst (scan_set (\<lambda>c. c \<noteq> CHR '')'' \<and> c \<noteq> CHR ''+'') (Some 255) s)))"

definition scan_word :: "string \<Rightarrow> string option" where
  "scan_word s = map_option fst (scan_set (\<lambda>c. \<not> isspace c) (Some 255) (dropWhile isspace s))"

text \<open>A token is stored with its terminator in the string \<open>rt\<close>, which keeps its 256 characters.\<close>

definition store_token :: "string \<Rightarrow> string \<Rightarrow> string" where
  "store_token tok rt = overwrite 0 (tok @ [CHR 0x00]) rt"

definition demangle_word :: "string \<Rightarrow> string \<Rightarrow> string" where
  "demangle_word str rt = (case scan_word str of None \<Rightarrow> str | Some tok \<Rightarrow> store_token tok rt)"

definition demangle :: "(string \<Rightarrow> string option) \<Rightarrow> string \<Rightarrow> string" where
  "demangle cxa_demangle str =
     (let rt = replicate 256 (CHR 0x00) in
      case scan_symbol str of
        None \<Rightarrow> demangle_word str rt
      | Some tok \<Rightarrow> let rt = store_token tok rt in
          (case cxa_demangle (c_text rt) of Some v \<Rightarrow> v | None \<Rightarrow> demangle_word str rt))"

text \<open>\<open>symbols\<close> is \<open>backtrace_symbols\<close> of the addresses \<open>backtrace\<close> found, at most \<open>depth\<close>; a negative \<open>skip\<close> becomes a huge index.\<close>

definition Backtrace :: "(string \<Rightarrow> string option) \<Rightarrow> (int \<Rightarrow> string list option) \<Rightarrow> string list \<Rightarrow> int \<Rightarrow> int \<Rightarrow> string list" where
  "Backtrace cxa_demangle symbols bt depth skip =
     (case symbols depth of None \<Rightarrow> bt
      | Some strings \<Rightarrow> bt @ map (demangle cxa_demangle) (drop (unat (of_int skip :: u64)) strings))"

definition BacktraceToString :: "(string \<Rightarrow> string option) \<Rightarrow> (int \<Rightarrow> string list option) \<Rightarrow> int \<Rightarrow> int \<Rightarrow> string \<Rightarrow> string" where
  "BacktraceToString cxa_demangle symbols depth skip prefix =
     concat (map (\<lambda>b. prefix @ b @ [CHR 0x0A]) (Backtrace cxa_demangle symbols [] depth skip))"

subsection \<open>Times\<close>

text \<open>\<open>strftime n format t\<close> is nothing when the text does not fit the buffer, whose contents are then unspecified.\<close>

definition Time2Str :: "(nat \<Rightarrow> string \<Rightarrow> 'tm \<Rightarrow> string option) \<Rightarrow> (int \<Rightarrow> 'tm) \<Rightarrow> int \<Rightarrow> string \<Rightarrow> string result" where
  "Time2Str strftime localtime ts format =
     (case strftime 64 format (localtime ts) of None \<Rightarrow> Inl (Undefined ''strftime'') | Some text \<Rightarrow> Inr text)"

definition Str2Time :: "(string \<Rightarrow> string \<Rightarrow> 'tm \<Rightarrow> 'tm option) \<Rightarrow> ('tm \<Rightarrow> int) \<Rightarrow> 'tm \<Rightarrow> string \<Rightarrow> string \<Rightarrow> int" where
  "Str2Time strptime mktime zero str format =
     (case strptime str format zero of None \<Rightarrow> 0 | Some t \<Rightarrow> mktime t)"

subsection \<open>C strings\<close>

definition Atof :: "(string \<Rightarrow> 'd :: zero) \<Rightarrow> string \<Rightarrow> 'd" where
  "Atof atof str = (if str = [] then 0 else atof (c_text str))"

definition ToChar_ptr :: "string option \<Rightarrow> char" where
  "ToChar_ptr str = (case str of None \<Rightarrow> CHR 0x00 | Some s \<Rightarrow> hd (s @ [CHR 0x00]))"

definition Atoi_ptr :: "string option \<Rightarrow> u64" where
  "Atoi_ptr str = (case str of None \<Rightarrow> 0 | Some s \<Rightarrow> strtoull s)"

definition Atof_ptr :: "(string \<Rightarrow> 'd :: zero) \<Rightarrow> string option \<Rightarrow> 'd" where
  "Atof_ptr atof str = (case str of None \<Rightarrow> 0 | Some s \<Rightarrow> atof s)"

subsection \<open>Wide strings\<close>

text \<open>
  \<open>setlocale(LC_ALL, name)\<close> with the locales the system has (\<open>known\<close>) and the one the environment names (\<open>env\<close>), which the
  empty name stands for. It returns the name of the locale it has set.
\<close>

definition setlocale :: "(string \<Rightarrow> bool) \<Rightarrow> string \<Rightarrow> string \<Rightarrow> string \<Rightarrow> string option \<times> string" where
  "setlocale known env name cur =
     (let l = (if name = [] then env else name) in if known l then (Some l, l) else (None, cur))"

text \<open>
  A conversion of the C library is nothing for text it cannot convert; its return value is then \<open>(size_t)-1\<close>, so that the
  buffer gets no characters at all and copying from it reads beyond it.
\<close>

definition dest_size :: "'c list option \<Rightarrow> u64" where
  "dest_size converted = (case converted of None \<Rightarrow> - 1 | Some dest \<Rightarrow> of_nat (length dest)) + 1"

definition convert :: "(string \<Rightarrow> bool) \<Rightarrow> string \<Rightarrow> (string \<Rightarrow> 'c list option) \<Rightarrow> string \<Rightarrow> ('c list \<times> string) result" where
  "convert known env conversion cur =
     (case setlocale known env [] cur of
        (None, _) \<Rightarrow> Inl (Logic_error ''basic_string: construction from null is not valid'')
      | (Some str_locale, cur) \<Rightarrow>
          (case conversion cur of
             Some dest \<Rightarrow> if dest_size (Some dest) = 0 then Inl Bad_access else Inr (dest, snd (setlocale known env str_locale cur))
           | None \<Rightarrow> if dest_size (None :: 'c list option) = 0 then Inl Bad_access else Inr ([], snd (setlocale known env str_locale cur))))"

definition wide_text :: "nat list \<Rightarrow> nat list" where
  "wide_text ws = takeWhile (\<lambda>c. c \<noteq> 0) ws"

definition WStringToString ::
  "(string \<Rightarrow> bool) \<Rightarrow> string \<Rightarrow> (string \<Rightarrow> nat list \<Rightarrow> string option) \<Rightarrow> nat list \<Rightarrow> string \<Rightarrow> (string \<times> string) result" where
  "WStringToString known env wcstombs ws cur = convert known env (\<lambda>l. wcstombs l (wide_text ws)) cur"

definition StringToWString ::
  "(string \<Rightarrow> bool) \<Rightarrow> string \<Rightarrow> (string \<Rightarrow> string \<Rightarrow> nat list option) \<Rightarrow> string \<Rightarrow> string \<Rightarrow> (nat list \<times> string) result" where
  "StringToWString known env mbstowcs s cur = convert known env (\<lambda>l. mbstowcs l (c_text s)) cur"

subsection \<open>Lemmas\<close>

lemma signed64_id: "- (2 ^ 63) \<le> x \<Longrightarrow> x < 2 ^ 63 \<Longrightarrow> signed64 x = Inr x"
  by (simp add: signed64_def)

lemma uint_of_int_u64: "0 \<le> k \<Longrightarrow> k < 2 ^ 64 \<Longrightarrow> uint (of_int k :: u64) = k"
  by (simp add: uint_word_of_int_eq take_bit_int_eq_self)

text \<open>Far beyond any date the clocks are exact, and the microseconds agree with the milliseconds.\<close>

lemma current_ms_exact:
  assumes "0 \<le> sec" "sec < 2 ^ 40" "0 \<le> usec" "usec < 1000000"
  shows "uint (GetCurrentMS sec usec) = sec * 1000 + usec div 1000"
proof -
  have d: "cdiv usec 1000 = usec div 1000" using assms(3) by (simp add: cdiv_nonneg)
  have e: "GetCurrentMS sec usec = of_int (sec * 1000 + usec div 1000)" by (simp add: GetCurrentMS_def d)
  have "0 \<le> usec div 1000" "usec div 1000 \<le> 1000" using assms by linarith+
  moreover have "sec * 1000 < 2 ^ 51" using assms by simp
  ultimately have "0 \<le> sec * 1000 + usec div 1000" "sec * 1000 + usec div 1000 < 2 ^ 64" using assms by simp_all
  then show ?thesis unfolding e by (rule uint_of_int_u64)
qed

lemma current_us_exact:
  assumes "0 \<le> sec" "sec < 2 ^ 40" "0 \<le> usec" "usec < 1000000"
  shows "\<exists>t. GetCurrentUS sec usec = Inr t \<and> uint t = sec * 1000000 + usec \<and> uint t div 1000 = uint (GetCurrentMS sec usec)"
proof -
  have "signed64 (sec * 1000) = Inr (sec * 1000)" using assms by (intro signed64_id) simp_all
  then have e: "GetCurrentUS sec usec = Inr (of_int (sec * 1000000 + usec))" by (simp add: GetCurrentUS_def rbind_def)
  have r: "0 \<le> sec * 1000000 + usec" "sec * 1000000 + usec < 2 ^ 64" using assms by simp_all
  then have u: "uint (of_int (sec * 1000000 + usec) :: u64) = sec * 1000000 + usec" by (rule uint_of_int_u64)
  moreover have "(sec * 1000000 + usec) div 1000 = sec * 1000 + usec div 1000" by linarith
  ultimately show ?thesis using e current_ms_exact [OF assms] by simp
qed

lemma c_text_terminated: "\<forall>c \<in> set k. c \<noteq> CHR 0x00 \<Longrightarrow> c_text (k @ CHR 0x00 # rest) = k"
  by (simp add: c_text_def)

lemma thread_name_read_back: "GetThreadName (SetThreadName name old) = c_text (take 15 name)"
proof -
  let ?k = "c_text (take 15 name)"
  have "length ?k \<le> length (take 15 name)" unfolding c_text_def by (rule length_takeWhile_le)
  then have len: "length ?k \<le> 15" by simp
  have no: "\<forall>c \<in> set ?k. c \<noteq> CHR 0x00" by (auto simp: c_text_def dest: set_takeWhileD)
  have "take 16 (?k @ replicate 16 (CHR 0x00)) = ?k @ replicate (Suc (15 - length ?k)) (CHR 0x00)"
  proof -
    have "16 - length ?k = Suc (15 - length ?k)" using len by linarith
    then show ?thesis using len by (simp del: replicate_Suc)
  qed
  then show ?thesis using c_text_terminated [OF no] by (simp add: GetThreadName_def SetThreadName_def)
qed

text \<open>A symbol that cannot be demangled comes back padded to 256 characters.\<close>

lemma scan_word_length: "scan_word str = Some tok \<Longrightarrow> length tok \<le> 255"
  by (auto simp: scan_word_def scan_set_def Let_def split: if_splits)

lemma scan_symbol_length: "scan_symbol str = Some tok \<Longrightarrow> length tok \<le> 255"
  by (auto simp: scan_symbol_def scan_set_def Let_def bind_eq_Some_conv split: if_splits)

lemma demangle_padded:
  assumes "scan_word str = Some tok" "\<forall>s. cxa_demangle s = None"
  shows "length (demangle cxa_demangle str) = 256"
proof (cases "scan_symbol str")
  case None
  then show ?thesis using assms scan_word_length [OF assms(1)]
    by (simp add: demangle_def demangle_word_def store_token_def Let_def)
next
  case (Some sym)
  then show ?thesis using assms scan_word_length [OF assms(1)] scan_symbol_length [OF Some]
    by (simp add: demangle_def demangle_word_def store_token_def Let_def)
qed

text \<open>
  The conversions to and from wide strings: an error exactly when the environment names no locale of the system or the
  text has no conversion; the locale of the process is the environment's afterwards, whatever it was before.
\<close>

lemma dest_size_ok: "length dest < 2 ^ 64 - 1 \<Longrightarrow> dest_size (Some dest) \<noteq> 0"
proof -
  assume "length dest < 2 ^ 64 - 1"
  then have "(of_nat (Suc (length dest)) :: u64) \<noteq> 0" by (simp only: word_of_nat_eq_0_iff) (auto dest!: dvd_imp_le)
  then show ?thesis by (simp add: dest_size_def add.commute)
qed

lemma convert_cases:
  assumes "\<And>dest. conversion env = Some dest \<Longrightarrow> length dest < 2 ^ 64 - 1"
  shows "convert known env conversion cur =
     (if \<not> known env then Inl (Logic_error ''basic_string: construction from null is not valid'')
      else case conversion env of None \<Rightarrow> Inl Bad_access | Some dest \<Rightarrow> Inr (dest, env))"
  using dest_size_ok [OF assms]
  by (auto simp: convert_def setlocale_def dest_size_def [of None] split: option.splits)

lemma wide_string_back:
  assumes "known env" "wcstombs env (wide_text ws) = Some text" "mbstowcs env text = Some (wide_text ws)"
    and "CHR 0x00 \<notin> set text" "length text < 2 ^ 64 - 1" "length ws < 2 ^ 64 - 1"
  shows "WStringToString known env wcstombs ws cur = Inr (text, env)"
    and "StringToWString known env mbstowcs text cur' = Inr (wide_text ws, env)"
proof -
  have "length (wide_text ws) < 2 ^ 64 - 1"
    using assms(6) length_takeWhile_le [of _ ws] unfolding wide_text_def by (rule le_less_trans [rotated])
  moreover have "c_text text = text" using assms(4) by (simp add: c_text_def takeWhile_eq_all_conv) blast
  ultimately show "WStringToString known env wcstombs ws cur = Inr (text, env)"
    "StringToWString known env mbstowcs text cur' = Inr (wide_text ws, env)"
    using assms by (simp_all add: WStringToString_def StringToWString_def convert_def setlocale_def dest_size_ok)
qed

end
