(* ===== verification/HttpAccess.thy ===== *)
theory HttpAccess
  imports Http
begin

text \<open>
  The typed accessors of \<open>include/fishjoy/http/http.hpp\<close>: headers, parameters and cookies converted by
  \<open>boost::lexical_cast\<close>, which is a parameter that gives nothing when it throws, and the appending of a body.
\<close>

definition rq_appendBody :: "string \<Rightarrow> http_request \<Rightarrow> http_request" where
  "rq_appendBody v r = r\<lparr>rq_body := rq_body r @ v\<rparr>"

definition rs_appendBody :: "string \<Rightarrow> http_response \<Rightarrow> http_response" where
  "rs_appendBody v r = r\<lparr>rs_body := rs_body r @ v\<rparr>"

definition rq_checkGetHeaderAs :: "(string \<Rightarrow> 't option) \<Rightarrow> string \<Rightarrow> 't \<Rightarrow> http_request \<Rightarrow> bool \<times> 't" where
  "rq_checkGetHeaderAs cast key def r = checkGetAs cast (rq_headers r) key def"

definition rq_getHeaderAs :: "(string \<Rightarrow> 't option) \<Rightarrow> string \<Rightarrow> 't \<Rightarrow> http_request \<Rightarrow> 't" where
  "rq_getHeaderAs cast key def r = getAs cast (rq_headers r) key def"

definition rq_checkGetParamAs :: "(string \<Rightarrow> 't option) \<Rightarrow> string \<Rightarrow> 't \<Rightarrow> http_request \<Rightarrow> (bool \<times> 't) \<times> http_request" where
  "rq_checkGetParamAs cast key def r = (let r = initBodyParam (initQueryParam r) in (checkGetAs cast (rq_params r) key def, r))"

definition rq_getParamAs :: "(string \<Rightarrow> 't option) \<Rightarrow> string \<Rightarrow> 't \<Rightarrow> http_request \<Rightarrow> 't \<times> http_request" where
  "rq_getParamAs cast key def r = (let r = initBodyParam (initQueryParam r) in (getAs cast (rq_params r) key def, r))"

definition rq_checkGetCookieAs :: "(string \<Rightarrow> 't option) \<Rightarrow> string \<Rightarrow> 't \<Rightarrow> http_request \<Rightarrow> (bool \<times> 't) \<times> http_request" where
  "rq_checkGetCookieAs cast key def r = (let r = initCookies r in (checkGetAs cast (rq_cookies r) key def, r))"

definition rq_getCookieAs :: "(string \<Rightarrow> 't option) \<Rightarrow> string \<Rightarrow> 't \<Rightarrow> http_request \<Rightarrow> 't \<times> http_request" where
  "rq_getCookieAs cast key def r = (let r = initCookies r in (getAs cast (rq_cookies r) key def, r))"

definition rs_checkGetHeaderAs :: "(string \<Rightarrow> 't option) \<Rightarrow> string \<Rightarrow> 't \<Rightarrow> http_response \<Rightarrow> bool \<times> 't" where
  "rs_checkGetHeaderAs cast key def r = checkGetAs cast (rs_headers r) key def"

definition rs_getHeaderAs :: "(string \<Rightarrow> 't option) \<Rightarrow> string \<Rightarrow> 't \<Rightarrow> http_response \<Rightarrow> 't" where
  "rs_getHeaderAs cast key def r = getAs cast (rs_headers r) key def"

subsection \<open>Lemmas\<close>

text \<open>The two forms agree, and their value is the conversion of what the plain accessor finds.\<close>

lemma checkGetAs_getAs: "snd (checkGetAs cast m key def) = getAs cast m key def"
  by (simp add: checkGetAs_def getAs_def split: option.split)

lemma checkGetAs_iff:
  "checkGetAs cast m key def = (True, t) \<longleftrightarrow> (\<exists>v. map_find CaseInsensitiveLess key m = Some v \<and> cast v = Some t)"
  by (auto simp: checkGetAs_def split: option.splits)

lemma getAs_text: "getAs Some m key def = map_get key def m"
  by (simp add: getAs_def map_get_def split: option.split)

text \<open>The text is parsed by the first access only, whichever accessor makes it.\<close>

lemma flag_bits:
  "((f :: u8) OR 1) AND 1 = 1" "(f OR 2) AND 2 = 2" "(f OR 2) AND 1 = f AND 1"
  by (rule bit_eqI, auto simp: bit_simps)+

lemma initBodyParam_flag: "rq_parserParamFlag (initBodyParam r) AND 1 = rq_parserParamFlag r AND 1" "rq_parserParamFlag (initBodyParam r) AND 2 \<noteq> 0"
  by (simp_all add: initBodyParam_def flag_bits)

lemma initQueryParam_flag: "rq_parserParamFlag (initQueryParam r) AND 1 \<noteq> 0"
  by (simp add: initQueryParam_def flag_bits)

lemma params_parsed_once:
  "initBodyParam (initQueryParam (initBodyParam (initQueryParam r))) = initBodyParam (initQueryParam r)"
proof -
  let ?r = "initBodyParam (initQueryParam r)"
  have "initQueryParam ?r = ?r" using initQueryParam_flag [of r] initBodyParam_flag(1) [of "initQueryParam r"]
    by (simp add: initQueryParam_def [of ?r])
  then show ?thesis using initBodyParam_flag(2) [of "initQueryParam r"] by (simp add: initBodyParam_def [of ?r])
qed

lemma param_access_agree:
  "snd (fst (rq_checkGetParamAs cast key def r)) = fst (rq_getParamAs cast key def r)"
  "rq_getParamAs cast key def (snd (rq_checkGetParamAs cast key def r)) = rq_getParamAs cast key def r"
  "rq_getParamAs Some key text r = rq_getParam key text r"
  by (simp_all add: rq_checkGetParamAs_def rq_getParamAs_def rq_getParam_def Let_def checkGetAs_getAs getAs_text params_parsed_once)

end
