(* ===== verification/SocketBuffers.thy ===== *)
theory SocketBuffers
  imports Streams
begin

text \<open>
  The overloads of \<open>Socket::send\<close>, \<open>sendTo\<close>, \<open>recv\<close> and \<open>recvFrom\<close> on vectors of buffers, and the
  \<open>SocketStream\<close> operations on a \<open>ByteArray\<close> with the calls they make.

  The vectors point into the nodes of a byte array, which are passed along as the memory. \<open>sendmsg\<close> and \<open>recvmsg\<close>
  are parameters; \<open>vec_law\<close> is what POSIX says of them: up to \<open>IOV_MAX\<close> vectors they move what the calls on one buffer would, gathered
  from and scattered to the vectors in order, and for more they fail with \<open>EMSGSIZE\<close>.
\<close>

record msghdr =
  msg_name :: "address option"
  msg_iov :: "iovec list"

record 'n vec_calls =
  vc_sendmsg :: "int \<Rightarrow> msghdr \<Rightarrow> nat \<Rightarrow> byte list list \<Rightarrow> 'n \<Rightarrow> int \<times> 'n"
  vc_recvmsg :: "int \<Rightarrow> msghdr \<Rightarrow> nat \<Rightarrow> byte list list \<Rightarrow> 'n \<Rightarrow> int \<times> byte list list \<times> address option \<times> 'n"

definition send_vec :: "'n vec_calls \<Rightarrow> iovec list \<Rightarrow> nat \<Rightarrow> byte list list \<Rightarrow> sock \<Rightarrow> 'n \<Rightarrow> int \<times> 'n" where
  "send_vec vc buffers flags mem s n =
     (if m_isConnected s
      then let (rt, n) = vc_sendmsg vc (m_sock s) \<lparr>msg_name = None, msg_iov = buffers\<rparr> flags mem n in (int32 rt, n)
      else (- 1, n))"

definition sendTo_vec :: "'n vec_calls \<Rightarrow> iovec list \<Rightarrow> address \<Rightarrow> nat \<Rightarrow> byte list list \<Rightarrow> sock \<Rightarrow> 'n \<Rightarrow> int \<times> 'n" where
  "sendTo_vec vc buffers dest flags mem s n =
     (if m_isConnected s
      then let (rt, n) = vc_sendmsg vc (m_sock s) \<lparr>msg_name = Some dest, msg_iov = buffers\<rparr> flags mem n in (int32 rt, n)
      else (- 1, n))"

definition recv_vec :: "'n vec_calls \<Rightarrow> iovec list \<Rightarrow> nat \<Rightarrow> byte list list \<Rightarrow> sock \<Rightarrow> 'n \<Rightarrow> int \<times> byte list list \<times> 'n" where
  "recv_vec vc buffers flags mem s n =
     (if m_isConnected s
      then let (rt, mem, _, n) = vc_recvmsg vc (m_sock s) \<lparr>msg_name = None, msg_iov = buffers\<rparr> flags mem n in (int32 rt, mem, n)
      else (- 1, mem, n))"

definition recvFrom_vec ::
  "'n vec_calls \<Rightarrow> iovec list \<Rightarrow> address \<Rightarrow> nat \<Rightarrow> byte list list \<Rightarrow> sock \<Rightarrow> 'n \<Rightarrow> int \<times> byte list list \<times> address \<times> 'n" where
  "recvFrom_vec vc buffers src flags mem s n =
     (if m_isConnected s
      then let (rt, mem, from, n) = vc_recvmsg vc (m_sock s) \<lparr>msg_name = Some src, msg_iov = buffers\<rparr> flags mem n in
        (int32 rt, mem, (case from of None \<Rightarrow> src | Some a \<Rightarrow> a), n)
      else (- 1, mem, src, n))"

text \<open>\<open>SocketStream::read\<close> and \<open>write\<close> on a byte array.\<close>

definition SocketStream_read_ba ::
  "'n vec_calls \<Rightarrow> socket_stream \<Rightarrow> nat \<Rightarrow> bytearray \<times> 'n \<Rightarrow> (int \<times> bytearray \<times> 'n) result" where
  "SocketStream_read_ba vc ss len st =
     (let (ba, n) = st in
      case m_socket ss of None \<Rightarrow> Inr (- 1, ba, n)
      | Some s \<Rightarrow>
          if \<not> m_isConnected s then Inr (- 1, ba, n)
          else rbind (getWriteBuffers [] len ba) (\<lambda>(_, iovs, ba).
            let (rt, mem, n) = recv_vec vc iovs 0 (m_root ba) s n; ba = ba\<lparr>m_root := mem\<rparr>
            in if rt > 0 then rbind (setPosition (m_position ba + nat rt) ba) (\<lambda>ba. Inr (rt, ba, n)) else Inr (rt, ba, n)))"

definition SocketStream_write_ba ::
  "'n vec_calls \<Rightarrow> socket_stream \<Rightarrow> nat \<Rightarrow> bytearray \<times> 'n \<Rightarrow> (int \<times> bytearray \<times> 'n) result" where
  "SocketStream_write_ba vc ss len st =
     (let (ba, n) = st in
      case m_socket ss of None \<Rightarrow> Inr (- 1, ba, n)
      | Some s \<Rightarrow>
          if \<not> m_isConnected s then Inr (- 1, ba, n)
          else rbind (getReadBuffers [] len ba) (\<lambda>(_, iovs).
            let (rt, n) = send_vec vc iovs 0 (m_root ba) s n
            in if rt > 0 then rbind (setPosition (m_position ba + nat rt) ba) (\<lambda>ba. Inr (rt, ba, n)) else Inr (rt, ba, n)))"

subsection \<open>The law of the vectored calls\<close>

definition iov_total :: "iovec list \<Rightarrow> nat" where
  "iov_total iovs = sum_list (map (\<lambda>(_, _, k). k) iovs)"

text \<open>
  \<open>iov_max\<close> is the limit of the system, 1024 on Linux; \<open>refused\<close> sets \<open>errno\<close>. Nothing is said of calls without any vector.
\<close>

definition iov_fits :: "nat \<Rightarrow> iovec list \<Rightarrow> bool" where
  "iov_fits iov_max iovs \<longleftrightarrow> 0 < length iovs \<and> length iovs \<le> iov_max"

definition vec_law :: "'n os \<Rightarrow> 'n vec_calls \<Rightarrow> nat \<Rightarrow> ('n \<Rightarrow> 'n) \<Rightarrow> bool" where
  "vec_law os vc iov_max refused \<longleftrightarrow>
     (\<forall>fd h fl mem n. iov_fits iov_max (msg_iov h) \<longrightarrow>
        vc_sendmsg vc fd h fl mem n = os_send os fd (gather mem (msg_iov h)) (msg_name h) fl n)
     \<and> (\<forall>fd iovs fl mem n. iov_fits iov_max iovs \<longrightarrow> vc_recvmsg vc fd \<lparr>msg_name = None, msg_iov = iovs\<rparr> fl mem n
          = (let (r, bs, n') = os_recv os fd (iov_total iovs) fl n in (r, scatter mem iovs bs, None, n')))
     \<and> (\<forall>fd a iovs fl mem n. iov_fits iov_max iovs \<longrightarrow> vc_recvmsg vc fd \<lparr>msg_name = Some a, msg_iov = iovs\<rparr> fl mem n
          = (let (r, bs, a', n') = os_recvfrom os fd (iov_total iovs) a fl n in (r, scatter mem iovs bs, Some a', n')))
     \<and> (\<forall>fd h fl mem n. iov_max < length (msg_iov h) \<longrightarrow>
          vc_sendmsg vc fd h fl mem n = (- 1, refused n) \<and> vc_recvmsg vc fd h fl mem n = (- 1, mem, None, refused n))"

text \<open>The calls made of those on one buffer obey it.\<close>

definition vectored :: "'n os \<Rightarrow> nat \<Rightarrow> ('n \<Rightarrow> 'n) \<Rightarrow> 'n vec_calls" where
  "vectored os iov_max refused =
     \<lparr> vc_sendmsg = (\<lambda>fd h fl mem n.
         if iov_max < length (msg_iov h) then (- 1, refused n) else os_send os fd (gather mem (msg_iov h)) (msg_name h) fl n),
       vc_recvmsg = (\<lambda>fd h fl mem n.
         if iov_max < length (msg_iov h) then (- 1, mem, None, refused n)
         else case msg_name h of
           None \<Rightarrow> (let (r, bs, n') = os_recv os fd (iov_total (msg_iov h)) fl n in (r, scatter mem (msg_iov h) bs, None, n'))
         | Some a \<Rightarrow> (let (r, bs, a', n') = os_recvfrom os fd (iov_total (msg_iov h)) a fl n in
             (r, scatter mem (msg_iov h) bs, Some a', n'))) \<rparr>"

lemma vectored_law: "vec_law os (vectored os iov_max refused) iov_max refused"
  by (simp add: vec_law_def vectored_def iov_fits_def)

lemma vec_lawD:
  assumes "vec_law os vc iov_max refused"
  shows "iov_fits iov_max (msg_iov h) \<Longrightarrow> vc_sendmsg vc fd h fl mem n = os_send os fd (gather mem (msg_iov h)) (msg_name h) fl n"
    and "iov_fits iov_max iovs \<Longrightarrow> vc_recvmsg vc fd \<lparr>msg_name = None, msg_iov = iovs\<rparr> fl mem n
          = (let (r, bs, n') = os_recv os fd (iov_total iovs) fl n in (r, scatter mem iovs bs, None, n'))"
    and "iov_fits iov_max iovs \<Longrightarrow> vc_recvmsg vc fd \<lparr>msg_name = Some a, msg_iov = iovs\<rparr> fl mem n
          = (let (r, bs, a', n') = os_recvfrom os fd (iov_total iovs) a fl n in (r, scatter mem iovs bs, Some a', n'))"
    and "iov_max < length (msg_iov h) \<Longrightarrow> vc_sendmsg vc fd h fl mem n = (- 1, refused n)"
    and "iov_max < length (msg_iov h) \<Longrightarrow> vc_recvmsg vc fd h fl mem n = (- 1, mem, None, refused n)"
  using assms by (simp_all add: vec_law_def)

lemma send_vec_gather:
  "vec_law os vc iov_max refused \<Longrightarrow> iov_fits iov_max iovs \<Longrightarrow> send_vec vc iovs fl mem s n = send os (gather mem iovs) fl s n"
  by (simp add: vec_lawD(1) send_vec_def send_def)

lemma sendTo_vec_gather:
  "vec_law os vc iov_max refused \<Longrightarrow> iov_fits iov_max iovs \<Longrightarrow> sendTo_vec vc iovs dest fl mem s n = sendTo os (gather mem iovs) dest fl s n"
  by (simp add: vec_lawD(1) sendTo_vec_def sendTo_def)

lemma recv_vec_scatter:
  "vec_law os vc iov_max refused \<Longrightarrow> iov_fits iov_max iovs \<Longrightarrow> recv_vec vc iovs fl mem s n =
     (let (r, bs, n) = recv os (iov_total iovs) fl s n in (r, if m_isConnected s then scatter mem iovs bs else mem, n))"
  by (simp add: vec_lawD(2) recv_vec_def recv_def split: prod.split)

lemma recvFrom_vec_scatter:
  "vec_law os vc iov_max refused \<Longrightarrow> iov_fits iov_max iovs \<Longrightarrow> recvFrom_vec vc iovs a fl mem s n =
     (let (r, bs, a', n) = recvFrom os (iov_total iovs) a fl s n in (r, if m_isConnected s then scatter mem iovs bs else mem, a', n))"
  by (simp add: vec_lawD(3) recvFrom_vec_def recvFrom_def split: prod.split)

lemma vec_refused:
  assumes "vec_law os vc iov_max refused" "iov_max < length iovs" "m_isConnected s"
  shows "send_vec vc iovs fl mem s n = (- 1, refused n)" "sendTo_vec vc iovs dest fl mem s n = (- 1, refused n)"
    "recv_vec vc iovs fl mem s n = (- 1, mem, refused n)"
proof -
  have m: "int32 (- 1) = - 1" by (simp add: int32_def)
  show "send_vec vc iovs fl mem s n = (- 1, refused n)" "sendTo_vec vc iovs dest fl mem s n = (- 1, refused n)"
    using assms m by (simp_all add: send_vec_def sendTo_vec_def vec_lawD(4) [OF assms(1)])
  show "recv_vec vc iovs fl mem s n = (- 1, mem, refused n)"
    using assms m by (simp add: recv_vec_def vec_lawD(5) [OF assms(1)])
qed

text \<open>Within the limit the stream operations on a byte array are those on its flat contents.\<close>

lemma read_ba_vectored:
  assumes "vec_law os vc iov_max refused" "getWriteBuffers [] len (fst st) = Inr (k, iovs, ba)" "iov_fits iov_max iovs"
  shows "SocketStream_read_ba vc ss len st = stream_read_ba os ss off len st"
  using assms
  by (cases st; cases "m_socket ss")
    (auto simp: SocketStream_read_ba_def stream_read_ba_def recv_vec_scatter iov_total_def rbind_def split: prod.split sum.split)

lemma write_ba_vectored:
  assumes "vec_law os vc iov_max refused" "getReadBuffers [] len (fst st) = Inr (k, iovs)" "iov_fits iov_max iovs"
  shows "SocketStream_write_ba vc ss len st = stream_write_ba os ss off len st"
  using assms
  by (cases st; cases "m_socket ss")
    (auto simp: SocketStream_write_ba_def stream_write_ba_def send_vec_gather rbind_def split: prod.split sum.split)


definition demo_net :: "(byte list \<times> byte list) os" where
  "demo_net = byte_net\<lparr>os_recv := (\<lambda>fd l fl (i, out). (int (length (take l i)), take l i, drop l i, out))\<rparr>"


end
