(* ===== verification/Spec2Isabelle.thy ===== *)
theory Spec2Isabelle
  imports ByteArrayCodec ByteArrayBuffers TimerQueue StringUtil Address FdManager Scheduler IOManager Streams TcpServer HttpExchange
    Hook LogConfig LogFile Lexical Env ThreadPool FSUtil Settings Threads SystemUtil HttpAccess SocketBuffers
begin

text \<open>
  Verification of \<^emph>\<open>fishjoy\<close>, a C++ network library with fibers, timers, an epoll loop, hooked system
  calls, sockets, byte buffers, HTTP, a logger, configuration variables and a pool of plain threads.

  \<^bold>\<open>How the parts fit together.\<close> A \<open>Scheduler\<close> runs \<open>Fiber\<close>s and callbacks on its worker threads. An
  \<open>IOManager\<close> is a scheduler whose idle fiber waits in \<open>epoll_wait\<close> and that is also a \<open>TimerManager\<close>: ready
  descriptors and due timers become tasks. The hooked system calls use the \<open>FdManager\<close>'s descriptor
  contexts, the timers and the IOManager to block a fiber instead of a thread. \<open>Socket\<close> wraps the calls,
  \<open>SocketStream\<close> moves exact amounts of bytes from and to buffers and \<open>ByteArray\<close>s. \<open>TcpServer\<close> listens
  and accepts; \<open>HttpServer\<close> reads requests with the callbacks of the \<open>HttpRequestParser\<close>, lets a \<open>Servlet\<close>
  answer, and writes the response; \<open>HttpConnection\<close> and its pool are the client side. All of them log through
  \<open>Logger\<close>s, whose appenders format events with parsed patterns; \<open>Config\<close> loads YAML documents into variables, and a
  listener on the variable \<open>logs\<close> sets the loggers up. \<open>Env\<close> holds the command line, \<open>FSUtil\<close> finds the files.

  \<^bold>\<open>Which theory models what.\<close>
  \<^item> \<open>Prelude\<close>: machine integers, faults as values (\<open>fault + 'a\<close>), sequencing (\<open>rbind\<close>), list and word facts.
  \<^item> \<open>StdContainers\<close>: \<open>std::set\<close> and \<open>std::map\<close> with a comparator as sorted lists, the locale \<open>strict_weak\<close>
    of what a comparator promises and what the operations then do; interpreted for timers, addresses
    (\<open>operator<\<close>) and header names.
  \<^item> \<open>Endian\<close> (\<open>net/endian.hpp\<close>), \<open>ByteStreamSpec\<close> (the abstract byte stream), \<open>ByteArray\<close>,
    \<open>ByteArrayCodec\<close>, \<open>ByteArrayBuffers\<close> (\<open>net/bytearray.cpp\<close>): the linked blocks are a list of byte lists, the node
    pointer an index or null; \<open>ByteArray\<close> has reading, writing and seeking and their refinement of
    overwriting a flat list, \<open>ByteArrayCodec\<close> the typed operations and their round trips,
    \<open>ByteArrayBuffers\<close> the \<open>iovec\<close>s and files.
  \<^item> \<open>TimerQueue\<close> (\<open>fiber/timer.cpp\<close>): timers in a heap, the ordered set of their addresses.
  \<^item> \<open>StringUtil\<close>, \<open>SystemUtil\<close> (\<open>utils/util.cpp\<close>): URL coding, trimming, number parsing and printing; clocks, names of threads,
    stack traces, wide strings.
  \<^item> \<open>Address\<close> (\<open>net/address.cpp\<close>): the address classes, prefixes and masks, look-up of hosts.
  \<^item> \<open>FdManager\<close>, \<open>Hook\<close> (\<open>net/fd_manager.cpp\<close>, \<open>fiber/hook.cpp\<close>): descriptor contexts, the hooked
    \<open>fcntl\<close>, \<open>ioctl\<close> and \<open>setsockopt\<close>; the hooked calls that put a fiber to sleep, over a record of the timers, events and
    the yield of a thread.
  \<^item> \<open>Fiber\<close>, \<open>Scheduler\<close>, \<open>IOManager\<close> (\<open>fiber/fiber.cpp\<close>, \<open>scheduler.cpp\<close>, \<open>iomanager.cpp\<close>): the state
    of a worker thread, of the task queue and of the event contexts; each critical section of the sources is
    one step, and interleavings are sequences of steps (\<open>fiber_step\<close>, \<open>sched_reachable\<close>, \<open>io_reachable\<close>).
  \<^item> \<open>Socket\<close>, \<open>Streams\<close>, \<open>TcpServer\<close> (\<open>net/socket.cpp\<close>, \<open>streams/\<close>, \<open>net/tcp_server.cpp\<close>): the
    operating system is a record of functions on its state; \<open>sock_law\<close> and \<open>data_law\<close> say which descriptors and
    bytes the calls move. The locale \<open>stream_op\<close> is the contract of a stream operation, interpreted for
    reading and writing on buffers and byte arrays. \<open>SocketBuffers\<close> has the calls on vectors of buffers and shows that the
    streams on byte arrays, written with these calls, are those of \<open>Streams\<close>.
  \<^item> \<open>Http\<close>, \<open>HttpAccess\<close> (\<open>http/http.cpp\<close>, \<open>http.hpp\<close>), \<open>HttpParser\<close> (\<open>http/http_parser.cpp\<close>), \<open>Uri\<close> (\<open>net/uri.cpp\<close>), \<open>Servlet\<close>
    (\<open>http/servlet.cpp\<close>), \<open>HttpServer\<close> (\<open>http_session.cpp\<close>, \<open>http_server.cpp\<close>), \<open>HttpConnection\<close>
    (\<open>http_connection.cpp\<close>): messages, the callbacks of the parser library (locale \<open>message_callbacks\<close>,
    interpreted for requests and responses), dispatch, the serving loop, clients and their pool.
    \<open>HttpExchange\<close> puts them together: a request and a response sent at one end arrive at the other.
  \<^item> \<open>LogFormat\<close>, \<open>Logger\<close>, \<open>LogConfig\<close> (\<open>log/log.cpp\<close>), \<open>LogFile\<close> (\<open>log/log_buffer.cpp\<close>, \<open>log_file.cpp\<close>):
    patterns and their parser; loggers and appenders as objects of a heap, with the states a program can reach; their
    configuration as YAML text; buffers and rolling files.
  \<^item> \<open>Config\<close> (\<open>config/config.cpp\<close>), \<open>Yaml\<close>, \<open>Lexical\<close> (\<open>utils/lexical.hpp\<close>), \<open>Env\<close> (\<open>config/env.cpp\<close>): variables
    with their listeners and the loading of documents; the YAML library as a record with its documented laws; the casts
    of containers, whose contract is the locale \<open>cast_pair\<close>, interpreted for strings and vectors of strings; the command line.
    \<open>Settings\<close> (the static variables of \<open>http/http_parser.cpp\<close> and \<open>fiber/hook.cpp\<close>): copies of variables that listeners keep up to date.
  \<^item> \<open>Threads\<close> (\<open>thread/thread.cpp\<close>, \<open>semaphore.cpp\<close>, \<open>mutex.hpp\<close>): the scoped guards (locale \<open>scoped_guard\<close>, interpreted for the
    three of them), the spinning lock and the start of a thread as steps of their atomic accesses. \<open>ThreadPool\<close> (\<open>thread/threadpool.hpp\<close>): the critical sections of the pool as steps. \<open>FSUtil\<close> (\<open>utils/file.cpp\<close>): files
    and directories over a record of system calls.

  \<^bold>\<open>What the properties show.\<close> Round trips (bytes, integers, strings, files, URLs, queries, options,
  messages, patterns, configurations), invariants of all reachable states (timers, fibers, event contexts, descriptors, the
  pools, the loggers), safety (no task is lost or run twice, no foreign descriptor is touched, binding is all or
  nothing), refinements (the blocks of a \<open>ByteArray\<close> of a flat list, dispatch of the last registrations), equivalence
  (the pattern parser and a grammar, vectored and flat transfers), type soundness of the table of variables, mutual exclusion of
  the spinning lock, the start of threads, delivery of log events, termination (transfers, the serving loop, hooked calls,
  the end of a thread pool), and the cases in which the code fails, where it does.

  \<^bold>\<open>Loops.\<close> Loops over data are total functions. Loops that wait for a peer are
  \<open>partial_function (option)\<close> with \<open>None\<close> for not returning, and theorems give the condition under which they
  return. Loops of workers that run until they are stopped are step relations. No fuel is used.

  \<^bold>\<open>What is not modelled.\<close> The system calls, the name service, the clock, \<open>strftime\<close>, \<open>fnmatch\<close>,
  \<open>lexical_cast\<close>, the YAML library, and the functions of the \<open>http_parser\<close> library, of which the repository has only the
  declarations, are parameters with their documented behaviour as hypotheses. Context switching itself
  (\<open>swapcontext\<close>) and the \<open>pthread\<close> locks are represented by the atomicity of the steps. Output to the log
  inside the modelled functions is left out. The classes around one \<open>pthread\<close> lock, singletons and macros have no logic of their own. \<open>LogFile\<close>'s constructor and \<open>getLogFileName\<close> are not defined in the sources.
\<close>

end
